(* ===== verification/Prelude.thy ===== *)
theory Prelude
  imports Complex_Main "HOL-Library.Word" "HOL-Library.AList" "HOL-Library.List_Lexorder"
    "HOL-Library.Product_Lexorder" "HOL-Library.Multiset" "HOL-Library.Sublist"
begin

text \<open>
  Shared vocabulary of the development.

  The plugin and the server are TypeScript.  A JavaScript string is a sequence of UTF-16 code
  units, so \<open>jsstr\<close> is a list of 16-bit words: \<open>length\<close> is \<^verbatim>\<open>s.length\<close>, the
  lexicographic order of the list library is the order \<^verbatim>\<open>Array.prototype.sort\<close> uses by
  default, and \<open>js\<close> turns an ASCII literal into such a string.  A JavaScript \<^verbatim>\<open>Map\<close> keeps
  insertion order: it is an association list with distinct keys, written with \<open>AList.update\<close>
  (which overwrites in place or appends, as \<^verbatim>\<open>Map.set\<close> does) and \<open>AList.delete\<close>.
  Absent (\<open>undefined\<close>) and \<open>null\<close> values are \<open>None\<close>.

  The collections \<open>kaos_defs\<close> and \<open>kaos_simps\<close> gather the definitions of the decision
  procedures and the rewrite rules the component proofs share.
\<close>

named_theorems kaos_defs
named_theorems kaos_simps

type_synonym jschar = "16 word"
type_synonym jsstr = "16 word list"
type_synonym hash = jsstr
type_synonym path = jsstr
type_synonym byte = "8 word"

definition js :: "string \<Rightarrow> jsstr" where
  "js s = map (\<lambda>c. of_nat (of_char c)) s"

section \<open>Simulation of a sequence of operations\<close>

text \<open>
  The contract between a component and its abstract specification: from related states an
  operation that meets its precondition succeeds and ends in related states.  The client's fact
  is the same for every sequence of operations.
\<close>

fun run_seq :: "('op \<Rightarrow> 'c \<Rightarrow> 'e + 'c) \<Rightarrow> 'op list \<Rightarrow> 'c \<Rightarrow> 'e + 'c" where
  "run_seq run [] c = Inr c"
| "run_seq run (x # xs) c = (case run x c of Inl e \<Rightarrow> Inl e | Inr c' \<Rightarrow> run_seq run xs c')"

locale op_simulation =
  fixes run :: "'op \<Rightarrow> 'c \<Rightarrow> 'e + 'c"
    and spec :: "'op \<Rightarrow> 'a \<Rightarrow> 'a"
    and rel :: "'c \<Rightarrow> 'a \<Rightarrow> bool"
    and pre :: "'op \<Rightarrow> bool"
  assumes step: "rel c a \<Longrightarrow> pre x \<Longrightarrow> \<exists>c'. run x c = Inr c' \<and> rel c' (spec x a)"
begin

lemma steps: "rel c a \<Longrightarrow> list_all pre xs \<Longrightarrow> \<exists>c'. run_seq run xs c = Inr c' \<and> rel c' (fold spec xs a)"
proof (induction xs arbitrary: c a)
  case (Cons x xs)
  then obtain c' where "run x c = Inr c'" "rel c' (spec x a)" using step [of c a x] by auto
  then show ?case using Cons.IH [of c' "spec x a"] Cons.prems(2) by simp
qed simp

end

end
