(* ===== verification/Conflict.thy ===== *)
theory Conflict
  imports Prelude
begin

text \<open>
  The three-way authority decision (\<^verbatim>\<open>src/src/sync/closedFileConflict.ts\<close>) and the
  path-binding guard (\<^verbatim>\<open>src/src/sync/pathBindingIntegrity.ts\<close>).

  Hashes are SHA-256 hex strings; the decision only compares them.  Optional numbers and the
  optional self-mirror flag are options.  The \<open>winner\<close> of a preserved conflict keeps the main
  file, the \<open>preserve\<close> flags name the side whose bytes must be kept elsewhere.
  The locale \<open>conflict_decider\<close> is the contract the reconcile planners rely on; it is
  interpreted on \<open>decideClosedFileConflict\<close> below.
\<close>

section \<open>Data\<close>

datatype side = Disk | Crdt

fun other_side :: "side \<Rightarrow> side" where
  "other_side Disk = Crdt"
| "other_side Crdt = Disk"

datatype remote_reason = DiskAtBaseline | SelfMirrorLag

datatype conflict_reason = BothChanged | MissingBaseline

datatype missing_baseline_policy =
    DiskMtimeAfterLastFileSettlement
  | DiskMtimeAfterLastIndexSave
  | CrdtDefaultNoEvidence
  | CrdtDefaultDiskNotNewer

datatype closed_file_conflict_decision =
    NoOp
  | ApplyRemoteToDisk remote_reason
  | ImportDiskToCrdt
  | PreserveConflict (pc_reason: conflict_reason) (pc_winner: side)
      (pc_preserveCrdt: bool) (pc_preserveDisk: bool)
      (pc_policy: "missing_baseline_policy option")

record closed_file_conflict_input =
  cc_baselineHash :: "hash option"
  cc_diskHash :: hash
  cc_crdtHash :: hash
  cc_diskChangeIsSelfMirror :: "bool option"
  cc_diskMtime :: "int option"
  cc_lastDiskIndexPersistedAt :: "int option"
  cc_lastFileSettledAtMs :: "int option"

section \<open>decideClosedFileConflict\<close>

definition missing_baseline_decision ::
  "int option \<Rightarrow> int option \<Rightarrow> int option \<Rightarrow> closed_file_conflict_decision" where
  "missing_baseline_decision mtime persistedAt settledAt =
     (case (mtime, settledAt) of
        (Some m, Some s) \<Rightarrow>
          if m > s
          then PreserveConflict MissingBaseline Disk True False (Some DiskMtimeAfterLastFileSettlement)
          else PreserveConflict MissingBaseline Crdt False True (Some CrdtDefaultDiskNotNewer)
      | _ \<Rightarrow>
          (let hasMtimeEvidence = (mtime \<noteq> None \<and> persistedAt \<noteq> None);
               diskNewerThanLastSave =
                 (case (mtime, persistedAt) of (Some m, Some p) \<Rightarrow> m > p | _ \<Rightarrow> False)
           in if diskNewerThanLastSave
              then PreserveConflict MissingBaseline Disk True False (Some DiskMtimeAfterLastIndexSave)
              else PreserveConflict MissingBaseline Crdt False True
                     (Some (if hasMtimeEvidence then CrdtDefaultDiskNotNewer
                            else CrdtDefaultNoEvidence))))"

definition decideClosedFileConflict ::
  "closed_file_conflict_input \<Rightarrow> closed_file_conflict_decision" where
  "decideClosedFileConflict i =
     (if cc_diskHash i = cc_crdtHash i then NoOp
      else if cc_diskChangeIsSelfMirror i = Some True then ApplyRemoteToDisk SelfMirrorLag
      else case cc_baselineHash i of
        None \<Rightarrow> missing_baseline_decision (cc_diskMtime i) (cc_lastDiskIndexPersistedAt i)
                  (cc_lastFileSettledAtMs i)
      | Some b \<Rightarrow>
          if cc_diskHash i = b \<and> cc_crdtHash i \<noteq> b then ApplyRemoteToDisk DiskAtBaseline
          else if cc_crdtHash i = b \<and> cc_diskHash i \<noteq> b then ImportDiskToCrdt
          else PreserveConflict BothChanged Disk True False None)"

section \<open>Path binding integrity\<close>

datatype path_binding_status =
    BindingOk
  | DuplicateActivePath
  | FileIdPathDrift
  | AmbiguousStructuralRename
  | MissingBaselineRisk
  | BindingUnknown

datatype rename_evidence = EvidenceNone | ExplicitRename | PendingRename

datatype binding_reason =
    ReasonMissingPath
  | ReasonMultipleActiveFileIds
  | ReasonFileIdMismatch
  | ReasonCandidateDivergentWithoutBaseline
  | ReasonCandidateWithoutEvidence
  | ReasonInsufficientInput
  | ReasonBindingOk

text \<open>
  \<open>baselineHash\<close> distinguishes an absent field (\<open>undefined\<close>, here \<open>None\<close>) from an explicit
  \<open>null\<close> (here \<open>Some None\<close>): only the explicit \<open>null\<close> makes the divergence a risk.  The other
  optional fields treat the two alike.
\<close>

record path_binding_input =
  pb_path :: path
  pb_fileId :: "jsstr option"
  pb_activeFileIdsForPath :: "jsstr list option"
  pb_candidatePath :: "path option"
  pb_diskHash :: "hash option"
  pb_crdtHash :: "hash option"
  pb_baselineHash :: "hash option option"
  pb_renameEvidence :: "rename_evidence option"

record path_binding_result =
  br_status :: path_binding_status
  br_path :: path
  br_fileId :: "jsstr option"
  br_candidatePath :: "path option"
  br_activeFileIdsForPath :: "jsstr list"
  br_renameEvidence :: rename_evidence
  br_shouldBlockCrdtFlush :: bool
  br_shouldPreserve :: bool
  br_reason :: binding_reason

definition uniqueSorted :: "jsstr list option \<Rightarrow> jsstr list" where
  "uniqueSorted values =
     sort (remdups (filter (\<lambda>v. v \<noteq> []) (case values of None \<Rightarrow> [] | Some vs \<Rightarrow> vs)))"

definition truthy_str :: "jsstr option \<Rightarrow> bool" where
  "truthy_str v \<longleftrightarrow> v \<noteq> None \<and> v \<noteq> Some []"

definition hasStructuralCandidate :: "path_binding_input \<Rightarrow> bool" where
  "hasStructuralCandidate i \<longleftrightarrow>
     truthy_str (pb_candidatePath i) \<and> pb_candidatePath i \<noteq> Some (pb_path i)"

definition binding_result ::
  "path_binding_input \<Rightarrow> path_binding_status \<Rightarrow> binding_reason \<Rightarrow> jsstr list \<Rightarrow> path_binding_result"
where
  "binding_result i st rsn ids =
     (let shouldPreserve =
        (st = DuplicateActivePath \<or> st = FileIdPathDrift
         \<or> st = AmbiguousStructuralRename \<or> st = MissingBaselineRisk)
      in \<lparr> br_status = st, br_path = pb_path i, br_fileId = pb_fileId i,
           br_candidatePath = pb_candidatePath i, br_activeFileIdsForPath = ids,
           br_renameEvidence = (case pb_renameEvidence i of None \<Rightarrow> EvidenceNone | Some e \<Rightarrow> e),
           br_shouldBlockCrdtFlush = shouldPreserve, br_shouldPreserve = shouldPreserve,
           br_reason = rsn \<rparr>)"

definition evaluatePathBindingIntegrity :: "path_binding_input \<Rightarrow> path_binding_result" where
  "evaluatePathBindingIntegrity i =
     (let ids = uniqueSorted (pb_activeFileIdsForPath i);
          evidence = (case pb_renameEvidence i of None \<Rightarrow> EvidenceNone | Some e \<Rightarrow> e)
      in if pb_path i = [] then binding_result i BindingUnknown ReasonMissingPath ids
         else if length ids > 1
           then binding_result i DuplicateActivePath ReasonMultipleActiveFileIds ids
         else if truthy_str (pb_fileId i) \<and> length ids = 1 \<and> Some (hd ids) \<noteq> pb_fileId i
           then binding_result i FileIdPathDrift ReasonFileIdMismatch ids
         else if pb_baselineHash i = Some None \<and> hasStructuralCandidate i
               \<and> pb_diskHash i \<noteq> None \<and> pb_crdtHash i \<noteq> None \<and> pb_diskHash i \<noteq> pb_crdtHash i
           then binding_result i MissingBaselineRisk ReasonCandidateDivergentWithoutBaseline ids
         else if hasStructuralCandidate i \<and> evidence = EvidenceNone
           then binding_result i AmbiguousStructuralRename ReasonCandidateWithoutEvidence ids
         else if \<not> truthy_str (pb_fileId i) \<and> length ids = 0
               \<and> \<not> truthy_str (pb_diskHash i) \<and> \<not> truthy_str (pb_crdtHash i)
           then binding_result i BindingUnknown ReasonInsufficientInput ids
         else binding_result i BindingOk ReasonBindingOk ids)"

section \<open>The contract of the decision\<close>

text \<open>
  What a decision does to the two sides, in terms of hashes: the side that gives up its bytes, if
  any, and whether those bytes are preserved.
\<close>

definition overwritten_side :: "closed_file_conflict_decision \<Rightarrow> side option" where
  "overwritten_side d =
     (case d of NoOp \<Rightarrow> None | ApplyRemoteToDisk _ \<Rightarrow> Some Disk | ImportDiskToCrdt \<Rightarrow> Some Crdt
      | PreserveConflict _ w _ _ _ \<Rightarrow> Some (other_side w))"

definition preserves_side :: "closed_file_conflict_decision \<Rightarrow> side \<Rightarrow> bool" where
  "preserves_side d s =
     (case d of PreserveConflict _ _ pc pd _ \<Rightarrow> (case s of Disk \<Rightarrow> pd | Crdt \<Rightarrow> pc) | _ \<Rightarrow> False)"

definition side_hash :: "closed_file_conflict_input \<Rightarrow> side \<Rightarrow> hash" where
  "side_hash i s = (case s of Disk \<Rightarrow> cc_diskHash i | Crdt \<Rightarrow> cc_crdtHash i)"

locale conflict_decider =
  fixes decide :: "closed_file_conflict_input \<Rightarrow> closed_file_conflict_decision"
  assumes equal_no_op: "decide i = NoOp \<longleftrightarrow> cc_diskHash i = cc_crdtHash i"
    and overwrite_justified:
      "overwritten_side (decide i) = Some s \<Longrightarrow>
         preserves_side (decide i) s
         \<or> cc_baselineHash i = Some (side_hash i s)
         \<or> (s = Disk \<and> cc_diskChangeIsSelfMirror i = Some True)"
    and preserve_loser_only:
      "decide i = PreserveConflict r w pc pd p \<Longrightarrow> (pd \<longleftrightarrow> w = Crdt) \<and> (pc \<longleftrightarrow> w = Disk)"
    and import_at_baseline:
      "decide i = ImportDiskToCrdt \<Longrightarrow> cc_baselineHash i = Some (cc_crdtHash i)"
    and both_changed_has_baseline:
      "decide i = PreserveConflict BothChanged w pc pd p \<Longrightarrow>
         \<exists>b. cc_baselineHash i = Some b \<and> cc_diskHash i \<noteq> b \<and> cc_crdtHash i \<noteq> b"
    and missing_baseline_has_none:
      "decide i = PreserveConflict MissingBaseline w pc pd p \<Longrightarrow> cc_baselineHash i = None"
begin

lemma differing_overwrites:
  assumes "cc_diskHash i \<noteq> cc_crdtHash i"
  shows "\<exists>s. overwritten_side (decide i) = Some s"
  using assms equal_no_op [of i]
  by (cases "decide i") (auto simp: overwritten_side_def)

lemma unpreserved_overwrite_has_copy:
  assumes "overwritten_side (decide i) = Some s" and "\<not> preserves_side (decide i) s"
    and "cc_diskChangeIsSelfMirror i \<noteq> Some True"
  shows "cc_baselineHash i = Some (side_hash i s)"
  using overwrite_justified [OF assms(1)] assms(2,3) by auto

end

lemma overwritten_side_simps [simp]:
  "overwritten_side NoOp = None"
  "overwritten_side (ApplyRemoteToDisk rr) = Some Disk"
  "overwritten_side ImportDiskToCrdt = Some Crdt"
  "overwritten_side (PreserveConflict r w pc pd p) = Some (other_side w)"
  by (simp_all add: overwritten_side_def)

lemma preserves_side_simps [simp]:
  "\<not> preserves_side NoOp s"
  "\<not> preserves_side (ApplyRemoteToDisk rr) s"
  "\<not> preserves_side ImportDiskToCrdt s"
  "preserves_side (PreserveConflict r w pc pd p) Disk = pd"
  "preserves_side (PreserveConflict r w pc pd p) Crdt = pc"
  by (simp_all add: preserves_side_def)

lemma side_hash_simps [simp]:
  "side_hash i Disk = cc_diskHash i"
  "side_hash i Crdt = cc_crdtHash i"
  by (simp_all add: side_hash_def)

lemma missing_baseline_decision_cases:
  "(\<exists>p. missing_baseline_decision m q s = PreserveConflict MissingBaseline Disk True False (Some p))
   \<or> (\<exists>p. missing_baseline_decision m q s = PreserveConflict MissingBaseline Crdt False True (Some p))"
  by (cases m; cases q; cases s) (auto simp: missing_baseline_decision_def)

lemma missing_baseline_decision_shape [simp]:
  "missing_baseline_decision m q s \<noteq> NoOp"
  "missing_baseline_decision m q s \<noteq> ApplyRemoteToDisk r"
  "missing_baseline_decision m q s \<noteq> ImportDiskToCrdt"
  "missing_baseline_decision m q s \<noteq> PreserveConflict BothChanged w pc pd p"
  using missing_baseline_decision_cases [of m q s] by auto

lemma missing_baseline_decision_preserves:
  "missing_baseline_decision m q s = PreserveConflict r w pc pd p \<Longrightarrow>
     r = MissingBaseline \<and> (pd \<longleftrightarrow> w = Crdt) \<and> (pc \<longleftrightarrow> w = Disk)"
  using missing_baseline_decision_cases [of m q s] by auto

lemma missing_baseline_overwrite_preserved:
  "overwritten_side (missing_baseline_decision m q s) = Some x \<Longrightarrow>
     preserves_side (missing_baseline_decision m q s) x"
  using missing_baseline_decision_cases [of m q s] by auto

interpretation cd: conflict_decider decideClosedFileConflict
proof
  fix i :: closed_file_conflict_input and s r w pc pd p
  show "decideClosedFileConflict i = NoOp \<longleftrightarrow> cc_diskHash i = cc_crdtHash i"
    by (auto simp: decideClosedFileConflict_def split: option.splits)
  show "preserves_side (decideClosedFileConflict i) s
         \<or> cc_baselineHash i = Some (side_hash i s)
         \<or> (s = Disk \<and> cc_diskChangeIsSelfMirror i = Some True)"
    if "overwritten_side (decideClosedFileConflict i) = Some s"
    using that missing_baseline_overwrite_preserved
    by (cases "cc_baselineHash i"; cases s)
      (simp_all add: decideClosedFileConflict_def split: if_splits)
  show "(pd \<longleftrightarrow> w = Crdt) \<and> (pc \<longleftrightarrow> w = Disk)"
    if "decideClosedFileConflict i = PreserveConflict r w pc pd p"
    using that
    by (auto simp: decideClosedFileConflict_def dest: missing_baseline_decision_preserves
        split: option.splits if_splits)
  show "cc_baselineHash i = Some (cc_crdtHash i)"
    if "decideClosedFileConflict i = ImportDiskToCrdt"
    using that by (auto simp: decideClosedFileConflict_def split: option.splits if_splits)
  show "\<exists>b. cc_baselineHash i = Some b \<and> cc_diskHash i \<noteq> b \<and> cc_crdtHash i \<noteq> b"
    if "decideClosedFileConflict i = PreserveConflict BothChanged w pc pd p"
    using that by (auto simp: decideClosedFileConflict_def split: option.splits if_splits)
  show "cc_baselineHash i = None"
    if "decideClosedFileConflict i = PreserveConflict MissingBaseline w pc pd p"
    using that by (auto simp: decideClosedFileConflict_def split: option.splits if_splits)
qed

end
