(* ===== verification/Planners.thy ===== *)
theory Planners
  imports Conflict
begin

text \<open>
  The pure reconcile planners of \<^verbatim>\<open>src/src/runtime/reconcile/\<close>: the closed-file planner, the
  open/bound-file planner, the reconcile-mode gate, the read-skip rule, the safety brake and the
  baseline advancement policy.  Thrown errors of the baseline policy are values of \<open>Inl\<close>.
\<close>

section \<open>Closed files (closedFilePlanner.ts)\<close>

datatype reconcile_mode = Authoritative | Conservative

datatype closed_missing_baseline_policy =
    WinnerPolicy missing_baseline_policy
  | LocalCreateEvent

datatype action_reason =
    DiskEqualsCrdt
  | ConservativeModeDefer
  | OpenOrBound
  | PathBindingIntegrity
  | ConflictDecisionNoOp
  | RemoteReason remote_reason
  | CrdtAtBaseline
  | ConflictReason conflict_reason

record closed_file_reconcile_input =
  cf_path :: path
  cf_mode :: reconcile_mode
  cf_isOpenOrBound :: bool
  cf_diskHash :: hash
  cf_crdtHash :: hash
  cf_baselineHash :: "hash option"
  cf_diskMtime :: "int option"
  cf_diskChangeIsSelfMirror :: "bool option"
  cf_lastDiskIndexPersistedAt :: "int option"
  cf_lastFileSettledAtMs :: "int option"
  cf_hasPendingLocalCreate :: "bool option"
  cf_pathBindingStatus :: "path_binding_status option"
  cf_pathBindingReason :: "binding_reason option"

datatype closed_file_reconcile_action =
    ActNoOp path action_reason
  | ActApplyRemoteToDisk path action_reason
  | ActImportDiskToCrdt path action_reason
  | ActCreateConflictArtifact path action_reason (act_winner: side) (act_preserveSide: side)
      "closed_missing_baseline_policy option" "path_binding_status option" "binding_reason option"
  | ActDeferToCrdtFlush path action_reason

definition mapConflictDecisionToAction ::
  "path \<Rightarrow> closed_file_conflict_decision \<Rightarrow> closed_file_reconcile_action" where
  "mapConflictDecisionToAction p d =
     (case d of
        NoOp \<Rightarrow> ActNoOp p ConflictDecisionNoOp
      | ApplyRemoteToDisk r \<Rightarrow> ActApplyRemoteToDisk p (RemoteReason r)
      | ImportDiskToCrdt \<Rightarrow> ActImportDiskToCrdt p CrdtAtBaseline
      | PreserveConflict r w pc pd pol \<Rightarrow>
          ActCreateConflictArtifact p (ConflictReason r) w (if pd then Disk else Crdt)
            (map_option WinnerPolicy pol) None None)"

definition closed_conflict_input :: "closed_file_reconcile_input \<Rightarrow> closed_file_conflict_input" where
  "closed_conflict_input i =
     \<lparr> cc_baselineHash = cf_baselineHash i, cc_diskHash = cf_diskHash i,
       cc_crdtHash = cf_crdtHash i, cc_diskChangeIsSelfMirror = cf_diskChangeIsSelfMirror i,
       cc_diskMtime = cf_diskMtime i,
       cc_lastDiskIndexPersistedAt = cf_lastDiskIndexPersistedAt i,
       cc_lastFileSettledAtMs = cf_lastFileSettledAtMs i \<rparr>"

definition planClosedFileReconcile ::
  "closed_file_reconcile_input \<Rightarrow> closed_file_reconcile_action" where
  "planClosedFileReconcile i =
     (if cf_diskHash i = cf_crdtHash i then ActNoOp (cf_path i) DiskEqualsCrdt
      else if cf_mode i \<noteq> Authoritative then ActNoOp (cf_path i) ConservativeModeDefer
      else if cf_isOpenOrBound i then ActDeferToCrdtFlush (cf_path i) OpenOrBound
      else if cf_pathBindingStatus i \<noteq> None \<and> cf_pathBindingStatus i \<noteq> Some BindingOk
            \<and> cf_pathBindingStatus i \<noteq> Some BindingUnknown
        then ActCreateConflictArtifact (cf_path i) PathBindingIntegrity Disk Crdt None
               (cf_pathBindingStatus i) (cf_pathBindingReason i)
      else if cf_baselineHash i = None \<and> cf_hasPendingLocalCreate i = Some True
        then ActCreateConflictArtifact (cf_path i) (ConflictReason MissingBaseline) Disk Crdt
               (Some LocalCreateEvent) None None
      else mapConflictDecisionToAction (cf_path i)
             (decideClosedFileConflict (closed_conflict_input i)))"

section \<open>Open or bound files (openBoundFilePlanner.ts)\<close>

datatype open_missing_baseline_policy =
    OpenWinnerPolicy missing_baseline_policy
  | OpenBoundVisibleAuthority

datatype editor_relation = RelDisk | RelCrdt | RelBoth | RelDistinct

datatype open_bound_editor_authority =
    SingleEditor editor_relation
  | MultipleEditors
  | EditorReadFailed
  | NoEditor

record open_bound_input =
  ob_diskHash :: hash
  ob_crdtHash :: hash
  ob_baselineHash :: "hash option"
  ob_editorAuthority :: open_bound_editor_authority
  ob_hasRecentEditorActivity :: bool
  ob_diskMtime :: "int option"
  ob_diskChangeIsSelfMirror :: "bool option"
  ob_lastDiskIndexPersistedAt :: "int option"
  ob_lastFileSettledAtMs :: "int option"
  ob_editorMatchesBaseline :: "bool option"

datatype ambiguous_reason = MultipleEditorAuthorities | ReasonEditorReadFailed | MissingEditorAuthority

datatype open_bound_action =
    OpenNoOp
  | OpenDeferRecentEditor
  | OpenImportDiskToCrdt action_reason (oi_preserveCrdt: bool) "open_missing_baseline_policy option"
  | OpenApplyCrdtToDisk action_reason (oa_preserveDisk: bool) "open_missing_baseline_policy option"
  | OpenEditorWinsPreserve action_reason (oe_preserveCrdt: bool) (oe_preserveDisk: bool)
      "open_missing_baseline_policy option"
  | OpenAmbiguousConflict ambiguous_reason

definition open_conflict_input :: "open_bound_input \<Rightarrow> closed_file_conflict_input" where
  "open_conflict_input i =
     \<lparr> cc_baselineHash = ob_baselineHash i, cc_diskHash = ob_diskHash i,
       cc_crdtHash = ob_crdtHash i, cc_diskChangeIsSelfMirror = ob_diskChangeIsSelfMirror i,
       cc_diskMtime = ob_diskMtime i,
       cc_lastDiskIndexPersistedAt = ob_lastDiskIndexPersistedAt i,
       cc_lastFileSettledAtMs = ob_lastFileSettledAtMs i \<rparr>"

text \<open>The stale-editor branch: the editor renders the baseline, so disk and CRDT decide.\<close>

definition open_stale_editor_action :: "closed_file_conflict_decision \<Rightarrow> open_bound_action" where
  "open_stale_editor_action d =
     (case d of
        NoOp \<Rightarrow> OpenNoOp
      | ApplyRemoteToDisk r \<Rightarrow> OpenApplyCrdtToDisk (RemoteReason r) False None
      | ImportDiskToCrdt \<Rightarrow> OpenImportDiskToCrdt CrdtAtBaseline False None
      | PreserveConflict r w pc pd pol \<Rightarrow>
          if w = Disk then OpenImportDiskToCrdt (ConflictReason r) pc None
          else OpenApplyCrdtToDisk (ConflictReason r) pd None)"

definition open_decided_action ::
  "editor_relation \<Rightarrow> closed_file_conflict_decision \<Rightarrow> open_bound_action" where
  "open_decided_action rel d =
     (case d of
        NoOp \<Rightarrow> OpenNoOp
      | ImportDiskToCrdt \<Rightarrow> OpenImportDiskToCrdt CrdtAtBaseline False None
      | ApplyRemoteToDisk r \<Rightarrow> OpenApplyCrdtToDisk (RemoteReason r) False None
      | PreserveConflict r w pc pd pol \<Rightarrow>
          if w = Disk then OpenImportDiskToCrdt (ConflictReason r) pc (map_option OpenWinnerPolicy pol)
          else if rel = RelCrdt \<or> rel = RelBoth
            then OpenEditorWinsPreserve (ConflictReason r) False True (map_option OpenWinnerPolicy pol)
          else OpenApplyCrdtToDisk (ConflictReason r) pd (map_option OpenWinnerPolicy pol))"

definition plan_open_single :: "open_bound_input \<Rightarrow> editor_relation \<Rightarrow> open_bound_action" where
  "plan_open_single i rel =
     (let decision = decideClosedFileConflict (open_conflict_input i);
          visible_crdt = (rel = RelCrdt \<or> rel = RelBoth)
      in if rel = RelDistinct then
           (if ob_editorMatchesBaseline i = Some True \<and> ob_baselineHash i \<noteq> None
            then open_stale_editor_action decision
            else OpenEditorWinsPreserve
                   (ConflictReason (if ob_baselineHash i = None then MissingBaseline else BothChanged))
                   True True None)
         else case ob_baselineHash i of
           None \<Rightarrow>
             if visible_crdt
             then OpenEditorWinsPreserve (ConflictReason MissingBaseline) False True
                    (Some OpenBoundVisibleAuthority)
             else OpenImportDiskToCrdt (ConflictReason MissingBaseline) True
                    (Some (case decision of
                        PreserveConflict _ _ _ _ (Some DiskMtimeAfterLastIndexSave) \<Rightarrow>
                          OpenWinnerPolicy DiskMtimeAfterLastIndexSave
                      | _ \<Rightarrow> OpenBoundVisibleAuthority))
         | Some b \<Rightarrow>
             if ob_diskHash i \<noteq> b \<and> ob_crdtHash i \<noteq> b
             then (if visible_crdt
                   then OpenEditorWinsPreserve (ConflictReason BothChanged) False True None
                   else OpenImportDiskToCrdt (ConflictReason BothChanged) True None)
             else open_decided_action rel decision)"

definition planOpenBoundFileReconcile :: "open_bound_input \<Rightarrow> open_bound_action" where
  "planOpenBoundFileReconcile i =
     (if ob_diskHash i = ob_crdtHash i then OpenNoOp
      else if ob_hasRecentEditorActivity i then OpenDeferRecentEditor
      else case ob_editorAuthority i of
        MultipleEditors \<Rightarrow> OpenAmbiguousConflict MultipleEditorAuthorities
      | EditorReadFailed \<Rightarrow> OpenAmbiguousConflict ReasonEditorReadFailed
      | NoEditor \<Rightarrow> OpenAmbiguousConflict MissingEditorAuthority
      | SingleEditor rel \<Rightarrow> plan_open_single i rel)"

section \<open>Mode gate, read skip and safety brake\<close>

record safe_mode_input =
  sm_providerSynced :: bool
  sm_localReady :: bool
  sm_idbError :: "bool option"
  sm_initialized :: bool
  sm_schemaVersionKnown :: bool

definition decideSafeReconcileMode :: "safe_mode_input \<Rightarrow> reconcile_mode" where
  "decideSafeReconcileMode i =
     (if \<not> sm_localReady i \<or> sm_idbError i = Some True then Conservative
      else if sm_providerSynced i then Authoritative
      else if sm_initialized i \<and> sm_schemaVersionKnown i then Authoritative
      else Conservative)"

record read_skip_input =
  rs_statMatchesIndex :: bool
  rs_baselineHash :: "hash option"
  rs_crdtHash :: "hash option"

definition shouldSkipDiskRead :: "read_skip_input \<Rightarrow> bool" where
  "shouldSkipDiskRead i \<longleftrightarrow>
     rs_statMatchesIndex i \<and> rs_baselineHash i \<noteq> None \<and> rs_crdtHash i \<noteq> None
     \<and> rs_crdtHash i = rs_baselineHash i"




section \<open>Baseline advancement (baselineAdvancementPolicy.ts)\<close>

datatype baseline_action_kind =
    CrdtCreatedOnDisk
  | DiskSeededToCrdt
  | KindImportDiskToCrdt
  | ConflictDiskWins
  | ConflictCrdtWins
  | KindApplyRemoteToDisk
  | KindNoOp
  | KindDeferToCrdtFlush
  | LiveDiskToCrdt
  | LiveStatOnly
  | ConflictArtifactFailed
  | KindSafetyBrake

record baseline_advancement_input =
  ba_actionKind :: baseline_action_kind
  ba_diskHash :: "hash option"
  ba_crdtHash :: "hash option"
  ba_previousBaselineHash :: "hash option"

datatype advance_reason =
    CrdtAuthorityDiskCreated | RemoteAppliedToDisk | ConflictWinnerProvisional
  | ContentIdentical | FlushCompleted | DiskAuthorityFirstSeed | DiskWinsClean
  | ExternalEditImported | StatOnlyNoContent | ArtifactCreationFailed | SafetyBrakeBlocked

datatype baseline_advance_action =
    Advance (adv_hash: hash) advance_reason
  | Defer advance_reason
  | ClearBaseline advance_reason

datatype baseline_error = RequiresCrdtHash baseline_action_kind | RequiresDiskHash baseline_action_kind

definition advance_from ::
  "baseline_error \<Rightarrow> hash option \<Rightarrow> advance_reason \<Rightarrow> baseline_error + baseline_advance_action" where
  "advance_from e h r = (case h of None \<Rightarrow> Inl e | Some x \<Rightarrow> Inr (Advance x r))"

definition planBaselineAdvancement ::
  "baseline_advancement_input \<Rightarrow> baseline_error + baseline_advance_action" where
  "planBaselineAdvancement i =
     (let crdt = (\<lambda>r. advance_from (RequiresCrdtHash (ba_actionKind i)) (ba_crdtHash i) r);
          disk = (\<lambda>r. advance_from (RequiresDiskHash (ba_actionKind i)) (ba_diskHash i) r)
      in case ba_actionKind i of
           CrdtCreatedOnDisk \<Rightarrow> crdt CrdtAuthorityDiskCreated
         | KindApplyRemoteToDisk \<Rightarrow> crdt RemoteAppliedToDisk
         | ConflictCrdtWins \<Rightarrow> Inr (Defer ConflictWinnerProvisional)
         | KindNoOp \<Rightarrow> crdt ContentIdentical
         | KindDeferToCrdtFlush \<Rightarrow> crdt FlushCompleted
         | DiskSeededToCrdt \<Rightarrow> disk DiskAuthorityFirstSeed
         | KindImportDiskToCrdt \<Rightarrow> disk DiskWinsClean
         | ConflictDiskWins \<Rightarrow> Inr (Defer ConflictWinnerProvisional)
         | LiveDiskToCrdt \<Rightarrow> disk ExternalEditImported
         | LiveStatOnly \<Rightarrow> Inr (Defer StatOnlyNoContent)
         | ConflictArtifactFailed \<Rightarrow> Inr (Defer ArtifactCreationFailed)
         | KindSafetyBrake \<Rightarrow> Inr (Defer SafetyBrakeBlocked))"

section \<open>What an action does to the two sides\<close>

fun closed_overwrites :: "closed_file_reconcile_action \<Rightarrow> side option" where
  "closed_overwrites (ActApplyRemoteToDisk p r) = Some Disk"
| "closed_overwrites (ActImportDiskToCrdt p r) = Some Crdt"
| "closed_overwrites (ActCreateConflictArtifact p r w ps mp st br) = Some (other_side w)"
| "closed_overwrites _ = None"

fun closed_preserves :: "closed_file_reconcile_action \<Rightarrow> side option" where
  "closed_preserves (ActCreateConflictArtifact p r w ps mp st br) = Some ps"
| "closed_preserves _ = None"

definition cf_side_hash :: "closed_file_reconcile_input \<Rightarrow> side \<Rightarrow> hash" where
  "cf_side_hash i s = (case s of Disk \<Rightarrow> cf_diskHash i | Crdt \<Rightarrow> cf_crdtHash i)"

text \<open>
  Which of the two persistent sides an open-file action gives up: importing the disk gives up the
  CRDT, applying the CRDT gives up the disk, and an editor win gives up every side whose content
  is not the editor's own.
\<close>

definition editor_shows :: "editor_relation \<Rightarrow> side \<Rightarrow> bool" where
  "editor_shows rel s =
     (case s of Disk \<Rightarrow> rel = RelDisk \<or> rel = RelBoth | Crdt \<Rightarrow> rel = RelCrdt \<or> rel = RelBoth)"

fun open_gives_up :: "editor_relation \<Rightarrow> open_bound_action \<Rightarrow> side \<Rightarrow> bool" where
  "open_gives_up rel (OpenImportDiskToCrdt r pc mp) s = (s = Crdt)"
| "open_gives_up rel (OpenApplyCrdtToDisk r pd mp) s = (s = Disk)"
| "open_gives_up rel (OpenEditorWinsPreserve r pc pd mp) s = (\<not> editor_shows rel s)"
| "open_gives_up rel _ s = False"

fun open_preserves :: "open_bound_action \<Rightarrow> side \<Rightarrow> bool" where
  "open_preserves (OpenImportDiskToCrdt r pc mp) s = (s = Crdt \<and> pc)"
| "open_preserves (OpenApplyCrdtToDisk r pd mp) s = (s = Disk \<and> pd)"
| "open_preserves (OpenEditorWinsPreserve r pc pd mp) s = (case s of Disk \<Rightarrow> pd | Crdt \<Rightarrow> pc)"
| "open_preserves _ s = False"

definition ob_side_hash :: "open_bound_input \<Rightarrow> side \<Rightarrow> hash" where
  "ob_side_hash i s = (case s of Disk \<Rightarrow> ob_diskHash i | Crdt \<Rightarrow> ob_crdtHash i)"

context conflict_decider
begin

lemma mapped_overwrite_justified:
  assumes "closed_overwrites (mapConflictDecisionToAction p (decide i)) = Some s"
  shows "closed_preserves (mapConflictDecisionToAction p (decide i)) = Some s
         \<or> cc_baselineHash i = Some (side_hash i s)
         \<or> (s = Disk \<and> cc_diskChangeIsSelfMirror i = Some True)"
proof (cases "decide i")
  case (PreserveConflict r w pc pd pol)
  then show ?thesis
    using assms preserve_loser_only [OF PreserveConflict]
    by (cases w) (auto simp: mapConflictDecisionToAction_def)
qed (use assms overwrite_justified [of i s] in \<open>auto simp: mapConflictDecisionToAction_def\<close>)

lemma mapped_differing_overwrites:
  assumes "cc_diskHash i \<noteq> cc_crdtHash i"
  shows "closed_overwrites (mapConflictDecisionToAction p (decide i)) \<noteq> None"
  using assms equal_no_op [of i]
  by (cases "decide i") (auto simp: mapConflictDecisionToAction_def)

lemma stale_editor_justified:
  assumes "open_gives_up rel (open_stale_editor_action (decide i)) s"
  shows "open_preserves (open_stale_editor_action (decide i)) s
         \<or> cc_baselineHash i = Some (side_hash i s)
         \<or> (s = Disk \<and> cc_diskChangeIsSelfMirror i = Some True)"
proof (cases "decide i")
  case (PreserveConflict r w pc pd pol)
  then show ?thesis
    using assms preserve_loser_only [OF PreserveConflict]
    by (cases w) (auto simp: open_stale_editor_action_def)
qed (use assms overwrite_justified [of i s] in \<open>auto simp: open_stale_editor_action_def\<close>)

lemma decided_justified:
  assumes "open_gives_up rel (open_decided_action rel (decide i)) s"
  shows "open_preserves (open_decided_action rel (decide i)) s
         \<or> cc_baselineHash i = Some (side_hash i s)
         \<or> (s = Disk \<and> cc_diskChangeIsSelfMirror i = Some True)"
proof (cases "decide i")
  case (PreserveConflict r w pc pd pol)
  then show ?thesis
    using assms preserve_loser_only [OF PreserveConflict]
    by (cases w; cases s) (auto simp: open_decided_action_def editor_shows_def split: if_splits)
qed (use assms overwrite_justified [of i s] in \<open>auto simp: open_decided_action_def\<close>)

end

lemma closed_conflict_input_simps [simp]:
  "cc_baselineHash (closed_conflict_input i) = cf_baselineHash i"
  "cc_diskHash (closed_conflict_input i) = cf_diskHash i"
  "cc_crdtHash (closed_conflict_input i) = cf_crdtHash i"
  "cc_diskChangeIsSelfMirror (closed_conflict_input i) = cf_diskChangeIsSelfMirror i"
  "side_hash (closed_conflict_input i) s = cf_side_hash i s"
  by (cases s; simp add: closed_conflict_input_def cf_side_hash_def)+

lemma open_conflict_input_simps [simp]:
  "cc_baselineHash (open_conflict_input i) = ob_baselineHash i"
  "cc_diskHash (open_conflict_input i) = ob_diskHash i"
  "cc_crdtHash (open_conflict_input i) = ob_crdtHash i"
  "cc_diskChangeIsSelfMirror (open_conflict_input i) = ob_diskChangeIsSelfMirror i"
  "side_hash (open_conflict_input i) s = ob_side_hash i s"
  by (cases s; simp add: open_conflict_input_def ob_side_hash_def)+

section \<open>Properties of the planners\<close>


text \<open>
  An authoritative pass leaves no closed divergence undecided: whenever the hashes of a closed
  file differ, the plan picks a winner and overwrites the other side.
\<close>

theorem planClosedFileReconcile_decides:
  assumes "cf_mode i = Authoritative" "\<not> cf_isOpenOrBound i" "cf_diskHash i \<noteq> cf_crdtHash i"
  shows "closed_overwrites (planClosedFileReconcile i) \<noteq> None"
  using assms cd.mapped_differing_overwrites [of "closed_conflict_input i" "cf_path i"]
  by (auto simp: planClosedFileReconcile_def)

lemma plan_open_single_justified:
  assumes "open_gives_up rel (plan_open_single i rel) s"
  shows "open_preserves (plan_open_single i rel) s
    \<or> ob_baselineHash i = Some (ob_side_hash i s)
    \<or> (s = Disk \<and> ob_diskChangeIsSelfMirror i = Some True)"
  using assms cd.stale_editor_justified [of rel "open_conflict_input i" s]
    cd.decided_justified [of rel "open_conflict_input i" s]
  by (cases s; cases rel; cases "ob_baselineHash i";
      simp add: plan_open_single_def editor_shows_def ob_side_hash_def split: if_splits; blast)

text \<open>
  C27: the open-file planner never gives up a side silently: while one editor shows the file, every
  side the action abandons is preserved, or is the settled baseline, or is a disk copy KAOS itself
  wrote.
\<close>

theorem planOpenBoundFileReconcile_no_silent_loss:
  assumes "ob_editorAuthority i = SingleEditor rel"
    and "open_gives_up rel (planOpenBoundFileReconcile i) s"
  shows "open_preserves (planOpenBoundFileReconcile i) s
    \<or> ob_baselineHash i = Some (ob_side_hash i s)
    \<or> (s = Disk \<and> ob_diskChangeIsSelfMirror i = Some True)"
  using assms plan_open_single_justified [of rel i s]
  by (auto simp: planOpenBoundFileReconcile_def split: if_splits)

definition sample_closed_input :: closed_file_reconcile_input where
  "sample_closed_input =
     \<lparr> cf_path = [110], cf_mode = Authoritative, cf_isOpenOrBound = False, cf_diskHash = [1],
       cf_crdtHash = [2], cf_baselineHash = Some [1], cf_diskMtime = None,
       cf_diskChangeIsSelfMirror = None, cf_lastDiskIndexPersistedAt = None,
       cf_lastFileSettledAtMs = None, cf_hasPendingLocalCreate = None,
       cf_pathBindingStatus = Some BindingOk, cf_pathBindingReason = None \<rparr>"



theorem planClosedFileReconcile_decides_witness:
  "closed_overwrites (planClosedFileReconcile sample_closed_input) \<noteq> None"
  by (rule planClosedFileReconcile_decides) (simp_all add: sample_closed_input_def)

definition sample_open_input :: open_bound_input where
  "sample_open_input =
     \<lparr> ob_diskHash = [1], ob_crdtHash = [2], ob_baselineHash = Some [3],
       ob_editorAuthority = SingleEditor RelCrdt, ob_hasRecentEditorActivity = False,
       ob_diskMtime = None, ob_diskChangeIsSelfMirror = None,
       ob_lastDiskIndexPersistedAt = None, ob_lastFileSettledAtMs = None,
       ob_editorMatchesBaseline = None \<rparr>"

lemma sample_open_plan:
  "planOpenBoundFileReconcile sample_open_input =
     OpenEditorWinsPreserve (ConflictReason BothChanged) False True None"
  by (simp add: sample_open_input_def planOpenBoundFileReconcile_def plan_open_single_def)

theorem planOpenBoundFileReconcile_no_silent_loss_witness:
  "open_gives_up RelCrdt (planOpenBoundFileReconcile sample_open_input) Disk
   \<and> open_preserves (planOpenBoundFileReconcile sample_open_input) Disk"
  using planOpenBoundFileReconcile_no_silent_loss [of sample_open_input RelCrdt Disk]
  by (simp add: sample_open_plan editor_shows_def)

text \<open>
  While the local replica is not hydrated, or IndexedDB has latched an error, the mode gate
  makes every closed-file plan of the pass harmless: it overwrites neither side.
\<close>

theorem unhydrated_replica_overwrites_nothing:
  assumes "\<not> sm_localReady m \<or> sm_idbError m = Some True"
    and "cf_mode i = decideSafeReconcileMode m"
  shows "closed_overwrites (planClosedFileReconcile i) = None"
  using assms by (auto simp: decideSafeReconcileMode_def planClosedFileReconcile_def)

theorem unhydrated_replica_overwrites_nothing_witness:
  "closed_overwrites (planClosedFileReconcile (sample_closed_input\<lparr>cf_mode := Conservative\<rparr>)) = None"
  using unhydrated_replica_overwrites_nothing
    [of "\<lparr> sm_providerSynced = True, sm_localReady = False, sm_idbError = None,
           sm_initialized = True, sm_schemaVersionKnown = True \<rparr>"
        "sample_closed_input\<lparr>cf_mode := Conservative\<rparr>"]
  by (simp add: decideSafeReconcileMode_def)

text \<open>
  Skipping a disk read never changes a decision.  If the skip rule fires, and a matching stat
  means the file still hashes to its settled baseline, then both planners, given the bytes that
  were not read, plan a no-op.
\<close>

theorem shouldSkipDiskRead_is_no_op:
  assumes "shouldSkipDiskRead r"
    and "rs_statMatchesIndex r \<Longrightarrow> rs_baselineHash r = Some (cf_diskHash i)"
    and "rs_crdtHash r = Some (cf_crdtHash i)"
    and "ob_diskHash j = cf_diskHash i" "ob_crdtHash j = cf_crdtHash i"
  shows "planClosedFileReconcile i = ActNoOp (cf_path i) DiskEqualsCrdt
         \<and> planOpenBoundFileReconcile j = OpenNoOp"
  using assms
  by (simp add: shouldSkipDiskRead_def planClosedFileReconcile_def planOpenBoundFileReconcile_def)

theorem shouldSkipDiskRead_is_no_op_witness:
  "planClosedFileReconcile (sample_closed_input\<lparr>cf_crdtHash := [1]\<rparr>) = ActNoOp [110] DiskEqualsCrdt
   \<and> planOpenBoundFileReconcile (sample_open_input\<lparr>ob_crdtHash := [1]\<rparr>) = OpenNoOp"
  using shouldSkipDiskRead_is_no_op
    [of "\<lparr> rs_statMatchesIndex = True, rs_baselineHash = Some [1], rs_crdtHash = Some [1] \<rparr>"
        "sample_closed_input\<lparr>cf_crdtHash := [1]\<rparr>" "sample_open_input\<lparr>ob_crdtHash := [1]\<rparr>"]
  by (simp add: shouldSkipDiskRead_def sample_closed_input_def sample_open_input_def)


definition crdt_authority_kinds :: "baseline_action_kind set" where
  "crdt_authority_kinds = {CrdtCreatedOnDisk, KindApplyRemoteToDisk, KindNoOp, KindDeferToCrdtFlush}"

definition disk_authority_kinds :: "baseline_action_kind set" where
  "disk_authority_kinds = {DiskSeededToCrdt, KindImportDiskToCrdt, LiveDiskToCrdt}"

lemmas baseline_defs =
  planBaselineAdvancement_def advance_from_def crdt_authority_kinds_def disk_authority_kinds_def
  Let_def

text \<open>
  The baseline policy is total apart from missing hashes.  It advances exactly to the hash of
  the authority of the action, throws exactly when that hash was not computed, and otherwise
  defers: a conflict, a failed artifact, a stat-only update or the safety brake never moves the
  baseline, and the policy never clears it.
\<close>

theorem planBaselineAdvancement_exact:
  "(case planBaselineAdvancement i of
      Inl e \<Rightarrow> (ba_actionKind i \<in> crdt_authority_kinds \<and> ba_crdtHash i = None)
              \<or> (ba_actionKind i \<in> disk_authority_kinds \<and> ba_diskHash i = None)
    | Inr (Advance h r) \<Rightarrow> (ba_actionKind i \<in> crdt_authority_kinds \<and> ba_crdtHash i = Some h)
              \<or> (ba_actionKind i \<in> disk_authority_kinds \<and> ba_diskHash i = Some h)
    | Inr (Defer r) \<Rightarrow> ba_actionKind i \<in> {ConflictDiskWins, ConflictCrdtWins, LiveStatOnly,
                         ConflictArtifactFailed, KindSafetyBrake}
    | Inr (ClearBaseline r) \<Rightarrow> False)"
  by (cases "ba_actionKind i"; cases "ba_crdtHash i"; cases "ba_diskHash i";
      simp add: baseline_defs)

end
