(* ===== verification/Edits.thy ===== *)
theory Edits
  imports Prelude
begin

text \<open>
  Edit scripts: what the line merge (\<^verbatim>\<open>utils/threeWayMerge.ts\<close>) and the character merge
  (\<^verbatim>\<open>sync/diff.ts\<close>) share.  A hunk replaces \<open>base[start..end)\<close> by new elements; it is the
  \<^verbatim>\<open>LineChange\<close> of the line merge (elements are lines) and the \<^verbatim>\<open>BaseReplacement\<close> of the
  character merge (elements are UTF-16 units).

  The npm package \<^verbatim>\<open>fast-diff\<close> is not part of the repository: it is a parameter \<open>diff\<close> of the
  definitions that call it, and \<open>fast_diff_contract\<close> states what they rely on: the segments spell
  out both texts, none is empty, and equal texts give no edit.
\<close>

section \<open>Diff segments\<close>

datatype diff_kind = DEqual | DDelete | DInsert

type_synonym 'a seg = "diff_kind \<times> 'a list"

definition seg_old :: "'a seg list \<Rightarrow> 'a list" where
  "seg_old segs = concat (map snd (filter (\<lambda>s. fst s \<noteq> DInsert) segs))"

definition seg_new :: "'a seg list \<Rightarrow> 'a list" where
  "seg_new segs = concat (map snd (filter (\<lambda>s. fst s \<noteq> DDelete) segs))"

definition fast_diff_contract :: "(jsstr \<Rightarrow> jsstr \<Rightarrow> jschar seg list) \<Rightarrow> bool" where
  "fast_diff_contract diff \<longleftrightarrow>
     (\<forall>a b. seg_old (diff a b) = a \<and> seg_new (diff a b) = b
        \<and> (\<forall>s \<in> set (diff a b). snd s \<noteq> [])
        \<and> (a = b \<longrightarrow> (\<forall>s \<in> set (diff a b). fst s = DEqual)))"

lemma seg_old_simps [simp]:
  "seg_old [] = []"
  "seg_old ((DEqual, t) # segs) = t @ seg_old segs"
  "seg_old ((DDelete, t) # segs) = t @ seg_old segs"
  "seg_old ((DInsert, t) # segs) = seg_old segs"
  by (simp_all add: seg_old_def)

lemma seg_new_simps [simp]:
  "seg_new [] = []"
  "seg_new ((DEqual, t) # segs) = t @ seg_new segs"
  "seg_new ((DDelete, t) # segs) = seg_new segs"
  "seg_new ((DInsert, t) # segs) = t @ seg_new segs"
  by (simp_all add: seg_new_def)

section \<open>Hunks\<close>

datatype 'a hunk = Hunk (h_start: nat) (h_end: nat) (h_new: "'a list")

definition js_slice :: "'a list \<Rightarrow> nat \<Rightarrow> nat \<Rightarrow> 'a list" where
  "js_slice xs i j = drop i (take j xs)"

text \<open>
  The accumulating loop over diff segments: an edit opens a hunk at the base cursor (or extends the
  open one), an equal segment closes it.
\<close>

definition ensure_hunk :: "nat \<Rightarrow> 'a hunk option \<Rightarrow> 'a hunk" where
  "ensure_hunk pos cur = (case cur of None \<Rightarrow> Hunk pos pos [] | Some h \<Rightarrow> h)"

definition flush_hunk :: "'a hunk option \<Rightarrow> 'a hunk list" where
  "flush_hunk cur = (case cur of None \<Rightarrow> [] | Some h \<Rightarrow> [h])"

fun collect_hunks :: "'a seg list \<Rightarrow> nat \<Rightarrow> 'a hunk option \<Rightarrow> 'a hunk list" where
  "collect_hunks [] pos cur = flush_hunk cur"
| "collect_hunks ((DEqual, t) # segs) pos cur =
     flush_hunk cur @ collect_hunks segs (pos + length t) None"
| "collect_hunks ((DDelete, t) # segs) pos cur =
     (let h = ensure_hunk pos cur in
      collect_hunks segs (pos + length t) (Some (Hunk (h_start h) (pos + length t) (h_new h))))"
| "collect_hunks ((DInsert, t) # segs) pos cur =
     (let h = ensure_hunk pos cur in
      collect_hunks segs pos (Some (Hunk (h_start h) (h_end h) (h_new h @ t))))"

text \<open>Applying a script from a cursor: copy up to the hunk, emit it, continue at its end.\<close>

fun apply_hunks :: "'a list \<Rightarrow> nat \<Rightarrow> 'a hunk list \<Rightarrow> 'a list" where
  "apply_hunks base cursor [] = drop cursor base"
| "apply_hunks base cursor (h # hs) =
     js_slice base cursor (h_start h) @ h_new h @ apply_hunks base (h_end h) hs"

text \<open>
  A script is a chain over \<open>base[lo..n)\<close> when its hunks are in bounds and strictly separated: at
  least one untouched element lies between two hunks.
\<close>

definition hunk_ok :: "nat \<Rightarrow> nat \<Rightarrow> 'a hunk \<Rightarrow> bool" where
  "hunk_ok lo n h \<longleftrightarrow> lo \<le> h_start h \<and> h_start h \<le> h_end h \<and> h_end h \<le> n"

definition hunk_chain :: "nat \<Rightarrow> nat \<Rightarrow> 'a hunk list \<Rightarrow> bool" where
  "hunk_chain lo n hs \<longleftrightarrow>
     (\<forall>h \<in> set hs. hunk_ok lo n h) \<and> sorted_wrt (\<lambda>x y. h_end x < h_start y) hs"

text \<open>The weaker order of a merged script: hunks may touch, but never overlap.\<close>

definition hunk_path :: "nat \<Rightarrow> nat \<Rightarrow> 'a hunk list \<Rightarrow> bool" where
  "hunk_path lo n hs \<longleftrightarrow>
     (\<forall>h \<in> set hs. hunk_ok lo n h) \<and> sorted_wrt (\<lambda>x y. h_end x \<le> h_start y) hs"

definition hunk_key :: "'a hunk \<Rightarrow> nat \<times> nat" where
  "hunk_key h = (h_start h, h_end h)"

lemma js_slice_self [simp]: "js_slice xs i i = []"
  by (simp add: js_slice_def)

lemma js_slice_all: "js_slice xs i (length xs) = drop i xs"
  by (simp add: js_slice_def)

lemma js_slice_append:
  "i \<le> j \<Longrightarrow> j \<le> k \<Longrightarrow> js_slice xs i j @ js_slice xs j k = js_slice xs i k"
proof -
  assume "i \<le> j" "j \<le> k"
  then have "js_slice xs j k = drop (j - i) (js_slice xs i k)" "js_slice xs i j = take (j - i) (js_slice xs i k)"
    by (simp_all add: js_slice_def take_drop min_def)
  then show ?thesis by simp
qed

lemma js_slice_drop: "i \<le> j \<Longrightarrow> js_slice xs i j @ drop j xs = drop i xs"
  using append_take_drop_id [of "j - i" "drop i xs"] by (simp add: js_slice_def drop_take)

lemma hunk_chain_Nil [simp]: "hunk_chain lo n []"
  by (simp add: hunk_chain_def)

lemma hunk_chain_Cons:
  "hunk_chain lo n (h # hs) \<longleftrightarrow>
     hunk_ok lo n h \<and> (\<forall>x \<in> set hs. h_end h < h_start x) \<and> hunk_chain lo n hs"
  by (auto simp: hunk_chain_def)

lemma hunk_chain_mono: "hunk_chain lo n hs \<Longrightarrow> lo' \<le> lo \<Longrightarrow> hunk_chain lo' n hs"
  by (auto simp: hunk_chain_def hunk_ok_def)

lemma hunk_chain_path: "hunk_chain lo n hs \<Longrightarrow> hunk_path lo n hs"
  by (auto simp: hunk_chain_def hunk_path_def intro: sorted_wrt_mono_rel [rotated])

lemma hunk_chain_distinct: "hunk_chain lo n hs \<Longrightarrow> distinct hs"
  by (induction hs) (auto simp: hunk_chain_Cons hunk_ok_def)

lemma hunk_chain_related:
  "hunk_chain lo n hs \<Longrightarrow> x \<in> set hs \<Longrightarrow> y \<in> set hs \<Longrightarrow>
     x = y \<or> h_end x < h_start y \<or> h_end y < h_start x"
  by (induction hs) (auto simp: hunk_chain_Cons)

section \<open>Hunks of a diff\<close>

lemma collect_hunks_start:
  "s \<le> pos \<Longrightarrow> h \<in> set (collect_hunks segs pos (Some (Hunk s e l))) \<Longrightarrow> s \<le> h_start h"
  "h \<in> set (collect_hunks segs pos None) \<Longrightarrow> pos \<le> h_start h"
proof (induction segs arbitrary: pos s e l)
  case Nil
  { case 1 then show ?case by (simp add: flush_hunk_def) }
  { case 2 then show ?case by (simp add: flush_hunk_def) }
next
  case (Cons sg segs)
  obtain k t where sg: "sg = (k, t)" by (cases sg)
  { case 1
    then show ?case
      using Cons.IH(1) [of s "pos + length t" "pos + length t" l] Cons.IH(1) [of s pos e "l @ t"]
        Cons.IH(2) [of "pos + length t"]
      by (cases k) (auto simp: sg flush_hunk_def ensure_hunk_def) }
  { case 2
    then show ?case
      using Cons.IH(1) [of pos "pos + length t" "pos + length t" "[]"] Cons.IH(1) [of pos pos pos t]
        Cons.IH(2) [of "pos + length t"]
      by (cases k) (auto simp: sg flush_hunk_def ensure_hunk_def) }
qed

lemma collect_hunks_chain:
  "\<forall>sg \<in> set segs. snd sg \<noteq> [] \<Longrightarrow> s \<le> pos \<Longrightarrow>
     hunk_chain s (pos + length (seg_old segs)) (collect_hunks segs pos (Some (Hunk s pos l)))"
  "\<forall>sg \<in> set segs. snd sg \<noteq> [] \<Longrightarrow>
     hunk_chain pos (pos + length (seg_old segs)) (collect_hunks segs pos None)"
proof (induction segs arbitrary: pos s l)
  case Nil
  { case 1 then show ?case by (simp add: flush_hunk_def hunk_chain_Cons hunk_ok_def) }
  { case 2 then show ?case by (simp add: flush_hunk_def) }
next
  case (Cons sg segs)
  obtain k t where sg: "sg = (k, t)" by (cases sg)
  have t: "t \<noteq> []" if "\<forall>x \<in> set (sg # segs). snd x \<noteq> []" using that sg by simp
  { case 1
    have tail: "hunk_chain (pos + length t) (pos + length t + length (seg_old segs))
        (collect_hunks segs (pos + length t) None)"
      using 1 by (intro Cons.IH(2)) simp
    have later: "pos < h_start h" if "h \<in> set (collect_hunks segs (pos + length t) None)" for h
      using collect_hunks_start(2) [OF that] t [OF 1(1)] by (cases t) auto
    show ?case
      using 1 Cons.IH(1) [of s "pos + length t" l] Cons.IH(1) [of s pos "l @ t"]
        hunk_chain_mono [OF tail, of s] later
      by (cases k) (simp_all add: sg flush_hunk_def ensure_hunk_def hunk_chain_Cons hunk_ok_def
          add.assoc) }
  { case 2
    have tail: "hunk_chain (pos + length t) (pos + length t + length (seg_old segs))
        (collect_hunks segs (pos + length t) None)"
      using 2 by (intro Cons.IH(2)) simp
    show ?case
      using 2 Cons.IH(1) [of pos "pos + length t" "[]"] Cons.IH(1) [of pos pos t]
        hunk_chain_mono [OF tail, of pos]
      by (cases k) (auto simp: sg flush_hunk_def ensure_hunk_def add.assoc) }
qed

lemma apply_hunks_advance:
  assumes "c \<le> c'" and "\<forall>h \<in> set hs. c' \<le> h_start h"
  shows "apply_hunks base c hs = js_slice base c c' @ apply_hunks base c' hs"
  using assms by (cases hs) (simp_all add: js_slice_drop js_slice_append flip: append_assoc)

text \<open>
  Applying the hunks of a diff gives the new text; the open hunk of the loop always ends at the
  cursor.
\<close>

lemma collect_hunks_apply:
  "drop pos base = seg_old segs \<Longrightarrow>
     apply_hunks base c (collect_hunks segs pos (Some (Hunk s pos l))) =
       js_slice base c s @ l @ seg_new segs"
  "drop pos base = seg_old segs \<Longrightarrow>
     apply_hunks base pos (collect_hunks segs pos None) = seg_new segs"
proof (induction segs arbitrary: pos c s l)
  case Nil
  { case 1 then show ?case by (simp add: flush_hunk_def) }
  { case 2 then show ?case by (simp add: flush_hunk_def) }
next
  case (Cons sg segs)
  obtain k t where sg: "sg = (k, t)" by (cases sg)
  have advance: "drop (pos + length t) base = seg_old segs"
    and here: "js_slice base pos (pos + length t) = t"
    if "drop pos base = t @ seg_old segs" for pos
    using that by (simp_all add: js_slice_def add.commute [of pos] flip: drop_drop take_drop)
  have equal_tail: "apply_hunks base pos (collect_hunks segs (pos + length t) None) = t @ seg_new segs"
    if "drop pos base = t @ seg_old segs" for pos
    using apply_hunks_advance [of pos "pos + length t" "collect_hunks segs (pos + length t) None" base]
      collect_hunks_start(2) [of _ segs "pos + length t"] Cons.IH(2) [OF advance [OF that]]
      here [OF that]
    by simp
  { case 1
    then show ?case
      using Cons.IH(1) [OF advance, of pos c s l] Cons.IH(1) [of pos c s "l @ t"] equal_tail [of pos]
      by (cases k) (auto simp: sg flush_hunk_def ensure_hunk_def) }
  { case 2
    then show ?case
      using Cons.IH(1) [OF advance, of pos pos pos "[]"] Cons.IH(1) [of pos pos pos t] equal_tail [of pos]
      by (cases k) (auto simp: sg flush_hunk_def ensure_hunk_def) }
qed

lemma collect_hunks_equal: "\<forall>s \<in> set segs. fst s = DEqual \<Longrightarrow> collect_hunks segs pos None = []"
proof (induction segs arbitrary: pos)
  case Nil
  then show ?case by (simp add: flush_hunk_def)
next
  case (Cons sg segs)
  then show ?case by (cases sg) (simp add: flush_hunk_def)
qed

section \<open>Combining the scripts of two sides\<close>

lemma sorted_wrt_by_key:
  assumes "distinct xs" "sorted (map k xs)"
    and "\<And>x y. x \<in> set xs \<Longrightarrow> y \<in> set xs \<Longrightarrow> x \<noteq> y \<Longrightarrow> k x \<le> k y \<Longrightarrow> P x y"
  shows "sorted_wrt P xs"
  using assms by (induction xs) auto

definition combine_scripts :: "'a hunk list \<Rightarrow> 'a hunk list \<Rightarrow> 'a hunk list" where
  "combine_scripts ls rs = sort_key hunk_key (rev (remdups (rev (ls @ rs))))"

lemma set_combine_scripts [simp]: "set (combine_scripts ls rs) = set ls \<union> set rs"
  and distinct_combine_scripts [simp]: "distinct (combine_scripts ls rs)"
  by (auto simp: combine_scripts_def)

lemma combine_scripts_chain:
  assumes "hunk_chain lo n ls" "hunk_chain lo n rs"
    and "\<And>l r. l \<in> set ls \<Longrightarrow> r \<in> set rs \<Longrightarrow>
           l = r \<or> h_end l < h_start r \<or> h_end r < h_start l"
  shows "hunk_chain lo n (combine_scripts ls rs)"
proof -
  have ok: "hunk_ok lo n h" if "h \<in> set ls \<union> set rs" for h
    using that assms(1,2) by (auto simp: hunk_chain_def)
  have apart: "x = y \<or> h_end x < h_start y \<or> h_end y < h_start x"
    if "x \<in> set ls \<union> set rs" "y \<in> set ls \<union> set rs" for x y
    using that hunk_chain_related [OF assms(1), of x y] hunk_chain_related [OF assms(2), of x y]
      assms(3) [of x y] assms(3) [of y x] by blast
  have "h_end x < h_start y"
    if "x \<in> set ls \<union> set rs" "y \<in> set ls \<union> set rs" "x \<noteq> y" "hunk_key x \<le> hunk_key y" for x y
    using apart [OF that(1,2)] ok [OF that(1)] ok [OF that(2)] that(3,4)
    by (auto simp: hunk_key_def hunk_ok_def less_eq_prod_def)
  then have "sorted_wrt (\<lambda>x y. h_end x < h_start y) (combine_scripts ls rs)"
    by (intro sorted_wrt_by_key [where k = hunk_key])
      (simp_all only: set_combine_scripts distinct_combine_scripts, simp add: combine_scripts_def)
  then show ?thesis using ok by (simp add: hunk_chain_def)
qed

lemma hunk_chain_inj_key: "hunk_chain lo n hs \<Longrightarrow> inj_on hunk_key (set hs)"
proof (rule inj_onI)
  fix x y assume c: "hunk_chain lo n hs" and "x \<in> set hs" "y \<in> set hs" "hunk_key x = hunk_key y"
  then show "x = y"
    using hunk_chain_related [OF c, of x y] by (auto simp: hunk_key_def hunk_chain_def hunk_ok_def)
qed

lemma hunk_chain_sorted_key: "hunk_chain lo n hs \<Longrightarrow> sorted (map hunk_key hs)"
  by (induction hs) (auto simp: hunk_chain_Cons hunk_key_def hunk_ok_def less_eq_prod_def)

lemma hunk_chain_unique:
  assumes "hunk_chain lo n xs" "hunk_chain lo n ys" "set xs = set ys"
  shows "xs = ys"
proof -
  have "mset ys = mset xs"
    using assms hunk_chain_distinct set_eq_iff_mset_eq_distinct by metis
  then have "sort_key hunk_key ys = xs"
    using hunk_chain_inj_key [OF assms(2)] hunk_chain_sorted_key [OF assms(1)]
    by (intro sort_key_inj_key_eq) simp_all
  moreover have "sort_key hunk_key ys = ys"
    using hunk_chain_inj_key [OF assms(2)] hunk_chain_sorted_key [OF assms(2)]
    by (intro sort_key_inj_key_eq) simp_all
  ultimately show ?thesis by simp
qed

lemma apply_hunks_sublist: "h \<in> set hs \<Longrightarrow> sublist (h_new h) (apply_hunks base c hs)"
proof (induction hs arbitrary: c)
  case (Cons x hs)
  show ?case
  proof (cases "h = x")
    case True
    then show ?thesis by simp
  next
    case False
    then have "sublist (h_new h) (apply_hunks base (h_end x) hs)"
      using Cons by simp
    then show ?thesis
      by (auto simp: sublist_def) (metis append.assoc)
  qed
qed simp

lemma sublist_concat: "sublist xs ys \<Longrightarrow> sublist (concat xs) (concat ys)"
  unfolding sublist_def by (metis concat_append)

text \<open>The base elements no hunk covers, from position \<open>c\<close> on.\<close>

definition untouched :: "'a list \<Rightarrow> nat \<Rightarrow> 'a hunk list \<Rightarrow> 'a list" where
  "untouched base c hs =
     map (\<lambda>i. base ! i)
       (filter (\<lambda>i. \<forall>h \<in> set hs. i < h_start h \<or> h_end h \<le> i) [c ..< length base])"

lemma js_slice_nth: "j \<le> length xs \<Longrightarrow> js_slice xs i j = map (\<lambda>k. xs ! k) [i ..< j]"
  by (intro nth_equalityI) (auto simp: js_slice_def)

lemma upt_split: "i \<le> j \<Longrightarrow> j \<le> k \<Longrightarrow> [i ..< k] = [i ..< j] @ [j ..< k]"
  using upt_add_eq_append [of i j "k - j"] by simp

lemma untouched_Cons:
  assumes "hunk_path c (length base) (h # hs)"
  shows "untouched base c (h # hs) = js_slice base c (h_start h) @ untouched base (h_end h) hs"
proof -
  have b: "c \<le> h_start h" "h_start h \<le> h_end h" "h_end h \<le> length base"
    and later: "\<forall>x \<in> set hs. h_end h \<le> h_start x"
    using assms by (auto simp: hunk_path_def hunk_ok_def)
  let ?keep = "\<lambda>hs i. \<forall>x \<in> set hs. i < h_start x \<or> h_end x \<le> i"
  have split: "[c ..< length base] = [c ..< h_start h] @ [h_start h ..< h_end h] @ [h_end h ..< length base]"
    using b upt_split [of c "h_start h" "length base"] upt_split [of "h_start h" "h_end h" "length base"]
    by simp
  have "filter (?keep (h # hs)) [c ..< h_start h] = [c ..< h_start h]"
    using b later by (intro filter_True) fastforce
  moreover have "filter (?keep (h # hs)) [h_start h ..< h_end h] = []"
    by (intro filter_False) auto
  moreover have "filter (?keep (h # hs)) [h_end h ..< length base] = filter (?keep hs) [h_end h ..< length base]"
    by (intro filter_cong) auto
  ultimately have "filter (?keep (h # hs)) [c ..< length base]
      = [c ..< h_start h] @ filter (?keep hs) [h_end h ..< length base]"
    unfolding split filter_append by simp
  then show ?thesis
    using b by (simp add: untouched_def js_slice_nth)
qed

lemma apply_hunks_untouched:
  "hunk_path c (length base) hs \<Longrightarrow> subseq (untouched base c hs) (apply_hunks base c hs)"
proof (induction hs arbitrary: c)
  case Nil
  have "untouched base c [] = drop c base"
    by (auto simp: untouched_def map_nth intro: nth_equalityI)
  then show ?case by simp
next
  case (Cons h hs)
  have "hunk_path (h_end h) (length base) hs"
    using Cons.prems by (auto simp: hunk_path_def hunk_ok_def)
  then have "subseq (untouched base (h_end h) hs) (apply_hunks base (h_end h) hs)"
    by (rule Cons.IH)
  then show ?case
    unfolding untouched_Cons [OF Cons.prems]
    by (simp add: list_emb_append_mono list_emb_append2)
qed

section \<open>A concrete diff that satisfies the contract\<close>

text \<open>
  Common prefix, common suffix, and one replacement between them; used to show that the contract
  can hold.
\<close>

definition affix_diff :: "jsstr \<Rightarrow> jsstr \<Rightarrow> jschar seg list" where
  "affix_diff a b =
     (let p = longest_common_prefix a b;
          a' = drop (length p) a; b' = drop (length p) b;
          s = rev (longest_common_prefix (rev a') (rev b'))
      in filter (\<lambda>sg. snd sg \<noteq> [])
           [(DEqual, p), (DDelete, take (length a' - length s) a'),
            (DInsert, take (length b' - length s) b'), (DEqual, s)])"

lemma seg_filter_nonempty:
  "seg_old (filter (\<lambda>sg. snd sg \<noteq> []) segs) = seg_old segs"
  "seg_new (filter (\<lambda>sg. snd sg \<noteq> []) segs) = seg_new segs"
  by (induction segs) (auto simp: seg_old_def seg_new_def)

lemma take_rev_prefix: "prefix (rev s) (rev xs) \<Longrightarrow> take (length xs - length s) xs @ s = xs"
  by (auto simp: prefix_def rev_swap)

lemma drop_prefix: "prefix p xs \<Longrightarrow> p @ drop (length p) xs = xs"
  by (auto simp: prefix_def)

lemma affix_diff_contract: "fast_diff_contract affix_diff"
  unfolding fast_diff_contract_def
proof (intro allI conjI)
  fix a b :: jsstr
  define p where "p = longest_common_prefix a b"
  define s where "s = rev (longest_common_prefix (rev (drop (length p) a)) (rev (drop (length p) b)))"
  have p: "prefix p a" "prefix p b"
    by (simp_all add: p_def longest_common_prefix_prefix1 longest_common_prefix_prefix2)
  have s: "prefix (rev s) (rev (drop (length p) a))" "prefix (rev s) (rev (drop (length p) b))"
    by (simp_all add: s_def longest_common_prefix_prefix1 longest_common_prefix_prefix2)
  have eq: "affix_diff a b = filter (\<lambda>sg. snd sg \<noteq> [])
      [(DEqual, p), (DDelete, take (length (drop (length p) a) - length s) (drop (length p) a)),
       (DInsert, take (length (drop (length p) b) - length s) (drop (length p) b)), (DEqual, s)]"
    by (simp only: affix_diff_def Let_def p_def s_def)
  show "seg_old (affix_diff a b) = a" "seg_new (affix_diff a b) = b"
    unfolding eq seg_filter_nonempty
    using drop_prefix [OF p(1)] drop_prefix [OF p(2)] take_rev_prefix [OF s(1)] take_rev_prefix [OF s(2)]
    by simp_all
  show "\<forall>sg \<in> set (affix_diff a b). snd sg \<noteq> []"
    by (simp add: affix_diff_def Let_def)
  show "a = b \<longrightarrow> (\<forall>sg \<in> set (affix_diff a b). fst sg = DEqual)"
  proof
    assume ab: "a = b"
    have "prefix a p"
      unfolding p_def ab by (intro longest_common_prefix_max_prefix) simp_all
    then have "p = a" using p(1) by (simp add: prefix_order.eq_iff)
    then show "\<forall>sg \<in> set (affix_diff a b). fst sg = DEqual"
      unfolding eq using ab by simp
  qed
qed

end
