(* ===== verification/ThreeWayMerge.thy ===== *)
theory ThreeWayMerge
  imports Edits
begin

text \<open>
  The line-based three-way merge of \<^verbatim>\<open>src/src/utils/threeWayMerge.ts\<close> and its caller
  \<^verbatim>\<open>planOpenExternalEdit\<close> (\<^verbatim>\<open>src/src/runtime/reconcile/openExternalEditPlanner.ts\<close>).

  Lines keep their newline.  Lines are turned into private-use code units so that the character
  diff (the parameter \<open>diff\<close>) works on lines; past 6400 distinct lines the whole text is one
  change.  A merge is clean when no change of one side touches a different change of the other
  and neither of the two ambiguity detectors fires.
\<close>

section \<open>Lines and tokens\<close>

definition LINE_TOKEN_BASE :: nat where "LINE_TOKEN_BASE = 0xe000"
definition MAX_LINE_TOKENS :: nat where "MAX_LINE_TOKENS = 0xf8ff - LINE_TOKEN_BASE + 1"

abbreviation newline :: jschar where "newline \<equiv> 10"

function splitLineTokens :: "jsstr \<Rightarrow> jsstr list" where
  "splitLineTokens t =
     (if t = [] then []
      else let line = takeWhile (\<lambda>c. c \<noteq> newline) t;
               rest = dropWhile (\<lambda>c. c \<noteq> newline) t
           in if rest = [] then [line] else (line @ [newline]) # splitLineTokens (tl rest))"
  by pat_completeness auto
termination
proof (relation "measure length", goal_cases)
  case (2 t x xa)
  then show ?case
    using length_dropWhile_le [of "\<lambda>c. c \<noteq> newline" t]
    by (cases "dropWhile (\<lambda>c. c \<noteq> newline) t") auto
qed simp

declare splitLineTokens.simps [simp del]

type_synonym token_state = "(jsstr \<rightharpoonup> jschar) \<times> jsstr list"

definition tokenForLine :: "jsstr \<Rightarrow> token_state \<Rightarrow> (jschar \<times> token_state) option" where
  "tokenForLine line st =
     (case fst st line of
        Some tok \<Rightarrow> Some (tok, st)
      | None \<Rightarrow>
          if length (snd st) \<ge> MAX_LINE_TOKENS then None
          else let tok = of_nat (LINE_TOKEN_BASE + length (snd st))
               in Some (tok, ((fst st)(line \<mapsto> tok), snd st @ [line])))"

fun encode_lines :: "jsstr list \<Rightarrow> token_state \<Rightarrow> (jsstr \<times> token_state) option" where
  "encode_lines [] st = Some ([], st)"
| "encode_lines (line # ls) st =
     (case tokenForLine line st of
        None \<Rightarrow> None
      | Some (tok, st') \<Rightarrow>
          (case encode_lines ls st' of
             None \<Rightarrow> None
           | Some (toks, st'') \<Rightarrow> Some (tok # toks, st'')))"

record encoded_lines =
  en_base :: jsstr
  en_variant :: jsstr
  en_lines :: "jsstr list"

definition encodeLineTokens :: "jsstr list \<Rightarrow> jsstr list \<Rightarrow> encoded_lines option" where
  "encodeLineTokens baseLines variantLines =
     (case encode_lines baseLines (Map.empty, []) of
        None \<Rightarrow> None
      | Some (b, st) \<Rightarrow>
          (case encode_lines variantLines st of
             None \<Rightarrow> None
           | Some (v, st') \<Rightarrow> Some \<lparr> en_base = b, en_variant = v, en_lines = snd st' \<rparr>))"

definition decodeTokenText :: "jsstr list \<Rightarrow> jsstr \<Rightarrow> jsstr list" where
  "decodeTokenText ls toks =
     map (\<lambda>tok. let k = int (unat tok) - int LINE_TOKEN_BASE
                in if 0 \<le> k \<and> k < int (length ls) then ls ! nat k else []) toks"

type_synonym line_change = "jsstr hunk"

definition buildLineChanges ::
  "(jsstr \<Rightarrow> jsstr \<Rightarrow> jschar seg list) \<Rightarrow> jsstr list \<Rightarrow> jsstr list \<Rightarrow> line_change list" where
  "buildLineChanges diff baseLines variantLines =
     (case encodeLineTokens baseLines variantLines of
        None \<Rightarrow> [Hunk 0 (length baseLines) variantLines]
      | Some e \<Rightarrow>
          collect_hunks
            (map (\<lambda>(k, toks). (k, decodeTokenText (en_lines e) toks)) (diff (en_base e) (en_variant e)))
            0 None)"

section \<open>Ranges and conflicts\<close>

datatype base_range = BaseRange (r_start: nat) (r_end: nat)

instantiation base_range :: linorder
begin

definition less_eq_base_range :: "base_range \<Rightarrow> base_range \<Rightarrow> bool" where
  "less_eq_base_range a b \<longleftrightarrow> r_start a < r_start b \<or> (r_start a = r_start b \<and> r_end a \<le> r_end b)"

definition less_base_range :: "base_range \<Rightarrow> base_range \<Rightarrow> bool" where
  "less_base_range a b \<longleftrightarrow> r_start a < r_start b \<or> (r_start a = r_start b \<and> r_end a < r_end b)"

instance
  by standard (auto simp: less_eq_base_range_def less_base_range_def base_range.expand)

end

definition lineChangesEqual :: "line_change \<Rightarrow> line_change \<Rightarrow> bool" where
  "lineChangesEqual l r \<longleftrightarrow>
     h_start l = h_start r \<and> h_end l = h_end r
     \<and> length (h_new l) = length (h_new r) \<and> list_all2 (=) (h_new l) (h_new r)"

definition rangesTouch :: "line_change \<Rightarrow> line_change \<Rightarrow> bool" where
  "rangesTouch l r \<longleftrightarrow> h_start l \<le> h_end r \<and> h_start r \<le> h_end l"

definition cover_range :: "line_change \<Rightarrow> line_change \<Rightarrow> base_range" where
  "cover_range l r = BaseRange (min (h_start l) (h_start r)) (max (h_end l) (h_end r))"

fun merge_sorted_ranges :: "base_range list \<Rightarrow> base_range list" where
  "merge_sorted_ranges (x # y # rs) =
     (if r_start y \<le> r_end x
      then merge_sorted_ranges (BaseRange (r_start x) (max (r_end x) (r_end y)) # rs)
      else x # merge_sorted_ranges (y # rs))"
| "merge_sorted_ranges rs = rs"

definition mergeBaseRanges :: "base_range list \<Rightarrow> base_range list" where
  "mergeBaseRanges ranges = merge_sorted_ranges (sort ranges)"

definition collectConflictRanges :: "line_change list \<Rightarrow> line_change list \<Rightarrow> base_range list" where
  "collectConflictRanges ls rs =
     mergeBaseRanges
       (concat (map (\<lambda>l. concat (map (\<lambda>r.
          if lineChangesEqual l r then [] else if \<not> rangesTouch l r then [] else [cover_range l r]) rs)) ls))"

fun containsLineSubsequence :: "jsstr list \<Rightarrow> jsstr list \<Rightarrow> bool" where
  "containsLineSubsequence container [] = True"
| "containsLineSubsequence [] (c # cs) = False"
| "containsLineSubsequence (line # ls) (c # cs) =
     (if line \<noteq> c then containsLineSubsequence ls (c # cs) else containsLineSubsequence ls cs)"

definition adjust :: "jsstr \<Rightarrow> int \<Rightarrow> (jsstr \<Rightarrow> int) \<Rightarrow> (jsstr \<Rightarrow> int)" where
  "adjust line delta counts = counts(line := counts line + delta)"

definition countLinesAfterChanges :: "jsstr list \<Rightarrow> line_change list \<Rightarrow> (jsstr \<Rightarrow> int)" where
  "countLinesAfterChanges baseLines changes =
     fold (\<lambda>c counts.
         fold (\<lambda>line. adjust line 1) (h_new c)
           (fold (\<lambda>line. adjust line (-1)) (js_slice baseLines (h_start c) (h_end c)) counts))
       changes (fold (\<lambda>line. adjust line 1) baseLines (\<lambda>_. 0))"

definition removed_lines_of :: "jsstr list \<Rightarrow> line_change \<Rightarrow> jsstr set" where
  "removed_lines_of baseLines shared =
     snd (fold (\<lambda>line (retained, removed).
            if retained line > 0 then (adjust line (-1) retained, removed)
            else (retained, insert line removed))
          (js_slice baseLines (h_start shared) (h_end shared))
          (fold (\<lambda>line. adjust line 1) (h_new shared) (\<lambda>_. 0 :: int), {}))"

definition collect_reintroductions ::
  "line_change \<Rightarrow> jsstr set \<Rightarrow> (jsstr \<Rightarrow> int) \<Rightarrow> line_change list \<Rightarrow> line_change list
   \<Rightarrow> (jsstr \<Rightarrow> int) \<Rightarrow> base_range list" where
  "collect_reintroductions shared removed common changes others counts =
     concat (map (\<lambda>c.
        if lineChangesEqual c shared then []
        else if list_ex (lineChangesEqual c) others then []
        else if \<not> list_ex (\<lambda>line. line \<in> removed \<and> counts line > common line) (h_new c) then []
        else [cover_range shared c]) changes)"

definition collectAmbiguousSharedRemovalReintroductionRanges ::
  "jsstr list \<Rightarrow> line_change list \<Rightarrow> line_change list \<Rightarrow> base_range list" where
  "collectAmbiguousSharedRemovalReintroductionRanges baseLines ls rs =
     (let sharedChanges = filter (\<lambda>l. list_ex (lineChangesEqual l) rs) ls;
          sharedRemovals = filter (\<lambda>c. h_start c < h_end c) sharedChanges;
          common = countLinesAfterChanges baseLines sharedChanges;
          leftCounts = countLinesAfterChanges baseLines ls;
          rightCounts = countLinesAfterChanges baseLines rs
      in mergeBaseRanges (concat (map (\<lambda>shared.
           let removed = removed_lines_of baseLines shared in
           if removed = {} then []
           else collect_reintroductions shared removed common ls rs leftCounts
                @ collect_reintroductions shared removed common rs ls rightCounts) sharedRemovals)))"

definition baseBridgeRangeBetween :: "line_change \<Rightarrow> line_change \<Rightarrow> base_range option" where
  "baseBridgeRangeBetween l r =
     (if h_end l < h_start r then Some (BaseRange (h_end l) (h_start r))
      else if h_end r < h_start l then Some (BaseRange (h_end r) (h_start l))
      else None)"

definition collectAmbiguousRepeatedLineAlignmentRanges ::
  "jsstr list \<Rightarrow> line_change list \<Rightarrow> line_change list \<Rightarrow> base_range list" where
  "collectAmbiguousRepeatedLineAlignmentRanges baseLines ls rs =
     mergeBaseRanges
       (concat (map (\<lambda>l. concat (map (\<lambda>r.
          (case baseBridgeRangeBetween l r of
             None \<Rightarrow> []
           | Some br \<Rightarrow>
               let bridge = js_slice baseLines (r_start br) (r_end br) in
               if containsLineSubsequence (h_new l) bridge \<and> containsLineSubsequence (h_new r) bridge
               then [cover_range l r] else [])) rs)) ls))"

section \<open>Applying changes\<close>

definition combineDistinctChanges ::
  "line_change list \<Rightarrow> line_change list \<Rightarrow> line_change list" where
  "combineDistinctChanges ls rs = rev (remdups (rev (ls @ rs)))"

definition applyNonConflictingChanges ::
  "jsstr list \<Rightarrow> line_change list \<Rightarrow> line_change list \<Rightarrow> jsstr" where
  "applyNonConflictingChanges baseLines ls rs =
     concat (apply_hunks baseLines 0 (sort_key hunk_key (combineDistinctChanges ls rs)))"

definition excludeConflictChanges :: "line_change list \<Rightarrow> base_range list \<Rightarrow> line_change list" where
  "excludeConflictChanges changes ranges =
     filter (\<lambda>c. \<not> list_ex (\<lambda>r. r_start r \<le> h_start c \<and> h_end c \<le> r_end r) ranges) changes"

fun apply_hunks_until :: "jsstr list \<Rightarrow> nat \<Rightarrow> nat \<Rightarrow> line_change list \<Rightarrow> jsstr list" where
  "apply_hunks_until baseLines cursor endp [] = js_slice baseLines cursor endp"
| "apply_hunks_until baseLines cursor endp (c # cs) =
     js_slice baseLines cursor (h_start c) @ h_new c @ apply_hunks_until baseLines (h_end c) endp cs"

definition applyRegion ::
  "jsstr list \<Rightarrow> line_change list \<Rightarrow> line_change list \<Rightarrow> nat \<Rightarrow> nat \<Rightarrow> jsstr" where
  "applyRegion baseLines ls rs start endp =
     concat (apply_hunks_until baseLines start endp
       (sort_key hunk_key
         (filter (\<lambda>c. start \<le> h_start c \<and> h_end c \<le> endp) (combineDistinctChanges ls rs))))"

fun apply_variant_from :: "jsstr list \<Rightarrow> nat \<Rightarrow> nat \<Rightarrow> nat \<Rightarrow> line_change list \<Rightarrow> jsstr list" where
  "apply_variant_from baseLines start endp cursor [] = js_slice baseLines cursor endp"
| "apply_variant_from baseLines start endp cursor (c # cs) =
     (if h_end c < start \<or> h_start c > endp then apply_variant_from baseLines start endp cursor cs
      else js_slice baseLines cursor (max cursor (h_start c)) @ h_new c
           @ apply_variant_from baseLines start endp (max cursor (h_end c)) cs)"

definition applyVariantRegion :: "jsstr list \<Rightarrow> line_change list \<Rightarrow> nat \<Rightarrow> nat \<Rightarrow> jsstr" where
  "applyVariantRegion baseLines changes start endp =
     concat (apply_variant_from baseLines start endp start changes)"

section \<open>Results\<close>

record conflict_hunk =
  ch_index :: nat
  ch_baseStart :: nat
  ch_baseEnd :: nat
  ch_baseText :: jsstr
  ch_leftText :: jsstr
  ch_rightText :: jsstr

datatype merge_segment = SegText jsstr | SegConflict nat

datatype merge_result =
    NoBase
  | CleanMerge jsstr
  | MergeConflict (mc_partial: jsstr) (mc_hunks: "conflict_hunk list") (mc_segments: "merge_segment list")

fun build_segments ::
  "jsstr list \<Rightarrow> line_change list \<Rightarrow> line_change list \<Rightarrow> line_change list \<Rightarrow> line_change list
   \<Rightarrow> nat \<Rightarrow> nat \<Rightarrow> base_range list \<Rightarrow> conflict_hunk list \<times> merge_segment list" where
  "build_segments baseLines ls rs safeL safeR cursor idx [] =
     ([], if cursor < length baseLines
          then [SegText (applyRegion baseLines safeL safeR cursor (length baseLines))] else [])"
| "build_segments baseLines ls rs safeL safeR cursor idx (rg # ranges) =
     (let before = (if cursor < r_start rg
                    then [SegText (applyRegion baseLines safeL safeR cursor (r_start rg))] else []);
          hunk = \<lparr> ch_index = idx, ch_baseStart = r_start rg, ch_baseEnd = r_end rg,
                   ch_baseText = concat (js_slice baseLines (r_start rg) (r_end rg)),
                   ch_leftText = applyVariantRegion baseLines ls (r_start rg) (r_end rg),
                   ch_rightText = applyVariantRegion baseLines rs (r_start rg) (r_end rg) \<rparr>;
          (hunks, segs) = build_segments baseLines ls rs safeL safeR (r_end rg) (Suc idx) ranges
      in (hunk # hunks, before @ SegConflict idx # segs))"

definition LEFT_MARKER :: jsstr where "LEFT_MARKER = js ''<<<<<<< LEFT'' @ [newline]"
definition MID_MARKER :: jsstr where "MID_MARKER = js ''======='' @ [newline]"
definition RIGHT_MARKER :: jsstr where "RIGHT_MARKER = js ''>>>>>>> RIGHT'' @ [newline]"

definition terminate_line :: "jsstr \<Rightarrow> jsstr" where
  "terminate_line t = (if t = [] \<or> last t = newline then t else t @ [newline])"

definition render_segment :: "conflict_hunk list \<Rightarrow> merge_segment \<Rightarrow> jsstr" where
  "render_segment hunks seg =
     (case seg of
        SegText t \<Rightarrow> t
      | SegConflict k \<Rightarrow>
          LEFT_MARKER @ terminate_line (ch_leftText (hunks ! k)) @ MID_MARKER
          @ terminate_line (ch_rightText (hunks ! k)) @ RIGHT_MARKER)"

definition buildConflictResult ::
  "jsstr list \<Rightarrow> line_change list \<Rightarrow> line_change list \<Rightarrow> base_range list \<Rightarrow> merge_result" where
  "buildConflictResult baseLines ls rs ranges =
     (let safeL = excludeConflictChanges ls ranges;
          safeR = excludeConflictChanges rs ranges;
          (hunks, segs) = build_segments baseLines ls rs safeL safeR 0 0 ranges
      in MergeConflict (concat (map (render_segment hunks) segs)) hunks segs)"

definition conflict_ranges :: "jsstr list \<Rightarrow> line_change list \<Rightarrow> line_change list \<Rightarrow> base_range list" where
  "conflict_ranges baseLines ls rs =
     mergeBaseRanges
       (collectConflictRanges ls rs
        @ collectAmbiguousSharedRemovalReintroductionRanges baseLines ls rs
        @ collectAmbiguousRepeatedLineAlignmentRanges baseLines ls rs)"

definition mergeTexts3 ::
  "(jsstr \<Rightarrow> jsstr \<Rightarrow> jschar seg list) \<Rightarrow> jsstr option \<Rightarrow> jsstr \<Rightarrow> jsstr \<Rightarrow> merge_result" where
  "mergeTexts3 diff baseText leftText rightText =
     (case baseText of
        None \<Rightarrow> NoBase
      | Some base \<Rightarrow>
          if leftText = rightText then CleanMerge leftText
          else if base = leftText then CleanMerge rightText
          else if base = rightText then CleanMerge leftText
          else
            let baseLines = splitLineTokens base;
                ls = buildLineChanges diff baseLines (splitLineTokens leftText);
                rs = buildLineChanges diff baseLines (splitLineTokens rightText);
                ranges = conflict_ranges baseLines ls rs
            in if ranges = [] then CleanMerge (applyNonConflictingChanges baseLines ls rs)
               else buildConflictResult baseLines ls rs ranges)"

section \<open>planOpenExternalEdit\<close>

datatype external_conflict_reason = ExternalMissingBaseline | OverlappingHunks

datatype open_external_edit_plan =
    AlreadySettled jsstr
  | ApplyExternal jsstr
  | KeepCurrent jsstr
  | ApplyCleanMerge jsstr
  | PreserveExternalConflict external_conflict_reason nat

definition planOpenExternalEdit ::
  "(jsstr \<Rightarrow> jsstr \<Rightarrow> jschar seg list) \<Rightarrow> jsstr option \<Rightarrow> jsstr \<Rightarrow> jsstr \<Rightarrow> open_external_edit_plan" where
  "planOpenExternalEdit diff baselineText currentText externalText =
     (if currentText = externalText then AlreadySettled currentText
      else if baselineText = None then PreserveExternalConflict ExternalMissingBaseline 0
      else case mergeTexts3 diff baselineText currentText externalText of
        MergeConflict t hunks segs \<Rightarrow> PreserveExternalConflict OverlappingHunks (length hunks)
      | NoBase \<Rightarrow> PreserveExternalConflict ExternalMissingBaseline 0
      | CleanMerge merged \<Rightarrow>
          if merged = externalText then ApplyExternal externalText
          else if merged = currentText then KeepCurrent currentText
          else ApplyCleanMerge merged)"

section \<open>Lines, tokens and changes\<close>

lemma lineChangesEqual_iff [simp]: "lineChangesEqual l r \<longleftrightarrow> l = r"
  by (cases l; cases r) (auto simp: lineChangesEqual_def list.rel_eq)

lemma concat_splitLineTokens [simp]: "concat (splitLineTokens t) = t"
proof (induction t rule: splitLineTokens.induct)
  case (1 t)
  show ?case
  proof (cases "t = [] \<or> dropWhile (\<lambda>c. c \<noteq> newline) t = []")
    case True
    then show ?thesis
      using takeWhile_dropWhile_id [of "\<lambda>c. c \<noteq> newline" t]
      by (subst splitLineTokens.simps) (auto simp: Let_def)
  next
    case False
    then obtain rest where d: "dropWhile (\<lambda>c. c \<noteq> newline) t = newline # rest"
      using hd_dropWhile [of "\<lambda>c. c \<noteq> newline" t]
      by (cases "dropWhile (\<lambda>c. c \<noteq> newline) t") auto
    have "concat (splitLineTokens rest) = rest"
      using "1.IH" False d by (metis list.sel(3))
    then show ?thesis
      using False d takeWhile_dropWhile_id [of "\<lambda>c. c \<noteq> newline" t]
      by (subst splitLineTokens.simps) (simp add: Let_def)
  qed
qed

definition token_inv :: "token_state \<Rightarrow> bool" where
  "token_inv st \<longleftrightarrow> length (snd st) \<le> MAX_LINE_TOKENS
     \<and> (\<forall>line tok. fst st line = Some tok \<longrightarrow>
          (\<exists>k < length (snd st). tok = of_nat (LINE_TOKEN_BASE + k) \<and> snd st ! k = line))"

lemma unat_token: "k < MAX_LINE_TOKENS \<Longrightarrow> unat (of_nat (LINE_TOKEN_BASE + k) :: jschar) = LINE_TOKEN_BASE + k"
  by (subst unat_of_nat) (simp add: MAX_LINE_TOKENS_def LINE_TOKEN_BASE_def)

lemma decode_token:
  assumes "k < length ls" "k < MAX_LINE_TOKENS" "prefix ls ls'"
  shows "decodeTokenText ls' [of_nat (LINE_TOKEN_BASE + k)] = [ls ! k]"
proof -
  have "k < length ls'" "ls' ! k = ls ! k"
    using assms by (auto simp: prefix_def nth_append)
  moreover have "uint (of_nat (LINE_TOKEN_BASE + k) :: jschar) = int (LINE_TOKEN_BASE + k)"
    using unat_token [OF assms(2)] by (metis of_nat_unat)
  ultimately show ?thesis
    by (simp add: decodeTokenText_def Let_def del: of_nat_add) (simp add: nat_int_add)
qed

lemma decode_Cons: "decodeTokenText ls (x # xs) = decodeTokenText ls [x] @ decodeTokenText ls xs"
  by (simp add: decodeTokenText_def)

lemma decode_append: "decodeTokenText ls (xs @ ys) = decodeTokenText ls xs @ decodeTokenText ls ys"
  by (simp add: decodeTokenText_def)

lemma tokenForLine_inv:
  assumes "token_inv st" and "tokenForLine line st = Some (tok, st')"
  shows "token_inv st' \<and> prefix (snd st) (snd st')
         \<and> (\<forall>ls. prefix (snd st') ls \<longrightarrow> decodeTokenText ls [tok] = [line])"
proof (cases "fst st line")
  case None
  then have st': "st' = ((fst st)(line \<mapsto> tok), snd st @ [line])"
    and tok: "tok = of_nat (LINE_TOKEN_BASE + length (snd st))"
    and len: "length (snd st) < MAX_LINE_TOKENS"
    using assms(2) by (auto simp: tokenForLine_def Let_def split: if_splits)
  have "token_inv st'"
    using assms(1) len tok by (fastforce simp: token_inv_def st' nth_append)
  moreover have "decodeTokenText ls [tok] = [line]" if "prefix (snd st') ls" for ls
    using decode_token [of "length (snd st)" "snd st'" ls] that len by (simp add: st' tok)
  ultimately show ?thesis by (simp add: st')
next
  case (Some t)
  then have eq: "st' = st" "tok = t" using assms(2) by (simp_all add: tokenForLine_def)
  obtain k where "k < length (snd st)" "tok = of_nat (LINE_TOKEN_BASE + k)" "snd st ! k = line"
    using assms(1) Some eq(2) by (auto simp: token_inv_def)
  then have "decodeTokenText ls [tok] = [line]" if "prefix (snd st) ls" for ls
    using decode_token [of k "snd st" ls] that assms(1) by (simp add: token_inv_def)
  then show ?thesis using assms(1) by (simp add: eq(1))
qed

lemma encode_lines_ConsE:
  assumes "encode_lines (x # xs) st = Some (toks, st')"
  obtains tok st1 toks1 where "tokenForLine x st = Some (tok, st1)"
    and "encode_lines xs st1 = Some (toks1, st')" and "toks = tok # toks1"
proof (cases "tokenForLine x st")
  case None
  then show ?thesis using assms by simp
next
  case (Some a)
  obtain tok st1 where a: "a = (tok, st1)" by (cases a)
  show ?thesis
  proof (cases "encode_lines xs st1")
    case None
    then show ?thesis using assms Some a by simp
  next
    case (Some c)
    then show ?thesis
      using that [of tok st1 "fst c"] assms \<open>tokenForLine x st = Some a\<close> a by (cases c) simp
  qed
qed

lemma encode_lines_inv:
  "encode_lines xs st = Some (toks, st') \<Longrightarrow> token_inv st \<Longrightarrow>
     token_inv st' \<and> prefix (snd st) (snd st')
     \<and> (\<forall>ls. prefix (snd st') ls \<longrightarrow> decodeTokenText ls toks = xs)"
proof (induction xs arbitrary: st toks)
  case Nil
  then show ?case by (simp add: decodeTokenText_def)
next
  case (Cons x xs)
  from Cons.prems(1) obtain tok st1 toks1
    where 1: "tokenForLine x st = Some (tok, st1)"
      and 2: "encode_lines xs st1 = Some (toks1, st')" and toks: "toks = tok # toks1"
    by (rule encode_lines_ConsE)
  from tokenForLine_inv [OF Cons.prems(2) 1]
  have st1: "token_inv st1" "prefix (snd st) (snd st1)"
    and dec: "\<And>ls. prefix (snd st1) ls \<Longrightarrow> decodeTokenText ls [tok] = [x]" by blast+
  from Cons.IH [OF 2 st1(1)]
  have st': "token_inv st'" "prefix (snd st1) (snd st')"
    and rest: "\<And>ls. prefix (snd st') ls \<Longrightarrow> decodeTokenText ls toks1 = xs" by blast+
  have "decodeTokenText ls toks = x # xs" if "prefix (snd st') ls" for ls
    using dec [OF prefix_order.trans [OF st'(2) that]] rest [OF that]
    unfolding toks by (subst decode_Cons) simp
  then show ?case
    using st' prefix_order.trans [OF st1(2) st'(2)] by blast
qed

text \<open>Encoding lines as tokens loses nothing: decoding gives the lines back.\<close>

lemma encodeLineTokens_roundtrip:
  assumes "encodeLineTokens b v = Some e"
  shows "decodeTokenText (en_lines e) (en_base e) = b \<and> decodeTokenText (en_lines e) (en_variant e) = v"
proof -
  obtain bt st vt st' where 1: "encode_lines b (Map.empty, []) = Some (bt, st)"
    and 2: "encode_lines v st = Some (vt, st')"
    and e: "e = \<lparr> en_base = bt, en_variant = vt, en_lines = snd st' \<rparr>"
    using assms by (auto simp: encodeLineTokens_def split: option.splits)
  have "token_inv (Map.empty, [])" by (simp add: token_inv_def)
  from encode_lines_inv [OF 1 this] encode_lines_inv [OF 2] show ?thesis by (simp add: e)
qed

lemma seg_map_decode:
  "seg_old (map (\<lambda>(k, toks). (k, decodeTokenText ls toks)) segs) = decodeTokenText ls (seg_old segs)"
  "seg_new (map (\<lambda>(k, toks). (k, decodeTokenText ls toks)) segs) = decodeTokenText ls (seg_new segs)"
proof (induction segs)
  case Nil
  show "seg_old (map (\<lambda>(k, toks). (k, decodeTokenText ls toks)) []) = decodeTokenText ls (seg_old [])"
    and "seg_new (map (\<lambda>(k, toks). (k, decodeTokenText ls toks)) []) = decodeTokenText ls (seg_new [])"
    by (simp_all add: decodeTokenText_def)
next
  case (Cons sg segs)
  obtain k t where sg: "sg = (k, t)" by (cases sg)
  show "seg_old (map (\<lambda>(k, toks). (k, decodeTokenText ls toks)) (sg # segs))
      = decodeTokenText ls (seg_old (sg # segs))"
    and "seg_new (map (\<lambda>(k, toks). (k, decodeTokenText ls toks)) (sg # segs))
      = decodeTokenText ls (seg_new (sg # segs))"
    using Cons.IH by (cases k; simp add: sg decode_append)+
qed

lemma fast_diff_contractD:
  assumes "fast_diff_contract diff"
  shows "seg_old (diff a b) = a" "seg_new (diff a b) = b"
    "\<forall>s \<in> set (diff a b). snd s \<noteq> []" "a = b \<Longrightarrow> \<forall>s \<in> set (diff a b). fst s = DEqual"
  using assms unfolding fast_diff_contract_def by blast+

lemma buildLineChanges_chain:
  assumes "fast_diff_contract diff"
  shows "hunk_chain 0 (length b) (buildLineChanges diff b v)"
proof (cases "encodeLineTokens b v")
  case None
  then show ?thesis by (simp add: buildLineChanges_def hunk_chain_Cons hunk_ok_def)
next
  case (Some e)
  let ?segs = "map (\<lambda>(k, toks). (k, decodeTokenText (en_lines e) toks)) (diff (en_base e) (en_variant e))"
  have "\<forall>sg \<in> set ?segs. snd sg \<noteq> []"
    using fast_diff_contractD(3) [OF assms] by (fastforce simp: decodeTokenText_def)
  moreover have "seg_old ?segs = b"
    using fast_diff_contractD(1) [OF assms] encodeLineTokens_roundtrip [OF Some]
    by (simp add: seg_map_decode)
  ultimately show ?thesis
    using collect_hunks_chain(2) [of ?segs 0] Some by (simp add: buildLineChanges_def)
qed

lemma buildLineChanges_apply:
  assumes "fast_diff_contract diff"
  shows "apply_hunks b 0 (buildLineChanges diff b v) = v"
proof (cases "encodeLineTokens b v")
  case None
  then show ?thesis by (simp add: buildLineChanges_def)
next
  case (Some e)
  then show ?thesis
    using fast_diff_contractD(1,2) [OF assms] encodeLineTokens_roundtrip [OF Some]
    by (simp add: buildLineChanges_def seg_map_decode collect_hunks_apply)
qed

section \<open>Ranges\<close>

lemma merge_sorted_ranges_eq_Nil [simp]: "merge_sorted_ranges rs = [] \<longleftrightarrow> rs = []"
  by (induction rs rule: merge_sorted_ranges.induct) auto

lemma mergeBaseRanges_eq_Nil [simp]: "mergeBaseRanges rs = [] \<longleftrightarrow> rs = []"
  by (simp add: mergeBaseRanges_def) (metis set_empty set_sort)



lemma merge_sorted_ranges_origin:
  "y \<in> set (merge_sorted_ranges rs) \<Longrightarrow> r_start y \<in> r_start ` set rs \<and> r_end y \<in> r_end ` set rs"
proof (induction rs rule: merge_sorted_ranges.induct)
  case (1 a b rs)
  then show ?case by (cases "r_start b \<le> r_end a") (auto simp: max_def split: if_splits)
qed auto





lemma mergeBaseRanges_origin:
  "y \<in> set (mergeBaseRanges rs) \<Longrightarrow> r_start y \<in> r_start ` set rs \<and> r_end y \<in> r_end ` set rs"
  using merge_sorted_ranges_origin [of y "sort rs"] by (simp add: mergeBaseRanges_def)

section \<open>When a merge is clean\<close>

lemma collectConflictRanges_eq_Nil:
  "collectConflictRanges ls rs = [] \<longleftrightarrow> (\<forall>l \<in> set ls. \<forall>r \<in> set rs. l = r \<or> \<not> rangesTouch l r)"
  by (auto simp: collectConflictRanges_def)

lemma conflict_ranges_eq_Nil:
  "conflict_ranges b ls rs = [] \<longleftrightarrow>
     collectConflictRanges ls rs = []
     \<and> collectAmbiguousSharedRemovalReintroductionRanges b ls rs = []
     \<and> collectAmbiguousRepeatedLineAlignmentRanges b ls rs = []"
  by (simp add: conflict_ranges_def)

lemma applyNonConflictingChanges_combine:
  "applyNonConflictingChanges b ls rs = concat (apply_hunks b 0 (combine_scripts ls rs))"
  by (simp add: applyNonConflictingChanges_def combineDistinctChanges_def combine_scripts_def)

lemma clean_scripts_chain:
  assumes "hunk_chain 0 n ls" "hunk_chain 0 n rs" "collectConflictRanges ls rs = []"
  shows "hunk_chain 0 n (combine_scripts ls rs)"
proof (rule combine_scripts_chain [OF assms(1,2)])
  fix l r assume "l \<in> set ls" "r \<in> set rs"
  then have "l = r \<or> \<not> rangesTouch l r"
    using assms(3) by (auto simp: collectConflictRanges_eq_Nil)
  then show "l = r \<or> h_end l < h_start r \<or> h_end r < h_start l"
    by (auto simp: rangesTouch_def)
qed

lemma mergeTexts3_CleanE:
  assumes "mergeTexts3 diff (Some base) l r = CleanMerge m" and "l \<noteq> r" "base \<noteq> l" "base \<noteq> r"
  defines "b \<equiv> splitLineTokens base"
  defines "ls \<equiv> buildLineChanges diff b (splitLineTokens l)"
  defines "rs \<equiv> buildLineChanges diff b (splitLineTokens r)"
  shows "conflict_ranges b ls rs = [] \<and> m = concat (apply_hunks b 0 (combine_scripts ls rs))"
  using assms(1-4)
  by (auto simp: mergeTexts3_def Let_def buildConflictResult_def applyNonConflictingChanges_combine
      b_def ls_def rs_def split: if_splits prod.splits)

section \<open>Symmetry\<close>

lemma chain_filter: "hunk_chain lo n hs \<Longrightarrow> hunk_chain lo n (filter P hs)"
  by (auto simp: hunk_chain_def intro: sorted_wrt_filter)

lemma shared_changes_commute:
  assumes "hunk_chain lo n ls" "hunk_chain lo n rs"
  shows "filter (\<lambda>l. l \<in> set rs) ls = filter (\<lambda>r. r \<in> set ls) rs"
  using assms by (intro hunk_chain_unique [of lo n]) (auto intro: chain_filter)

lemma list_ex_lineChangesEqual [simp]: "list_ex (lineChangesEqual c) xs \<longleftrightarrow> c \<in> set xs"
  by (auto simp: list_ex_iff)

lemma shared_removal_symmetric:
  assumes "hunk_chain 0 n ls" "hunk_chain 0 n rs"
  shows "collectAmbiguousSharedRemovalReintroductionRanges b ls rs = [] \<longleftrightarrow>
         collectAmbiguousSharedRemovalReintroductionRanges b rs ls = []"
proof -
  have "filter (\<lambda>l. list_ex (lineChangesEqual l) rs) ls = filter (\<lambda>r. list_ex (lineChangesEqual r) ls) rs"
    using shared_changes_commute [OF assms] by simp
  then show ?thesis
    unfolding collectAmbiguousSharedRemovalReintroductionRanges_def Let_def mergeBaseRanges_eq_Nil
    by auto
qed

lemma bridge_symmetric:
  assumes "hunk_ok lo n l" "hunk_ok lo n r"
  shows "baseBridgeRangeBetween l r = baseBridgeRangeBetween r l"
  using assms by (auto simp: baseBridgeRangeBetween_def hunk_ok_def)

lemma repeated_line_symmetric:
  assumes "hunk_chain 0 n ls" "hunk_chain 0 n rs"
  shows "collectAmbiguousRepeatedLineAlignmentRanges b ls rs = [] \<longleftrightarrow>
         collectAmbiguousRepeatedLineAlignmentRanges b rs ls = []"
proof -
  let ?hit = "\<lambda>l r. (case baseBridgeRangeBetween l r of None \<Rightarrow> []
     | Some br \<Rightarrow> let bridge = js_slice b (r_start br) (r_end br) in
         if containsLineSubsequence (h_new l) bridge \<and> containsLineSubsequence (h_new r) bridge
         then [cover_range l r] else [])"
  have "?hit l r = [] \<longleftrightarrow> ?hit r l = []" if "l \<in> set ls" "r \<in> set rs" for l r
  proof -
    have "hunk_ok 0 n l" "hunk_ok 0 n r" using that assms by (auto simp: hunk_chain_def)
    then show ?thesis
      using bridge_symmetric by (auto simp: Let_def split: option.splits)
  qed
  then show ?thesis
    unfolding collectAmbiguousRepeatedLineAlignmentRanges_def mergeBaseRanges_eq_Nil
      concat_eq_Nil_conv by auto
qed

lemma conflict_ranges_symmetric:
  assumes "hunk_chain 0 n ls" "hunk_chain 0 n rs"
  shows "conflict_ranges b ls rs = [] \<longleftrightarrow> conflict_ranges b rs ls = []"
  using shared_removal_symmetric [OF assms] repeated_line_symmetric [OF assms]
  by (auto simp: conflict_ranges_eq_Nil collectConflictRanges_eq_Nil rangesTouch_def)

lemma clean_combine_commutes:
  assumes "hunk_chain 0 n ls" "hunk_chain 0 n rs" "collectConflictRanges ls rs = []"
  shows "combine_scripts ls rs = combine_scripts rs ls"
proof (rule hunk_chain_unique)
  show "hunk_chain 0 n (combine_scripts ls rs)" by (rule clean_scripts_chain [OF assms])
  have "collectConflictRanges rs ls = []"
    using assms(3) by (auto simp: collectConflictRanges_eq_Nil rangesTouch_def)
  then show "hunk_chain 0 n (combine_scripts rs ls)"
    by (rule clean_scripts_chain [OF assms(2,1)])
qed auto

section \<open>Properties of the merge\<close>

text \<open>
  The changes computed for a side are exactly that side's edit: they are in bounds, in order
  and separated by at least one untouched line, and applying them to the base text gives the
  side's text back, also when there are too many distinct lines to encode.
\<close>

theorem buildLineChanges_roundtrip:
  fixes base variant :: jsstr
  assumes "fast_diff_contract diff"
  defines "b \<equiv> splitLineTokens base"
  defines "changes \<equiv> buildLineChanges diff b (splitLineTokens variant)"
  shows "hunk_chain 0 (length b) changes \<and> concat (apply_hunks b 0 changes) = variant"
  using buildLineChanges_chain [OF assms(1), of b "splitLineTokens variant"]
    buildLineChanges_apply [OF assms(1), of b "splitLineTokens variant"]
  by (simp add: changes_def)


text \<open>
  A clean merge does not depend on which side is called left: swapping the two sides gives the
  same clean result.
\<close>

theorem mergeTexts3_clean_commutes:
  assumes "fast_diff_contract diff" and "mergeTexts3 diff base l r = CleanMerge m"
  shows "mergeTexts3 diff base r l = CleanMerge m"
proof (cases "base = None \<or> l = r \<or> base = Some l \<or> base = Some r")
  case True
  then show ?thesis using assms(2) by (auto simp: mergeTexts3_def split: if_splits)
next
  case False
  then obtain t where t: "base = Some t" "l \<noteq> r" "t \<noteq> l" "t \<noteq> r" by auto
  let ?b = "splitLineTokens t"
  let ?ls = "buildLineChanges diff ?b (splitLineTokens l)"
  let ?rs = "buildLineChanges diff ?b (splitLineTokens r)"
  have chains: "hunk_chain 0 (length ?b) ?ls" "hunk_chain 0 (length ?b) ?rs"
    by (rule buildLineChanges_chain [OF assms(1)])+
  have clean: "conflict_ranges ?b ?ls ?rs = []" "m = concat (apply_hunks ?b 0 (combine_scripts ?ls ?rs))"
    using mergeTexts3_CleanE [of diff t l r m] assms(2) t by simp_all
  then have "collectConflictRanges ?ls ?rs = []" by (simp add: conflict_ranges_eq_Nil)
  then show ?thesis
    using clean t conflict_ranges_symmetric [OF chains, of ?b] clean_combine_commutes [OF chains]
    by (simp add: mergeTexts3_def Let_def applyNonConflictingChanges_combine)
qed

definition base3 :: jsstr where "base3 = [97, 10, 98, 10, 99, 10]"
definition left3 :: jsstr where "left3 = [120, 10, 98, 10, 99, 10]"
definition right3 :: jsstr where "right3 = [97, 10, 98, 10, 122, 10]"


lemma sample_lines:
  "splitLineTokens base3 = [[97, 10], [98, 10], [99, 10]]"
  "splitLineTokens left3 = [[120, 10], [98, 10], [99, 10]]"
  "splitLineTokens right3 = [[97, 10], [98, 10], [122, 10]]"
  by (simp_all add: base3_def left3_def right3_def splitLineTokens.simps)

lemmas token_defs = encodeLineTokens_def tokenForLine_def LINE_TOKEN_BASE_def MAX_LINE_TOKENS_def
lemmas change_defs = buildLineChanges_def affix_diff_def decodeTokenText_def
  flush_hunk_def ensure_hunk_def token_defs

lemma sample_left_changes:
  "buildLineChanges affix_diff (splitLineTokens base3) (splitLineTokens left3) = [Hunk 0 (Suc 0) [[120, 10]]]"
  by (simp add: sample_lines change_defs)

lemma sample_right_changes:
  "buildLineChanges affix_diff (splitLineTokens base3) (splitLineTokens right3) = [Hunk 2 3 [[122, 10]]]"
  by (simp add: sample_lines change_defs)

lemma sample_conflict_ranges:
  "conflict_ranges (splitLineTokens base3) [Hunk 0 (Suc 0) [[120, 10]]] [Hunk 2 3 [[122, 10]]] = []"
  by (simp add: sample_lines conflict_ranges_def collectConflictRanges_def rangesTouch_def
      collectAmbiguousSharedRemovalReintroductionRanges_def
      collectAmbiguousRepeatedLineAlignmentRanges_def baseBridgeRangeBetween_def js_slice_def)

lemma sample_texts_differ: "left3 \<noteq> right3" "base3 \<noteq> left3" "base3 \<noteq> right3"
  by (simp_all add: base3_def left3_def right3_def)

lemma sample_merge:
  "mergeTexts3 affix_diff (Some base3) left3 right3 = CleanMerge [120, 10, 98, 10, 122, 10]"
  using sample_texts_differ
  by (simp add: mergeTexts3_def sample_left_changes sample_right_changes sample_conflict_ranges Let_def)
    (simp add: sample_lines applyNonConflictingChanges_def combineDistinctChanges_def hunk_key_def
      js_slice_def)

theorem buildLineChanges_roundtrip_witness:
  "concat (apply_hunks (splitLineTokens base3) 0
     (buildLineChanges affix_diff (splitLineTokens base3) (splitLineTokens left3))) = left3"
  using buildLineChanges_roundtrip [OF affix_diff_contract, of base3 left3] by simp


theorem mergeTexts3_clean_commutes_witness:
  "mergeTexts3 affix_diff (Some base3) right3 left3 = CleanMerge [120, 10, 98, 10, 122, 10]"
  by (rule mergeTexts3_clean_commutes [OF affix_diff_contract sample_merge])

section \<open>Conflicts\<close>

definition conflict_indices :: "merge_segment list \<Rightarrow> nat list" where
  "conflict_indices segs = concat (map (\<lambda>s. case s of SegText t \<Rightarrow> [] | SegConflict k \<Rightarrow> [k]) segs)"

definition mk_hunk ::
  "jsstr list \<Rightarrow> line_change list \<Rightarrow> line_change list \<Rightarrow> nat \<times> base_range \<Rightarrow> conflict_hunk" where
  "mk_hunk b ls rs e =
     \<lparr> ch_index = fst e, ch_baseStart = r_start (snd e), ch_baseEnd = r_end (snd e),
       ch_baseText = concat (js_slice b (r_start (snd e)) (r_end (snd e))),
       ch_leftText = applyVariantRegion b ls (r_start (snd e)) (r_end (snd e)),
       ch_rightText = applyVariantRegion b rs (r_start (snd e)) (r_end (snd e)) \<rparr>"

lemma build_segments_hunks:
  "fst (build_segments b ls rs sl sr cur idx ranges) = map (mk_hunk b ls rs) (enumerate idx ranges)"
  by (induction ranges arbitrary: cur idx) (simp_all add: mk_hunk_def Let_def case_prod_beta)

lemma build_segments_indices:
  "conflict_indices (snd (build_segments b ls rs sl sr cur idx ranges)) = [idx ..< idx + length ranges]"
proof (induction ranges arbitrary: cur idx)
  case Nil
  then show ?case by (simp add: conflict_indices_def)
next
  case (Cons rg ranges)
  have "conflict_indices (snd (build_segments b ls rs sl sr (r_end rg) (Suc idx) ranges))
      = [Suc idx ..< Suc (idx + length ranges)]"
    using Cons by simp
  moreover have "[idx ..< Suc (idx + length ranges)] = idx # [Suc idx ..< Suc (idx + length ranges)]"
    by (rule upt_conv_Cons) simp
  ultimately show ?case
    by (simp add: conflict_indices_def Let_def case_prod_beta del: upt_Suc)
qed

lemma mergeTexts3_ConflictE:
  assumes "mergeTexts3 diff (Some base) l r = MergeConflict p hunks segs"
  defines "b \<equiv> splitLineTokens base"
  defines "ls \<equiv> buildLineChanges diff b (splitLineTokens l)"
  defines "rs \<equiv> buildLineChanges diff b (splitLineTokens r)"
  shows "conflict_ranges b ls rs \<noteq> []
    \<and> hunks = map (mk_hunk b ls rs) (enumerate 0 (conflict_ranges b ls rs))
    \<and> conflict_indices segs = [0 ..< length hunks]"
proof -
  let ?rg = "conflict_ranges b ls rs"
  let ?bs = "build_segments b ls rs (excludeConflictChanges ls ?rg) (excludeConflictChanges rs ?rg) 0 0 ?rg"
  have "?rg \<noteq> []" and "hunks = fst ?bs" "segs = snd ?bs"
    using assms(1)
    by (auto simp: mergeTexts3_def Let_def buildConflictResult_def b_def ls_def rs_def
        split: if_splits prod.splits)
  then show ?thesis
    using build_segments_hunks [of b ls rs "excludeConflictChanges ls ?rg" "excludeConflictChanges rs ?rg" 0 0 ?rg]
      build_segments_indices [of b ls rs "excludeConflictChanges ls ?rg" "excludeConflictChanges rs ?rg" 0 0 ?rg]
    by simp
qed













section \<open>External edits of an open note\<close>

definition plan_target :: "open_external_edit_plan \<Rightarrow> jsstr option" where
  "plan_target p = (case p of AlreadySettled t \<Rightarrow> Some t | ApplyExternal t \<Rightarrow> Some t
     | KeepCurrent t \<Rightarrow> Some t | ApplyCleanMerge t \<Rightarrow> Some t
     | PreserveExternalConflict r n \<Rightarrow> None)"

lemma clean_merge_has_side:
  assumes "fast_diff_contract diff" and "mergeTexts3 diff (Some base) l r = CleanMerge m"
    and "v = l \<or> v = r" "v \<noteq> base"
    and h: "h \<in> set (buildLineChanges diff (splitLineTokens base) (splitLineTokens v))"
  shows "sublist (concat (h_new h)) m"
proof (cases "l = r \<or> base = l \<or> base = r")
  case True
  then have "m = v" using assms(2-4) by (auto simp: mergeTexts3_def split: if_splits)
  moreover have "sublist (h_new h) (splitLineTokens v)"
    using apply_hunks_sublist [OF h, of "splitLineTokens base" 0]
      buildLineChanges_apply [OF assms(1)] by simp
  ultimately show ?thesis using sublist_concat by fastforce
next
  case False
  then have "m = concat (apply_hunks (splitLineTokens base) 0
      (combine_scripts (buildLineChanges diff (splitLineTokens base) (splitLineTokens l))
        (buildLineChanges diff (splitLineTokens base) (splitLineTokens r))))"
    using mergeTexts3_CleanE [OF assms(2)] by simp
  then show ?thesis
    using h assms(3) by (auto intro!: sublist_concat apply_hunks_sublist)
qed

lemma plan_target_merge:
  assumes "plan_target (planOpenExternalEdit diff bl cur ext) = Some t" "cur \<noteq> ext"
  shows "\<exists>base. bl = Some base \<and> mergeTexts3 diff (Some base) cur ext = CleanMerge t"
  using assms
  by (auto simp: planOpenExternalEdit_def plan_target_def split: if_splits merge_result.splits)

text \<open>
  C24: an external edit of an open note never erases what was typed.  Whenever the plan lets the
  note take one text, that text contains, contiguously, everything either side wrote since the
  settled baseline; and where no such text exists (no baseline, or overlapping hunks) the plan
  preserves both sides as a conflict.
\<close>

theorem planOpenExternalEdit_keeps_both:
  fixes bl :: "jsstr option" and cur ext :: jsstr
  assumes "fast_diff_contract diff"
  defines "plan \<equiv> planOpenExternalEdit diff bl cur ext"
  shows "case plan_target plan of
      Some t \<Rightarrow> (cur = ext \<and> t = cur)
        \<or> (\<exists>base. bl = Some base \<and> (\<forall>v h. v \<in> {cur, ext} - {base} \<and>
             h \<in> set (buildLineChanges diff (splitLineTokens base) (splitLineTokens v))
             \<longrightarrow> sublist (concat (h_new h)) t))
    | None \<Rightarrow> cur \<noteq> ext \<and>
        (if bl = None then plan = PreserveExternalConflict ExternalMissingBaseline 0
         else \<exists>n > 0. plan = PreserveExternalConflict OverlappingHunks n)"
proof (cases "plan_target plan")
  case (Some t)
  show ?thesis
  proof (cases "cur = ext")
    case True
    then show ?thesis using Some by (simp add: plan_def planOpenExternalEdit_def plan_target_def)
  next
    case False
    then obtain base where "bl = Some base" "mergeTexts3 diff (Some base) cur ext = CleanMerge t"
      using plan_target_merge Some unfolding plan_def by blast
    then show ?thesis
      using Some clean_merge_has_side [OF assms(1), of base cur ext t] by auto
  qed
next
  case None
  have "hunks \<noteq> []" if "bl = Some base" "mergeTexts3 diff bl cur ext = MergeConflict p hunks segs"
    for base p hunks segs
    using mergeTexts3_ConflictE [of diff base cur ext p hunks segs] that by (auto simp: enumerate_eq_zip)
  moreover have "mergeTexts3 diff bl cur ext \<noteq> NoBase" if "bl \<noteq> None"
    using that by (auto simp: mergeTexts3_def Let_def buildConflictResult_def split: if_splits prod.splits)
  ultimately show ?thesis
    using None by (auto simp: plan_def planOpenExternalEdit_def plan_target_def
        split: if_splits merge_result.splits)
qed

theorem planOpenExternalEdit_keeps_both_witness:
  "planOpenExternalEdit affix_diff (Some base3) left3 right3 = ApplyCleanMerge [120, 10, 98, 10, 122, 10]
   \<and> sublist [120, 10] ([120, 10, 98, 10, 122, 10] :: jsstr)"
proof -
  have p: "planOpenExternalEdit affix_diff (Some base3) left3 right3 = ApplyCleanMerge [120, 10, 98, 10, 122, 10]"
    using sample_texts_differ
    by (simp add: planOpenExternalEdit_def sample_merge) (simp add: left3_def right3_def)
  have "sublist (concat [[120, 10 :: jschar]]) ([120, 10, 98, 10, 122, 10] :: jsstr)"
    using planOpenExternalEdit_keeps_both [OF affix_diff_contract, where bl = "Some base3" and cur = left3 and ext = right3]
      sample_texts_differ
    unfolding p by (auto simp: plan_target_def sample_left_changes)
  then show ?thesis using p by simp
qed

end
