(* ===== verification/TextDiff.thy ===== *)
theory TextDiff
  imports Edits
begin

text \<open>
  Character-level edits of a shared text: \<^verbatim>\<open>src/src/sync/diff.ts\<close>.

  \<^verbatim>\<open>Y.Text\<close> is code of the Yjs package and a parameter: a record of the four members the functions
  touch (\<^verbatim>\<open>toJSON\<close>, \<^verbatim>\<open>insert\<close>, \<^verbatim>\<open>delete\<close>, whether \<^verbatim>\<open>doc\<close> is set) over an abstract state.  The
  contract \<open>ytext_contract\<close> states their documented behaviour for an integrated text and leaves
  the rest open: Yjs replaces the halves of a surrogate pair that an edit position splits, so the
  laws only speak of positions that do not follow a high surrogate.  The optional call
  \<^verbatim>\<open>ytext.doc?.transact\<close> makes an edit of a detached text a no-op.
\<close>

section \<open>Y.Text as a parameter\<close>

record 'y ytext_ops =
  yt_toJSON :: "'y \<Rightarrow> jsstr"
  yt_insert :: "nat \<Rightarrow> jsstr \<Rightarrow> 'y \<Rightarrow> 'y"
  yt_delete :: "nat \<Rightarrow> nat \<Rightarrow> 'y \<Rightarrow> 'y"
  yt_hasDoc :: "'y \<Rightarrow> bool"

definition high_surrogate :: "jschar \<Rightarrow> bool" where
  "high_surrogate c \<longleftrightarrow> 0xD800 \<le> c \<and> c \<le> 0xDBFF"

definition ok_end :: "jsstr \<Rightarrow> bool" where
  "ok_end xs \<longleftrightarrow> xs = [] \<or> \<not> high_surrogate (last xs)"

definition split_ok :: "jsstr \<Rightarrow> nat \<Rightarrow> bool" where
  "split_ok t i \<longleftrightarrow> length t \<le> i \<or> ok_end (take i t)"

definition ytext_contract :: "'y ytext_ops \<Rightarrow> bool" where
  "ytext_contract yt \<longleftrightarrow>
     (\<forall>y i s. yt_hasDoc yt y \<longrightarrow> yt_hasDoc yt (yt_insert yt i s y)) \<and>
     (\<forall>y i n. yt_hasDoc yt y \<longrightarrow> yt_hasDoc yt (yt_delete yt i n y)) \<and>
     (\<forall>y i s. yt_hasDoc yt y \<and> i \<le> length (yt_toJSON yt y) \<and> split_ok (yt_toJSON yt y) i \<longrightarrow>
        yt_toJSON yt (yt_insert yt i s y) = take i (yt_toJSON yt y) @ s @ drop i (yt_toJSON yt y)) \<and>
     (\<forall>y i n. yt_hasDoc yt y \<and> i + n \<le> length (yt_toJSON yt y)
          \<and> split_ok (yt_toJSON yt y) i \<and> split_ok (yt_toJSON yt y) (i + n) \<longrightarrow>
        yt_toJSON yt (yt_delete yt i n y) = take i (yt_toJSON yt y) @ drop (i + n) (yt_toJSON yt y))"

section \<open>Character operations\<close>

datatype diff_op = Retain nat | DeleteOp nat | InsertOp jsstr

definition pushRetain :: "diff_op list \<Rightarrow> nat \<Rightarrow> diff_op list" where
  "pushRetain ops n =
     (if n = 0 then ops
      else if ops = [] then [Retain n]
      else case last ops of
          Retain c \<Rightarrow> butlast ops @ [Retain (c + n)]
        | _ \<Rightarrow> ops @ [Retain n])"

definition pushDelete :: "diff_op list \<Rightarrow> nat \<Rightarrow> diff_op list" where
  "pushDelete ops n =
     (if n = 0 then ops
      else if ops = [] then [DeleteOp n]
      else case last ops of
          DeleteOp c \<Rightarrow> butlast ops @ [DeleteOp (c + n)]
        | _ \<Rightarrow> ops @ [DeleteOp n])"

definition pushInsert :: "diff_op list \<Rightarrow> jsstr \<Rightarrow> diff_op list" where
  "pushInsert ops t =
     (if t = [] then ops
      else if ops = [] then [InsertOp t]
      else case last ops of
          InsertOp s \<Rightarrow> butlast ops @ [InsertOp (s @ t)]
        | _ \<Rightarrow> ops @ [InsertOp t])"

fun push_segment :: "diff_op list \<Rightarrow> jschar seg \<Rightarrow> diff_op list" where
  "push_segment ops (DEqual, t) = pushRetain ops (length t)"
| "push_segment ops (DDelete, t) = pushDelete ops (length t)"
| "push_segment ops (DInsert, t) = pushInsert ops t"

definition diffToCharOps :: "jschar seg list \<Rightarrow> diff_op list" where
  "diffToCharOps segs =
     foldl (\<lambda>ops sg. if snd sg = [] then ops else push_segment ops sg) [] segs"

fun apply_char_ops :: "'y ytext_ops \<Rightarrow> diff_op list \<Rightarrow> nat \<Rightarrow> 'y \<Rightarrow> 'y" where
  "apply_char_ops yt [] cursor y = y"
| "apply_char_ops yt (Retain n # ops) cursor y = apply_char_ops yt ops (cursor + n) y"
| "apply_char_ops yt (DeleteOp n # ops) cursor y = apply_char_ops yt ops cursor (yt_delete yt cursor n y)"
| "apply_char_ops yt (InsertOp t # ops) cursor y =
     apply_char_ops yt ops (cursor + length t) (yt_insert yt cursor t y)"

type_synonym char_diff = "jsstr \<Rightarrow> jsstr \<Rightarrow> jschar seg list"

definition applyDiffToYText :: "'y ytext_ops \<Rightarrow> char_diff \<Rightarrow> 'y \<Rightarrow> jsstr \<Rightarrow> jsstr \<Rightarrow> 'y" where
  "applyDiffToYText yt diff y oldText newText =
     (if oldText = newText then y
      else let charOps = diffToCharOps (diff oldText newText) in
        if charOps = [] then y
        else if yt_hasDoc yt y then apply_char_ops yt charOps 0 y else y)"

datatype exact_diff_result = Unchanged | Applied | StaleBase jsstr | PostconditionFailed jsstr

definition applyExactDiffToYText ::
  "'y ytext_ops \<Rightarrow> char_diff \<Rightarrow> 'y \<Rightarrow> jsstr \<Rightarrow> jsstr \<Rightarrow> 'y \<times> exact_diff_result" where
  "applyExactDiffToYText yt diff y expectedOldText newText =
     (let currentText = yt_toJSON yt y in
      if currentText \<noteq> expectedOldText then (y, StaleBase currentText)
      else if currentText = newText then (y, Unchanged)
      else let y' = applyDiffToYText yt diff y expectedOldText newText;
               after = yt_toJSON yt y'
           in (y', if after = newText then Applied else PostconditionFailed after))"

definition forceReplaceYText :: "'y ytext_ops \<Rightarrow> 'y \<Rightarrow> jsstr \<Rightarrow> 'y" where
  "forceReplaceYText yt y newText =
     (let currentLength = length (yt_toJSON yt y);
          y1 = (if currentLength > 0 then yt_delete yt 0 currentLength y else y)
      in if length newText > 0 then yt_insert yt 0 newText y1 else y1)"

section \<open>Concurrent edits\<close>

type_synonym base_replacement = "jschar hunk"

definition diffBaseReplacements :: "char_diff \<Rightarrow> jsstr \<Rightarrow> jsstr \<Rightarrow> base_replacement list" where
  "diffBaseReplacements diff baseText variantText = collect_hunks (diff baseText variantText) 0 None"

definition replacement_overlaps :: "base_replacement \<Rightarrow> base_replacement \<Rightarrow> bool" where
  "replacement_overlaps t ours \<longleftrightarrow> h_start t < h_end ours \<and> h_start ours < h_end t"

text \<open>
  The inner loop over the concurrent hunks: \<open>(suppress, flagged)\<close> for one target hunk, stopping at
  the first concurrent hunk that is identical to it or overlaps it.
\<close>

fun suppress_target :: "base_replacement \<Rightarrow> base_replacement list \<Rightarrow> bool \<times> bool" where
  "suppress_target t [] = (False, False)"
| "suppress_target t (ours # rest) =
     (if ours = t then (True, False)
      else if replacement_overlaps t ours then (True, True)
      else suppress_target t rest)"

definition replacement_key :: "base_replacement \<Rightarrow> nat \<times> nat \<times> jsstr" where
  "replacement_key h = (h_start h, h_end h, h_new h)"

fun apply_replacements :: "jsstr \<Rightarrow> nat \<Rightarrow> base_replacement list \<Rightarrow> jsstr" where
  "apply_replacements baseText cursor [] = drop cursor baseText"
| "apply_replacements baseText cursor (h # hs) =
     (if h_start h < cursor then apply_replacements baseText cursor hs
      else js_slice baseText cursor (h_start h) @ h_new h
           @ apply_replacements baseText (max cursor (h_end h)) hs)"

record concurrent_merge =
  cm_mergedText :: jsstr
  cm_hadConflictingOverlap :: bool

definition applied_replacements ::
  "base_replacement list \<Rightarrow> base_replacement list \<Rightarrow> base_replacement list" where
  "applied_replacements ours theirs =
     sort_key replacement_key (ours @ filter (\<lambda>t. \<not> fst (suppress_target t ours)) theirs)"

definition mergeConcurrentEdits :: "char_diff \<Rightarrow> jsstr \<Rightarrow> jsstr \<Rightarrow> jsstr \<Rightarrow> concurrent_merge" where
  "mergeConcurrentEdits diff baseText currentText targetText =
     (let ours = diffBaseReplacements diff baseText currentText;
          theirs = diffBaseReplacements diff baseText targetText
      in \<lparr> cm_mergedText = apply_replacements baseText 0 (applied_replacements ours theirs),
           cm_hadConflictingOverlap = list_ex (\<lambda>t. snd (suppress_target t ours)) theirs \<rparr>)"

record diff_postcondition_result =
  dp_diffSkippedDueToStaleBase :: bool
  dp_matchesAfterDiff :: bool
  dp_forceReplaceApplied :: bool
  dp_finalMatchesExpected :: bool
  dp_finalLength :: nat

definition applyDiffToYTextWithPostcondition ::
  "'y ytext_ops \<Rightarrow> char_diff \<Rightarrow> 'y \<Rightarrow> jsstr \<Rightarrow> jsstr \<Rightarrow> 'y \<times> diff_postcondition_result" where
  "applyDiffToYTextWithPostcondition yt diff y oldText newText =
     (let currentText = yt_toJSON yt y in
      if currentText \<noteq> oldText then
        let merged = cm_mergedText (mergeConcurrentEdits diff oldText currentText newText);
            y1 = applyDiffToYText yt diff y currentText merged;
            afterMergedDiff = yt_toJSON yt y1
        in if afterMergedDiff = newText then
             (y1, \<lparr> dp_diffSkippedDueToStaleBase = True, dp_matchesAfterDiff = True,
                    dp_forceReplaceApplied = False, dp_finalMatchesExpected = True,
                    dp_finalLength = length afterMergedDiff \<rparr>)
           else if afterMergedDiff \<noteq> merged then
             let y2 = forceReplaceYText yt y1 merged; afterForce = yt_toJSON yt y2
             in (y2, \<lparr> dp_diffSkippedDueToStaleBase = True, dp_matchesAfterDiff = False,
                       dp_forceReplaceApplied = True, dp_finalMatchesExpected = (afterForce = newText),
                       dp_finalLength = length afterForce \<rparr>)
           else (y1, \<lparr> dp_diffSkippedDueToStaleBase = True, dp_matchesAfterDiff = False,
                       dp_forceReplaceApplied = False, dp_finalMatchesExpected = False,
                       dp_finalLength = length afterMergedDiff \<rparr>)
      else
        let y1 = applyDiffToYText yt diff y oldText newText; afterDiff = yt_toJSON yt y1
        in if afterDiff = newText then
             (y1, \<lparr> dp_diffSkippedDueToStaleBase = False, dp_matchesAfterDiff = True,
                    dp_forceReplaceApplied = False, dp_finalMatchesExpected = True,
                    dp_finalLength = length afterDiff \<rparr>)
           else
             let y2 = forceReplaceYText yt y1 newText; afterForce = yt_toJSON yt y2
             in (y2, \<lparr> dp_diffSkippedDueToStaleBase = False, dp_matchesAfterDiff = False,
                       dp_forceReplaceApplied = True, dp_finalMatchesExpected = (afterForce = newText),
                       dp_finalLength = length afterForce \<rparr>))"

section \<open>Applying a character diff\<close>

text \<open>
  The reference run of the operations on a pair (text already produced, old text still ahead).
\<close>

fun op_step :: "diff_op \<Rightarrow> jsstr \<times> jsstr \<Rightarrow> jsstr \<times> jsstr" where
  "op_step (Retain n) (d, r) = (d @ take n r, drop n r)"
| "op_step (DeleteOp n) (d, r) = (d, drop n r)"
| "op_step (InsertOp t) (d, r) = (d @ t, r)"

fun op_safe :: "diff_op \<Rightarrow> jsstr \<times> jsstr \<Rightarrow> bool" where
  "op_safe (Retain n) (d, r) = (n \<le> length r \<and> ok_end (take n r))"
| "op_safe (DeleteOp n) (d, r) = (n \<le> length r \<and> ok_end (take n r))"
| "op_safe (InsertOp t) (d, r) = ok_end t"

fun ops_safe :: "diff_op list \<Rightarrow> jsstr \<times> jsstr \<Rightarrow> bool" where
  "ops_safe [] st = True"
| "ops_safe (op # ops) st = (op_safe op st \<and> ops_safe ops (op_step op st))"

lemma ops_safe_append [simp]:
  "ops_safe (xs @ ys) st \<longleftrightarrow> ops_safe xs st \<and> ops_safe ys (fold op_step xs st)"
  by (induction xs arbitrary: st) auto

lemma ok_end_append: "ok_end a \<Longrightarrow> ok_end b \<Longrightarrow> ok_end (a @ b)"
  by (cases "b = []") (auto simp: ok_end_def)

text \<open>Coalescing a neighbouring operation changes neither the run nor its safety.\<close>

definition seg_op :: "jschar seg \<Rightarrow> diff_op" where
  "seg_op sg = (case fst sg of DEqual \<Rightarrow> Retain (length (snd sg)) | DDelete \<Rightarrow> DeleteOp (length (snd sg))
     | DInsert \<Rightarrow> InsertOp (snd sg))"

lemma coalesce_safe:
  "ops_safe [Retain a, Retain b] st \<Longrightarrow> op_safe (Retain (a + b)) st"
  "ops_safe [DeleteOp a, DeleteOp b] st \<Longrightarrow> op_safe (DeleteOp (a + b)) st"
  "ops_safe [InsertOp s, InsertOp t] st \<Longrightarrow> op_safe (InsertOp (s @ t)) st"
  by (cases st; auto simp: take_add intro: ok_end_append)+

lemma coalesce_step:
  "op_step (Retain (a + b)) st = op_step (Retain b) (op_step (Retain a) st)"
  "op_step (DeleteOp (a + b)) st = op_step (DeleteOp b) (op_step (DeleteOp a) st)"
  "op_step (InsertOp (s @ t)) st = op_step (InsertOp t) (op_step (InsertOp s) st)"
  by (cases st; simp add: take_add add.commute)+

lemma push_segment_run:
  assumes "snd sg \<noteq> []"
  shows "fold op_step (push_segment ops sg) st = op_step (seg_op sg) (fold op_step ops st)
    \<and> (ops_safe (ops @ [seg_op sg]) st \<longrightarrow> ops_safe (push_segment ops sg) st)"
proof (cases ops rule: rev_cases)
  case Nil
  then show ?thesis using assms
    by (cases sg; cases "fst sg") (auto simp: pushRetain_def pushDelete_def pushInsert_def seg_op_def)
next
  case (snoc xs x)
  then show ?thesis using assms coalesce_safe [of _ _ "fold op_step xs st"]
    by (cases sg; cases "fst sg"; cases x)
      (auto simp: pushRetain_def pushDelete_def pushInsert_def seg_op_def coalesce_step
        simp del: op_step.simps op_safe.simps)
qed

lemma diffToCharOps_run:
  assumes "\<forall>sg \<in> set segs. snd sg \<noteq> []"
  shows "fold op_step (diffToCharOps segs) st = fold (op_step \<circ> seg_op) segs st
    \<and> (ops_safe (map seg_op segs) st \<longrightarrow> ops_safe (diffToCharOps segs) st)"
  using assms
proof (induction segs rule: rev_induct)
  case Nil
  then show ?case by (simp add: diffToCharOps_def)
next
  case (snoc sg segs)
  have "diffToCharOps (segs @ [sg]) = push_segment (diffToCharOps segs) sg"
    using snoc.prems by (simp add: diffToCharOps_def)
  moreover have "fold op_step (map seg_op segs) st = fold (op_step \<circ> seg_op) segs st"
    by (simp add: fold_map)
  ultimately show ?case
    using snoc push_segment_run [of sg "diffToCharOps segs" st] by (auto simp: comp_def)
qed

definition aligned :: "jschar seg list \<Rightarrow> bool" where
  "aligned segs \<longleftrightarrow> (\<forall>sg \<in> set segs. ok_end (snd sg))"

lemma seg_ops_run:
  assumes "aligned segs"
  shows "fold (op_step \<circ> seg_op) segs (d, seg_old segs) = (d @ seg_new segs, [])
    \<and> ops_safe (map seg_op segs) (d, seg_old segs)"
  using assms
proof (induction segs arbitrary: d)
  case Nil
  then show ?case by (simp add: seg_old_def seg_new_def)
next
  case (Cons sg segs)
  then show ?case
    by (cases sg; cases "fst sg") (auto simp: seg_op_def aligned_def)
qed

lemma ytext_insert:
  assumes "ytext_contract yt" "yt_hasDoc yt y" "yt_toJSON yt y = d @ r" "ok_end d"
  shows "yt_toJSON yt (yt_insert yt (length d) s y) = d @ s @ r" "yt_hasDoc yt (yt_insert yt (length d) s y)"
proof -
  have "split_ok (d @ r) (length d)" using assms(4) by (simp add: split_ok_def)
  then show "yt_toJSON yt (yt_insert yt (length d) s y) = d @ s @ r"
    using assms(1-3) unfolding ytext_contract_def by simp
  show "yt_hasDoc yt (yt_insert yt (length d) s y)"
    using assms(1,2) unfolding ytext_contract_def by blast
qed

lemma ytext_delete:
  assumes "ytext_contract yt" "yt_hasDoc yt y" "yt_toJSON yt y = d @ x @ r" "ok_end d"
    and "r = [] \<or> ok_end x"
  shows "yt_toJSON yt (yt_delete yt (length d) (length x) y) = d @ r"
    "yt_hasDoc yt (yt_delete yt (length d) (length x) y)"
proof -
  have "split_ok (d @ x @ r) (length d)" "split_ok (d @ x @ r) (length d + length x)"
    using assms(4,5) by (auto simp: split_ok_def ok_end_append)
  then show "yt_toJSON yt (yt_delete yt (length d) (length x) y) = d @ r"
    using assms(1-3) unfolding ytext_contract_def by simp
  show "yt_hasDoc yt (yt_delete yt (length d) (length x) y)"
    using assms(1,2) unfolding ytext_contract_def by blast
qed

lemma apply_char_ops_run:
  assumes "ytext_contract yt"
  shows "yt_hasDoc yt y \<Longrightarrow> yt_toJSON yt y = d @ r \<Longrightarrow> ok_end d \<Longrightarrow> ops_safe ops (d, r) \<Longrightarrow>
    yt_toJSON yt (apply_char_ops yt ops (length d) y)
      = fst (fold op_step ops (d, r)) @ snd (fold op_step ops (d, r))
    \<and> yt_hasDoc yt (apply_char_ops yt ops (length d) y)"
proof (induction ops arbitrary: y d r)
  case Nil
  then show ?case by simp
next
  case (Cons op ops)
  show ?case
  proof (cases op)
    case (Retain n)
    then show ?thesis
      using Cons.prems Cons.IH [of y "d @ take n r" "drop n r"] by (simp add: ok_end_append min_absorb2)
  next
    case (DeleteOp n)
    then have "yt_toJSON yt (yt_delete yt (length d) n y) = d @ drop n r"
      "yt_hasDoc yt (yt_delete yt (length d) n y)"
      using Cons.prems ytext_delete [OF assms, of y d "take n r" "drop n r"] by (simp_all add: min_absorb2)
    then show ?thesis
      using DeleteOp Cons.prems Cons.IH [of "yt_delete yt (length d) n y" d "drop n r"] by simp
  next
    case (InsertOp t)
    then show ?thesis
      using Cons.prems Cons.IH [of "yt_insert yt (length d) t y" "d @ t" r]
        ytext_insert [OF assms, of y d r t] by (simp add: ok_end_append)
  qed
qed

lemma applyDiffToYText_lands:
  assumes "ytext_contract yt" "fast_diff_contract diff" "yt_hasDoc yt y" "yt_toJSON yt y = old"
    and "aligned (diff old new)"
  shows "yt_toJSON yt (applyDiffToYText yt diff y old new) = new"
proof -
  let ?segs = "diff old new"
  have segs: "seg_old ?segs = old" "seg_new ?segs = new" "\<forall>sg \<in> set ?segs. snd sg \<noteq> []"
    using assms(2) by (auto simp: fast_diff_contract_def)
  have run: "fold op_step (diffToCharOps ?segs) ([], old) = (new, [])"
    and safe: "ops_safe (diffToCharOps ?segs) ([], old)"
    using seg_ops_run [OF assms(5), of "[]"] diffToCharOps_run [OF segs(3)] segs(1,2) by simp_all
  have "yt_toJSON yt (apply_char_ops yt (diffToCharOps ?segs) 0 y) = new"
    using apply_char_ops_run [OF assms(1,3), of "[]" old "diffToCharOps ?segs"] run safe assms(4)
    by (simp add: ok_end_def)
  moreover have "old = new" if "diffToCharOps ?segs = []"
    using run that by simp
  ultimately show ?thesis using assms(3,4) by (auto simp: applyDiffToYText_def Let_def)
qed

lemma apply_char_ops_hasDoc:
  "ytext_contract yt \<Longrightarrow> yt_hasDoc yt y \<Longrightarrow> yt_hasDoc yt (apply_char_ops yt ops c y)"
  by (induction yt ops c y rule: apply_char_ops.induct) (simp_all add: ytext_contract_def)

lemma applyDiffToYText_hasDoc:
  "ytext_contract yt \<Longrightarrow> yt_hasDoc yt y \<Longrightarrow> yt_hasDoc yt (applyDiffToYText yt diff y old new)"
  by (simp add: applyDiffToYText_def Let_def apply_char_ops_hasDoc)

lemma forceReplaceYText_lands:
  assumes "ytext_contract yt" "yt_hasDoc yt y"
  shows "yt_toJSON yt (forceReplaceYText yt y new) = new"
proof -
  let ?y1 = "if length (yt_toJSON yt y) > 0 then yt_delete yt 0 (length (yt_toJSON yt y)) y else y"
  have y1: "yt_toJSON yt ?y1 = [] \<and> yt_hasDoc yt ?y1"
    using ytext_delete [OF assms, of "[]" "yt_toJSON yt y" "[]"] assms(2) by (simp add: ok_end_def)
  then have "yt_toJSON yt (yt_insert yt 0 new ?y1) = new"
    using ytext_insert(1) [OF assms(1), of ?y1 "[]" "[]" new] by (simp add: ok_end_def)
  then show ?thesis using y1 by (simp only: forceReplaceYText_def Let_def) simp
qed

section \<open>Merging concurrent edits\<close>

lemma diffBaseReplacements_chain:
  assumes "fast_diff_contract diff"
  shows "hunk_chain 0 (length b) (diffBaseReplacements diff b v)"
  using assms collect_hunks_chain(2) [of "diff b v" 0]
  by (simp add: fast_diff_contract_def diffBaseReplacements_def)

lemma diffBaseReplacements_apply:
  assumes "fast_diff_contract diff"
  shows "apply_hunks b 0 (diffBaseReplacements diff b v) = v"
  using assms by (simp add: fast_diff_contract_def diffBaseReplacements_def collect_hunks_apply)

lemma diffBaseReplacements_self:
  "fast_diff_contract diff \<Longrightarrow> diffBaseReplacements diff b b = []"
  by (simp add: fast_diff_contract_def diffBaseReplacements_def collect_hunks_equal)

lemma suppress_target_iff:
  "fst (suppress_target t ours) \<longleftrightarrow> (\<exists>h \<in> set ours. h = t \<or> replacement_overlaps t h)"
  by (induction ours) auto

lemma suppress_target_flag:
  assumes "hunk_chain lo n ours"
  shows "snd (suppress_target t ours) \<longleftrightarrow> t \<notin> set ours \<and> (\<exists>h \<in> set ours. replacement_overlaps t h)"
proof (cases "t \<in> set ours")
  case True
  have "\<not> replacement_overlaps t h" if "h \<in> set ours" "h \<noteq> t" for h
    using hunk_chain_related [OF assms True that(1)] that(2) by (auto simp: replacement_overlaps_def)
  then show ?thesis using True by (induction ours) auto
next
  case False
  then show ?thesis by (induction ours) auto
qed

lemma apply_replacements_path:
  "hunk_path c (length b) hs \<Longrightarrow> apply_replacements b c hs = apply_hunks b c hs"
proof (induction hs arbitrary: c)
  case (Cons h hs)
  then have "hunk_path (h_end h) (length b) hs" by (auto simp: hunk_path_def hunk_ok_def)
  then show ?case using Cons by (auto simp: hunk_path_def hunk_ok_def max_def)
qed simp

lemma set_applied_replacements:
  assumes "hunk_chain lo n ours"
  shows "set (applied_replacements ours theirs) =
    set ours \<union> {t \<in> set theirs. \<forall>h \<in> set ours. \<not> replacement_overlaps t h}"
  by (auto simp: applied_replacements_def suppress_target_iff)

lemma applied_replacements_path:
  assumes "hunk_chain 0 n ours" "hunk_chain 0 n theirs"
  shows "hunk_path 0 n (applied_replacements ours theirs) \<and> distinct (applied_replacements ours theirs)"
proof -
  let ?hs = "applied_replacements ours theirs"
  have dist: "distinct ?hs"
    using hunk_chain_distinct [OF assms(1)] hunk_chain_distinct [OF assms(2)]
    by (auto simp: applied_replacements_def suppress_target_iff)
  have ok: "\<forall>h \<in> set ?hs. hunk_ok 0 n h"
    using assms by (auto simp: set_applied_replacements [OF assms(1)] hunk_chain_def)
  have apart: "h_end x < h_start y \<or> h_end y < h_start x
      \<or> \<not> replacement_overlaps x y \<or> \<not> replacement_overlaps y x"
    if "x \<in> set ?hs" "y \<in> set ?hs" "x \<noteq> y" for x y
    using that hunk_chain_related [OF assms(1), of x y] hunk_chain_related [OF assms(2), of x y]
    by (auto simp: set_applied_replacements [OF assms(1)])
  have "h_end x \<le> h_start y"
    if "x \<in> set ?hs" "y \<in> set ?hs" "x \<noteq> y" "replacement_key x \<le> replacement_key y" for x y
    using apart [OF that(1-3)] that(4) ok that(1,2)
    by (fastforce simp: replacement_key_def replacement_overlaps_def hunk_ok_def less_eq_prod_def)
  then have "sorted_wrt (\<lambda>x y. h_end x \<le> h_start y) ?hs"
    using dist by (intro sorted_wrt_by_key [where k = replacement_key])
      (auto simp: applied_replacements_def)
  then show ?thesis using ok dist by (simp add: hunk_path_def)
qed

text \<open>
  C21: merging a stale base never drops what was typed meanwhile.  The merged text is the base with
  one script applied in order and without overlap; the script holds every concurrent edit, and
  every target edit that overlaps none of them.  The overlap flag is raised exactly when a target
  edit had to be left out.
\<close>

theorem mergeConcurrentEdits_keeps_concurrent:
  fixes base current target :: jsstr
  assumes "fast_diff_contract diff"
  defines "m \<equiv> mergeConcurrentEdits diff base current target"
  defines "ours \<equiv> diffBaseReplacements diff base current"
  defines "theirs \<equiv> diffBaseReplacements diff base target"
  shows "\<exists>hs. cm_mergedText m = apply_hunks base 0 hs \<and> hunk_path 0 (length base) hs \<and> distinct hs
    \<and> set hs = set ours \<union> {t \<in> set theirs. \<forall>h \<in> set ours. \<not> replacement_overlaps t h}
    \<and> (\<forall>h \<in> set ours. sublist (h_new h) (cm_mergedText m))
    \<and> (cm_hadConflictingOverlap m \<longleftrightarrow> \<not> set theirs \<subseteq> set hs)"
proof -
  have chains: "hunk_chain 0 (length base) ours" "hunk_chain 0 (length base) theirs"
    by (simp_all add: ours_def theirs_def diffBaseReplacements_chain [OF assms(1)])
  let ?hs = "applied_replacements ours theirs"
  have merged: "cm_mergedText m = apply_hunks base 0 ?hs"
    using apply_replacements_path applied_replacements_path [OF chains]
    by (simp add: m_def mergeConcurrentEdits_def ours_def theirs_def Let_def)
  have flag: "cm_hadConflictingOverlap m \<longleftrightarrow> \<not> set theirs \<subseteq> set ?hs"
    using suppress_target_flag [OF chains(1)]
    by (auto simp: m_def mergeConcurrentEdits_def Let_def ours_def [symmetric] theirs_def [symmetric]
        list_ex_iff set_applied_replacements [OF chains(1)])
  show ?thesis
    using merged flag applied_replacements_path [OF chains] set_applied_replacements [OF chains(1), of theirs]
    by (intro exI [of _ ?hs]) (auto intro: apply_hunks_sublist)
qed

lemma replacement_key_inj: "inj_on replacement_key A"
  by (auto simp: inj_on_def replacement_key_def intro: hunk.expand)

lemma chain_sort_replacements:
  assumes "hunk_chain lo n hs"
  shows "sort_key replacement_key hs = hs"
proof -
  have "sorted (map replacement_key hs)"
    using assms by (induction hs) (auto simp: hunk_chain_Cons replacement_key_def hunk_ok_def less_eq_prod_def)
  then show ?thesis by (intro sort_key_inj_key_eq) (simp_all add: replacement_key_inj)
qed

text \<open>
  When only one side moved, the merge is that side, and when both moved to the same text it is
  that text; none of these cases counts as an overlap.
\<close>

theorem mergeConcurrentEdits_one_sided:
  assumes "fast_diff_contract diff"
  shows "mergeConcurrentEdits diff t t v = \<lparr> cm_mergedText = v, cm_hadConflictingOverlap = False \<rparr>
    \<and> mergeConcurrentEdits diff t v t = \<lparr> cm_mergedText = v, cm_hadConflictingOverlap = False \<rparr>
    \<and> mergeConcurrentEdits diff t v v = \<lparr> cm_mergedText = v, cm_hadConflictingOverlap = False \<rparr>"
proof -
  let ?d = "diffBaseReplacements diff t v"
  have chain: "hunk_chain 0 (length t) ?d" by (rule diffBaseReplacements_chain [OF assms])
  have "filter (\<lambda>h. \<not> fst (suppress_target h ?d)) ?d = []"
    by (auto simp: filter_empty_conv suppress_target_iff)
  then have same: "applied_replacements ?d [] = ?d" "applied_replacements [] ?d = ?d"
    "applied_replacements ?d ?d = ?d"
    using chain_sort_replacements [OF chain] by (simp_all add: applied_replacements_def)
  have flags: "\<not> list_ex (\<lambda>h. snd (suppress_target h ?d)) ?d" "\<not> list_ex (\<lambda>h. snd (suppress_target h [])) ?d"
    using suppress_target_flag [OF chain] by (auto simp: list_ex_iff)
  have "apply_replacements t 0 ?d = v"
    using apply_replacements_path [OF hunk_chain_path [OF chain]] diffBaseReplacements_apply [OF assms]
    by simp
  then show ?thesis
    using same flags
    by (simp_all add: mergeConcurrentEdits_def Let_def diffBaseReplacements_self [OF assms])
qed

section \<open>Outcomes of the guarded writers\<close>

text \<open>
  A guarded diff says truthfully what it did on every branch.  A stale base leaves the text
  alone and reports the live text; an unchanged text is not written; \<^verbatim>\<open>applied\<close> means that the text
  is the requested one, and it is the outcome for every diff whose segments do not split a
  surrogate pair.
\<close>

theorem applyExactDiffToYText_outcome:
  fixes expected new :: jsstr
  assumes "ytext_contract yt" "fast_diff_contract diff" "yt_hasDoc yt y"
  defines "r \<equiv> applyExactDiffToYText yt diff y expected new"
  shows "(case snd r of
      StaleBase t \<Rightarrow> fst r = y \<and> t = yt_toJSON yt y \<and> t \<noteq> expected
    | Unchanged \<Rightarrow> fst r = y \<and> yt_toJSON yt y = expected \<and> new = expected
    | Applied \<Rightarrow> yt_toJSON yt y = expected \<and> new \<noteq> expected \<and> yt_toJSON yt (fst r) = new
    | PostconditionFailed t \<Rightarrow> yt_toJSON yt y = expected \<and> t = yt_toJSON yt (fst r) \<and> t \<noteq> new
        \<and> \<not> aligned (diff expected new))"
  using applyDiffToYText_lands [OF assms(1-3), of expected new]
  by (auto simp: r_def applyExactDiffToYText_def Let_def)

text \<open>
  The write with a postcondition always ends in a known text, however badly the character diff
  behaves.  On a fresh base the requested text lands.  On a stale base the text ends as the merge
  that keeps the concurrent edits (or as the requested text), and as the merge for every diff whose
  segments do not split a surrogate pair.  The reported flags and length describe that final text.
\<close>

theorem applyDiffToYTextWithPostcondition_final:
  fixes old new :: jsstr and diff :: char_diff
  assumes "ytext_contract yt" "yt_hasDoc yt y"
  defines "current \<equiv> yt_toJSON yt y"
  defines "merged \<equiv> cm_mergedText (mergeConcurrentEdits diff old current new)"
  defines "r \<equiv> applyDiffToYTextWithPostcondition yt diff y old new"
  shows "(current = old \<longrightarrow> yt_toJSON yt (fst r) = new)
    \<and> (current \<noteq> old \<longrightarrow> yt_toJSON yt (fst r) \<in> {merged, new})
    \<and> (current \<noteq> old \<and> fast_diff_contract diff \<and> aligned (diff current merged)
         \<longrightarrow> yt_toJSON yt (fst r) = merged)
    \<and> (dp_diffSkippedDueToStaleBase (snd r) \<longleftrightarrow> current \<noteq> old)
    \<and> (dp_finalMatchesExpected (snd r) \<longleftrightarrow> yt_toJSON yt (fst r) = new)
    \<and> dp_finalLength (snd r) = length (yt_toJSON yt (fst r))"
proof -
  let ?y1 = "applyDiffToYText yt diff y current merged"
  note doc = applyDiffToYText_hasDoc [OF assms(1,2)]
  have force: "yt_toJSON yt (forceReplaceYText yt (applyDiffToYText yt diff y a b) t) = t" for a b t
    by (rule forceReplaceYText_lands [OF assms(1) doc])
  have lands: "yt_toJSON yt ?y1 = merged" if "fast_diff_contract diff" "aligned (diff current merged)"
    using applyDiffToYText_lands [OF assms(1) that(1) assms(2) _ that(2)] by (simp add: current_def)
  show ?thesis
  proof (cases "current = old")
    case True
    then show ?thesis
      using force by (simp add: r_def applyDiffToYTextWithPostcondition_def current_def Let_def)
  next
    case False
    have r: "r = (if yt_toJSON yt ?y1 = new then
             (?y1, \<lparr> dp_diffSkippedDueToStaleBase = True, dp_matchesAfterDiff = True,
                    dp_forceReplaceApplied = False, dp_finalMatchesExpected = True,
                    dp_finalLength = length (yt_toJSON yt ?y1) \<rparr>)
           else if yt_toJSON yt ?y1 \<noteq> merged then
             (forceReplaceYText yt ?y1 merged, \<lparr> dp_diffSkippedDueToStaleBase = True, dp_matchesAfterDiff = False,
                       dp_forceReplaceApplied = True, dp_finalMatchesExpected = (merged = new),
                       dp_finalLength = length merged \<rparr>)
           else (?y1, \<lparr> dp_diffSkippedDueToStaleBase = True, dp_matchesAfterDiff = False,
                       dp_forceReplaceApplied = False, dp_finalMatchesExpected = False,
                       dp_finalLength = length (yt_toJSON yt ?y1) \<rparr>))"
      using False force [of current merged merged]
      by (simp add: r_def applyDiffToYTextWithPostcondition_def current_def [symmetric]
          merged_def [symmetric] Let_def)
    show ?thesis using False lands force by (auto simp: r)
  qed
qed

text \<open>A text held as its plain string meets the contract; the witnesses run on it.\<close>

definition plain_ytext :: "jsstr ytext_ops" where
  "plain_ytext = \<lparr> yt_toJSON = (\<lambda>y. y), yt_insert = (\<lambda>i s y. take i y @ s @ drop i y),
     yt_delete = (\<lambda>i n y. take i y @ drop (i + n) y), yt_hasDoc = (\<lambda>y. True) \<rparr>"

lemma plain_ytext_contract: "ytext_contract plain_ytext"
  by (simp add: ytext_contract_def plain_ytext_def)

lemma plain_ytext_simps [simp]: "yt_toJSON plain_ytext y = y" "yt_hasDoc plain_ytext y"
  by (simp_all add: plain_ytext_def)

lemmas concurrent_defs = mergeConcurrentEdits_def applied_replacements_def diffBaseReplacements_def
  affix_diff_def flush_hunk_def ensure_hunk_def replacement_overlaps_def replacement_key_def js_slice_def

theorem mergeConcurrentEdits_keeps_concurrent_witness:
  "cm_mergedText (mergeConcurrentEdits affix_diff [97, 98] [97, 98, 120] [121, 98]) = [121, 98, 120]
   \<and> \<not> cm_hadConflictingOverlap (mergeConcurrentEdits affix_diff [97, 98] [97, 98, 120] [121, 98])
   \<and> sublist [120] (cm_mergedText (mergeConcurrentEdits affix_diff [97, 98] [97, 98, 120] [121, 98]))"
proof -
  have ours: "diffBaseReplacements affix_diff [97, 98] [97, 98, 120] = [Hunk 2 2 [120]]"
    by (simp add: concurrent_defs)
  have "sublist [120] (cm_mergedText (mergeConcurrentEdits affix_diff [97, 98] [97, 98, 120] [121, 98]))"
    using mergeConcurrentEdits_keeps_concurrent
      [OF affix_diff_contract, where base = "[97, 98]" and current = "[97, 98, 120]" and target = "[121, 98]"]
    unfolding ours by auto
  then show ?thesis by (simp add: concurrent_defs Let_def)
qed

theorem mergeConcurrentEdits_one_sided_witness:
  "cm_mergedText (mergeConcurrentEdits affix_diff [97] [97] [98]) = [98]"
  using mergeConcurrentEdits_one_sided [OF affix_diff_contract, of "[97]" "[98]"] by simp

theorem applyExactDiffToYText_outcome_witness:
  "applyExactDiffToYText plain_ytext affix_diff [97, 98] [97, 98] [97, 99] = ([97, 99], Applied)
   \<and> yt_toJSON plain_ytext (fst (applyExactDiffToYText plain_ytext affix_diff [97, 98] [97, 98] [97, 99])) = [97, 99]"
proof -
  have r: "applyExactDiffToYText plain_ytext affix_diff [97, 98] [97, 98] [97, 99] = ([97, 99], Applied)"
    by (simp add: applyExactDiffToYText_def applyDiffToYText_def affix_diff_def diffToCharOps_def
        pushRetain_def pushDelete_def pushInsert_def Let_def) (simp add: plain_ytext_def)
  show ?thesis
    using applyExactDiffToYText_outcome [OF plain_ytext_contract affix_diff_contract,
        where y = "[97, 98]" and expected = "[97, 98]" and new = "[97, 99]"] r by simp
qed

theorem applyDiffToYTextWithPostcondition_final_witness:
  "fst (applyDiffToYTextWithPostcondition plain_ytext affix_diff [97, 98, 120] [97, 98] [121, 98]) = [121, 98, 120]
   \<and> dp_finalLength (snd (applyDiffToYTextWithPostcondition plain_ytext affix_diff [97, 98, 120] [97, 98] [121, 98])) = 3"
proof -
  have m: "cm_mergedText (mergeConcurrentEdits affix_diff [97, 98] [97, 98, 120] [121, 98]) = [121, 98, 120]"
    by (simp add: concurrent_defs Let_def)
  have "aligned (affix_diff [97, 98, 120] [121, 98, 120])"
    by (simp add: affix_diff_def aligned_def ok_end_def high_surrogate_def)
  then have "fst (applyDiffToYTextWithPostcondition plain_ytext affix_diff [97, 98, 120] [97, 98] [121, 98]) = [121, 98, 120]
    \<and> dp_finalLength (snd (applyDiffToYTextWithPostcondition plain_ytext affix_diff [97, 98, 120] [97, 98] [121, 98]))
      = length (fst (applyDiffToYTextWithPostcondition plain_ytext affix_diff [97, 98, 120] [97, 98] [121, 98]))"
    using applyDiffToYTextWithPostcondition_final [OF plain_ytext_contract, where y = "[97, 98, 120]"
        and diff = affix_diff and old = "[97, 98]" and new = "[121, 98]"] m affix_diff_contract
    by simp
  then show ?thesis by simp
qed

end
