(* ===== verification/Concurrency.thy ===== *)
theory Concurrency
  imports Prelude
begin

text \<open>
  The bounded-concurrency map, \<^verbatim>\<open>src/src/shared/concurrency.ts\<close>, as a transition system.

  A pool state holds the shared \<^verbatim>\<open>nextIndex\<close> and \<^verbatim>\<open>results\<close> and the position of every
  \<^verbatim>\<open>runWorker\<close> coroutine: about to take an index, suspended in \<^verbatim>\<open>await worker(...)\<close>, returned, or
  rejected.  A step resumes one coroutine; the order in which awaited promises settle is left open,
  so a reachable state is one that some schedule reaches.  The worker is the caller's and a
  parameter: its outcome is a rejection (\<open>Inl\<close>) or a value (\<open>Inr\<close>).  \<^verbatim>\<open>Promise.all\<close> fulfils
  when every coroutine has returned and rejects when one has thrown; \<open>pool_outcome\<close> reads that off
  a state.
\<close>

datatype 'e worker_state = Ready | Busy nat | Returned | Threw 'e

record ('e, 'r) pool =
  nextIndex :: nat
  results :: "'r option list"
  workers :: "'e worker_state list"

definition normalizedLimit :: "int \<Rightarrow> 'a list \<Rightarrow> nat" where
  "normalizedLimit limit items = nat (max 1 (min limit (int (length items))))"

definition pool_init :: "'a list \<Rightarrow> int \<Rightarrow> ('e, 'r) pool" where
  "pool_init items limit =
     \<lparr> nextIndex = 0, results = replicate (length items) None,
       workers = replicate (normalizedLimit limit items) Ready \<rparr>"

inductive runWorker_step ::
  "('a \<Rightarrow> nat \<Rightarrow> 'e + 'r) \<Rightarrow> 'a list \<Rightarrow> ('e, 'r) pool \<Rightarrow> ('e, 'r) pool \<Rightarrow> bool"
  for work items where
  take_index: "w < length (workers s) \<Longrightarrow> workers s ! w = Ready \<Longrightarrow> nextIndex s < length items \<Longrightarrow>
     runWorker_step work items s
       (s\<lparr> nextIndex := nextIndex s + 1, workers := (workers s)[w := Busy (nextIndex s)] \<rparr>)"
| no_more: "w < length (workers s) \<Longrightarrow> workers s ! w = Ready \<Longrightarrow> length items \<le> nextIndex s \<Longrightarrow>
     runWorker_step work items s
       (s\<lparr> nextIndex := nextIndex s + 1, workers := (workers s)[w := Returned] \<rparr>)"
| settled: "w < length (workers s) \<Longrightarrow> workers s ! w = Busy i \<Longrightarrow> work (items ! i) i = Inr r \<Longrightarrow>
     runWorker_step work items s
       (s\<lparr> results := (results s)[i := Some r], workers := (workers s)[w := Ready] \<rparr>)"
| rejected: "w < length (workers s) \<Longrightarrow> workers s ! w = Busy i \<Longrightarrow> work (items ! i) i = Inl e \<Longrightarrow>
     runWorker_step work items s (s\<lparr> workers := (workers s)[w := Threw e] \<rparr>)"

definition pool_reachable ::
  "('a \<Rightarrow> nat \<Rightarrow> 'e + 'r) \<Rightarrow> 'a list \<Rightarrow> int \<Rightarrow> ('e, 'r) pool \<Rightarrow> bool" where
  "pool_reachable work items limit = (runWorker_step work items)\<^sup>*\<^sup>* (pool_init items limit)"

definition pool_errors :: "('e, 'r) pool \<Rightarrow> 'e list" where
  "pool_errors s = concat (map (\<lambda>w. case w of Threw e \<Rightarrow> [e] | _ \<Rightarrow> []) (workers s))"

definition pool_outcome :: "('e, 'r) pool \<Rightarrow> ('e list + 'r option list) option" where
  "pool_outcome s =
     (if pool_errors s \<noteq> [] then Some (Inl (pool_errors s))
      else if list_all (\<lambda>w. w = Returned) (workers s) then Some (Inr (results s))
      else None)"

section \<open>The pool invariant\<close>

definition slot_ok :: "('a \<Rightarrow> nat \<Rightarrow> 'e + 'r) \<Rightarrow> 'a list \<Rightarrow> ('e, 'r) pool \<Rightarrow> nat \<Rightarrow> bool" where
  "slot_ok work items s i \<longleftrightarrow>
     (if i < nextIndex s
      then (\<exists>r. results s ! i = Some r \<and> work (items ! i) i = Inr r)
         \<or> (results s ! i = None \<and>
              (Busy i \<in> set (workers s) \<or> (\<exists>e. Threw e \<in> set (workers s) \<and> work (items ! i) i = Inl e)))
      else results s ! i = None)"

definition pool_inv :: "('a \<Rightarrow> nat \<Rightarrow> 'e + 'r) \<Rightarrow> 'a list \<Rightarrow> ('e, 'r) pool \<Rightarrow> bool" where
  "pool_inv work items s \<longleftrightarrow>
     length (results s) = length items
     \<and> (\<forall>i < length items. slot_ok work items s i)
     \<and> (\<forall>i. Busy i \<in> set (workers s) \<longrightarrow> i < nextIndex s \<and> i < length items \<and> results s ! i = None)
     \<and> (\<forall>v < length (workers s). \<forall>w < length (workers s). \<forall>i.
          workers s ! v = Busy i \<and> workers s ! w = Busy i \<longrightarrow> v = w)
     \<and> (Returned \<in> set (workers s) \<longrightarrow> length items \<le> nextIndex s)
     \<and> (\<forall>e. Threw e \<in> set (workers s) \<longrightarrow> (\<exists>i < length items. work (items ! i) i = Inl e))"

text \<open>What a worker's move does to the set of worker positions.\<close>

lemma mem_update_other: "w < length ws \<Longrightarrow> x \<noteq> b \<Longrightarrow> x \<noteq> ws ! w \<Longrightarrow> x \<in> set (ws[w := b]) \<longleftrightarrow> x \<in> set ws"
  by (auto simp: in_set_conv_nth nth_list_update split: if_splits)

lemma mem_update_new: "w < length ws \<Longrightarrow> b \<in> set (ws[w := b])"
  by (rule set_update_memI)

lemma mem_update_old:
  "w < length ws \<Longrightarrow> \<forall>v < length ws. ws ! v = a \<longrightarrow> v = w \<Longrightarrow> b \<noteq> a \<Longrightarrow> a \<notin> set (ws[w := b])"
  by (auto simp: in_set_conv_nth nth_list_update split: if_splits)

lemma set_pool_errors: "set (pool_errors s) = {e. Threw e \<in> set (workers s)}"
  by (auto simp: pool_errors_def split: worker_state.splits intro: bexI [rotated])

lemma pool_init_inv: "pool_inv work items (pool_init items limit)"
  by (auto simp: pool_inv_def pool_init_def slot_ok_def)

lemma busy_distinct_update:
  assumes "\<forall>v < length ws. \<forall>w < length ws. \<forall>i. ws ! v = Busy i \<and> ws ! w = Busy i \<longrightarrow> v = w"
    and "\<And>i. b = Busy i \<Longrightarrow> Busy i \<notin> set ws"
  shows "\<forall>v < length (ws[w := b]). \<forall>u < length (ws[w := b]). \<forall>i.
    ws[w := b] ! v = Busy i \<and> ws[w := b] ! u = Busy i \<longrightarrow> v = u"
proof (intro allI impI, elim conjE)
  fix v u i assume v: "v < length (ws[w := b])" "ws[w := b] ! v = Busy i"
    and u: "u < length (ws[w := b])" "ws[w := b] ! u = Busy i"
  show "v = u"
  proof (cases "b = Busy i")
    case True
    then have "Busy i \<notin> set ws" using assms(2) by blast
    then show ?thesis using u v by (metis length_list_update nth_list_update_neq nth_mem)
  next
    case False
    then show ?thesis using u v assms(1) by (auto simp: nth_list_update split: if_splits)
        (metis nth_list_update_eq nth_list_update_neq)
  qed
qed

lemma take_index_inv:
  assumes inv: "pool_inv work items s" and w: "w < length (workers s)"
    and st: "workers s ! w = Ready" "nextIndex s < length items"
  shows "pool_inv work items
    (s\<lparr> nextIndex := nextIndex s + 1, workers := (workers s)[w := Busy (nextIndex s)] \<rparr>)"
proof -
  let ?ws = "(workers s)[w := Busy (nextIndex s)]"
  have fresh: "Busy (nextIndex s) \<notin> set (workers s)" using inv by (auto simp: pool_inv_def)
  have busy: "Busy i \<in> set ?ws \<longleftrightarrow> i = nextIndex s \<or> Busy i \<in> set (workers s)" for i
    using w st(1) by (cases "i = nextIndex s") (simp_all add: mem_update_new mem_update_other)
  have other: "Threw e \<in> set ?ws \<longleftrightarrow> Threw e \<in> set (workers s)"
      "Returned \<in> set ?ws \<longleftrightarrow> Returned \<in> set (workers s)" for e
    using w st(1) by (simp_all add: mem_update_other)
  have uniq: "\<forall>v < length ?ws. \<forall>u < length ?ws. \<forall>i. ?ws ! v = Busy i \<and> ?ws ! u = Busy i \<longrightarrow> v = u"
    using inv fresh by (intro busy_distinct_update) (auto simp: pool_inv_def)
  show ?thesis
    using inv st(2) uniq unfolding pool_inv_def slot_ok_def
    by (simp add: busy other less_Suc_eq)
qed

lemma no_more_inv:
  assumes inv: "pool_inv work items s" and w: "w < length (workers s)"
    and st: "workers s ! w = Ready" "length items \<le> nextIndex s"
  shows "pool_inv work items (s\<lparr> nextIndex := nextIndex s + 1, workers := (workers s)[w := Returned] \<rparr>)"
proof -
  let ?ws = "(workers s)[w := Returned]"
  have other: "Threw e \<in> set ?ws \<longleftrightarrow> Threw e \<in> set (workers s)"
      "Busy i \<in> set ?ws \<longleftrightarrow> Busy i \<in> set (workers s)" for e i
    using w st(1) by (simp_all add: mem_update_other)
  have uniq: "\<forall>v < length ?ws. \<forall>u < length ?ws. \<forall>i. ?ws ! v = Busy i \<and> ?ws ! u = Busy i \<longrightarrow> v = u"
    using inv by (intro busy_distinct_update) (auto simp: pool_inv_def)
  show ?thesis
    using inv st(2) uniq unfolding pool_inv_def slot_ok_def
    by (simp add: other less_Suc_eq)
qed

lemma settled_inv:
  assumes inv: "pool_inv work items s" and w: "w < length (workers s)"
    and st: "workers s ! w = Busy i" "work (items ! i) i = Inr r"
  shows "pool_inv work items (s\<lparr> results := (results s)[i := Some r], workers := (workers s)[w := Ready] \<rparr>)"
proof -
  let ?ws = "(workers s)[w := Ready]"
  have i: "i < nextIndex s" "i < length items"
    using inv w st(1) nth_mem [OF w] unfolding pool_inv_def by auto
  have "Busy i \<notin> set ?ws"
    using inv w st(1) by (intro mem_update_old) (auto simp: pool_inv_def)
  then have busy: "Busy j \<in> set ?ws \<longleftrightarrow> j \<noteq> i \<and> Busy j \<in> set (workers s)" for j
    using w st(1) by (cases "j = i") (simp_all add: mem_update_other)
  have other: "Threw e \<in> set ?ws \<longleftrightarrow> Threw e \<in> set (workers s)"
      "Returned \<in> set ?ws \<longleftrightarrow> Returned \<in> set (workers s)" for e
    using w st(1) by (simp_all add: mem_update_other)
  have uniq: "\<forall>v < length ?ws. \<forall>u < length ?ws. \<forall>j. ?ws ! v = Busy j \<and> ?ws ! u = Busy j \<longrightarrow> v = u"
    using inv by (intro busy_distinct_update) (auto simp: pool_inv_def)
  show ?thesis
    using inv st(2) i uniq unfolding pool_inv_def slot_ok_def
    by (simp add: busy other nth_list_update)
qed

lemma rejected_inv:
  assumes inv: "pool_inv work items s" and w: "w < length (workers s)"
    and st: "workers s ! w = Busy i" "work (items ! i) i = Inl e"
  shows "pool_inv work items (s\<lparr> workers := (workers s)[w := Threw e] \<rparr>)"
proof -
  let ?ws = "(workers s)[w := Threw e]"
  have i: "i < nextIndex s" "i < length items" "results s ! i = None"
    using inv w st(1) nth_mem [OF w] unfolding pool_inv_def by auto
  have "Busy i \<notin> set ?ws"
    using inv w st(1) by (intro mem_update_old) (auto simp: pool_inv_def)
  then have busy: "Busy j \<in> set ?ws \<longleftrightarrow> j \<noteq> i \<and> Busy j \<in> set (workers s)" for j
    using w st(1) by (cases "j = i") (simp_all add: mem_update_other)
  have threw: "Threw d \<in> set ?ws \<longleftrightarrow> d = e \<or> Threw d \<in> set (workers s)" for d
    using w st(1) by (cases "d = e") (simp_all add: mem_update_new mem_update_other)
  have other: "Returned \<in> set ?ws \<longleftrightarrow> Returned \<in> set (workers s)"
    using w st(1) by (simp add: mem_update_other)
  have uniq: "\<forall>v < length ?ws. \<forall>u < length ?ws. \<forall>j. ?ws ! v = Busy j \<and> ?ws ! u = Busy j \<longrightarrow> v = u"
    using inv by (intro busy_distinct_update) (auto simp: pool_inv_def)
  show ?thesis
    using inv st(2) i uniq unfolding pool_inv_def slot_ok_def
    by (simp add: busy other threw) metis
qed

lemma runWorker_step_inv: "runWorker_step work items s s' \<Longrightarrow> pool_inv work items s \<Longrightarrow> pool_inv work items s'"
  by (induction rule: runWorker_step.induct)
    (simp_all only: take_index_inv no_more_inv settled_inv rejected_inv)

lemma reachable_inv: "pool_reachable work items limit s \<Longrightarrow> pool_inv work items s"
  unfolding pool_reachable_def
  by (induction rule: rtranclp_induct) (auto intro: pool_init_inv runWorker_step_inv)

section \<open>Progress and termination\<close>

fun worker_weight :: "'e worker_state \<Rightarrow> nat" where
  "worker_weight Ready = 1"
| "worker_weight (Busy i) = 2"
| "worker_weight _ = 0"

definition pool_measure :: "'a list \<Rightarrow> ('e, 'r) pool \<Rightarrow> nat" where
  "pool_measure items s = 3 * (length items - nextIndex s) + sum_list (map worker_weight (workers s))"

lemma weight_update:
  assumes "w < length ws"
  shows "sum_list (map worker_weight (ws[w := b])) + worker_weight (ws ! w)
    = sum_list (map worker_weight ws) + worker_weight b"
  using assms by (induction ws arbitrary: w) (auto split: nat.splits)

lemma step_decreases: "runWorker_step work items s s' \<Longrightarrow> pool_measure items s' < pool_measure items s"
proof (induction rule: runWorker_step.induct)
  case (take_index w s)
  then show ?case using weight_update [of w "workers s" "Busy (nextIndex s)"] by (simp add: pool_measure_def)
next
  case (no_more w s)
  then show ?case using weight_update [of w "workers s" Returned] by (simp add: pool_measure_def)
next
  case (settled w s i r)
  then show ?case using weight_update [of w "workers s" Ready] by (simp add: pool_measure_def)
next
  case (rejected w s i e)
  then show ?case using weight_update [of w "workers s" "Threw e"] by (simp add: pool_measure_def)
qed

lemma step_workers_length: "runWorker_step work items s s' \<Longrightarrow> length (workers s') = length (workers s)"
  by (induction rule: runWorker_step.induct) simp_all

lemma reachable_workers_length:
  "pool_reachable work items limit s \<Longrightarrow> length (workers s) = normalizedLimit limit items"
  unfolding pool_reachable_def
  by (induction rule: rtranclp_induct) (auto simp: pool_init_def step_workers_length)

lemma active_worker_steps:
  assumes "v \<in> set (workers s)" "v = Ready \<or> (\<exists>i. v = Busy i)"
  shows "\<exists>s'. runWorker_step work items s s'"
proof -
  obtain w where w: "w < length (workers s)" "workers s ! w = v"
    using assms(1) by (auto simp: in_set_conv_nth)
  show ?thesis
  proof (cases v)
    case Ready
    then show ?thesis using w take_index no_more by (metis not_less)
  next
    case (Busy i)
    then show ?thesis using w settled rejected by (metis sum.exhaust)
  qed (use assms(2) in auto)
qed

lemma stuck_results:
  assumes "pool_reachable work items limit s" "\<nexists>s'. runWorker_step work items s s'"
    and "pool_errors s = []"
  shows "list_all (\<lambda>w. w = Returned) (workers s) \<and> length (results s) = length items
    \<and> (\<forall>i < length items. \<exists>r. results s ! i = Some r \<and> work (items ! i) i = Inr r)"
proof -
  have inv: "pool_inv work items s" by (rule reachable_inv [OF assms(1)])
  have noerr: "Threw e \<notin> set (workers s)" for e using assms(3) set_pool_errors [of s] by auto
  have ret: "v = Returned" if "v \<in> set (workers s)" for v
    using active_worker_steps [OF that] assms(2) noerr that by (metis worker_state.exhaust)
  have "workers s \<noteq> []"
    using reachable_workers_length [OF assms(1)] by (auto simp: normalizedLimit_def)
  then have "Returned \<in> set (workers s)" using ret by (metis last_in_set)
  then have "length items \<le> nextIndex s" using inv by (simp add: pool_inv_def)
  moreover have "Busy i \<notin> set (workers s)" for i using ret by blast
  ultimately have "\<exists>r. results s ! i = Some r \<and> work (items ! i) i = Inr r" if "i < length items" for i
    using inv that noerr unfolding pool_inv_def slot_ok_def by (metis order_less_le_trans)
  then show ?thesis using ret inv by (simp add: list_all_iff pool_inv_def)
qed

lemma run_length:
  "(runWorker_step work items ^^ k) s s' \<Longrightarrow> k + pool_measure items s' \<le> pool_measure items s"
proof (induction k arbitrary: s')
  case (Suc k)
  then obtain t where "(runWorker_step work items ^^ k) s t" "runWorker_step work items t s'" by auto
  then show ?case using Suc.IH [of t] step_decreases [of work items t s'] by simp
qed simp

lemma pool_measure_init: "pool_measure items (pool_init items limit) = 3 * length items + normalizedLimit limit items"
  by (simp add: pool_measure_def pool_init_def sum_list_replicate)

text \<open>
  The bounded map gives the results in the order of the items, whatever order the awaited calls
  settle in.  When no coroutine can move any more the outcome is decided: it is the list of every
  item's own result, or it is a rejection with errors that items really raised.
\<close>

theorem mapWithConcurrency_outcome:
  assumes "pool_reachable work items limit s" "\<nexists>s'. runWorker_step work items s s'"
  shows "(\<exists>rs. pool_outcome s = Some (Inr (map Some rs)) \<and> length rs = length items
            \<and> (\<forall>i < length items. work (items ! i) i = Inr (rs ! i)))
       \<or> (\<exists>errs. pool_outcome s = Some (Inl errs) \<and> errs \<noteq> []
            \<and> (\<forall>e \<in> set errs. \<exists>i < length items. work (items ! i) i = Inl e))"
proof (cases "pool_errors s = []")
  case True
  note st = stuck_results [OF assms True]
  let ?rs = "map the (results s)"
  have "results s = map Some ?rs" using st by (intro nth_equalityI) auto
  then have "pool_outcome s = Some (Inr (map Some ?rs))"
    using True st by (simp add: pool_outcome_def)
  moreover have "length ?rs = length items" "\<forall>i < length items. work (items ! i) i = Inr (?rs ! i)"
    using st by auto
  ultimately show ?thesis by blast
next
  case False
  moreover have "\<forall>e \<in> set (pool_errors s). \<exists>i < length items. work (items ! i) i = Inl e"
    using reachable_inv [OF assms(1)] set_pool_errors [of s] by (simp add: pool_inv_def)
  ultimately show ?thesis by (simp add: pool_outcome_def)
qed

text \<open>
  C32: the bounded map ends and stays bounded.  A run takes at most three steps per item and one
  per worker; it never stops while a worker is active; at most the normalized limit of calls is in
  flight, and no item is in flight twice.
\<close>

theorem mapWithConcurrency_bounded:
  assumes "(runWorker_step work items ^^ k) (pool_init items limit) s"
  shows "k \<le> 3 * length items + normalizedLimit limit items
    \<and> length (workers s) = normalizedLimit limit items
    \<and> (\<forall>v < length (workers s). \<forall>w < length (workers s). \<forall>i.
         workers s ! v = Busy i \<and> workers s ! w = Busy i \<longrightarrow> v = w)
    \<and> ((\<exists>w \<in> set (workers s). w = Ready \<or> (\<exists>i. w = Busy i)) \<longrightarrow> (\<exists>s'. runWorker_step work items s s'))"
proof -
  have reach: "pool_reachable work items limit s"
    unfolding pool_reachable_def using assms by (rule relpowp_imp_rtranclp)
  show ?thesis
    using run_length [OF assms] reachable_workers_length [OF reach] reachable_inv [OF reach]
      active_worker_steps [of _ s work items]
    by (auto simp: pool_measure_init pool_inv_def)
qed

text \<open>A pool of one item, run to its end.\<close>

definition sample_work :: "nat \<Rightarrow> nat \<Rightarrow> unit + nat" where "sample_work x i = Inr (x + 1)"

definition sample_end :: "(unit, nat) pool" where
  "sample_end = \<lparr> nextIndex = 2, results = [Some 6], workers = [Returned] \<rparr>"

lemma sample_run: "(runWorker_step sample_work [5] ^^ 3) (pool_init [5] 4) sample_end"
proof -
  let ?s1 = "\<lparr> nextIndex = 1, results = [None], workers = [Busy 0] \<rparr> :: (unit, nat) pool"
  let ?s2 = "\<lparr> nextIndex = 1, results = [Some 6], workers = [Ready] \<rparr> :: (unit, nat) pool"
  have "runWorker_step sample_work [5] (pool_init [5] 4) ?s1"
    using take_index [of 0 "pool_init [5] 4 :: (unit, nat) pool" "[5 :: nat]" sample_work]
    by (simp add: pool_init_def normalizedLimit_def)
  moreover have "runWorker_step sample_work [5] ?s1 ?s2"
    using settled [of 0 ?s1 0 sample_work "[5]" 6] by (simp add: sample_work_def)
  moreover have "runWorker_step sample_work [5] ?s2 sample_end"
    using no_more [of 0 ?s2 "[5 :: nat]" sample_work] by (simp add: sample_end_def numeral_2_eq_2)
  ultimately show ?thesis by (auto simp: numeral_3_eq_3 relcompp.simps)
qed

lemma sample_end_stuck: "\<nexists>s'. runWorker_step sample_work [5] sample_end s'"
  by (auto simp: sample_end_def elim!: runWorker_step.cases)

theorem mapWithConcurrency_outcome_witness:
  "\<exists>rs. pool_outcome sample_end = Some (Inr (map Some rs)) \<and> length rs = 1 \<and> rs ! 0 = 6"
proof -
  have "pool_reachable sample_work [5] 4 sample_end"
    unfolding pool_reachable_def using sample_run by (rule relpowp_imp_rtranclp)
  from mapWithConcurrency_outcome [OF this sample_end_stuck] show ?thesis
    by (auto simp: sample_work_def) (simp add: pool_outcome_def pool_errors_def sample_end_def)
qed

theorem mapWithConcurrency_bounded_witness: "3 \<le> 3 * length [5 :: nat] + normalizedLimit 4 [5 :: nat]"
  using mapWithConcurrency_bounded [OF sample_run] by simp

end
