(* ===== verification/Digits.thy ===== *)
theory Digits
  imports Prelude
begin

text \<open>
  Numbers as text, as JavaScript prints them: \<^verbatim>\<open>Number.prototype.toString\<close> with a radix for natural
  numbers, template interpolation (radix ten) and \<^verbatim>\<open>padStart\<close>; and that nothing is lost by printing.
\<close>

section \<open>Printing\<close>

definition digit_char :: "nat \<Rightarrow> jschar" where
  "digit_char d = (if d < 10 then of_nat (48 + d) else of_nat (87 + d))"

fun digits_of :: "nat \<Rightarrow> nat \<Rightarrow> jsstr" where
  "digits_of b n =
     (if b < 2 \<or> n < b then [digit_char n] else digits_of b (n div b) @ [digit_char (n mod b)])"

declare digits_of.simps [simp del]

definition padStart :: "nat \<Rightarrow> jschar \<Rightarrow> jsstr \<Rightarrow> jsstr" where
  "padStart n c t = replicate (n - length t) c @ t"

section \<open>Reading back\<close>

definition char_digit :: "jschar \<Rightarrow> nat" where
  "char_digit c = (if unat c < 58 then unat c - 48 else unat c - 87)"

definition digits_val :: "nat \<Rightarrow> jsstr \<Rightarrow> nat" where
  "digits_val b t = foldl (\<lambda>a c. a * b + char_digit c) 0 t"

lemma char_digit_digit_char: "d < 16 \<Longrightarrow> char_digit (digit_char d) = d"
  by (simp add: char_digit_def digit_char_def unat_of_nat del: of_nat_add of_nat_numeral)

lemma digits_val_digits_of: "2 \<le> b \<Longrightarrow> b \<le> 16 \<Longrightarrow> digits_val b (digits_of b n) = n"
proof (induction b n rule: digits_of.induct)
  case (1 b n)
  show ?case
  proof (cases "n < b")
    case True
    then show ?thesis using 1 by (simp add: digits_of.simps [of b n] digits_val_def char_digit_digit_char)
  next
    case False
    then have "digits_val b (digits_of b (n div b)) = n div b" using 1 by simp
    moreover have "char_digit (digit_char (n mod b)) = n mod b"
      using 1(2,3) mod_less_divisor [of b n] by (intro char_digit_digit_char) linarith
    ultimately show ?thesis
      using False 1(2) by (simp add: digits_of.simps [of b n] digits_val_def)
  qed
qed

lemma digits_val_padStart: "digits_val b (padStart n 48 t) = digits_val b t"
proof -
  have "foldl (\<lambda>a c. a * b + char_digit c) 0 (replicate k 48) = 0" for k
    by (induction k) (simp_all add: char_digit_def)
  then show ?thesis by (simp add: digits_val_def padStart_def)
qed

lemma length_digits_of: "2 \<le> b \<Longrightarrow> n < b ^ k \<Longrightarrow> 0 < k \<Longrightarrow> length (digits_of b n) \<le> k"
proof (induction k arbitrary: n)
  case (Suc k)
  show ?case
  proof (cases "n < b")
    case False
    then have "k \<noteq> 0" "n div b < b ^ k"
      using Suc.prems by (auto simp: less_mult_imp_div_less mult.commute intro: gr0I)
    then show ?thesis using Suc False by (simp add: digits_of.simps [of b n])
  qed (simp add: digits_of.simps)
qed simp

lemma length_hex_pad: "0 < k \<Longrightarrow> n < 16 ^ k \<Longrightarrow> length (padStart k 48 (digits_of 16 n)) = k"
  using length_digits_of [of 16 n k] by (simp add: padStart_def)

lemma digits_val_inject:
  assumes "f m = f n" "\<And>k. digits_val b (f k) = k"
  shows "m = n"
  using assms by metis

lemma hex_pad_inject: "padStart k 48 (digits_of 16 m) = padStart k 48 (digits_of 16 n) \<longleftrightarrow> m = n"
proof
  assume "padStart k 48 (digits_of 16 m) = padStart k 48 (digits_of 16 n)"
  then show "m = n"
    by (rule digits_val_inject [of "\<lambda>n. padStart k 48 (digits_of 16 n)" _ _ 16])
      (simp add: digits_val_padStart digits_val_digits_of)
qed simp

lemma decimal_inject: "digits_of 10 m = digits_of 10 n \<longleftrightarrow> m = n"
proof
  assume "digits_of 10 m = digits_of 10 n"
  then show "m = n" by (rule digits_val_inject [of "digits_of 10"]) (rule digits_val_digits_of, simp_all)
qed simp

lemma digits_of_nonempty: "digits_of b n \<noteq> []"
  by (subst digits_of.simps) simp

lemma digits_of_chars: "2 \<le> b \<Longrightarrow> b \<le> 10 \<Longrightarrow> c \<in> set (digits_of b n) \<Longrightarrow> 48 \<le> c \<and> c \<le> 57"
proof (induction b n rule: digits_of.induct)
  case (1 b n)
  have d: "48 \<le> digit_char d \<and> digit_char d \<le> 57" if "d < 10" for d
    using that by (simp add: digit_char_def word_le_nat_alt unat_of_nat del: of_nat_add)
  show ?case
  proof (cases "n < b")
    case True
    then show ?thesis using 1 d [of n] by (simp add: digits_of.simps [of b n])
  next
    case False
    then have "c \<in> set (digits_of b (n div b)) \<or> c = digit_char (n mod b)"
      using 1(4) 1(2) by (auto simp: digits_of.simps [of b n])
    moreover have "n mod b < 10" using 1(2,3) mod_less_divisor [of b n] by linarith
    ultimately show ?thesis using 1(1) 1(2,3) False d by auto
  qed
qed

end
