(* ===== verification/DiskIndex.thy ===== *)
theory DiskIndex
  imports Concurrency Digits
begin

text \<open>
  The disk index, \<^verbatim>\<open>src/src/sync/diskIndex.ts\<close>: what the plugin remembers of every file between
  sessions (modification time, size, the content hash of the last clean settlement, which is the
  baseline of the three-way decisions, and when it was settled).

  The index is a JavaScript object keyed by path, here a map from paths; the fresh stats of a
  reconcile are a \<^verbatim>\<open>Map\<close>.  Times and sizes are integers, only compared and copied.  The vault
  adapter's \<^verbatim>\<open>stat\<close>, Obsidian's \<^verbatim>\<open>normalizePath\<close>, the UTF-8 encoder and the SHA-256 digest are
  parameters.  The stats of all files are gathered through the bounded map, whose results are in
  the order of the files (theory \<open>Concurrency\<close>).
\<close>

section \<open>Fingerprints\<close>

text \<open>
  One round of the loop on the 32-bit accumulator; JavaScript's bit operators truncate to 32 bits
  and \<^verbatim>\<open>>>> 0\<close> reduces the sum modulo \<open>2 ^ 32\<close>.
\<close>

definition fingerprint_round :: "32 word \<Rightarrow> jschar \<Rightarrow> 32 word" where
  "fingerprint_round h c =
     (let h = xor h (ucast c)
      in h + (push_bit 1 h + push_bit 4 h + push_bit 7 h + push_bit 8 h + push_bit 24 h))"

definition fingerprint_word :: "jsstr \<Rightarrow> 32 word" where
  "fingerprint_word t = foldl fingerprint_round 0x811c9dc5 t"

definition contentFingerprint :: "jsstr \<Rightarrow> jsstr" where
  "contentFingerprint t =
     padStart 8 48 (digits_of 16 (unat (fingerprint_word t))) @ [58] @ digits_of 10 (length t)"

definition contentBaselineHash :: "(jsstr \<Rightarrow> byte list) \<Rightarrow> (byte list \<Rightarrow> byte list) \<Rightarrow> jsstr \<Rightarrow> hash" where
  "contentBaselineHash utf8 sha256 content =
     concat (map (\<lambda>b. padStart 2 48 (digits_of 16 (unat b))) (sha256 (utf8 content)))"

section \<open>Index entries and stats\<close>

record file_stat =
  st_mtime :: int
  st_size :: int

record disk_index_entry =
  de_mtime :: int
  de_size :: int
  de_contentHash :: "hash option"
  de_settledAtMs :: "int option"

type_synonym disk_index = "path \<Rightarrow> disk_index_entry option"

datatype stat_reply = StatReply file_stat | StatMissing | StatThrows

definition statFile :: "(path \<Rightarrow> stat_reply) \<Rightarrow> (path \<Rightarrow> path) \<Rightarrow> path \<Rightarrow> file_stat option" where
  "statFile adapter_stat normalizePath p =
     (case adapter_stat (normalizePath p) of
        StatReply st \<Rightarrow> Some st
      | StatMissing \<Rightarrow> None
      | StatThrows \<Rightarrow> None)"

definition hasChanged :: "disk_index_entry option \<Rightarrow> file_stat \<Rightarrow> bool" where
  "hasChanged entry st =
     (case entry of None \<Rightarrow> True | Some e \<Rightarrow> de_mtime e \<noteq> st_mtime st \<or> de_size e \<noteq> st_size st)"

record changed_files =
  cf_changed :: "path list"
  cf_unchanged :: "path list"
  cf_allStats :: "(path \<times> file_stat) list"

definition note_stat :: "disk_index \<Rightarrow> changed_files \<Rightarrow> path \<times> file_stat option \<Rightarrow> changed_files" where
  "note_stat index acc r =
     (case snd r of
        None \<Rightarrow> acc\<lparr> cf_changed := cf_changed acc @ [fst r] \<rparr>
      | Some st \<Rightarrow>
          let acc = acc\<lparr> cf_allStats := AList.update (fst r) st (cf_allStats acc) \<rparr>
          in if hasChanged (index (fst r)) st
             then acc\<lparr> cf_changed := cf_changed acc @ [fst r] \<rparr>
             else acc\<lparr> cf_unchanged := cf_unchanged acc @ [fst r] \<rparr>)"

definition filterChangedFiles ::
  "(path \<Rightarrow> stat_reply) \<Rightarrow> (path \<Rightarrow> path) \<Rightarrow> path list \<Rightarrow> disk_index \<Rightarrow> changed_files" where
  "filterChangedFiles adapter_stat normalizePath mdFiles index =
     foldl (note_stat index) \<lparr> cf_changed = [], cf_unchanged = [], cf_allStats = [] \<rparr>
       (map (\<lambda>p. (p, statFile adapter_stat normalizePath p)) mdFiles)"

definition collectFileStats ::
  "(path \<Rightarrow> stat_reply) \<Rightarrow> (path \<Rightarrow> path) \<Rightarrow> path list \<Rightarrow> (path \<times> file_stat) list" where
  "collectFileStats adapter_stat normalizePath files =
     foldl (\<lambda>out r. case snd r of None \<Rightarrow> out | Some st \<Rightarrow> AList.update (fst r) st out) []
       (map (\<lambda>p. (p, statFile adapter_stat normalizePath p)) files)"

record update_options =
  uo_excludePaths :: "path list"
  uo_settledHashes :: "(path \<times> hash) list"
  uo_settledAtMs :: int

definition updated_entry :: "disk_index \<Rightarrow> update_options \<Rightarrow> path \<Rightarrow> file_stat \<Rightarrow> disk_index_entry" where
  "updated_entry index opts p st =
     (let oldEntry = index p;
          settledHash = map_of (uo_settledHashes opts) p
      in \<lparr> de_mtime = st_mtime st, de_size = st_size st,
           de_contentHash =
             (case settledHash of Some h \<Rightarrow> Some h | None \<Rightarrow> Option.bind oldEntry de_contentHash),
           de_settledAtMs =
             (case settledHash of Some h \<Rightarrow> Some (uo_settledAtMs opts)
              | None \<Rightarrow> Option.bind oldEntry de_settledAtMs) \<rparr>)"

definition update_path :: "disk_index \<Rightarrow> update_options \<Rightarrow> disk_index \<Rightarrow> path \<times> file_stat \<Rightarrow> disk_index" where
  "update_path index opts newIndex ps =
     (if fst ps \<in> set (uo_excludePaths opts)
      then (case index (fst ps) of None \<Rightarrow> newIndex | Some previousEntry \<Rightarrow> newIndex(fst ps \<mapsto> previousEntry))
      else newIndex(fst ps \<mapsto> updated_entry index opts (fst ps) (snd ps)))"

definition updateIndex :: "disk_index \<Rightarrow> (path \<times> file_stat) list \<Rightarrow> update_options \<Rightarrow> disk_index" where
  "updateIndex index allStats opts = foldl (update_path index opts) (\<lambda>p. None) allStats"

definition move_entry :: "disk_index \<Rightarrow> path \<times> path \<Rightarrow> disk_index" where
  "move_entry index r =
     (case index (fst r) of
        None \<Rightarrow> index
      | Some entry \<Rightarrow> (index(snd r \<mapsto> entry))(fst r := None))"

definition moveIndexEntries :: "disk_index \<Rightarrow> (path \<times> path) list \<Rightarrow> disk_index" where
  "moveIndexEntries index renames = foldl move_entry index renames"

text \<open>
  Waiting for a new file to settle: \<open>samples i\<close> is what the \<open>i\<close>-th stat (after \<open>i\<close> delays)
  returned.
\<close>

fun quiet_loop :: "(nat \<Rightarrow> file_stat option) \<Rightarrow> nat \<Rightarrow> nat \<Rightarrow> file_stat option \<Rightarrow> bool" where
  "quiet_loop samples i 0 prev = (prev \<noteq> None)"
| "quiet_loop samples i (Suc k) prev =
     (case samples i of
        None \<Rightarrow> False
      | Some st \<Rightarrow> if prev = Some st then True else quiet_loop samples (Suc i) k (Some st))"

definition waitForDiskQuiet :: "(nat \<Rightarrow> file_stat option) \<Rightarrow> nat \<Rightarrow> bool" where
  "waitForDiskQuiet samples checks = quiet_loop samples 0 checks None"

section \<open>Properties of fingerprints\<close>

definition fnv1a :: "jsstr \<Rightarrow> 32 word" where
  "fnv1a t = foldl (\<lambda>h c. xor h (ucast c) * 16777619) 0x811c9dc5 t"

lemma fingerprint_round_fnv: "fingerprint_round h c = xor h (ucast c) * 16777619"
  by (simp add: fingerprint_round_def Let_def push_bit_eq_mult algebra_simps)

lemma fingerprint_word_fnv: "fingerprint_word t = fnv1a t"
proof -
  have "fingerprint_round = (\<lambda>h c. xor h (ucast c) * 16777619)"
    by (intro ext) (rule fingerprint_round_fnv)
  then show ?thesis by (simp only: fingerprint_word_def fnv1a_def)
qed

text \<open>
  The shift-and-add loop computes the 32-bit FNV-1a hash of the code units, and a fingerprint
  determines exactly that hash and the length of the text: eight hexadecimal digits are always
  enough, and the printed length is read back unambiguously.
\<close>

theorem contentFingerprint_determines:
  "(contentFingerprint s = contentFingerprint t \<longleftrightarrow> fnv1a s = fnv1a t \<and> length s = length t)
   \<and> contentFingerprint t ! 8 = 58 \<and> digits_val 10 (drop 9 (contentFingerprint t)) = length t"
proof -
  have len: "length (padStart 8 48 (digits_of 16 (unat (fingerprint_word u)))) = 8" for u
    using unsigned_less [of "fingerprint_word u", where ?'a = nat] by (intro length_hex_pad) simp_all
  have "contentFingerprint s = contentFingerprint t \<longleftrightarrow>
      unat (fingerprint_word s) = unat (fingerprint_word t) \<and> length s = length t"
    unfolding contentFingerprint_def using len [of s] len [of t]
    by (simp add: hex_pad_inject decimal_inject)
  then show ?thesis
    using len [of t] by (simp add: contentFingerprint_def fingerprint_word_fnv nth_append digits_val_digits_of
        word_unat_eq_iff)
qed

text \<open>
  A baseline hash is the hexadecimal text of the digest and loses nothing of it: two contents
  have the same hash exactly when their digests agree.
\<close>

theorem contentBaselineHash_injective:
  "contentBaselineHash utf8 sha256 a = contentBaselineHash utf8 sha256 b
     \<longleftrightarrow> sha256 (utf8 a) = sha256 (utf8 b)"
proof -
  have len: "length (padStart 2 48 (digits_of 16 (unat (x :: byte)))) = 2" for x
    using unsigned_less [of x, where ?'a = nat] by (intro length_hex_pad) simp_all
  have "xs = ys" if "concat (map (\<lambda>b :: byte. padStart 2 48 (digits_of 16 (unat b))) xs)
      = concat (map (\<lambda>b. padStart 2 48 (digits_of 16 (unat b))) ys)" for xs ys
    using that
  proof (induction xs arbitrary: ys)
    case Nil
    then show ?case using len by (cases ys) (auto dest!: arg_cong [where f = length])
  next
    case (Cons x xs)
    then obtain y ys' where ys: "ys = y # ys'"
      using len by (cases ys) (auto dest!: arg_cong [where f = length])
    with Cons.prems have "padStart 2 48 (digits_of 16 (unat x)) = padStart 2 48 (digits_of 16 (unat y))"
      "concat (map (\<lambda>b. padStart 2 48 (digits_of 16 (unat b))) xs)
        = concat (map (\<lambda>b. padStart 2 48 (digits_of 16 (unat b))) ys')"
      using len [of x] len [of y] by simp_all
    then show ?case using Cons.IH ys by (simp add: hex_pad_inject word_unat_eq_iff)
  qed
  then show ?thesis by (auto simp: contentBaselineHash_def)
qed

section \<open>Properties of the index\<close>

lemma foldl_update_path:
  assumes "distinct (map fst stats)"
  shows "foldl (update_path index opts) acc stats p =
    (case map_of stats p of
       None \<Rightarrow> acc p
     | Some st \<Rightarrow>
         if p \<in> set (uo_excludePaths opts)
         then (case index p of None \<Rightarrow> acc p | Some e \<Rightarrow> Some e)
         else Some (updated_entry index opts p st))"
  using assms
proof (induction stats arbitrary: acc)
  case (Cons ps stats)
  then have "map_of stats (fst ps) = None" by (simp add: map_of_eq_None_iff)
  then show ?case using Cons
    by (cases ps) (auto simp: update_path_def split: option.splits)
qed simp

lemma updateIndex_lookup:
  assumes "distinct (map fst stats)"
  shows "updateIndex index stats opts p =
    (case map_of stats p of
       None \<Rightarrow> None
     | Some st \<Rightarrow> if p \<in> set (uo_excludePaths opts) then index p else Some (updated_entry index opts p st))"
  unfolding updateIndex_def foldl_update_path [OF assms] by (auto split: option.splits)

text \<open>
  Updating the index never loses a baseline of a file that could be statted.  An excluded path
  keeps its entry exactly; every other path gets the fresh stat, the hash this reconcile settled or
  else the old hash, and a settlement time that is new exactly when the hash was settled now.  Paths
  without a fresh stat have no entry afterwards, excluded or not.
\<close>

theorem updateIndex_keeps_baseline:
  fixes index :: disk_index and opts :: update_options
  assumes "distinct (map fst stats)"
  defines "new \<equiv> updateIndex index stats opts"
  shows "(\<forall>p. new p \<noteq> None \<longrightarrow> p \<in> fst ` set stats)
    \<and> (\<forall>p st. map_of stats p = Some st \<longrightarrow>
         (if p \<in> set (uo_excludePaths opts) then new p = index p
          else (\<exists>e. new p = Some e \<and> \<not> hasChanged (new p) st
            \<and> (case map_of (uo_settledHashes opts) p of
                 Some h \<Rightarrow> de_contentHash e = Some h \<and> de_settledAtMs e = Some (uo_settledAtMs opts)
               | None \<Rightarrow> (\<forall>old. index p = Some old \<longrightarrow>
                   de_contentHash e = de_contentHash old \<and> de_settledAtMs e = de_settledAtMs old)
                 \<and> (index p = None \<longrightarrow> de_contentHash e = None \<and> de_settledAtMs e = None)))))"
proof (intro conjI allI impI)
  fix p assume "new p \<noteq> None"
  then show "p \<in> fst ` set stats"
    unfolding new_def updateIndex_lookup [OF assms(1)]
    by (cases "map_of stats p") (auto dest: map_of_SomeD intro: rev_image_eqI)
next
  fix p st assume st: "map_of stats p = Some st"
  show "if p \<in> set (uo_excludePaths opts) then new p = index p
          else (\<exists>e. new p = Some e \<and> \<not> hasChanged (new p) st
            \<and> (case map_of (uo_settledHashes opts) p of
                 Some h \<Rightarrow> de_contentHash e = Some h \<and> de_settledAtMs e = Some (uo_settledAtMs opts)
               | None \<Rightarrow> (\<forall>old. index p = Some old \<longrightarrow>
                   de_contentHash e = de_contentHash old \<and> de_settledAtMs e = de_settledAtMs old)
                 \<and> (index p = None \<longrightarrow> de_contentHash e = None \<and> de_settledAtMs e = None)))"
    using st unfolding new_def updateIndex_lookup [OF assms(1)]
    by (cases "map_of (uo_settledHashes opts) p"; cases "index p")
      (simp_all add: updated_entry_def hasChanged_def Let_def)
qed

definition stat_says_changed :: "(path \<Rightarrow> file_stat option) \<Rightarrow> disk_index \<Rightarrow> path \<Rightarrow> bool" where
  "stat_says_changed f index p = (case f p of None \<Rightarrow> True | Some st \<Rightarrow> hasChanged (index p) st)"

lemma foldl_note_stat:
  "cf_changed (foldl (note_stat index) acc (map (\<lambda>p. (p, f p)) files))
     = cf_changed acc @ filter (stat_says_changed f index) files"
  "cf_unchanged (foldl (note_stat index) acc (map (\<lambda>p. (p, f p)) files))
     = cf_unchanged acc @ filter (\<lambda>p. \<not> stat_says_changed f index p) files"
  "map_of (cf_allStats (foldl (note_stat index) acc (map (\<lambda>p. (p, f p)) files))) q
     = (if q \<in> set files \<and> f q \<noteq> None then f q else map_of (cf_allStats acc) q)"
  "distinct (map fst (cf_allStats acc)) \<Longrightarrow>
     distinct (map fst (cf_allStats (foldl (note_stat index) acc (map (\<lambda>p. (p, f p)) files))))"
  by (induction files arbitrary: acc)
    (auto simp: note_stat_def stat_says_changed_def Let_def update_conv' distinct_update
      split: option.splits if_splits)

lemmas filterChangedFiles_results =
  foldl_note_stat [where acc = "\<lparr> cf_changed = [], cf_unchanged = [], cf_allStats = [] \<rparr>", simplified,
    folded filterChangedFiles_def]

text \<open>
  The read filter splits the files, in order, into those that must be read and those that may
  be skipped; a file is skipped only when its stat is known and equal to the indexed one.  And the
  index it feeds is a fixed point: after the index took the fresh stats, the same disk needs no
  reads except for the files that cannot be statted.
\<close>

theorem filterChangedFiles_settles:
  fixes index :: disk_index and opts :: update_options and files :: "path list"
    and adapter_stat :: "path \<Rightarrow> stat_reply" and normalizePath :: "path \<Rightarrow> path"
  assumes "uo_excludePaths opts = []"
  defines "f \<equiv> statFile adapter_stat normalizePath"
  defines "r \<equiv> filterChangedFiles adapter_stat normalizePath files index"
  defines "index' \<equiv> updateIndex index (cf_allStats r) opts"
  shows "cf_changed r = filter (stat_says_changed f index) files
    \<and> cf_unchanged r = filter (\<lambda>p. \<not> stat_says_changed f index p) files
    \<and> cf_changed (filterChangedFiles adapter_stat normalizePath files index') = filter (\<lambda>p. f p = None) files"
proof -
  have stats: "distinct (map fst (cf_allStats r))"
    "map_of (cf_allStats r) p = (if p \<in> set files \<and> f p \<noteq> None then f p else None)" for p
    using filterChangedFiles_results(3,4) by (simp_all add: r_def f_def filterChangedFiles_def foldl_note_stat)
  have "stat_says_changed f index' p \<longleftrightarrow> f p = None" if "p \<in> set files" for p
  proof (cases "f p")
    case (Some st)
    then show ?thesis using that assms(1) unfolding index'_def stat_says_changed_def
      by (simp add: updateIndex_lookup [OF stats(1)] stats(2) hasChanged_def updated_entry_def Let_def)
  qed (simp add: stat_says_changed_def)
  then have "filter (stat_says_changed f index') files = filter (\<lambda>p. f p = None) files"
    by (intro filter_cong) auto
  then show ?thesis by (simp add: r_def f_def filterChangedFiles_def foldl_note_stat)
qed

lemma foldl_move_entry_other:
  "p \<notin> fst ` set rs \<Longrightarrow> p \<notin> snd ` set rs \<Longrightarrow> foldl move_entry index rs p = index p"
  by (induction rs arbitrary: index) (auto simp: move_entry_def split: option.splits)

text \<open>
  A rename batch moves each known entry with its file.  When no path of the batch is both a
  source and a target, every target of a known source holds exactly the source's entry, the
  sources are gone, and every other path keeps its entry.
\<close>

theorem moveIndexEntries_moves:
  assumes "distinct (map fst renames)" "distinct (map snd renames)"
    and "fst ` set renames \<inter> snd ` set renames = {}"
  shows "(\<forall>(a, b) \<in> set renames. moveIndexEntries index renames a = None
            \<and> (index a \<noteq> None \<longrightarrow> moveIndexEntries index renames b = index a)
            \<and> (index a = None \<longrightarrow> moveIndexEntries index renames b = index b))
    \<and> (\<forall>p. p \<notin> fst ` set renames \<and> p \<notin> snd ` set renames \<longrightarrow> moveIndexEntries index renames p = index p)"
  using assms unfolding moveIndexEntries_def
proof (induction renames arbitrary: index)
  case (Cons r rs)
  obtain a b where r: "r = (a, b)" by (cases r)
  have apart: "a \<noteq> b" "a \<notin> fst ` set rs" "a \<notin> snd ` set rs" "b \<notin> fst ` set rs" "b \<notin> snd ` set rs"
    using Cons.prems r by auto
  have other: "move_entry index r p = index p" if "p \<noteq> a" "p \<noteq> b" for p
    using that r by (simp add: move_entry_def split: option.splits)
  have ab: "move_entry index r a = None" "move_entry index r b = (if index a = None then index b else index a)"
    using r apart(1) by (auto simp: move_entry_def split: option.splits)
  have IH: "\<forall>(x, y) \<in> set rs. foldl move_entry (move_entry index r) rs x = None
            \<and> (move_entry index r x \<noteq> None \<longrightarrow> foldl move_entry (move_entry index r) rs y = move_entry index r x)
            \<and> (move_entry index r x = None \<longrightarrow> foldl move_entry (move_entry index r) rs y = move_entry index r y)"
    using Cons.IH [of "move_entry index r"] Cons.prems by auto
  have "foldl move_entry index (r # rs) x = None
      \<and> (index x \<noteq> None \<longrightarrow> foldl move_entry index (r # rs) y = index x)
      \<and> (index x = None \<longrightarrow> foldl move_entry index (r # rs) y = index y)" if "(x, y) \<in> set (r # rs)" for x y
  proof (cases "(x, y) = r")
    case True
    then show ?thesis using r ab foldl_move_entry_other apart by simp
  next
    case False
    then have mem: "(x, y) \<in> set rs" using that by simp
    then have "x \<noteq> a" "x \<noteq> b" "y \<noteq> a" "y \<noteq> b" using apart by force+
    then show ?thesis using bspec [OF IH mem] other by simp
  qed
  then show ?case using foldl_move_entry_other [of _ "r # rs" index] by blast
qed simp

definition quiet_within :: "(nat \<Rightarrow> file_stat option) \<Rightarrow> nat \<Rightarrow> nat \<Rightarrow> bool" where
  "quiet_within samples i k \<longleftrightarrow>
     (\<exists>n. Suc n < k \<and> samples (i + n) = samples (i + Suc n) \<and> (\<forall>j \<le> Suc n. samples (i + j) \<noteq> None))"

lemma quiet_within_Suc:
  assumes "samples i \<noteq> None"
  shows "quiet_within samples i (Suc k) \<longleftrightarrow>
    (0 < k \<and> samples (Suc i) = samples i) \<or> quiet_within samples (Suc i) k" (is "?l \<longleftrightarrow> ?r")
proof
  assume ?l
  then obtain n where n: "Suc n < Suc k" "samples (i + n) = samples (i + Suc n)"
    "\<forall>j \<le> Suc n. samples (i + j) \<noteq> None" by (auto simp: quiet_within_def)
  then show ?r
    by (cases n) (auto simp: quiet_within_def intro!: exI [of _ "n - 1"] dest: spec [of _ "Suc _"])
next
  assume ?r
  then consider "0 < k" "samples (Suc i) = samples i" | n where "Suc n < k"
      "samples (Suc i + n) = samples (Suc i + Suc n)" "\<forall>j \<le> Suc n. samples (Suc i + j) \<noteq> None"
    by (auto simp: quiet_within_def)
  then show ?l
  proof cases
    case 1
    then show ?thesis using assms by (auto simp: quiet_within_def le_Suc_eq intro!: exI [of _ 0])
  next
    case (2 n)
    have "samples (i + j) \<noteq> None" if "j \<le> Suc (Suc n)" for j
      using that assms 2(3) by (cases j) auto
    then show ?thesis using 2 by (auto simp: quiet_within_def intro!: exI [of _ "Suc n"])
  qed
qed

lemma quiet_loop_iff:
  "quiet_loop samples i k prev \<longleftrightarrow>
     (if k = 0 then prev \<noteq> None
      else (\<forall>j < k. samples (i + j) \<noteq> None) \<or> (samples i \<noteq> None \<and> prev = samples i)
        \<or> quiet_within samples i k)"
proof (induction k arbitrary: i prev)
  case (Suc k)
  show ?case
  proof (cases "samples i")
    case None
    then show ?thesis by (force simp: quiet_within_def)
  next
    case (Some st)
    have "(\<forall>j < Suc k. samples (i + j) \<noteq> None) \<longleftrightarrow> (\<forall>j < k. samples (Suc i + j) \<noteq> None)"
      using Some by (auto simp: All_less_Suc2)
    then show ?thesis
      using Some Suc.IH [of "Suc i" "Some st"] quiet_within_Suc [of samples i k]
      by (cases k) (auto simp: quiet_within_def [of _ _ 0])
  qed
qed simp

text \<open>
  The quiet wait answers yes exactly when the file was seen and did not disappear before it
  either held still for one interval or outlived the whole sampling budget.
\<close>

theorem waitForDiskQuiet_iff:
  "waitForDiskQuiet samples checks \<longleftrightarrow>
     0 < checks \<and> ((\<forall>j < checks. samples j \<noteq> None)
       \<or> (\<exists>n. Suc n < checks \<and> samples n = samples (Suc n) \<and> (\<forall>j \<le> Suc n. samples j \<noteq> None)))"
  unfolding waitForDiskQuiet_def quiet_loop_iff by (auto simp: quiet_within_def)

section \<open>Witnesses\<close>

definition note_a :: path where "note_a = [97]"
definition note_b :: path where "note_b = [98]"

definition entry_a :: disk_index_entry where
  "entry_a = \<lparr> de_mtime = 1, de_size = 2, de_contentHash = Some [49], de_settledAtMs = Some 9 \<rparr>"

lemma notes_differ: "note_a \<noteq> note_b"
  by (simp add: note_a_def note_b_def)

theorem updateIndex_keeps_baseline_witness:
  "\<exists>e. updateIndex [note_a \<mapsto> entry_a] [(note_a, \<lparr> st_mtime = 5, st_size = 6 \<rparr>)]
         \<lparr> uo_excludePaths = [], uo_settledHashes = [], uo_settledAtMs = 7 \<rparr> note_a = Some e
     \<and> de_contentHash e = Some [49] \<and> de_settledAtMs e = Some 9"
proof -
  let ?st = "\<lparr> st_mtime = 5, st_size = 6 \<rparr>"
  have "distinct (map fst [(note_a, ?st)])" by simp
  from spec [OF spec [OF conjunct2 [OF updateIndex_keeps_baseline [OF this,
      where index = "[note_a \<mapsto> entry_a]"
        and opts = "\<lparr> uo_excludePaths = [], uo_settledHashes = [], uo_settledAtMs = 7 \<rparr>"]], of note_a], of ?st]
  show ?thesis by (auto simp: entry_a_def)
qed

theorem filterChangedFiles_settles_witness:
  "cf_changed (filterChangedFiles (\<lambda>p. if p = note_a then StatReply \<lparr> st_mtime = 5, st_size = 6 \<rparr> else StatThrows) id
       [note_a, note_b]
       (updateIndex [note_a \<mapsto> entry_a]
         (cf_allStats (filterChangedFiles (\<lambda>p. if p = note_a then StatReply \<lparr> st_mtime = 5, st_size = 6 \<rparr> else StatThrows) id
            [note_a, note_b] [note_a \<mapsto> entry_a]))
         \<lparr> uo_excludePaths = [], uo_settledHashes = [], uo_settledAtMs = 7 \<rparr>)) = [note_b]"
  using filterChangedFiles_settles [of "\<lparr> uo_excludePaths = [], uo_settledHashes = [], uo_settledAtMs = 7 \<rparr>"
      "\<lambda>p. if p = note_a then StatReply \<lparr> st_mtime = 5, st_size = 6 \<rparr> else StatThrows" id
      "[note_a, note_b]" "[note_a \<mapsto> entry_a]"]
  using notes_differ by (auto simp: statFile_def)

theorem moveIndexEntries_moves_witness:
  "moveIndexEntries [note_a \<mapsto> entry_a] [(note_a, note_b)] note_b = Some entry_a"
  using moveIndexEntries_moves [of "[(note_a, note_b)]" "[note_a \<mapsto> entry_a]"] notes_differ by auto

theorem waitForDiskQuiet_iff_witness:
  "waitForDiskQuiet (\<lambda>i. if i < 2 then Some \<lparr> st_mtime = 1, st_size = 1 \<rparr> else None) 3"
proof -
  let ?s = "\<lambda>i :: nat. if i < 2 then Some \<lparr> st_mtime = 1, st_size = 1 \<rparr> else None"
  have "Suc 0 < 3 \<and> ?s 0 = ?s (Suc 0) \<and> (\<forall>j \<le> Suc 0. ?s j \<noteq> None)" by simp
  then show ?thesis unfolding waitForDiskQuiet_iff by (intro conjI disjI2 exI [of _ 0]) simp_all
qed

end
