(* ===== verification/Quarantine.thy ===== *)
theory Quarantine
  imports DiskIndex
begin

text \<open>
  Recovery-loop detection: \<^verbatim>\<open>src/src/runtime/reconcile/fingerprintQuarantinePolicy.ts\<close>,
  \<^verbatim>\<open>src/src/runtime/reconcile/amplificationQuarantinePolicy.ts\<close> and the two handlers of
  \<^verbatim>\<open>src/src/runtime/reconciliationController.ts\<close> that own their state
  (\<^verbatim>\<open>shouldQuarantineRepeatedRecovery\<close>, \<^verbatim>\<open>shouldQuarantineAmplification\<close>).

  The controller's maps are association lists in insertion order; \<^verbatim>\<open>Date.now()\<close> is an argument in
  milliseconds.  A handler returns the new state, the flight events and the user notice it emits
  (trace and log lines are left out) and its answer.  The interface between a handler and its
  policy's eviction helper is the locale \<open>oldest_finder\<close>, interpreted for both helpers.
\<close>

section \<open>Fingerprint policy\<close>

definition FINGERPRINT_QUARANTINE_THRESHOLD :: nat where "FINGERPRINT_QUARANTINE_THRESHOLD = 3"
definition FINGERPRINT_QUARANTINE_TTL_MS :: int where "FINGERPRINT_QUARANTINE_TTL_MS = 10 * 60000"
definition FINGERPRINT_MAP_MAX_SIZE :: nat where "FINGERPRINT_MAP_MAX_SIZE = 200"

definition computeRecoveryFingerprint :: "jsstr \<Rightarrow> jsstr \<Rightarrow> jsstr \<Rightarrow> jsstr" where
  "computeRecoveryFingerprint reason previousContent nextContent =
     reason @ [0] @ contentFingerprint previousContent @ [0] @ contentFingerprint nextContent"

record fingerprint_entry =
  fe_fingerprint :: jsstr
  fe_count :: nat
  fe_lastAt :: int

record fingerprint_decision =
  fd_quarantined :: bool
  fd_newEntry :: fingerprint_entry

definition evaluateFingerprintQuarantine ::
  "jsstr \<Rightarrow> int \<Rightarrow> fingerprint_entry option \<Rightarrow> fingerprint_decision" where
  "evaluateFingerprintQuarantine fingerprint now previous =
     (let n = (case previous of
                 None \<Rightarrow> 1
               | Some e \<Rightarrow>
                   if fe_fingerprint e = fingerprint \<and> now - fe_lastAt e < FINGERPRINT_QUARANTINE_TTL_MS
                   then fe_count e + 1 else 1)
      in \<lparr> fd_quarantined = (n \<ge> FINGERPRINT_QUARANTINE_THRESHOLD),
           fd_newEntry = \<lparr> fe_fingerprint = fingerprint, fe_count = n, fe_lastAt = now \<rparr> \<rparr>)"

text \<open>The scan with \<open>None\<close> for the initial \<^verbatim>\<open>Infinity\<close>; only a strictly smaller stamp replaces the best.\<close>

definition older_than :: "int \<Rightarrow> (path \<times> int) option \<Rightarrow> bool" where
  "older_than t best = (case best of None \<Rightarrow> True | Some b \<Rightarrow> t < snd b)"

fun oldest_fingerprint_scan ::
  "(path \<times> fingerprint_entry) list \<Rightarrow> (path \<times> int) option \<Rightarrow> (path \<times> int) option" where
  "oldest_fingerprint_scan [] best = best"
| "oldest_fingerprint_scan ((p, e) # es) best =
     oldest_fingerprint_scan es (if older_than (fe_lastAt e) best then Some (p, fe_lastAt e) else best)"

definition findOldestFingerprintEntry :: "(path \<times> fingerprint_entry) list \<Rightarrow> path option" where
  "findOldestFingerprintEntry entries = map_option fst (oldest_fingerprint_scan entries None)"

section \<open>Amplification policy\<close>

definition AMPLIFICATION_HISTORY_MAX_ENTRIES :: nat where "AMPLIFICATION_HISTORY_MAX_ENTRIES = 5"
definition AMPLIFICATION_QUARANTINE_THRESHOLD :: nat where "AMPLIFICATION_QUARANTINE_THRESHOLD = 3"
definition AMPLIFICATION_WINDOW_MS :: int where "AMPLIFICATION_WINDOW_MS = 15000"

record amplification_entry =
  ae_prevLen :: int
  ae_nextLen :: int
  ae_at :: int

datatype amplification_decision =
    NotAmplified (ad_newHistory: "amplification_entry list")
  | Amplified (ad_triggerSlice: "amplification_entry list") (ad_consistentDelta: bool)
      (ad_firstPrevLen: int) (ad_lastNextLen: int)

fun shift_to_max :: "amplification_entry list \<Rightarrow> amplification_entry list" where
  "shift_to_max [] = []"
| "shift_to_max (e # es) =
     (if length (e # es) > AMPLIFICATION_HISTORY_MAX_ENTRIES then shift_to_max es else e # es)"

definition last_entries :: "nat \<Rightarrow> amplification_entry list \<Rightarrow> amplification_entry list" where
  "last_entries n es = drop (length es - n) es"

definition non_decreasing :: "(amplification_entry \<Rightarrow> int) \<Rightarrow> amplification_entry list \<Rightarrow> bool" where
  "non_decreasing f es = list_all (\<lambda>i. \<not> f (es ! i) < f (es ! (i - 1))) [1 ..< length es]"

definition evaluateAmplificationQuarantine ::
  "int \<Rightarrow> int \<Rightarrow> int \<Rightarrow> amplification_entry list \<Rightarrow> amplification_decision" where
  "evaluateAmplificationQuarantine prevLen nextLen now history =
     (let entry = \<lparr> ae_prevLen = prevLen, ae_nextLen = nextLen, ae_at = now \<rparr>;
          newHistory = shift_to_max (history @ [entry])
      in if length newHistory < AMPLIFICATION_QUARANTINE_THRESHOLD then NotAmplified newHistory
         else
           let window = last_entries AMPLIFICATION_QUARANTINE_THRESHOLD newHistory;
               lst = last window
           in if \<not> list_all (\<lambda>e. ae_at lst - ae_at e \<le> AMPLIFICATION_WINDOW_MS) window
              then NotAmplified newHistory
              else if \<not> list_all (\<lambda>e. ae_nextLen e - ae_prevLen e > 0) window
              then NotAmplified newHistory
              else if \<not> non_decreasing ae_prevLen window \<or> \<not> non_decreasing ae_nextLen window
              then NotAmplified newHistory
              else if \<not> (ae_prevLen lst > ae_prevLen (hd window) \<and> ae_nextLen lst > ae_nextLen (hd window))
              then NotAmplified newHistory
              else Amplified window
                (list_all (\<lambda>e. ae_nextLen e - ae_prevLen e = ae_nextLen (hd window) - ae_prevLen (hd window)) window)
                (ae_prevLen (hd window)) (ae_nextLen lst))"

fun oldest_amplification_scan ::
  "path option \<Rightarrow> (path \<times> amplification_entry list) list \<Rightarrow> (path \<times> int) option \<Rightarrow> (path \<times> int) option" where
  "oldest_amplification_scan excludePath [] best = best"
| "oldest_amplification_scan excludePath ((p, h) # es) best =
     oldest_amplification_scan excludePath es
       (if Some p = excludePath then best
        else if h \<noteq> [] \<and> older_than (ae_at (last h)) best then Some (p, ae_at (last h)) else best)"

definition findOldestAmplificationEntry ::
  "(path \<times> amplification_entry list) list \<Rightarrow> path option \<Rightarrow> path option" where
  "findOldestAmplificationEntry entries excludePath =
     map_option fst (oldest_amplification_scan excludePath entries None)"

section \<open>The controller's handlers\<close>

record quarantine_state =
  recoveryFingerprints :: "(path \<times> fingerprint_entry) list"
  amplificationHistory :: "(path \<times> amplification_entry list) list"

datatype quarantine_event =
    RecoveryQuarantined path nat
  | RecoveryLoopDetected path nat
  | AmplificationQuarantined path nat int int bool
  | AmplificationNotice path

text \<open>Delete the oldest entry when the map outgrew its cap; an empty path is falsy and not deleted.\<close>

definition cap_map :: "(('p list \<times> 'e) list \<Rightarrow> 'p list option) \<Rightarrow> ('p list \<times> 'e) list \<Rightarrow> ('p list \<times> 'e) list" where
  "cap_map oldest m =
     (if length m > FINGERPRINT_MAP_MAX_SIZE
      then (case oldest m of
              Some p \<Rightarrow> if p \<noteq> [] then AList.delete p m else m
            | None \<Rightarrow> m)
      else m)"

definition shouldQuarantineRepeatedRecovery ::
  "path \<Rightarrow> jsstr \<Rightarrow> jsstr \<Rightarrow> jsstr \<Rightarrow> int \<Rightarrow> quarantine_state
   \<Rightarrow> quarantine_state \<times> quarantine_event list \<times> bool" where
  "shouldQuarantineRepeatedRecovery path reason previousContent nextContent now st =
     (let fingerprint = computeRecoveryFingerprint reason previousContent nextContent;
          decision = evaluateFingerprintQuarantine fingerprint now (map_of (recoveryFingerprints st) path);
          n = fe_count (fd_newEntry decision);
          st' = st\<lparr> recoveryFingerprints :=
            cap_map findOldestFingerprintEntry
              (AList.update path (fd_newEntry decision) (recoveryFingerprints st)) \<rparr>
      in if \<not> fd_quarantined decision then (st', [], False)
         else (st', [RecoveryQuarantined path n, RecoveryLoopDetected path n], True))"

definition shouldQuarantineAmplification ::
  "path \<Rightarrow> int \<Rightarrow> int \<Rightarrow> int \<Rightarrow> quarantine_state \<Rightarrow> quarantine_state \<times> quarantine_event list \<times> bool" where
  "shouldQuarantineAmplification path prevLen nextLen now st =
     (let existing = (case map_of (amplificationHistory st) path of None \<Rightarrow> [] | Some h \<Rightarrow> h)
      in case evaluateAmplificationQuarantine prevLen nextLen now existing of
           NotAmplified newHistory \<Rightarrow>
             (st\<lparr> amplificationHistory :=
                cap_map (\<lambda>m. findOldestAmplificationEntry m (Some path))
                  (AList.update path newHistory (amplificationHistory st)) \<rparr>, [], False)
         | Amplified triggerSlice consistentDelta firstPrevLen lastNextLen \<Rightarrow>
             (st\<lparr> amplificationHistory := AList.delete path (amplificationHistory st) \<rparr>,
              [AmplificationQuarantined path (length triggerSlice) firstPrevLen lastNextLen consistentDelta,
               RecoveryLoopDetected path (length triggerSlice),
               AmplificationNotice path], True))"

section \<open>The eviction interface\<close>

text \<open>
  What a handler relies on of the helper that names the entry to evict: it fails only when there is
  no candidate, and otherwise names a candidate with the least stamp.
\<close>

locale oldest_finder =
  fixes oldest :: "(path \<times> 'e) list \<Rightarrow> path option"
    and candidate :: "path \<Rightarrow> 'e \<Rightarrow> bool" and stamp :: "'e \<Rightarrow> int"
  assumes oldest_None: "oldest m = None \<Longrightarrow> (p, e) \<in> set m \<Longrightarrow> \<not> candidate p e"
    and oldest_Some: "oldest m = Some p \<Longrightarrow>
      \<exists>e. (p, e) \<in> set m \<and> candidate p e \<and> (\<forall>q d. (q, d) \<in> set m \<and> candidate q d \<longrightarrow> stamp e \<le> stamp d)"
begin

lemma cap_within: "set (cap_map oldest m) \<subseteq> set m"
  by (auto simp: cap_map_def AList.delete_eq split: option.splits if_splits)

lemma cap_distinct: "distinct (map fst m) \<Longrightarrow> distinct (map fst (cap_map oldest m))"
  by (auto simp: cap_map_def distinct_delete split: option.splits)

lemma cap_bound:
  assumes "distinct (map fst m)" "[] \<notin> fst ` set m" "length m \<le> FINGERPRINT_MAP_MAX_SIZE + 1"
    and "length m > FINGERPRINT_MAP_MAX_SIZE \<Longrightarrow> \<exists>p e. (p, e) \<in> set m \<and> candidate p e"
  shows "length (cap_map oldest m) \<le> FINGERPRINT_MAP_MAX_SIZE"
proof (cases "length m > FINGERPRINT_MAP_MAX_SIZE")
  case True
  then obtain p where p: "oldest m = Some p" using assms(4) oldest_None by (cases "oldest m") auto
  then obtain e where "(p, e) \<in> set m" using oldest_Some by blast
  then have "p \<noteq> []" "length (AList.delete p m) < length m"
    using assms(2) by (force, auto simp: AList.delete_eq intro!: length_filter_less)
  then show ?thesis using True p assms(3) by (simp add: cap_map_def)
qed (simp add: cap_map_def)

lemma cap_evicts_oldest:
  assumes "distinct (map fst m)" "map_of (cap_map oldest m) q \<noteq> map_of m q"
  shows "\<exists>e. map_of m q = Some e \<and> candidate q e
    \<and> (\<forall>p d. map_of m p = Some d \<and> candidate p d \<longrightarrow> stamp e \<le> stamp d)"
proof -
  have "oldest m = Some q"
    using assms(2) by (auto simp: cap_map_def delete_conv' split: if_splits option.splits)
  then show ?thesis using oldest_Some assms(1) by (fastforce simp: map_of_eq_Some_iff)
qed

end

lemma fingerprint_scan:
  "(oldest_fingerprint_scan es best = None \<longrightarrow> es = [] \<and> best = None)
   \<and> (\<forall>r. oldest_fingerprint_scan es best = Some r \<longrightarrow>
        (best = Some r \<or> (\<exists>e. (fst r, e) \<in> set es \<and> fe_lastAt e = snd r))
        \<and> (\<forall>q d. (q, d) \<in> set es \<longrightarrow> snd r \<le> fe_lastAt d)
        \<and> (\<forall>b. best = Some b \<longrightarrow> snd r \<le> snd b))"
proof (induction es arbitrary: best)
  case (Cons pe es)
  obtain p e where pe: "pe = (p, e)" by (cases pe)
  show ?case
    using Cons.IH [of "if older_than (fe_lastAt e) best then Some (p, fe_lastAt e) else best"]
    unfolding pe
    by (cases best; cases "older_than (fe_lastAt e) best") (auto simp: older_than_def; fastforce)+
qed auto

interpretation fq: oldest_finder findOldestFingerprintEntry "\<lambda>p e. True" fe_lastAt
proof
  fix m :: "(path \<times> fingerprint_entry) list" and p e
  show "findOldestFingerprintEntry m = None \<Longrightarrow> (p, e) \<in> set m \<Longrightarrow> \<not> True"
    using fingerprint_scan [of m None] by (auto simp: findOldestFingerprintEntry_def)
  show "findOldestFingerprintEntry m = Some p \<Longrightarrow>
      \<exists>e. (p, e) \<in> set m \<and> True \<and> (\<forall>q d. (q, d) \<in> set m \<and> True \<longrightarrow> fe_lastAt e \<le> fe_lastAt d)"
    using fingerprint_scan [of m None] by (fastforce simp: findOldestFingerprintEntry_def)
qed

lemma amplification_scan:
  "(oldest_amplification_scan x es best = None \<longrightarrow> best = None \<and> (\<forall>q h. (q, h) \<in> set es \<longrightarrow> Some q = x \<or> h = []))
   \<and> (\<forall>r. oldest_amplification_scan x es best = Some r \<longrightarrow>
        (best = Some r \<or> (\<exists>h. (fst r, h) \<in> set es \<and> Some (fst r) \<noteq> x \<and> h \<noteq> [] \<and> ae_at (last h) = snd r))
        \<and> (\<forall>q h. (q, h) \<in> set es \<and> Some q \<noteq> x \<and> h \<noteq> [] \<longrightarrow> snd r \<le> ae_at (last h))
        \<and> (\<forall>b. best = Some b \<longrightarrow> snd r \<le> snd b))"
proof (induction es arbitrary: best)
  case (Cons pe es)
  obtain p h where pe: "pe = (p, h)" by (cases pe)
  let ?best = "if Some p = x then best
    else if h \<noteq> [] \<and> older_than (ae_at (last h)) best then Some (p, ae_at (last h)) else best"
  show ?case
    using Cons.IH [of ?best]
    unfolding pe
    by (cases best; cases "Some p = x"; cases "h = []"; cases "older_than (ae_at (last h)) best")
      (auto simp: older_than_def; fastforce)+
qed auto

interpretation aq: oldest_finder "\<lambda>m. findOldestAmplificationEntry m x"
  "\<lambda>p h. Some p \<noteq> x \<and> h \<noteq> []" "\<lambda>h. ae_at (last h)" for x
proof
  fix m :: "(path \<times> amplification_entry list) list" and p h
  show "findOldestAmplificationEntry m x = None \<Longrightarrow> (p, h) \<in> set m \<Longrightarrow> \<not> (Some p \<noteq> x \<and> h \<noteq> [])"
    using amplification_scan [of x m None] by (auto simp: findOldestAmplificationEntry_def)
  show "findOldestAmplificationEntry m x = Some p \<Longrightarrow>
      \<exists>h. (p, h) \<in> set m \<and> (Some p \<noteq> x \<and> h \<noteq> [])
        \<and> (\<forall>q d. (q, d) \<in> set m \<and> (Some q \<noteq> x \<and> d \<noteq> []) \<longrightarrow> ae_at (last h) \<le> ae_at (last d))"
    using amplification_scan [of x m None] by (fastforce simp: findOldestAmplificationEntry_def)
qed

section \<open>The invariant of the detectors' state\<close>

definition quarantine_inv :: "quarantine_state \<Rightarrow> bool" where
  "quarantine_inv st \<longleftrightarrow>
     distinct (map fst (recoveryFingerprints st)) \<and> [] \<notin> fst ` set (recoveryFingerprints st)
     \<and> length (recoveryFingerprints st) \<le> FINGERPRINT_MAP_MAX_SIZE
     \<and> distinct (map fst (amplificationHistory st)) \<and> [] \<notin> fst ` set (amplificationHistory st)
     \<and> length (amplificationHistory st) \<le> FINGERPRINT_MAP_MAX_SIZE
     \<and> (\<forall>h \<in> snd ` set (amplificationHistory st). h \<noteq> [] \<and> length h \<le> AMPLIFICATION_HISTORY_MAX_ENTRIES)"

lemma histories_ok:
  "quarantine_inv st \<Longrightarrow>
     \<forall>h \<in> snd ` set (amplificationHistory st). h \<noteq> [] \<and> length h \<le> AMPLIFICATION_HISTORY_MAX_ENTRIES"
  by (simp add: quarantine_inv_def)

lemma length_update: "length (AList.update k v m) = (if k \<in> fst ` set m then length m else Suc (length m))"
  by (induction m) auto

lemma fst_set_update: "fst ` set (AList.update k v m) = insert k (fst ` set m)"
  by (simp add: dom_update)

lemma snd_set_update: "snd ` set (AList.update k v m) \<subseteq> insert v (snd ` set m)"
  by (induction m) auto

lemma fst_set_delete: "fst ` set (AList.delete k m) \<subseteq> fst ` set m"
  and snd_set_delete: "snd ` set (AList.delete k m) \<subseteq> snd ` set m"
  and length_delete: "length (AList.delete k m) \<le> length m"
  by (auto simp: AList.delete_eq)

lemma shift_to_max_drop: "shift_to_max es = drop (length es - AMPLIFICATION_HISTORY_MAX_ENTRIES) es"
  by (induction es) (auto simp: Suc_diff_le)

lemma other_key:
  assumes "distinct (map fst m)" "length m \<ge> 2"
  shows "\<exists>q d. (q, d) \<in> set m \<and> q \<noteq> p"
proof (rule ccontr)
  assume "\<not> ?thesis"
  then have "fst ` set m \<subseteq> {p}" by auto
  then have "card (set (map fst m)) \<le> 1" using card_mono [of "{p}"] by simp
  then show False using assms distinct_card [of "map fst m"] by simp
qed

lemma repeated_recovery_inv:
  assumes "quarantine_inv st" "path \<noteq> []"
  shows "quarantine_inv (fst (shouldQuarantineRepeatedRecovery path reason pc nc now st))"
proof -
  let ?e = "fd_newEntry (evaluateFingerprintQuarantine (computeRecoveryFingerprint reason pc nc) now
    (map_of (recoveryFingerprints st) path))"
  let ?m = "AList.update path ?e (recoveryFingerprints st)"
  have m: "distinct (map fst ?m)" "[] \<notin> fst ` set ?m" "length ?m \<le> FINGERPRINT_MAP_MAX_SIZE + 1"
    using assms by (auto simp: quarantine_inv_def distinct_update fst_set_update length_update)
  moreover have "path \<in> fst ` set ?m" by (simp add: fst_set_update)
  then have "\<exists>p e. (p, e) \<in> set ?m \<and> True" by (metis imageE prod.collapse)
  ultimately have "length (cap_map findOldestFingerprintEntry ?m) \<le> FINGERPRINT_MAP_MAX_SIZE"
    by (intro fq.cap_bound)
  moreover have "[] \<notin> fst ` set (cap_map findOldestFingerprintEntry ?m)"
    using m(2) fq.cap_within [of ?m] by blast
  ultimately show ?thesis
    using assms(1) fq.cap_distinct [OF m(1)]
    by (simp add: quarantine_inv_def shouldQuarantineRepeatedRecovery_def Let_def)
qed

lemma evaluateAmplification_history:
  "evaluateAmplificationQuarantine a b now h = NotAmplified h' \<Longrightarrow>
     h' = drop (length h + 1 - AMPLIFICATION_HISTORY_MAX_ENTRIES) (h @ [\<lparr> ae_prevLen = a, ae_nextLen = b, ae_at = now \<rparr>])
     \<and> h' \<noteq> [] \<and> length h' \<le> AMPLIFICATION_HISTORY_MAX_ENTRIES"
  by (auto simp: evaluateAmplificationQuarantine_def Let_def shift_to_max_drop
      AMPLIFICATION_HISTORY_MAX_ENTRIES_def split: if_splits)

lemma amplification_inv:
  assumes "quarantine_inv st" "path \<noteq> []"
  shows "quarantine_inv (fst (shouldQuarantineAmplification path prevLen nextLen now st))"
proof (cases "evaluateAmplificationQuarantine prevLen nextLen now
    (case map_of (amplificationHistory st) path of None \<Rightarrow> [] | Some h \<Rightarrow> h)")
  case (NotAmplified h)
  let ?m = "AList.update path h (amplificationHistory st)"
  let ?old = "\<lambda>m. findOldestAmplificationEntry m (Some path)"
  have m: "distinct (map fst ?m)" "[] \<notin> fst ` set ?m" "length ?m \<le> FINGERPRINT_MAP_MAX_SIZE + 1"
    using assms by (auto simp: quarantine_inv_def distinct_update fst_set_update length_update)
  have "h \<noteq> [] \<and> length h \<le> AMPLIFICATION_HISTORY_MAX_ENTRIES"
    using evaluateAmplification_history [OF NotAmplified] by blast
  then have hs: "\<forall>x \<in> snd ` set ?m. x \<noteq> [] \<and> length x \<le> AMPLIFICATION_HISTORY_MAX_ENTRIES"
    using histories_ok [OF assms(1)] snd_set_update [of path h "amplificationHistory st"] by blast
  have "\<exists>q d. (q, d) \<in> set ?m \<and> Some q \<noteq> Some path \<and> d \<noteq> []" if "length ?m > FINGERPRINT_MAP_MAX_SIZE"
    using other_key [OF m(1), of path] that hs by (force simp: FINGERPRINT_MAP_MAX_SIZE_def)
  then have "length (cap_map ?old ?m) \<le> FINGERPRINT_MAP_MAX_SIZE"
    using m by (intro aq.cap_bound)
  moreover have "set (cap_map ?old ?m) \<subseteq> set ?m" by (rule aq.cap_within)
  then have "[] \<notin> fst ` set (cap_map ?old ?m)"
    "\<forall>x \<in> snd ` set (cap_map ?old ?m). x \<noteq> [] \<and> length x \<le> AMPLIFICATION_HISTORY_MAX_ENTRIES"
    using m(2) hs by blast+
  ultimately show ?thesis
    using assms(1) NotAmplified aq.cap_distinct [OF m(1), of "Some path"]
    by (simp add: quarantine_inv_def shouldQuarantineAmplification_def)
next
  case (Amplified t c f l)
  let ?m = "AList.delete path (amplificationHistory st)"
  note inv = assms(1) [unfolded quarantine_inv_def]
  have "length ?m \<le> FINGERPRINT_MAP_MAX_SIZE"
    using length_delete [of path "amplificationHistory st"] inv by linarith
  moreover have "distinct (map fst ?m)" using inv by (intro distinct_delete) simp
  moreover have "[] \<notin> fst ` set ?m"
    using inv fst_set_delete [of path "amplificationHistory st"] by (meson subsetD)
  moreover have "\<forall>x \<in> snd ` set ?m. x \<noteq> [] \<and> length x \<le> AMPLIFICATION_HISTORY_MAX_ENTRIES"
    using histories_ok [OF assms(1)] snd_set_delete [of path "amplificationHistory st"] by (meson subsetD)
  ultimately show ?thesis
    using assms(1) Amplified by (simp add: quarantine_inv_def shouldQuarantineAmplification_def)
qed

text \<open>
  Both loop detectors keep their memory bounded.  Whatever is recovered, each map stays within
  its cap of two hundred paths with one entry per path, and no history grows beyond five entries or
  is stored empty.
\<close>

theorem quarantine_state_bounded:
  assumes "quarantine_inv st" "path \<noteq> []"
  shows "quarantine_inv (fst (shouldQuarantineRepeatedRecovery path reason pc nc now st))
    \<and> quarantine_inv (fst (shouldQuarantineAmplification path prevLen nextLen now st))"
  using repeated_recovery_inv [OF assms] amplification_inv [OF assms] by blast

section \<open>Detection\<close>

lemma fingerprint_entry_survives:
  fixes f :: jsstr and n :: nat
  assumes "quarantine_inv st" "\<forall>(q, e) \<in> set (recoveryFingerprints st). q \<noteq> path \<longrightarrow> fe_lastAt e < now"
  defines "m \<equiv> AList.update path \<lparr> fe_fingerprint = f, fe_count = n, fe_lastAt = now \<rparr> (recoveryFingerprints st)"
  shows "map_of (cap_map findOldestFingerprintEntry m) path
    = Some \<lparr> fe_fingerprint = f, fe_count = n, fe_lastAt = now \<rparr>"
proof (rule ccontr)
  let ?e = "\<lparr> fe_fingerprint = f, fe_count = n, fe_lastAt = now \<rparr>"
  assume lost: "\<not> ?thesis"
  have dist: "distinct (map fst m)"
    using assms(1) by (simp add: m_def quarantine_inv_def distinct_update)
  have new: "map_of m path = Some ?e" by (simp add: m_def update_conv')
  have min: "fe_lastAt ?e \<le> fe_lastAt d" if "map_of m p = Some d" for p d
    using fq.cap_evicts_oldest [OF dist, of path] lost new that by fastforce
  have "length m > FINGERPRINT_MAP_MAX_SIZE"
    using lost new by (simp add: cap_map_def split: if_splits)
  then obtain q d where q: "(q, d) \<in> set m" "q \<noteq> path"
    using other_key [OF dist, of path] by (auto simp: FINGERPRINT_MAP_MAX_SIZE_def)
  then have "map_of (recoveryFingerprints st) q = Some d"
    using dist by (simp add: m_def update_conv' flip: map_of_eq_Some_iff)
  then have "fe_lastAt d < now" using assms(2) q(2) by (auto dest: map_of_SomeD)
  moreover have "now \<le> fe_lastAt d" using min [of q d] q(1) dist by simp
  ultimately show False by simp
qed

lemma repeated_recovery_entry:
  assumes "quarantine_inv st"
    and "map_of (recoveryFingerprints st) path \<noteq> None
      \<or> (\<forall>(q, e) \<in> set (recoveryFingerprints st). q \<noteq> path \<longrightarrow> fe_lastAt e < now)"
  shows "map_of (recoveryFingerprints (fst (shouldQuarantineRepeatedRecovery path reason pc nc now st))) path
    = Some (fd_newEntry (evaluateFingerprintQuarantine (computeRecoveryFingerprint reason pc nc) now
        (map_of (recoveryFingerprints st) path)))"
proof (cases "map_of (recoveryFingerprints st) path")
  case None
  then have "\<forall>(q, e) \<in> set (recoveryFingerprints st). q \<noteq> path \<longrightarrow> fe_lastAt e < now" using assms(2) by simp
  from fingerprint_entry_survives [OF assms(1) this] show ?thesis
    by (simp add: shouldQuarantineRepeatedRecovery_def Let_def evaluateFingerprintQuarantine_def)
next
  case (Some e)
  then have "path \<in> fst ` set (recoveryFingerprints st)" by (metis map_of_eq_None_iff option.distinct(1))
  then have "length (AList.update path v (recoveryFingerprints st)) \<le> FINGERPRINT_MAP_MAX_SIZE" for v
    using assms(1) by (simp add: length_update quarantine_inv_def)
  then have "cap_map findOldestFingerprintEntry (AList.update path v (recoveryFingerprints st))
      = AList.update path v (recoveryFingerprints st)" for v
    by (simp add: cap_map_def not_less [symmetric])
  then show ?thesis by (simp add: shouldQuarantineRepeatedRecovery_def Let_def update_conv')
qed

lemma repeated_recovery_answer:
  "snd (snd (shouldQuarantineRepeatedRecovery path reason pc nc now st))
    = fd_quarantined (evaluateFingerprintQuarantine (computeRecoveryFingerprint reason pc nc) now
        (map_of (recoveryFingerprints st) path))"
  by (simp add: shouldQuarantineRepeatedRecovery_def Let_def)

text \<open>
  A recovery loop is caught at its third identical round.  The same recovery of the same
  contents, repeated within the time limit, is let through twice on a path with no history and
  quarantined the third time, even when the first round had to evict an older path to make room.
\<close>

theorem repeated_recovery_third_round:
  fixes t1 t2 t3 :: int and reason pc nc :: jsstr
  assumes "quarantine_inv st" "path \<noteq> []" "map_of (recoveryFingerprints st) path = None"
    and "\<forall>(q, e) \<in> set (recoveryFingerprints st). fe_lastAt e < t1"
    and "t2 - t1 < FINGERPRINT_QUARANTINE_TTL_MS" "t3 - t2 < FINGERPRINT_QUARANTINE_TTL_MS"
  defines "call \<equiv> shouldQuarantineRepeatedRecovery path reason pc nc"
  shows "\<not> snd (snd (call t1 st)) \<and> \<not> snd (snd (call t2 (fst (call t1 st))))
    \<and> snd (snd (call t3 (fst (call t2 (fst (call t1 st))))))"
proof -
  let ?f = "computeRecoveryFingerprint reason pc nc"
  let ?s1 = "fst (call t1 st)" and ?s2 = "fst (call t2 (fst (call t1 st)))"
  have inv: "quarantine_inv ?s1"
    using repeated_recovery_inv [OF assms(1,2)] by (simp add: call_def)
  have e1: "map_of (recoveryFingerprints ?s1) path = Some \<lparr> fe_fingerprint = ?f, fe_count = 1, fe_lastAt = t1 \<rparr>"
    using repeated_recovery_entry [OF assms(1), of path t1 reason pc nc] assms(3,4)
    by (auto simp: call_def evaluateFingerprintQuarantine_def)
  have e2: "map_of (recoveryFingerprints ?s2) path = Some \<lparr> fe_fingerprint = ?f, fe_count = 2, fe_lastAt = t2 \<rparr>"
    using repeated_recovery_entry [OF inv, of path t2 reason pc nc] assms(5) e1
    by (simp add: call_def evaluateFingerprintQuarantine_def)
  show ?thesis
    using assms(3,5,6) e1 e2 unfolding call_def repeated_recovery_answer
    by (simp add: evaluateFingerprintQuarantine_def FINGERPRINT_QUARANTINE_THRESHOLD_def)
qed

text \<open>
  The growth detector fires exactly on three recent recoveries that each lengthened the note
  and together pushed both lengths up: all within the window of the newest one, lengths never
  shrinking between them and strictly larger at the end.  Otherwise the history keeps the newest
  five entries.
\<close>

theorem evaluateAmplificationQuarantine_iff:
  fixes prevLen nextLen now :: int
  defines "c \<equiv> \<lparr> ae_prevLen = prevLen, ae_nextLen = nextLen, ae_at = now \<rparr>"
  shows "case evaluateAmplificationQuarantine prevLen nextLen now history of
      Amplified w d f l \<Rightarrow> (\<exists>older a b. history = older @ [a, b] \<and> w = [a, b, c]
        \<and> now - ae_at a \<le> AMPLIFICATION_WINDOW_MS \<and> now - ae_at b \<le> AMPLIFICATION_WINDOW_MS
        \<and> (\<forall>e \<in> set w. ae_prevLen e < ae_nextLen e)
        \<and> ae_prevLen a \<le> ae_prevLen b \<and> ae_prevLen b \<le> prevLen \<and> ae_prevLen a < prevLen
        \<and> ae_nextLen a \<le> ae_nextLen b \<and> ae_nextLen b \<le> nextLen \<and> ae_nextLen a < nextLen
        \<and> f = ae_prevLen a \<and> l = nextLen)
    | NotAmplified h \<Rightarrow> h = drop (length history + 1 - AMPLIFICATION_HISTORY_MAX_ENTRIES) (history @ [c])
        \<and> \<not> (\<exists>older a b. history = older @ [a, b]
          \<and> now - ae_at a \<le> AMPLIFICATION_WINDOW_MS \<and> now - ae_at b \<le> AMPLIFICATION_WINDOW_MS
          \<and> (\<forall>e \<in> {a, b, c}. ae_prevLen e < ae_nextLen e)
          \<and> ae_prevLen a \<le> ae_prevLen b \<and> ae_prevLen b \<le> prevLen \<and> ae_prevLen a < prevLen
          \<and> ae_nextLen a \<le> ae_nextLen b \<and> ae_nextLen b \<le> nextLen \<and> ae_nextLen a < nextLen)"
proof (cases history rule: rev_cases)
  case Nil
  then show ?thesis
    by (simp add: evaluateAmplificationQuarantine_def Let_def c_def AMPLIFICATION_QUARANTINE_THRESHOLD_def
        shift_to_max_drop AMPLIFICATION_HISTORY_MAX_ENTRIES_def)
next
  case (snoc rest b)
  show ?thesis
  proof (cases rest rule: rev_cases)
    case Nil
    then show ?thesis using snoc
      by (simp add: evaluateAmplificationQuarantine_def Let_def c_def AMPLIFICATION_QUARANTINE_THRESHOLD_def
          shift_to_max_drop AMPLIFICATION_HISTORY_MAX_ENTRIES_def)
  next
    case (snoc older a)
    with \<open>history = rest @ [b]\<close> have hist: "history = older @ [a, b]" by simp
    let ?new = "shift_to_max (history @ [c])"
    have len: "\<not> length ?new < AMPLIFICATION_QUARANTINE_THRESHOLD"
      by (simp add: hist shift_to_max_drop AMPLIFICATION_QUARANTINE_THRESHOLD_def AMPLIFICATION_HISTORY_MAX_ENTRIES_def)
    have window: "last_entries AMPLIFICATION_QUARANTINE_THRESHOLD ?new = [a, b, c]"
      by (simp add: hist shift_to_max_drop last_entries_def AMPLIFICATION_QUARANTINE_THRESHOLD_def
          AMPLIFICATION_HISTORY_MAX_ENTRIES_def Suc_diff_le)
    have mono: "non_decreasing f [a, b, c] \<longleftrightarrow> f a \<le> f b \<and> f b \<le> f c" for f
      by (simp add: non_decreasing_def upt_rec numeral_3_eq_3 not_less)
    show ?thesis
      unfolding evaluateAmplificationQuarantine_def Let_def c_def [symmetric] window mono
      using len by (auto simp: hist shift_to_max_drop c_def AMPLIFICATION_WINDOW_MS_def)
  qed
qed

section \<open>Witnesses\<close>

definition fresh_state :: quarantine_state where
  "fresh_state = \<lparr> recoveryFingerprints = [], amplificationHistory = [] \<rparr>"

lemma fresh_state_inv: "quarantine_inv fresh_state"
  by (simp add: quarantine_inv_def fresh_state_def)

theorem quarantine_state_bounded_witness:
  "length (recoveryFingerprints (fst (shouldQuarantineRepeatedRecovery note_a [] [] [1] 5 fresh_state))) \<le> 200"
proof -
  have "note_a \<noteq> []" by (simp add: note_a_def)
  from quarantine_state_bounded [OF fresh_state_inv this] show ?thesis
    by (simp add: quarantine_inv_def FINGERPRINT_MAP_MAX_SIZE_def)
qed

theorem repeated_recovery_third_round_witness:
  "snd (snd (shouldQuarantineRepeatedRecovery note_a [] [] [1] 30
     (fst (shouldQuarantineRepeatedRecovery note_a [] [] [1] 20
       (fst (shouldQuarantineRepeatedRecovery note_a [] [] [1] 10 fresh_state))))))"
proof -
  have "note_a \<noteq> []" "map_of (recoveryFingerprints fresh_state) note_a = None"
    "\<forall>(q, e) \<in> set (recoveryFingerprints fresh_state). fe_lastAt e < 10"
    "20 - 10 < FINGERPRINT_QUARANTINE_TTL_MS" "30 - 20 < FINGERPRINT_QUARANTINE_TTL_MS"
    by (simp_all add: note_a_def fresh_state_def FINGERPRINT_QUARANTINE_TTL_MS_def)
  from repeated_recovery_third_round [OF fresh_state_inv this] show ?thesis by blast
qed

theorem evaluateAmplificationQuarantine_iff_witness:
  "\<nexists>h. evaluateAmplificationQuarantine 4 6 3
     [\<lparr> ae_prevLen = 1, ae_nextLen = 3, ae_at = 1 \<rparr>, \<lparr> ae_prevLen = 2, ae_nextLen = 4, ae_at = 2 \<rparr>] = NotAmplified h"
  using evaluateAmplificationQuarantine_iff [where prevLen = 4 and nextLen = 6 and now = 3 and history =
      "[\<lparr> ae_prevLen = 1, ae_nextLen = 3, ae_at = 1 \<rparr>, \<lparr> ae_prevLen = 2, ae_nextLen = 4, ae_at = 2 \<rparr>]"]
  by (auto simp: AMPLIFICATION_WINDOW_MS_def)

end
