(* ===== verification/Renames.thy ===== *)
theory Renames
  imports DiskIndex
begin

text \<open>
  Renames: the admission policy (\<^verbatim>\<open>src/src/sync/policy/renameAdmissionPolicy.ts\<close>), the commit fences
  for delayed events (\<^verbatim>\<open>src/src/sync/policy/vaultEventCommitPolicy.ts\<close>) and the pending rename
  batch of \<^verbatim>\<open>src/src/sync/vaultSync.ts\<close> (\<^verbatim>\<open>queueRename\<close>, its helpers, and how flush, promotion and
  delete consume it).

  The batch is the pair of maps \<^verbatim>\<open>_renameBatch\<close> (old to new, in insertion order) and
  \<^verbatim>\<open>_renameBatchNewToOld\<close>.  Paths are taken as already normalised; the debounce timer only decides
  when \<^verbatim>\<open>flushRenameBatch\<close> runs and is not state of the model.
\<close>

section \<open>Admission\<close>

datatype path_kind = KMarkdown | KBlob | KExcluded

record path_category =
  pc_kind :: path_kind
  pc_displayPath :: path
  pc_canonicalKey :: path

datatype rename_action =
    QueueMarkdownRename path path
  | QueueBlobRename path path
  | TombstoneMarkdown path "path list"
  | AdmitMarkdown path "path list"
  | AdmitBlobViaEvent path "path list"
  | DeferBlobToEvents path path "path list"
  | SameIdentity path path
  | IgnoreRename

definition planCategoryRenameAction :: "path_category \<Rightarrow> path_category \<Rightarrow> rename_action" where
  "planCategoryRenameAction oldCategory newCategory =
     (let oldPath = pc_displayPath oldCategory;
          newPath = pc_displayPath newCategory
      in if pc_canonicalKey oldCategory = pc_canonicalKey newCategory then SameIdentity oldPath newPath
         else case (pc_kind oldCategory, pc_kind newCategory) of
             (KExcluded, KExcluded) \<Rightarrow> IgnoreRename
           | (KExcluded, KMarkdown) \<Rightarrow> AdmitMarkdown newPath [oldPath]
           | (KExcluded, KBlob) \<Rightarrow> AdmitBlobViaEvent newPath [oldPath]
           | (KMarkdown, KExcluded) \<Rightarrow> TombstoneMarkdown oldPath [oldPath, newPath]
           | (KMarkdown, KMarkdown) \<Rightarrow> QueueMarkdownRename oldPath newPath
           | (KMarkdown, KBlob) \<Rightarrow> TombstoneMarkdown oldPath [oldPath, newPath]
           | (KBlob, KExcluded) \<Rightarrow> DeferBlobToEvents oldPath newPath [oldPath, newPath]
           | (KBlob, KBlob) \<Rightarrow> QueueBlobRename oldPath newPath
           | (KBlob, KMarkdown) \<Rightarrow> AdmitMarkdown newPath [oldPath])"

section \<open>Commit fences\<close>

datatype occupant = OccMissing | OccFile | OccNonFile
datatype delete_commit = CommitDelete | AdmitReplacement | QuarantineDelete

definition planMarkdownDeleteCommit :: "occupant \<Rightarrow> delete_commit" where
  "planMarkdownDeleteCommit occ =
     (case occ of OccMissing \<Rightarrow> CommitDelete | OccFile \<Rightarrow> AdmitReplacement | OccNonFile \<Rightarrow> QuarantineDelete)"

datatype collision_reason = TargetReplaced | OldPathReoccupied | BothPathsChanged
datatype rename_commit = CommitRename | QuarantineRename collision_reason

definition planRenameEventCommit :: "bool \<Rightarrow> bool \<Rightarrow> rename_commit" where
  "planRenameEventCommit targetMatchesEventFile oldPathIsMissing =
     (if targetMatchesEventFile \<and> oldPathIsMissing then CommitRename
      else if \<not> targetMatchesEventFile \<and> \<not> oldPathIsMissing then QuarantineRename BothPathsChanged
      else QuarantineRename (if targetMatchesEventFile then OldPathReoccupied else TargetReplaced))"

section \<open>The pending rename batch\<close>

record rename_batch =
  renameBatch :: "(path \<times> path) list"
  renameBatchNewToOld :: "(path \<times> path) list"

definition empty_batch :: rename_batch where
  "empty_batch = \<lparr> renameBatch = [], renameBatchNewToOld = [] \<rparr>"

text \<open>A looked-up path that is missing or the empty string is falsy.\<close>

definition truthy_path :: "path option \<Rightarrow> path option" where
  "truthy_path p = (case p of Some [] \<Rightarrow> None | _ \<Rightarrow> p)"

definition deletePendingRenameByOldPath :: "path \<Rightarrow> rename_batch \<Rightarrow> rename_batch" where
  "deletePendingRenameByOldPath oldPath st =
     (case truthy_path (map_of (renameBatch st) oldPath) of
        None \<Rightarrow> st
      | Some existingTarget \<Rightarrow>
          st\<lparr> renameBatch := AList.delete oldPath (renameBatch st),
              renameBatchNewToOld := AList.delete existingTarget (renameBatchNewToOld st) \<rparr>)"

definition setPendingRename :: "path \<Rightarrow> path \<Rightarrow> rename_batch \<Rightarrow> rename_batch" where
  "setPendingRename oldPath newPath st =
     (if oldPath = newPath then deletePendingRenameByOldPath oldPath st
      else
        let st1 = (case truthy_path (map_of (renameBatchNewToOld st) newPath) of
                     Some existingOldForTarget \<Rightarrow>
                       if existingOldForTarget \<noteq> oldPath
                       then deletePendingRenameByOldPath existingOldForTarget st else st
                   | None \<Rightarrow> st);
            st2 = (case truthy_path (map_of (renameBatch st1) oldPath) of
                     Some previousTarget \<Rightarrow>
                       st1\<lparr> renameBatchNewToOld := AList.delete previousTarget (renameBatchNewToOld st1) \<rparr>
                   | None \<Rightarrow> st1)
        in st2\<lparr> renameBatch := AList.update oldPath newPath (renameBatch st2),
                renameBatchNewToOld := AList.update newPath oldPath (renameBatchNewToOld st2) \<rparr>)"

definition rename_root :: "rename_batch \<Rightarrow> path \<Rightarrow> path" where
  "rename_root st oldPath =
     (case map_of (renameBatchNewToOld st) oldPath of Some r \<Rightarrow> r | None \<Rightarrow> oldPath)"

definition queueRename :: "path \<Rightarrow> path \<Rightarrow> rename_batch \<Rightarrow> rename_batch" where
  "queueRename oldPath newPath st =
     (let rootOldPath = rename_root st oldPath;
          st1 = (if rootOldPath = newPath then deletePendingRenameByOldPath rootOldPath st
                 else setPendingRename rootOldPath newPath st)
      in if rootOldPath \<noteq> oldPath then deletePendingRenameByOldPath oldPath st1 else st1)"

definition isPendingRenameTarget :: "path \<Rightarrow> rename_batch \<Rightarrow> bool" where
  "isPendingRenameTarget p st \<longleftrightarrow> map_of (renameBatchNewToOld st) p \<noteq> None"

definition clearPendingRenames :: "rename_batch \<Rightarrow> rename_batch" where
  "clearPendingRenames st = st\<lparr> renameBatch := [], renameBatchNewToOld := [] \<rparr>"

text \<open>The batch a flush hands to \<^verbatim>\<open>applyRenameBatch\<close>, if any.\<close>

definition flushRenameBatch :: "rename_batch \<Rightarrow> rename_batch \<times> (path \<times> path) list option" where
  "flushRenameBatch st =
     (if renameBatch st = [] then (st, None) else (clearPendingRenames st, Some (renameBatch st)))"

definition promotePendingRenameTarget :: "path \<Rightarrow> rename_batch \<Rightarrow> rename_batch \<times> (path \<times> path) list option" where
  "promotePendingRenameTarget p st =
     (case truthy_path (map_of (renameBatchNewToOld st) p) of
        None \<Rightarrow> (st, None)
      | Some pendingOldPath \<Rightarrow> (deletePendingRenameByOldPath pendingOldPath st, Some [(pendingOldPath, p)]))"

text \<open>The first part of \<^verbatim>\<open>handleDelete\<close>: which path is really deleted, and the batch afterwards.\<close>

definition resolve_delete :: "path \<Rightarrow> rename_batch \<Rightarrow> rename_batch \<times> path" where
  "resolve_delete p st =
     (case truthy_path (map_of (renameBatchNewToOld st) p) of
        Some pendingOldPath \<Rightarrow> (deletePendingRenameByOldPath pendingOldPath st, pendingOldPath)
      | None \<Rightarrow>
          if map_of (renameBatch st) p \<noteq> None then (deletePendingRenameByOldPath p st, p) else (st, p))"

section \<open>The two maps are inverse\<close>

definition inverse_maps :: "(path \<Rightarrow> path option) \<Rightarrow> (path \<Rightarrow> path option) \<Rightarrow> bool" where
  "inverse_maps f g \<longleftrightarrow>
     (\<forall>a b. f a = Some b \<longleftrightarrow> g b = Some a) \<and> (\<forall>a b. f a = Some b \<longrightarrow> a \<noteq> b \<and> a \<noteq> [] \<and> b \<noteq> [])"

definition rename_inv :: "rename_batch \<Rightarrow> bool" where
  "rename_inv st \<longleftrightarrow>
     distinct (map fst (renameBatch st)) \<and> distinct (map fst (renameBatchNewToOld st))
     \<and> inverse_maps (map_of (renameBatch st)) (map_of (renameBatchNewToOld st))"

text \<open>Removing a source together with its target, as both deletions do.\<close>

definition drop_target :: "(path \<Rightarrow> path option) \<Rightarrow> (path \<Rightarrow> path option) \<Rightarrow> path \<Rightarrow> path \<Rightarrow> path option" where
  "drop_target f g a = (case f a of None \<Rightarrow> g | Some b \<Rightarrow> g(b := None))"

lemma inverse_maps_lookup:
  assumes "inverse_maps f g"
  shows "f a = Some b \<longleftrightarrow> g b = Some a" "f a \<noteq> Some []" "g a \<noteq> Some []" "f a \<noteq> Some a"
  using assms unfolding inverse_maps_def by blast+

lemma inverse_maps_delete:
  assumes "inverse_maps f g"
  shows "inverse_maps (f(a := None)) (drop_target f g a)"
proof (cases "f a")
  case None
  then have "f(a := None) = f" by auto
  then show ?thesis using assms None by (simp add: drop_target_def)
next
  case (Some b)
  have "(f(a := None)) x = Some y \<longleftrightarrow> (g(b := None)) y = Some x" for x y
    using inverse_maps_lookup(1) [OF assms, of x y] inverse_maps_lookup(1) [OF assms, of a y]
      inverse_maps_lookup(1) [OF assms, of x b] Some
    by (cases "x = a"; cases "y = b") simp_all
  moreover have "(f(a := None)) x = Some y \<Longrightarrow> x \<noteq> y \<and> x \<noteq> [] \<and> y \<noteq> []" for x y
    using assms unfolding inverse_maps_def by (metis fun_upd_apply option.distinct(1))
  ultimately show ?thesis unfolding inverse_maps_def drop_target_def Some option.case by blast
qed

lemma inverse_maps_insert:
  assumes "inverse_maps f g" "f a = None" "g b = None" "a \<noteq> b" "a \<noteq> []" "b \<noteq> []"
  shows "inverse_maps (f(a \<mapsto> b)) (g(b \<mapsto> a))"
proof -
  have "(f(a \<mapsto> b)) x = Some y \<longleftrightarrow> (g(b \<mapsto> a)) y = Some x" for x y
    using inverse_maps_lookup(1) [OF assms(1), of x y] inverse_maps_lookup(1) [OF assms(1), of a y]
      inverse_maps_lookup(1) [OF assms(1), of x b] assms(2,3)
    by (cases "x = a"; cases "y = b") auto
  moreover have "(f(a \<mapsto> b)) x = Some y \<Longrightarrow> x \<noteq> y \<and> x \<noteq> [] \<and> y \<noteq> []" for x y
    using assms unfolding inverse_maps_def by (metis fun_upd_apply option.inject)
  ultimately show ?thesis unfolding inverse_maps_def by blast
qed

lemma truthy_batch:
  assumes "rename_inv st"
  shows "truthy_path (map_of (renameBatch st) p) = map_of (renameBatch st) p"
    and "truthy_path (map_of (renameBatchNewToOld st) p) = map_of (renameBatchNewToOld st) p"
proof -
  have inv: "inverse_maps (map_of (renameBatch st)) (map_of (renameBatchNewToOld st))"
    using assms by (simp add: rename_inv_def)
  show "truthy_path (map_of (renameBatch st) p) = map_of (renameBatch st) p"
    using inverse_maps_lookup(2) [OF inv, of p]
    by (cases "map_of (renameBatch st) p") (auto simp: truthy_path_def split: list.splits)
  show "truthy_path (map_of (renameBatchNewToOld st) p) = map_of (renameBatchNewToOld st) p"
    using inverse_maps_lookup(3) [OF inv, of p]
    by (cases "map_of (renameBatchNewToOld st) p") (auto simp: truthy_path_def split: list.splits)
qed

lemma delete_pending_lookup:
  assumes "rename_inv st"
  shows "map_of (renameBatch (deletePendingRenameByOldPath a st)) = (map_of (renameBatch st))(a := None)"
    and "map_of (renameBatchNewToOld (deletePendingRenameByOldPath a st))
      = drop_target (map_of (renameBatch st)) (map_of (renameBatchNewToOld st)) a"
  by (auto simp: deletePendingRenameByOldPath_def drop_target_def truthy_batch [OF assms] delete_conv'
      split: option.splits)

lemma delete_pending_inv:
  assumes "rename_inv st"
  shows "rename_inv (deletePendingRenameByOldPath a st)"
proof -
  have "distinct (map fst (renameBatch (deletePendingRenameByOldPath a st)))"
    "distinct (map fst (renameBatchNewToOld (deletePendingRenameByOldPath a st)))"
    using assms by (auto simp: deletePendingRenameByOldPath_def rename_inv_def distinct_delete split: option.splits)
  then show ?thesis
    using assms inverse_maps_delete unfolding rename_inv_def delete_pending_lookup [OF assms] by blast
qed

text \<open>The batch without the rename that a new rename onto \<open>new\<close> displaces.\<close>

definition free_target :: "path \<Rightarrow> path \<Rightarrow> rename_batch \<Rightarrow> rename_batch" where
  "free_target old new st =
     (case map_of (renameBatchNewToOld st) new of
        Some x \<Rightarrow> if x \<noteq> old then deletePendingRenameByOldPath x st else st
      | None \<Rightarrow> st)"

lemma free_target_inv: "rename_inv st \<Longrightarrow> rename_inv (free_target old new st)"
  by (auto simp: free_target_def delete_pending_inv split: option.splits)

lemma free_target_lookup:
  assumes "rename_inv st"
  shows "map_of (renameBatch (free_target old new st)) p =
      (if map_of (renameBatch st) p = Some new \<and> p \<noteq> old then None else map_of (renameBatch st) p)"
    and "map_of (renameBatchNewToOld (free_target old new st)) new \<in> {None, Some old}"
proof -
  have inv: "inverse_maps (map_of (renameBatch st)) (map_of (renameBatchNewToOld st))"
    using assms by (simp add: rename_inv_def)
  note look = inverse_maps_lookup(1) [OF inv, of _ new]
  show "map_of (renameBatch (free_target old new st)) p =
      (if map_of (renameBatch st) p = Some new \<and> p \<noteq> old then None else map_of (renameBatch st) p)"
  proof (cases "map_of (renameBatchNewToOld st) new")
    case None
    then show ?thesis using look [of p] by (simp add: free_target_def del: map_of_eq_Some_iff)
  next
    case (Some x)
    then have "map_of (renameBatch st) p = Some new \<longleftrightarrow> p = x" using look [of p] by auto
    then show ?thesis using Some by (auto simp: free_target_def delete_pending_lookup [OF assms])
  qed
  show "map_of (renameBatchNewToOld (free_target old new st)) new \<in> {None, Some old}"
  proof (cases "map_of (renameBatchNewToOld st) new")
    case (Some x)
    then have "map_of (renameBatch st) x = Some new" using look [of x] by simp
    then show ?thesis
      using Some by (simp add: free_target_def delete_pending_lookup [OF assms] drop_target_def)
  qed (simp add: free_target_def)
qed

lemma setPendingRename_lookup:
  assumes "rename_inv st" "old \<noteq> new" "old \<noteq> []" "new \<noteq> []"
  defines "f \<equiv> map_of (renameBatch (free_target old new st))"
    and "g \<equiv> map_of (renameBatchNewToOld (free_target old new st))"
  shows "map_of (renameBatch (setPendingRename old new st)) = f(old \<mapsto> new)"
    and "map_of (renameBatchNewToOld (setPendingRename old new st)) = (drop_target f g old)(new \<mapsto> old)"
    and "rename_inv (setPendingRename old new st)"
proof -
  let ?s = "free_target old new st"
  have inv: "rename_inv ?s" by (rule free_target_inv [OF assms(1)])
  have set: "setPendingRename old new st =
    (let st2 = (case map_of (renameBatch ?s) old of
           Some t \<Rightarrow> ?s\<lparr> renameBatchNewToOld := AList.delete t (renameBatchNewToOld ?s) \<rparr> | None \<Rightarrow> ?s)
     in st2\<lparr> renameBatch := AList.update old new (renameBatch st2),
             renameBatchNewToOld := AList.update new old (renameBatchNewToOld st2) \<rparr>)"
    using assms(2) by (simp add: setPendingRename_def truthy_batch [OF assms(1)] Let_def
        truthy_batch [OF inv] flip: free_target_def)
  show f': "map_of (renameBatch (setPendingRename old new st)) = f(old \<mapsto> new)"
    by (auto simp: set Let_def f_def update_conv' split: option.splits)
  show g': "map_of (renameBatchNewToOld (setPendingRename old new st)) = (drop_target f g old)(new \<mapsto> old)"
    by (auto simp: set Let_def f_def g_def drop_target_def update_conv' delete_conv' split: option.splits)
  have maps: "inverse_maps f g" using inv by (simp add: rename_inv_def f_def g_def)
  have "drop_target f g old new = None"
    using free_target_lookup(2) [OF assms(1), of old new] inverse_maps_lookup(1) [OF maps, of old new]
    by (auto simp: g_def [symmetric] drop_target_def split: option.splits)
  then have "inverse_maps ((f(old := None))(old \<mapsto> new)) ((drop_target f g old)(new \<mapsto> old))"
    using assms(2-4) by (intro inverse_maps_insert inverse_maps_delete [OF maps]) simp_all
  moreover have "distinct (map fst (renameBatch (setPendingRename old new st)))"
    "distinct (map fst (renameBatchNewToOld (setPendingRename old new st)))"
    using inv by (auto simp: set Let_def rename_inv_def distinct_update distinct_delete split: option.splits)
  ultimately show "rename_inv (setPendingRename old new st)"
    unfolding rename_inv_def f' g' by simp
qed

lemma rename_root_nonempty: "rename_inv st \<Longrightarrow> old \<noteq> [] \<Longrightarrow> rename_root st old \<noteq> []"
  using inverse_maps_lookup(3) [of "map_of (renameBatch st)" "map_of (renameBatchNewToOld st)" old]
  by (auto simp: rename_root_def rename_inv_def split: option.splits)

lemma queueRename_lookup:
  assumes "rename_inv st" "old \<noteq> []" "new \<noteq> []"
  defines "r \<equiv> rename_root st old"
  shows "map_of (renameBatch (queueRename old new st)) p =
      (if r \<noteq> old \<and> p = old then None
       else if p = r then (if r = new then None else Some new)
       else if r \<noteq> new \<and> map_of (renameBatch st) p = Some new then None
       else map_of (renameBatch st) p)"
    and "rename_inv (queueRename old new st)"
proof -
  have r: "r \<noteq> []" using rename_root_nonempty [OF assms(1,2)] by (simp add: r_def)
  define s1 where "s1 = (if r = new then deletePendingRenameByOldPath r st else setPendingRename r new st)"
  have q: "queueRename old new st = (if r \<noteq> old then deletePendingRenameByOldPath old s1 else s1)"
    by (simp add: queueRename_def r_def s1_def Let_def)
  have inv: "rename_inv s1"
    using delete_pending_inv [OF assms(1)] setPendingRename_lookup(3) [OF assms(1) _ r assms(3)]
    by (simp add: s1_def)
  show "rename_inv (queueRename old new st)"
    using inv delete_pending_inv [OF inv] by (simp add: q)
  have s: "map_of (renameBatch s1) p = (if p = r then (if r = new then None else Some new)
       else if r \<noteq> new \<and> map_of (renameBatch st) p = Some new then None
       else map_of (renameBatch st) p)"
    using delete_pending_lookup(1) [OF assms(1)] setPendingRename_lookup(1) [OF assms(1) _ r assms(3)]
      free_target_lookup(1) [OF assms(1)] by (simp add: s1_def)
  show "map_of (renameBatch (queueRename old new st)) p =
      (if r \<noteq> old \<and> p = old then None
       else if p = r then (if r = new then None else Some new)
       else if r \<noteq> new \<and> map_of (renameBatch st) p = Some new then None
       else map_of (renameBatch st) p)"
    using s delete_pending_lookup(1) [OF inv, of old]
    by (cases "r = old"; cases "p = old") (simp_all only: q fun_upd_apply if_True if_False simp_thms)
qed

lemma truthy_path_simps: "truthy_path None = None" "[] \<noteq> p \<Longrightarrow> truthy_path (Some p) = Some p"
  by (auto simp: truthy_path_def split: list.splits)

lemmas batch_eval = queueRename_def rename_root_def setPendingRename_def deletePendingRenameByOldPath_def
  truthy_path_simps empty_batch_def Let_def

section \<open>Properties\<close>

text \<open>Where the file that was at a path when the batch began is now, as far as the batch knows.\<close>

definition batch_location :: "rename_batch \<Rightarrow> path \<Rightarrow> path" where
  "batch_location st p = (case map_of (renameBatch st) p of Some q \<Rightarrow> q | None \<Rightarrow> p)"

text \<open>
  C31: the two maps of the pending batch stay inverse to each other under every operation that
  touches them, so the original name of a pending target is always found; a flush empties both, and
  a delete of a renamed file is redirected to the name the shared document still has and leaves no
  rename of it behind.
\<close>

theorem rename_batch_consistent:
  assumes "rename_inv st" "old \<noteq> []" "new \<noteq> []"
  shows "rename_inv (queueRename old new st)
    \<and> rename_inv (fst (promotePendingRenameTarget old st))
    \<and> renameBatch (fst (flushRenameBatch st)) = [] \<and> rename_inv (fst (flushRenameBatch st))
    \<and> rename_inv (fst (resolve_delete old st))
    \<and> snd (resolve_delete old st) = rename_root st old
    \<and> map_of (renameBatch (fst (resolve_delete old st))) (rename_root st old) = None"
proof -
  have "rename_inv (fst (flushRenameBatch st)) \<and> renameBatch (fst (flushRenameBatch st)) = []"
    using assms(1) by (auto simp: flushRenameBatch_def clearPendingRenames_def rename_inv_def inverse_maps_def)
  moreover have "rename_inv (fst (promotePendingRenameTarget old st))"
    using assms(1) delete_pending_inv by (auto simp: promotePendingRenameTarget_def split: option.splits)
  moreover have "rename_inv (fst (resolve_delete old st)) \<and> snd (resolve_delete old st) = rename_root st old
    \<and> map_of (renameBatch (fst (resolve_delete old st))) (rename_root st old) = None"
    using delete_pending_inv [OF assms(1)] delete_pending_lookup(1) [OF assms(1)] assms(1)
    by (auto simp: resolve_delete_def rename_root_def truthy_batch [OF assms(1)] split: option.splits)
  ultimately show ?thesis using queueRename_lookup(2) [OF assms] by blast
qed

text \<open>
  The batch follows the files.  When the renamed path is not itself the source of a pending
  rename and no pending rename already ends at the new name, queueing a rename moves exactly the
  file that is at that path: chains collapse to one step, a rename back to the original name
  cancels out, and every other file stays where the batch had it.
\<close>

theorem queueRename_tracks:
  assumes "rename_inv st" "old \<noteq> []" "new \<noteq> []"
    and "map_of (renameBatch st) old = None" "\<not> isPendingRenameTarget new st"
    and "p \<noteq> old \<or> rename_root st old = old"
  shows "batch_location (queueRename old new st) p =
    (if batch_location st p = old then new else batch_location st p)"
proof -
  let ?r = "rename_root st old"
  have inv: "inverse_maps (map_of (renameBatch st)) (map_of (renameBatchNewToOld st))"
    using assms(1) by (simp add: rename_inv_def)
  have "map_of (renameBatch st) p \<noteq> Some new"
    using inverse_maps_lookup(1) [OF inv, of p new] assms(5) by (auto simp: isPendingRenameTarget_def)
  moreover have "batch_location st p = old \<longleftrightarrow> p = ?r"
    using inverse_maps_lookup(1) [OF inv, of p old] assms(4,6)
    by (auto simp: batch_location_def rename_root_def split: option.splits)
  moreover have "batch_location (queueRename old new st) p =
      (if p = ?r then new else if ?r \<noteq> new \<and> map_of (renameBatch st) p = Some new then p
       else batch_location st p)"
    using queueRename_lookup(1) [OF assms(1-3), of p] assms(6)
    by (auto simp: batch_location_def)
  ultimately show ?thesis by simp
qed

text \<open>
  C34: the last step of queueing a chained rename discards a pending rename that merely starts at
  the intermediate name.  After b was renamed to c, a to b, and then b (the former a) to d, the
  batch only holds a to d: the rename of b to c is lost.
\<close>

theorem queueRename_loses_reused_source:
  assumes "distinct [a, b, c, d]" "[] \<notin> {a, b, c, d}"
  shows "renameBatch (queueRename b d (queueRename a b (queueRename b c empty_batch))) = [(a, d)]"
  using assms assms(1) [THEN distinct_rev [THEN iffD2]] by (simp add: batch_eval)

text \<open>
  Two notes that swap names within one batch leave the index wrong: the batch comes out as the
  two crossing renames, and moving the entries one after the other puts the first note's entry back
  where it was and drops the second note's baseline.
\<close>

theorem swapped_names_lose_baseline:
  assumes "distinct [a, b, t]" "[] \<notin> {a, b, t}" "index a = Some ea" "index b = Some eb"
  shows "renameBatch (queueRename t b (queueRename b a (queueRename a t empty_batch))) = [(a, b), (b, a)]
    \<and> moveIndexEntries index [(a, b), (b, a)] a = Some ea
    \<and> moveIndexEntries index [(a, b), (b, a)] b = None"
proof -
  have "renameBatch (queueRename t b (queueRename b a (queueRename a t empty_batch))) = [(a, b), (b, a)]"
    using assms(1,2) assms(1) [THEN distinct_rev [THEN iffD2]] by (simp add: batch_eval)
  moreover have "b \<noteq> a" using assms(1) by auto
  ultimately show ?thesis using assms by (simp add: moveIndexEntries_def move_entry_def)
qed

text \<open>
  The admission of a rename never lets an excluded path into the shared document and never
  leaves a note behind.  Queueing and admitting happen only into syncable destinations of the same
  kind, and a note that changes identity is either renamed or tombstoned.
\<close>

theorem planCategoryRenameAction_safe:
  "case planCategoryRenameAction oldC newC of
     QueueMarkdownRename a b \<Rightarrow> a = pc_displayPath oldC \<and> b = pc_displayPath newC
       \<and> pc_kind oldC = KMarkdown \<and> pc_kind newC = KMarkdown \<and> pc_canonicalKey oldC \<noteq> pc_canonicalKey newC
   | QueueBlobRename a b \<Rightarrow> a = pc_displayPath oldC \<and> b = pc_displayPath newC
       \<and> pc_kind oldC = KBlob \<and> pc_kind newC = KBlob \<and> pc_canonicalKey oldC \<noteq> pc_canonicalKey newC
   | AdmitMarkdown b dropped \<Rightarrow> b = pc_displayPath newC \<and> pc_kind newC = KMarkdown
       \<and> pc_kind oldC \<noteq> KMarkdown \<and> b \<notin> set dropped - {pc_displayPath oldC}
   | AdmitBlobViaEvent b dropped \<Rightarrow> b = pc_displayPath newC \<and> pc_kind newC = KBlob \<and> pc_kind oldC = KExcluded
   | TombstoneMarkdown a dropped \<Rightarrow> a = pc_displayPath oldC \<and> pc_kind oldC = KMarkdown \<and> pc_kind newC \<noteq> KMarkdown
   | DeferBlobToEvents a b dropped \<Rightarrow> pc_kind oldC = KBlob \<and> pc_kind newC = KExcluded
   | SameIdentity a b \<Rightarrow> pc_canonicalKey oldC = pc_canonicalKey newC
   | IgnoreRename \<Rightarrow> pc_kind oldC = KExcluded \<and> pc_kind newC = KExcluded"
  by (auto simp: planCategoryRenameAction_def Let_def split: path_kind.splits)

section \<open>Witnesses\<close>

definition sample_batch :: rename_batch where
  "sample_batch = \<lparr> renameBatch = [([97], [98])], renameBatchNewToOld = [([98], [97])] \<rparr>"

lemma sample_batch_inv: "rename_inv sample_batch"
  by (auto simp: rename_inv_def inverse_maps_def sample_batch_def)

theorem rename_batch_consistent_witness:
  "rename_inv (queueRename [98] [99] sample_batch) \<and> snd (resolve_delete [98] sample_batch) = [97]"
  using rename_batch_consistent [OF sample_batch_inv, of "[98]" "[99]"]
  by (simp add: rename_root_def) (simp add: sample_batch_def)

theorem queueRename_tracks_witness: "batch_location (queueRename [98] [99] sample_batch) [97] = [99]"
  using queueRename_tracks [OF sample_batch_inv, of "[98]" "[99]" "[97]"]
  by (simp add: batch_location_def [of sample_batch] isPendingRenameTarget_def)
    (simp add: sample_batch_def)

theorem queueRename_loses_reused_source_witness:
  "renameBatch (queueRename [98] [100] (queueRename [97] [98] (queueRename [98] [99] empty_batch))) = [([97], [100])]"
  by (rule queueRename_loses_reused_source) simp_all

theorem swapped_names_lose_baseline_witness:
  "moveIndexEntries [note_a \<mapsto> entry_a, note_b \<mapsto> entry_a] [(note_a, note_b), (note_b, note_a)] note_b = None"
proof -
  have "distinct [note_a, note_b, [99]]" "[] \<notin> {note_a, note_b, [99]}"
    "[note_a \<mapsto> entry_a, note_b \<mapsto> entry_a] note_a = Some entry_a"
    "[note_a \<mapsto> entry_a, note_b \<mapsto> entry_a] note_b = Some entry_a"
    using notes_differ by (simp_all add: note_a_def note_b_def)
  from swapped_names_lose_baseline [OF this] show ?thesis by blast
qed

end
