(* ===== verification/Base64.thy ===== *)
theory Base64
  imports Prelude
begin

text \<open>
  Byte strings as text: \<^verbatim>\<open>encodeBytesBase64\<close> and \<^verbatim>\<open>decodeBytesBase64\<close> of
  \<^verbatim>\<open>src/src/sync/svEchoMessage.ts\<close> (with the platform's \<^verbatim>\<open>btoa\<close> and \<^verbatim>\<open>atob\<close>, modelled after the
  forgiving decoder of the HTML standard), and \<^verbatim>\<open>bytesToBase64Url\<close> of
  \<^verbatim>\<open>src/src/utils/base64url.ts\<close>.  Three bytes are read as one number and printed as four digits
  to base 64; masks and shifts are written as division and remainder.
\<close>

section \<open>Encoding\<close>

definition BASE64_ALPHABET :: jsstr where
  "BASE64_ALPHABET = js ''ABCDEFGHIJKLMNOPQRSTUVWXYZabcdefghijklmnopqrstuvwxyz0123456789+/''"

definition BASE64URL_ALPHABET :: jsstr where
  "BASE64URL_ALPHABET = js ''ABCDEFGHIJKLMNOPQRSTUVWXYZabcdefghijklmnopqrstuvwxyz0123456789-_''"

fun sextets :: "byte list \<Rightarrow> nat list" where
  "sextets [] = []"
| "sextets [a] = (let v = unat a * 65536 in [v div 262144 mod 64, v div 4096 mod 64])"
| "sextets [a, b] =
     (let v = unat a * 65536 + unat b * 256 in [v div 262144 mod 64, v div 4096 mod 64, v div 64 mod 64])"
| "sextets (a # b # c # bs) =
     (let v = unat a * 65536 + unat b * 256 + unat c
      in [v div 262144 mod 64, v div 4096 mod 64, v div 64 mod 64, v mod 64] @ sextets bs)"

definition bytesToBase64Url :: "byte list \<Rightarrow> jsstr" where
  "bytesToBase64Url bytes = map (\<lambda>i. BASE64URL_ALPHABET ! i) (sextets bytes)"

definition pad_char :: jschar where "pad_char = 61"

definition btoa :: "byte list \<Rightarrow> jsstr" where
  "btoa bytes =
     map (\<lambda>i. BASE64_ALPHABET ! i) (sextets bytes) @ replicate ((3 - length bytes mod 3) mod 3) pad_char"

text \<open>The chunked string building before \<^verbatim>\<open>btoa\<close> concatenates to the bytes again.\<close>

function byte_chunks :: "nat \<Rightarrow> byte list \<Rightarrow> byte list list" where
  "byte_chunks n bs = (if bs = [] \<or> n = 0 then [] else take n bs # byte_chunks n (drop n bs))"
  by pat_completeness auto
termination by (relation "measure (\<lambda>(n, bs). length bs)") auto

declare byte_chunks.simps [simp del]

definition encodeBytesBase64 :: "byte list \<Rightarrow> jsstr" where
  "encodeBytesBase64 bytes = btoa (concat (byte_chunks 8192 bytes))"

section \<open>Decoding\<close>

definition base64_index :: "jschar \<Rightarrow> nat" where
  "base64_index c = length (takeWhile (\<lambda>x. x \<noteq> c) BASE64_ALPHABET)"

definition ascii_whitespace :: "jschar \<Rightarrow> bool" where
  "ascii_whitespace c \<longleftrightarrow> c \<in> {9, 10, 12, 13, 32}"

fun bytes_of_sextets :: "nat list \<Rightarrow> byte list" where
  "bytes_of_sextets [p, q] = [of_nat ((p * 262144 + q * 4096) div 65536)]"
| "bytes_of_sextets [p, q, r] =
     (let v = p * 262144 + q * 4096 + r * 64 in [of_nat (v div 65536), of_nat (v div 256 mod 256)])"
| "bytes_of_sextets (p # q # r # s # xs) =
     (let v = p * 262144 + q * 4096 + r * 64 + s
      in [of_nat (v div 65536), of_nat (v div 256 mod 256), of_nat (v mod 256)] @ bytes_of_sextets xs)"
| "bytes_of_sextets xs = []"

definition strip_padding :: "jsstr \<Rightarrow> jsstr" where
  "strip_padding t =
     (if length t mod 4 = 0 then
        (if t \<noteq> [] \<and> last t = pad_char
         then (let t = butlast t in if t \<noteq> [] \<and> last t = pad_char then butlast t else t)
         else t)
      else t)"

definition atob :: "jsstr \<Rightarrow> byte list option" where
  "atob s =
     (let t = strip_padding (filter (\<lambda>c. \<not> ascii_whitespace c) s)
      in if length t mod 4 = 1 \<or> \<not> list_all (\<lambda>c. c \<in> set BASE64_ALPHABET) t then None
         else Some (bytes_of_sextets (map base64_index t)))"

definition decodeBytesBase64 :: "jsstr \<Rightarrow> byte list option" where
  "decodeBytesBase64 s = atob s"

section \<open>Round trip\<close>

lemma concat_byte_chunks: "0 < n \<Longrightarrow> concat (byte_chunks n bs) = bs"
  by (induction n bs rule: byte_chunks.induct) (subst byte_chunks.simps, auto)

lemma byte_lt: "unat (a :: byte) < 256"
  using unsigned_less [of a, where ?'a = nat] by simp

lemma of_nat_byte: "n = unat a \<Longrightarrow> (of_nat n :: byte) = a"
  by simp

lemma base_split: "(r :: nat) < m \<Longrightarrow> (a * m + r) div m = a" "r < m \<Longrightarrow> (a * m + r) mod m = r"
  by auto

lemma sextet_digits:
  fixes v :: nat
  assumes "v < 16777216"
  shows "v div 262144 mod 64 * 262144 + v div 4096 mod 64 * 4096 + v div 64 mod 64 * 64 + v mod 64 = v"
proof -
  have top: "v div 262144 mod 64 = v div 262144"
    using assms by (intro mod_less) (simp add: less_mult_imp_div_less)
  have "v div 4096 * 64 + v div 64 mod 64 = v div 64" "v div 262144 * 64 + v div 4096 mod 64 = v div 4096"
    using div_mult_mod_eq [of "v div 64" 64] div_mult_mod_eq [of "v div 4096" 64]
    by (simp_all flip: div_mult2_eq)
  then show ?thesis unfolding top using div_mult_mod_eq [of v 64] by linarith
qed

lemma three_bytes:
  fixes a b c :: byte
  defines "v \<equiv> unat a * 65536 + unat b * 256 + unat c"
  shows "v < 16777216" "v div 65536 = unat a" "v div 256 mod 256 = unat b" "v mod 256 = unat c"
proof -
  have lt: "unat a < 256" "unat b < 256" "unat c < 256" by (rule byte_lt)+
  have v1: "v = unat a * 65536 + (unat b * 256 + unat c)" and v2: "v = (unat a * 256 + unat b) * 256 + unat c"
    by (simp_all add: v_def)
  show "v < 16777216" using lt by (simp add: v_def)
  show "v div 65536 = unat a" unfolding v1 using lt by (intro base_split(1)) linarith
  have "v div 256 = unat a * 256 + unat b" unfolding v2 using lt(3) by (rule base_split(1))
  then show "v div 256 mod 256 = unat b" using base_split(2) [OF lt(2), of "unat a"] by simp
  show "v mod 256 = unat c" unfolding v2 using lt(3) by (rule base_split(2))
qed

lemma bytes_of_sextets_sextets: "bytes_of_sextets (sextets bs) = bs"
proof (induction bs rule: sextets.induct)
  case (2 a)
  have z: "unat a * 65536 div 64 mod 64 = 0" "unat a * 65536 mod 64 = 0"
    by (simp_all add: mod_eq_0_iff_dvd dvd_mult dvd_div_iff_mult)
  have "unat a * 65536 div 262144 mod 64 * 262144 + unat a * 65536 div 4096 mod 64 * 4096 = unat a * 65536"
    using sextet_digits [of "unat a * 65536"] three_bytes(1) [of a 0 0] z by simp
  then have "bytes_of_sextets (sextets [a]) = [of_nat (unat a * 65536 div 65536)]"
    by (simp only: sextets.simps Let_def bytes_of_sextets.simps)
  then show ?case by simp
next
  case (3 a b)
  let ?v = "unat a * 65536 + unat b * 256"
  have "?v mod 64 = 0" by (simp add: mod_eq_0_iff_dvd dvd_add dvd_mult)
  then have "?v div 262144 mod 64 * 262144 + ?v div 4096 mod 64 * 4096 + ?v div 64 mod 64 * 64 = ?v"
    using sextet_digits [of ?v] three_bytes(1) [of a b 0] by simp
  then have "bytes_of_sextets (sextets [a, b]) = [of_nat (?v div 65536), of_nat (?v div 256 mod 256)]"
    by (simp only: sextets.simps Let_def bytes_of_sextets.simps)
  then show ?case using three_bytes [of a b 0] by simp
next
  case (4 a b c bs)
  note digits = sextet_digits [OF three_bytes(1) [of a b c]]
  have "bytes_of_sextets (sextets (a # b # c # bs)) =
      [of_nat (unat a), of_nat (unat b), of_nat (unat c)] @ bytes_of_sextets (sextets bs)"
    by (simp only: sextets.simps Let_def append.simps bytes_of_sextets.simps digits three_bytes)
  then show ?case using 4 by simp
qed simp

lemma sextets_bound: "i \<in> set (sextets bs) \<Longrightarrow> i < 64"
  by (induction bs rule: sextets.induct) (auto simp: Let_def)

lemma length_sextets: "(length (sextets bs) + (3 - length bs mod 3) mod 3) mod 4 = 0"
proof (induction bs rule: sextets.induct)
  case (4 a b c bs)
  have "length (a # b # c # bs) mod 3 = length bs mod 3" by (simp add: mod_simps numeral_3_eq_3 [symmetric])
  then show ?case using 4 by (simp add: Let_def)
qed (simp_all add: Let_def)

lemma alphabet_distinct: "distinct BASE64_ALPHABET" and alphabet_length: "length BASE64_ALPHABET = 64"
  and alphabet_plain: "pad_char \<notin> set BASE64_ALPHABET" "list_all (\<lambda>c. \<not> ascii_whitespace c) BASE64_ALPHABET"
  by (simp_all add: BASE64_ALPHABET_def js_def pad_char_def ascii_whitespace_def)

lemma takeWhile_nth: "distinct xs \<Longrightarrow> i < length xs \<Longrightarrow> length (takeWhile (\<lambda>x. x \<noteq> xs ! i) xs) = i"
  by (induction xs arbitrary: i) (auto simp: nth_Cons split: nat.splits)

lemma base64_index_nth: "i < 64 \<Longrightarrow> base64_index (BASE64_ALPHABET ! i) = i"
  by (simp add: base64_index_def takeWhile_nth alphabet_distinct alphabet_length)

lemma strip_padding_replicate:
  assumes "(length t + k) mod 4 = 0" "k \<le> 2" "pad_char \<notin> set t"
  shows "strip_padding (t @ replicate k pad_char) = t"
proof -
  have t: "t = [] \<or> last t \<noteq> pad_char" using assms(3) last_in_set by metis
  consider "k = 0" | "k = 1" | "k = 2" using assms(2) by linarith
  then show ?thesis
    using t assms(1) by cases (auto simp: strip_padding_def Let_def numeral_2_eq_2 butlast_append)
qed

lemma no_single_sextet: "((n :: nat) + k) mod 4 = 0 \<Longrightarrow> k \<le> 2 \<Longrightarrow> n mod 4 \<noteq> 1"
  by presburger

lemma base64_decode_encode:
  "decodeBytesBase64 (encodeBytesBase64 bs) = Some bs"
  and base64_chars: "set (encodeBytesBase64 bs) \<subseteq> insert pad_char (set BASE64_ALPHABET)"
proof -
  let ?t = "map (\<lambda>i. BASE64_ALPHABET ! i) (sextets bs)" and ?k = "(3 - length bs mod 3) mod 3"
  have enc: "encodeBytesBase64 bs = ?t @ replicate ?k pad_char"
    by (simp add: encodeBytesBase64_def btoa_def concat_byte_chunks)
  have mem: "set ?t \<subseteq> set BASE64_ALPHABET"
    using sextets_bound by (auto simp: alphabet_length)
  then have plain: "filter (\<lambda>c. \<not> ascii_whitespace c) ?t = ?t"
    using alphabet_plain(2) by (intro filter_True) (auto simp: list_all_iff)
  have pad: "filter (\<lambda>c. \<not> ascii_whitespace c) (replicate ?k pad_char) = replicate ?k pad_char"
    by (intro filter_True) (simp add: pad_char_def ascii_whitespace_def)
  have "?k \<le> 2" "(length ?t + ?k) mod 4 = 0" "pad_char \<notin> set ?t"
    using length_sextets [of bs] mem alphabet_plain(1) by (auto intro: less_Suc_eq_le [THEN iffD1])
  then have strip: "strip_padding (?t @ replicate ?k pad_char) = ?t"
    by (intro strip_padding_replicate)
  have len: "length ?t mod 4 \<noteq> 1"
    using \<open>(length ?t + ?k) mod 4 = 0\<close> \<open>?k \<le> 2\<close> by (rule no_single_sextet)
  have idx: "map base64_index ?t = sextets bs"
    using sextets_bound base64_index_nth by (simp add: map_idI)
  show "decodeBytesBase64 (encodeBytesBase64 bs) = Some bs"
    using mem strip len idx
    by (auto simp: decodeBytesBase64_def atob_def enc plain pad Let_def list_all_iff
        bytes_of_sextets_sextets simp del: map_map)
  show "set (encodeBytesBase64 bs) \<subseteq> insert pad_char (set BASE64_ALPHABET)"
    using mem by (auto simp: enc)
qed

lemma decode_empty: "decodeBytesBase64 [] = Some []"
  by (simp add: decodeBytesBase64_def atob_def strip_padding_def)

text \<open>
  What is persisted or sent as base64 is read back exactly: decoding the encoded bytes gives
  them again, for every length, and the encoding is plain text of the base-64 alphabet.
\<close>

theorem base64_roundtrip:
  "decodeBytesBase64 (encodeBytesBase64 bs) = Some bs
   \<and> set (encodeBytesBase64 bs) \<subseteq> insert pad_char (set BASE64_ALPHABET)"
  using base64_decode_encode base64_chars by blast

lemma url_alphabet: "distinct BASE64URL_ALPHABET" "length BASE64URL_ALPHABET = 64"
  by (simp_all add: BASE64URL_ALPHABET_def js_def)

text \<open>
  The URL-safe encoding needs no padding to be unambiguous: different byte strings have
  different encodings.
\<close>

theorem bytesToBase64Url_injective: "bytesToBase64Url as = bytesToBase64Url bs \<longleftrightarrow> as = bs"
proof
  assume "bytesToBase64Url as = bytesToBase64Url bs"
  moreover have "inj_on (\<lambda>i. BASE64URL_ALPHABET ! i) (set (sextets as) \<union> set (sextets bs))"
    using sextets_bound url_alphabet by (auto simp: inj_on_def nth_eq_iff_index_eq)
  ultimately have "sextets as = sextets bs"
    by (simp add: bytesToBase64Url_def inj_on_map_eq_map)
  then show "as = bs" by (metis bytes_of_sextets_sextets)
qed simp

end
