(* ===== verification/ServerAck.thy ===== *)
theory ServerAck
  imports Base64
begin

text \<open>
  The server-receipt tracker: \<^verbatim>\<open>src/src/sync/serverAckTracker.ts\<close>, with
  \<^verbatim>\<open>src/src/sync/stateVectorAck.ts\<close>, \<^verbatim>\<open>src/src/sync/ackOrigins.ts\<close> and the candidate store contract of
  \<^verbatim>\<open>src/src/sync/candidateStore.ts\<close>.

  The tracker is a record of the class's private fields; every method is a function on it.  State
  vectors are bytes, and Yjs' decoder is the parameter \<open>decode\<close> (\<open>None\<close> when it throws).
  Clocks are numbers; the current document's vector and \<^verbatim>\<open>Date.now()\<close> are arguments.  The promise
  chain that serialises the store writes is a queue of operations: a method appends to it, and
  \<open>run_persistence\<close> completes the oldest one, with or without an error.  The candidate ids and hashes
  that only label trace events are left out.
\<close>

section \<open>State vectors and origins\<close>

type_synonym sv_bytes = "byte list"
type_synonym sv_decoder = "sv_bytes \<Rightarrow> (nat \<times> nat) list option"

definition isStateVectorGe :: "sv_decoder \<Rightarrow> sv_bytes \<Rightarrow> sv_bytes \<Rightarrow> bool" where
  "isStateVectorGe decode a b =
     (case (decode a, decode b) of
        (Some svA, Some svB) \<Rightarrow>
          list_all (\<lambda>(clientId, clock).
            \<not> (case map_of svA clientId of Some c \<Rightarrow> c | None \<Rightarrow> 0) < clock) svB
      | _ \<Rightarrow> False)"

text \<open>An origin is compared by identity with the provider and the persistence, if these are set.\<close>

definition isAckTrackedLocalOrigin :: "'o option \<Rightarrow> 'o option \<Rightarrow> 'o option \<Rightarrow> bool" where
  "isAckTrackedLocalOrigin origin provider persistence =
     (if provider \<noteq> None \<and> origin = provider then False
      else if persistence \<noteq> None \<and> origin = persistence then False
      else True)"

section \<open>The tracker\<close>

record persisted_candidate =
  ps_candidateSvBase64 :: "jsstr option"
  ps_candidateCapturedAt :: "int option"
  ps_lastKnownServerReceiptEchoAt :: "int option"

datatype persist_op = SaveOp persisted_candidate | ClearOp

record ack_tracker =
  ak_candidateSv :: "sv_bytes option"
  ak_candidateCapturedAt :: "int option"
  ak_serverAppliedLocalState :: "bool option"
  ak_lastServerReceiptEchoAt :: "int option"
  ak_lastKnownServerReceiptEchoAt :: "int option"
  ak_persistenceHealthy :: bool
  ak_persistenceFailureCount :: nat
  ak_attached :: bool
  ak_hasStore :: bool
  ak_persistChain :: "persist_op list"

definition new_tracker :: ack_tracker where
  "new_tracker =
     \<lparr> ak_candidateSv = None, ak_candidateCapturedAt = None, ak_serverAppliedLocalState = None,
       ak_lastServerReceiptEchoAt = None, ak_lastKnownServerReceiptEchoAt = None,
       ak_persistenceHealthy = True, ak_persistenceFailureCount = 0, ak_attached = False,
       ak_hasStore = False, ak_persistChain = [] \<rparr>"

definition enqueuePersistence :: "persist_op \<Rightarrow> ack_tracker \<Rightarrow> ack_tracker" where
  "enqueuePersistence op tr = tr\<lparr> ak_persistChain := ak_persistChain tr @ [op] \<rparr>"

definition persistAsync :: "ack_tracker \<Rightarrow> ack_tracker" where
  "persistAsync tr =
     (if \<not> ak_hasStore tr then tr
      else enqueuePersistence
        (SaveOp \<lparr> ps_candidateSvBase64 = map_option encodeBytesBase64 (ak_candidateSv tr),
                  ps_candidateCapturedAt = ak_candidateCapturedAt tr,
                  ps_lastKnownServerReceiptEchoAt = ak_lastKnownServerReceiptEchoAt tr \<rparr>) tr)"

text \<open>\<^verbatim>\<open>attach\<close> stores the encoder and subscribes \<open>on_update\<close> to the document.\<close>

definition attach :: "ack_tracker \<Rightarrow> ack_tracker" where
  "attach tr = tr\<lparr> ak_attached := True \<rparr>"

definition on_update ::
  "'o option \<Rightarrow> 'o option \<Rightarrow> 'o option \<Rightarrow> sv_bytes \<Rightarrow> int \<Rightarrow> ack_tracker \<Rightarrow> ack_tracker" where
  "on_update origin provider persistence currentSv now tr =
     (if isAckTrackedLocalOrigin origin provider persistence
      then persistAsync (tr\<lparr> ak_candidateSv := Some currentSv, ak_candidateCapturedAt := Some now,
                             ak_serverAppliedLocalState := Some False \<rparr>)
      else tr)"

definition validateCandidateAgainstDoc ::
  "sv_decoder \<Rightarrow> sv_bytes \<Rightarrow> int \<Rightarrow> ack_tracker \<Rightarrow> ack_tracker" where
  "validateCandidateAgainstDoc decode currentSv now tr =
     (case ak_candidateSv tr of
        None \<Rightarrow> tr
      | Some cand \<Rightarrow>
          if \<not> ak_attached tr then tr
          else
            let docDominatesCandidate = isStateVectorGe decode currentSv cand;
                candidateDominatesDoc = isStateVectorGe decode cand currentSv
            in if docDominatesCandidate \<and> candidateDominatesDoc then tr
               else if docDominatesCandidate \<and> \<not> candidateDominatesDoc
               then persistAsync (tr\<lparr> ak_candidateSv := Some currentSv, ak_candidateCapturedAt := Some now,
                                      ak_serverAppliedLocalState := Some False \<rparr>)
               else persistAsync (tr\<lparr> ak_candidateSv := None, ak_candidateCapturedAt := None,
                                      ak_serverAppliedLocalState := None \<rparr>))"

text \<open>
  Startup in two parts, because the load is awaited and updates may arrive in between: first the
  store and scope are set, then the loaded state (\<open>None\<close> for nothing stored or a failed load) is
  taken in.
\<close>

definition onStartup_begin :: "ack_tracker \<Rightarrow> ack_tracker" where
  "onStartup_begin tr = tr\<lparr> ak_hasStore := True \<rparr>"

definition onStartup_loaded ::
  "sv_decoder \<Rightarrow> persisted_candidate option \<Rightarrow> sv_bytes \<Rightarrow> int \<Rightarrow> ack_tracker \<Rightarrow> ack_tracker" where
  "onStartup_loaded decode stored currentSv now tr =
     (case stored of
        None \<Rightarrow> tr
      | Some st \<Rightarrow>
          (case ps_candidateSvBase64 st of
             None \<Rightarrow> tr
           | Some b64 \<Rightarrow>
               if b64 = [] then tr
               else case decodeBytesBase64 b64 of
                   None \<Rightarrow> tr
                 | Some sv \<Rightarrow>
                     let tr1 = (if ak_candidateSv tr = None
                                then tr\<lparr> ak_candidateSv := Some sv,
                                         ak_candidateCapturedAt := ps_candidateCapturedAt st,
                                         ak_serverAppliedLocalState := None \<rparr>
                                else tr)
                     in validateCandidateAgainstDoc decode currentSv now
                          (tr1\<lparr> ak_lastKnownServerReceiptEchoAt := ps_lastKnownServerReceiptEchoAt st \<rparr>)))"

definition recordServerSvEcho :: "sv_decoder \<Rightarrow> sv_bytes \<Rightarrow> int \<Rightarrow> ack_tracker \<Rightarrow> ack_tracker" where
  "recordServerSvEcho decode serverSv now tr =
     (let tr1 = tr\<lparr> ak_lastServerReceiptEchoAt := Some now \<rparr>;
          tr2 = (case ak_candidateSv tr1 of
                   None \<Rightarrow> tr1
                 | Some cand \<Rightarrow>
                     let confirmed = isStateVectorGe decode serverSv cand;
                         tr' = tr1\<lparr> ak_serverAppliedLocalState := Some confirmed \<rparr>
                     in if confirmed
                        then tr'\<lparr> ak_lastKnownServerReceiptEchoAt := ak_lastServerReceiptEchoAt tr' \<rparr>
                        else tr')
      in persistAsync tr2)"

definition hasUnconfirmedCandidate :: "ack_tracker \<Rightarrow> bool" where
  "hasUnconfirmedCandidate tr \<longleftrightarrow>
     ak_candidateSv tr \<noteq> None \<and> ak_serverAppliedLocalState tr \<noteq> Some True"

definition clearLocalReceiptState :: "bool \<Rightarrow> ack_tracker \<Rightarrow> ack_tracker" where
  "clearLocalReceiptState clearStore tr =
     (let tr1 = tr\<lparr> ak_candidateSv := None, ak_candidateCapturedAt := None,
                    ak_serverAppliedLocalState := None, ak_lastServerReceiptEchoAt := None,
                    ak_lastKnownServerReceiptEchoAt := None, ak_persistenceFailureCount := 0 \<rparr>
      in if clearStore \<and> ak_hasStore tr1 then enqueuePersistence ClearOp tr1 else tr1)"

text \<open>
  The oldest queued write completes: on success the store holds the saved state (or nothing) and
  the health flag is restored, on failure the store is unchanged and the failure is counted.
\<close>

definition run_persistence ::
  "bool \<Rightarrow> ack_tracker \<times> persisted_candidate option \<Rightarrow> ack_tracker \<times> persisted_candidate option" where
  "run_persistence ok ts =
     (case ak_persistChain (fst ts) of
        [] \<Rightarrow> ts
      | op # ops \<Rightarrow>
          let tr = (fst ts)\<lparr> ak_persistChain := ops \<rparr>
          in if ok
             then (tr\<lparr> ak_persistenceHealthy := True \<rparr>, case op of SaveOp st \<Rightarrow> Some st | ClearOp \<Rightarrow> None)
             else (tr\<lparr> ak_persistenceFailureCount := ak_persistenceFailureCount tr + 1,
                       ak_persistenceHealthy := False \<rparr>, snd ts))"

section \<open>The order on state vectors\<close>

text \<open>
  What the tracker relies on of the comparison: it is transitive, and reflexive on the vectors that
  decode to a map.
\<close>

locale sv_order =
  fixes ge :: "sv_bytes \<Rightarrow> sv_bytes \<Rightarrow> bool" and valid :: "sv_bytes \<Rightarrow> bool"
  assumes ge_refl: "valid a \<Longrightarrow> ge a a"
    and ge_trans: "ge a b \<Longrightarrow> ge b c \<Longrightarrow> ge a c"
begin

lemma echo_covers: "ge server cand \<Longrightarrow> ge cand older \<Longrightarrow> ge server older"
  by (rule ge_trans)

lemma equal_up_to_order: "ge a b \<Longrightarrow> ge b a \<Longrightarrow> ge s a \<longleftrightarrow> ge s b"
  using ge_trans by blast

end

definition valid_sv :: "sv_decoder \<Rightarrow> sv_bytes \<Rightarrow> bool" where
  "valid_sv decode b = (case decode b of Some sv \<Rightarrow> distinct (map fst sv) | None \<Rightarrow> False)"

lemma isStateVectorGe_iff:
  "isStateVectorGe decode a b \<longleftrightarrow>
     (\<exists>svA svB. decode a = Some svA \<and> decode b = Some svB \<and>
        (\<forall>k c. (k, c) \<in> set svB \<longrightarrow> c \<le> (case map_of svA k of Some d \<Rightarrow> d | None \<Rightarrow> 0)))"
  by (auto simp: isStateVectorGe_def list_all_iff not_less split: option.splits)

interpretation svo: sv_order "isStateVectorGe decode" "valid_sv decode" for decode
proof
  fix a :: sv_bytes
  assume "valid_sv decode a"
  then show "isStateVectorGe decode a a"
    by (auto simp: isStateVectorGe_iff valid_sv_def split: option.splits dest: eq_key_imp_eq_value)
next
  fix a b c :: sv_bytes
  assume ab: "isStateVectorGe decode a b" and bc: "isStateVectorGe decode b c"
  obtain svA svB where A: "decode a = Some svA" "decode b = Some svB"
    and le: "\<And>k n. (k, n) \<in> set svB \<Longrightarrow> n \<le> (case map_of svA k of Some d \<Rightarrow> d | None \<Rightarrow> 0)"
    using ab by (auto simp: isStateVectorGe_iff)
  obtain svC where C: "decode c = Some svC"
    and le': "\<And>k n. (k, n) \<in> set svC \<Longrightarrow> n \<le> (case map_of svB k of Some d \<Rightarrow> d | None \<Rightarrow> 0)"
    using bc A(2) by (auto simp: isStateVectorGe_iff)
  have "n \<le> (case map_of svA k of Some d \<Rightarrow> d | None \<Rightarrow> 0)" if "(k, n) \<in> set svC" for k n
    using le' [OF that] le [of k] by (cases "map_of svB k") (auto dest: map_of_SomeD intro: order_trans)
  then show "isStateVectorGe decode a c" using A(1) C by (auto simp: isStateVectorGe_iff)
qed

section \<open>Runs of the tracker\<close>

text \<open>
  A run interleaves document updates, server echoes, the parts of startup, clearing, completed
  writes and restarts of the plugin in any order.  The world keeps, beside the tracker, the content
  of the store and the last vector the server sent in this session.
\<close>

record ack_world =
  aw_tracker :: ack_tracker
  aw_lastEcho :: "sv_bytes option"
  aw_store :: "persisted_candidate option"

inductive ack_step :: "sv_decoder \<Rightarrow> ack_world \<Rightarrow> ack_world \<Rightarrow> bool" for decode where
  step_attach: "ack_step decode w (w\<lparr> aw_tracker := attach (aw_tracker w) \<rparr>)"
| step_update: "ack_step decode w
    (w\<lparr> aw_tracker := on_update (origin :: nat option) provider persistence sv now (aw_tracker w) \<rparr>)"
| step_echo: "ack_step decode w
    (w\<lparr> aw_tracker := recordServerSvEcho decode sv now (aw_tracker w), aw_lastEcho := Some sv \<rparr>)"
| step_begin: "ack_step decode w (w\<lparr> aw_tracker := onStartup_begin (aw_tracker w) \<rparr>)"
| step_loaded: "stored = None \<or> stored = aw_store w \<Longrightarrow>
    ack_step decode w (w\<lparr> aw_tracker := onStartup_loaded decode stored sv now (aw_tracker w) \<rparr>)"
| step_clear: "ack_step decode w (w\<lparr> aw_tracker := clearLocalReceiptState cs (aw_tracker w) \<rparr>)"
| step_persist: "(tr, st) = run_persistence ok (aw_tracker w, aw_store w) \<Longrightarrow>
    ack_step decode w (w\<lparr> aw_tracker := tr, aw_store := st \<rparr>)"
| step_restart: "ack_step decode w (w\<lparr> aw_tracker := new_tracker, aw_lastEcho := None \<rparr>)"

definition ack_start :: "persisted_candidate option \<Rightarrow> ack_world" where
  "ack_start st = \<lparr> aw_tracker = new_tracker, aw_lastEcho = None, aw_store = st \<rparr>"

definition ack_inv :: "sv_decoder \<Rightarrow> ack_world \<Rightarrow> bool" where
  "ack_inv decode w \<longleftrightarrow>
     (ak_serverAppliedLocalState (aw_tracker w) = Some True \<longrightarrow>
        (\<exists>cand sv. ak_candidateSv (aw_tracker w) = Some cand \<and> aw_lastEcho w = Some sv
           \<and> isStateVectorGe decode sv cand))"

lemma persistAsync_simps [simp]:
  "ak_candidateSv (persistAsync tr) = ak_candidateSv tr"
  "ak_serverAppliedLocalState (persistAsync tr) = ak_serverAppliedLocalState tr"
  "ak_hasStore (persistAsync tr) = ak_hasStore tr"
  by (simp_all add: persistAsync_def enqueuePersistence_def)

lemma validate_applied:
  "ak_serverAppliedLocalState (validateCandidateAgainstDoc decode sv now tr) = Some True \<Longrightarrow>
     ak_serverAppliedLocalState tr = Some True \<and>
     ak_candidateSv (validateCandidateAgainstDoc decode sv now tr) = ak_candidateSv tr"
  by (auto simp: validateCandidateAgainstDoc_def Let_def split: option.splits if_splits)

lemma loaded_applied:
  "ak_serverAppliedLocalState (onStartup_loaded decode stored sv now tr) = Some True \<Longrightarrow>
     ak_serverAppliedLocalState tr = Some True \<and>
     (ak_candidateSv tr \<noteq> None \<longrightarrow> ak_candidateSv (onStartup_loaded decode stored sv now tr) = ak_candidateSv tr)"
  by (auto simp: onStartup_loaded_def Let_def split: option.splits if_splits dest!: validate_applied)

lemma run_persistence_simps:
  assumes "(tr, st) = run_persistence ok (t, s)"
  shows "ak_candidateSv tr = ak_candidateSv t" "ak_serverAppliedLocalState tr = ak_serverAppliedLocalState t"
  using assms by (auto simp: run_persistence_def Let_def split: list.splits if_splits)

lemma ack_step_inv:
  assumes "ack_step decode w w'" "ack_inv decode w"
  shows "ack_inv decode w'"
  using assms
proof (induction rule: ack_step.induct)
  case (step_loaded stored w sv now)
  then show ?case using loaded_applied [of decode stored sv now "aw_tracker w"]
    by (fastforce simp: ack_inv_def)
next
  case (step_persist tr st ok w)
  then show ?case using run_persistence_simps [OF step_persist(1)] by (simp add: ack_inv_def)
qed (auto simp: ack_inv_def attach_def on_update_def recordServerSvEcho_def onStartup_begin_def Let_def
      clearLocalReceiptState_def enqueuePersistence_def new_tracker_def split: option.splits if_splits)

lemma ack_reachable_inv: "(ack_step decode)\<^sup>*\<^sup>* (ack_start st) w \<Longrightarrow> ack_inv decode w"
proof (induction rule: rtranclp_induct)
  case base
  show ?case by (simp add: ack_inv_def ack_start_def new_tracker_def)
next
  case (step v w)
  then show ?case using ack_step_inv by blast
qed

text \<open>
  C13: the tracker never claims more than the server said.  In every state reachable by any
  interleaving of edits, echoes, startup, clearing, store writes and restarts, \<^verbatim>\<open>server has my
  edits\<close> is only true when the last vector received in this session dominates the current
  candidate, and then it dominates everything the candidate itself dominates.
\<close>

theorem serverApplied_is_confirmed:
  assumes "(ack_step decode)\<^sup>*\<^sup>* (ack_start st) w"
    and "ak_serverAppliedLocalState (aw_tracker w) = Some True"
  shows "\<exists>cand sv. ak_candidateSv (aw_tracker w) = Some cand \<and> aw_lastEcho w = Some sv
    \<and> isStateVectorGe decode sv cand
    \<and> (\<forall>older. isStateVectorGe decode cand older \<longrightarrow> isStateVectorGe decode sv older)"
  using ack_reachable_inv [OF assms(1)] assms(2) svo.echo_covers unfolding ack_inv_def by blast

text \<open>
  Only an echo can turn the receipt on.  A local edit turns it off and makes the edited
  document the candidate; whatever happens next, short of an echo, leaves it off.
\<close>

theorem only_an_echo_confirms:
  assumes "ack_step decode w w'"
    and "ak_serverAppliedLocalState (aw_tracker w) \<noteq> Some True"
    and "ak_serverAppliedLocalState (aw_tracker w') = Some True"
  shows "\<exists>sv now. w' = w\<lparr> aw_tracker := recordServerSvEcho decode sv now (aw_tracker w), aw_lastEcho := Some sv \<rparr>"
  using assms
proof (cases rule: ack_step.cases)
  case (step_loaded stored sv now)
  then show ?thesis using assms loaded_applied [of decode stored sv now "aw_tracker w"] by simp
next
  case (step_persist tr st ok)
  then show ?thesis using assms run_persistence_simps [OF step_persist(2)] by simp
qed (use assms in \<open>auto simp: attach_def on_update_def onStartup_begin_def clearLocalReceiptState_def Let_def
      enqueuePersistence_def new_tracker_def split: if_splits\<close>)

section \<open>Persistence\<close>

fun drain :: "bool list \<Rightarrow> ack_tracker \<times> persisted_candidate option \<Rightarrow> ack_tracker \<times> persisted_candidate option" where
  "drain [] ts = ts"
| "drain (ok # oks) ts = drain oks (run_persistence ok ts)"

definition op_result :: "persist_op \<Rightarrow> persisted_candidate option" where
  "op_result op = (case op of SaveOp st \<Rightarrow> Some st | ClearOp \<Rightarrow> None)"

lemma drain_last:
  assumes "ak_persistChain (fst ts) = ops @ [op]" "length oks = length ops"
  shows "snd (drain (oks @ [True]) ts) = op_result op \<and> ak_persistChain (fst (drain (oks @ [True]) ts)) = []
    \<and> ak_persistenceHealthy (fst (drain (oks @ [True]) ts))"
  using assms
proof (induction oks arbitrary: ts ops)
  case Nil
  then show ?case by (simp add: run_persistence_def op_result_def)
next
  case (Cons ok oks)
  then obtain o1 rest where ops: "ops = o1 # rest" by (cases ops) auto
  have "ak_persistChain (fst (run_persistence ok ts)) = rest @ [op]"
    using Cons.prems(1) ops by (simp add: run_persistence_def Let_def)
  then show ?case using Cons.IH [of _ rest] Cons.prems(2) ops by simp
qed

text \<open>
  Clearing cannot be undone by a slow write.  However many saves are queued when the local
  receipt state is cleared, and whichever of them fail, the store is empty once the queue has
  drained and the clear itself succeeded; and the tracker remembers nothing meanwhile.
\<close>

theorem clear_wins_over_queued_saves:
  assumes "ak_hasStore tr" "length oks = length (ak_persistChain tr)"
  defines "tr' \<equiv> clearLocalReceiptState True tr"
  shows "snd (drain (oks @ [True]) (tr', stored)) = None
    \<and> ak_candidateSv tr' = None \<and> \<not> hasUnconfirmedCandidate tr' \<and> ak_serverAppliedLocalState tr' = None"
proof -
  have "ak_persistChain tr' = ak_persistChain tr @ [ClearOp]"
    using assms(1) by (simp add: tr'_def clearLocalReceiptState_def enqueuePersistence_def Let_def)
  then show ?thesis
    using drain_last [of "(tr', stored)" "ak_persistChain tr" ClearOp oks] assms(2)
    by (simp add: op_result_def tr'_def clearLocalReceiptState_def enqueuePersistence_def Let_def
        hasUnconfirmedCandidate_def)
qed

text \<open>
  An unconfirmed edit survives a restart.  Once the write of a captured candidate has completed,
  a fresh tracker that loads the store over the same document has that candidate again, still
  unconfirmed, even if the previous session had seen it confirmed.
\<close>

theorem candidate_survives_restart:
  fixes origin :: "nat option" and now later :: int and stored :: "persisted_candidate option"
  assumes "ak_hasStore tr" "isAckTrackedLocalOrigin origin provider persistence"
    and "length oks = length (ak_persistChain tr)" "valid_sv decode sv" "sv \<noteq> []"
  defines "tr' \<equiv> on_update origin provider persistence sv now tr"
  defines "store \<equiv> snd (drain (oks @ [True]) (tr', stored))"
  defines "fresh \<equiv> onStartup_loaded decode store sv later (onStartup_begin (attach new_tracker))"
  shows "ak_candidateSv fresh = Some sv \<and> ak_serverAppliedLocalState fresh = None
    \<and> hasUnconfirmedCandidate fresh \<and> ak_candidateCapturedAt fresh = Some now"
proof -
  let ?save = "SaveOp \<lparr> ps_candidateSvBase64 = Some (encodeBytesBase64 sv), ps_candidateCapturedAt = Some now,
      ps_lastKnownServerReceiptEchoAt = ak_lastKnownServerReceiptEchoAt tr \<rparr>"
  have "ak_persistChain tr' = ak_persistChain tr @ [?save]"
    using assms(1,2) by (simp add: tr'_def on_update_def persistAsync_def enqueuePersistence_def)
  then have "store = op_result ?save"
    using drain_last [of "(tr', stored)" "ak_persistChain tr" ?save oks] assms(3) by (simp add: store_def)
  moreover have "encodeBytesBase64 sv \<noteq> []"
    using base64_decode_encode [of sv] assms(5) by (auto simp: decode_empty)
  moreover have "isStateVectorGe decode sv sv" using assms(4) by (rule svo.ge_refl)
  ultimately show ?thesis
    by (simp add: fresh_def op_result_def onStartup_loaded_def base64_decode_encode attach_def onStartup_begin_def
        new_tracker_def validateCandidateAgainstDoc_def hasUnconfirmedCandidate_def)
qed

section \<open>Witnesses\<close>

definition one_client :: sv_decoder where "one_client b = (if b = [] then None else Some [(7, unat (hd b))])"

definition edited :: ack_world where
  "edited = (ack_start None)\<lparr> aw_tracker := on_update (None :: nat option) (Some 1) (Some 2) [5] 10 new_tracker \<rparr>"

definition echoed :: ack_world where
  "echoed = edited\<lparr> aw_tracker := recordServerSvEcho one_client [6] 20 (aw_tracker edited), aw_lastEcho := Some [6] \<rparr>"

lemma edited_step: "ack_step one_client (ack_start None) edited"
  using step_update [of one_client "ack_start None" None "Some 1" "Some 2" "[5]" 10]
  by (simp add: edited_def ack_start_def)

lemma echoed_step: "ack_step one_client edited echoed"
  unfolding echoed_def by (rule step_echo)

lemma echoed_applied: "ak_serverAppliedLocalState (aw_tracker echoed) = Some True"
  "ak_serverAppliedLocalState (aw_tracker edited) \<noteq> Some True" "ak_candidateSv (aw_tracker echoed) = Some [5]"
  by (simp_all add: echoed_def edited_def recordServerSvEcho_def on_update_def isAckTrackedLocalOrigin_def
      isStateVectorGe_def one_client_def ack_start_def)

theorem serverApplied_is_confirmed_witness: "isStateVectorGe one_client [6] [5]"
proof -
  have "(ack_step one_client)\<^sup>*\<^sup>* (ack_start None) echoed"
    using edited_step echoed_step by (metis converse_rtranclp_into_rtranclp rtranclp.rtrancl_refl)
  from serverApplied_is_confirmed [OF this echoed_applied(1)] show ?thesis
    using echoed_applied(3) by (simp add: echoed_def)
qed

theorem only_an_echo_confirms_witness:
  "\<exists>sv now. echoed = edited\<lparr> aw_tracker := recordServerSvEcho one_client sv now (aw_tracker edited), aw_lastEcho := Some sv \<rparr>"
  using only_an_echo_confirms [OF echoed_step] echoed_applied by blast

theorem clear_wins_over_queued_saves_witness:
  "snd (drain [False, True] (clearLocalReceiptState True (persistAsync (onStartup_begin new_tracker)), None)) = None"
  using clear_wins_over_queued_saves [of "persistAsync (onStartup_begin new_tracker)" "[False]" None]
  by (simp add: onStartup_begin_def persistAsync_def enqueuePersistence_def new_tracker_def)

theorem candidate_survives_restart_witness:
  "ak_candidateSv (onStartup_loaded one_client
     (snd (drain [True] (on_update (None :: nat option) (Some 1) (Some 2) [5] 10 (onStartup_begin new_tracker), None)))
     [5] 99 (onStartup_begin (attach new_tracker))) = Some [5]"
  using candidate_survives_restart [where tr = "onStartup_begin new_tracker" and origin = None
      and provider = "Some 1" and persistence = "Some 2" and oks = "[]" and decode = one_client and sv = "[5]"
      and now = 10 and later = 99 and stored = None]
  by (simp add: onStartup_begin_def new_tracker_def isAckTrackedLocalOrigin_def valid_sv_def one_client_def)

end
