(* ===== verification/FileMeta.thy ===== *)
theory FileMeta
  imports Prelude
begin

text \<open>
  File metadata, \<^verbatim>\<open>src/src/sync/fileMeta.ts\<close>: reading entries of the old flat and the current nested
  shape, writing nested ones, and the semantic diff that drives the observers.

  A metadata value is an arbitrary JavaScript value; \<open>JYMap\<close> is a nested \<^verbatim>\<open>Y.Map\<close>, \<open>JObj\<close> any
  other object (arrays included), both given by the fields they hold.  Numbers are finite rationals
  or one of the three values \<^verbatim>\<open>Number.isFinite\<close> rejects.  The shared meta map is an association list
  with distinct file ids, as \<^verbatim>\<open>Y.Map.forEach\<close> enumerates it; snapshots are \<^verbatim>\<open>Map\<close>s.
  \<^verbatim>\<open>Date.now()\<close>, used where a tombstone has no time of its own, is an argument.
\<close>

section \<open>Values\<close>

datatype js_number = Fin rat | NaN | PosInfinity | NegInfinity

datatype js_value =
    JUndefined
  | JNull
  | JBool bool
  | JNum js_number
  | JStr jsstr
  | JObj "(jsstr \<times> js_value) list"
  | JYMap "(jsstr \<times> js_value) list"

definition jget :: "jsstr \<Rightarrow> (jsstr \<times> js_value) list \<Rightarrow> js_value" where
  "jget k fs = (case map_of fs k of Some v \<Rightarrow> v | None \<Rightarrow> JUndefined)"

definition F_path :: jsstr where "F_path = js ''path''"
definition F_deletedAt :: jsstr where "F_deletedAt = js ''deletedAt''"
definition F_deleted :: jsstr where "F_deleted = js ''deleted''"
definition F_mtime :: jsstr where "F_mtime = js ''mtime''"
definition F_device :: jsstr where "F_device = js ''device''"

fun finite_number :: "js_value \<Rightarrow> rat option" where
  "finite_number (JNum (Fin q)) = Some q"
| "finite_number _ = None"

fun string_value :: "js_value \<Rightarrow> jsstr option" where
  "string_value (JStr s) = Some s"
| "string_value _ = None"

datatype meta_shape = Flat | Nested

record decoded_meta =
  dm_shape :: meta_shape
  dm_path :: path
  dm_deletedAt :: "rat option"
  dm_deleted :: "bool option"
  dm_mtime :: "rat option"
  dm_device :: "jsstr option"

fun isNestedFileMeta :: "js_value \<Rightarrow> bool" where
  "isNestedFileMeta (JYMap fs) = True"
| "isNestedFileMeta _ = False"

fun isObjectRecord :: "js_value \<Rightarrow> bool" where
  "isObjectRecord (JObj fs) = True"
| "isObjectRecord _ = False"

definition decode_fields :: "meta_shape \<Rightarrow> (jsstr \<times> js_value) list \<Rightarrow> decoded_meta option" where
  "decode_fields shape fs =
     (case string_value (jget F_path fs) of
        None \<Rightarrow> None
      | Some p \<Rightarrow>
          if p = [] then None
          else Some \<lparr> dm_shape = shape, dm_path = p,
                      dm_deletedAt = finite_number (jget F_deletedAt fs),
                      dm_deleted = (if jget F_deleted fs = JBool True then Some True else None),
                      dm_mtime = finite_number (jget F_mtime fs),
                      dm_device = string_value (jget F_device fs) \<rparr>)"

fun decodeFileMeta :: "js_value \<Rightarrow> decoded_meta option" where
  "decodeFileMeta (JYMap fs) = decode_fields Nested fs"
| "decodeFileMeta (JObj fs) = decode_fields Flat fs"
| "decodeFileMeta _ = None"

section \<open>Readers\<close>

fun meta_fields :: "js_value \<Rightarrow> (jsstr \<times> js_value) list option" where
  "meta_fields (JYMap fs) = Some fs"
| "meta_fields (JObj fs) = Some fs"
| "meta_fields _ = None"

definition getMetaPath :: "js_value \<Rightarrow> path option" where
  "getMetaPath v =
     (case meta_fields v of
        None \<Rightarrow> None
      | Some fs \<Rightarrow> (case string_value (jget F_path fs) of Some p \<Rightarrow> if p \<noteq> [] then Some p else None | None \<Rightarrow> None))"

definition getMetaMtime :: "js_value \<Rightarrow> rat option" where
  "getMetaMtime v = (case meta_fields v of None \<Rightarrow> None | Some fs \<Rightarrow> finite_number (jget F_mtime fs))"

definition getMetaDevice :: "js_value \<Rightarrow> jsstr option" where
  "getMetaDevice v = (case meta_fields v of None \<Rightarrow> None | Some fs \<Rightarrow> string_value (jget F_device fs))"

definition getMetaDeletedAt :: "js_value \<Rightarrow> rat option" where
  "getMetaDeletedAt v = (case meta_fields v of None \<Rightarrow> None | Some fs \<Rightarrow> finite_number (jget F_deletedAt fs))"

definition isFileMetaDeletedValue :: "js_value \<Rightarrow> bool" where
  "isFileMetaDeletedValue v =
     (case meta_fields v of
        None \<Rightarrow> False
      | Some fs \<Rightarrow>
          if finite_number (jget F_deletedAt fs) \<noteq> None then True else jget F_deleted fs = JBool True)"

section \<open>Writers\<close>

definition createNestedActiveMeta :: "path \<Rightarrow> rat \<Rightarrow> jsstr option \<Rightarrow> js_value" where
  "createNestedActiveMeta p mtime device =
     JYMap ([(F_path, JStr p), (F_mtime, JNum (Fin mtime))]
       @ (case device of Some d \<Rightarrow> if d \<noteq> [] then [(F_device, JStr d)] else [] | None \<Rightarrow> []))"

definition createNestedDeletedMeta :: "path \<Rightarrow> rat \<Rightarrow> js_value" where
  "createNestedDeletedMeta p deletedAt = JYMap [(F_path, JStr p), (F_deletedAt, JNum (Fin deletedAt))]"

definition meta_is_deleted :: "decoded_meta \<Rightarrow> bool" where
  "meta_is_deleted d \<longleftrightarrow> dm_deleted d = Some True \<or> dm_deletedAt d \<noteq> None"

definition createNestedMetaFromDecoded :: "rat \<Rightarrow> decoded_meta \<Rightarrow> js_value" where
  "createNestedMetaFromDecoded now d =
     (if meta_is_deleted d
      then JYMap [(F_path, JStr (dm_path d)),
                  (F_deletedAt, JNum (Fin (case dm_deletedAt d of Some t \<Rightarrow> t | None \<Rightarrow> now)))]
      else JYMap ([(F_path, JStr (dm_path d))]
             @ (case dm_mtime d of Some t \<Rightarrow> [(F_mtime, JNum (Fin t))] | None \<Rightarrow> [])
             @ (case dm_device d of Some s \<Rightarrow> [(F_device, JStr s)] | None \<Rightarrow> [])))"

type_synonym meta_map = "(jsstr \<times> js_value) list"

definition ensureNestedMetaEntry ::
  "rat \<Rightarrow> jsstr \<Rightarrow> decoded_meta option \<Rightarrow> meta_map \<Rightarrow> meta_map \<times> js_value option" where
  "ensureNestedMetaEntry now fileId fallback metaMap =
     (let existing = jget fileId metaMap
      in if isNestedFileMeta existing then (metaMap, Some existing)
         else case decodeFileMeta existing of
             Some decoded \<Rightarrow>
               (let entry = createNestedMetaFromDecoded now decoded
                in (AList.update fileId entry metaMap, Some entry))
           | None \<Rightarrow>
               (case fallback of
                  Some fb \<Rightarrow>
                    (let entry = createNestedMetaFromDecoded now fb
                     in (AList.update fileId entry metaMap, Some entry))
                | None \<Rightarrow> (metaMap, None)))"

section \<open>Semantic changes\<close>

datatype meta_change =
    McAdded jsstr decoded_meta
  | McRemoved jsstr decoded_meta
  | McPathChanged jsstr path path bool bool
  | McDeleted jsstr path rat
  | McRevived jsstr path
  | McMtimeChanged jsstr path
  | McDeviceChanged jsstr path
  | McInvalid jsstr

type_synonym meta_snapshot = "(jsstr \<times> decoded_meta) list"

definition modified_changes :: "rat \<Rightarrow> jsstr \<Rightarrow> decoded_meta \<Rightarrow> decoded_meta \<Rightarrow> meta_change list" where
  "modified_changes now fileId prev cur =
     (let prevDeleted = meta_is_deleted prev; currDeleted = meta_is_deleted cur
      in if prevDeleted \<and> \<not> currDeleted then [McRevived fileId (dm_path cur)]
         else if \<not> prevDeleted \<and> currDeleted
         then [McDeleted fileId (dm_path cur) (case dm_deletedAt cur of Some t \<Rightarrow> t | None \<Rightarrow> now)]
         else if dm_path prev \<noteq> dm_path cur
         then [McPathChanged fileId (dm_path prev) (dm_path cur) prevDeleted currDeleted]
         else if dm_mtime prev \<noteq> dm_mtime cur then [McMtimeChanged fileId (dm_path cur)]
         else if dm_device prev \<noteq> dm_device cur then [McDeviceChanged fileId (dm_path cur)]
         else [])"

definition computeMetaSemanticChanges :: "rat \<Rightarrow> meta_snapshot \<Rightarrow> meta_snapshot \<Rightarrow> meta_change list" where
  "computeMetaSemanticChanges now previous current =
     concat (map (\<lambda>(fileId, prev). if map_of current fileId = None then [McRemoved fileId prev] else []) previous)
     @ concat (map (\<lambda>(fileId, cur).
         case map_of previous fileId of
           None \<Rightarrow> [McAdded fileId cur]
         | Some prev \<Rightarrow> modified_changes now fileId prev cur) current)"

definition buildMetaSnapshot :: "meta_map \<Rightarrow> meta_snapshot" where
  "buildMetaSnapshot metaMap =
     foldl (\<lambda>snap (fileId, v). case decodeFileMeta v of Some d \<Rightarrow> AList.update fileId d snap | None \<Rightarrow> snap) [] metaMap"

text \<open>
  The affected ids of a batch of deep events: an event on the meta map itself names its changed
  keys; a nested event names its file id as the first path element, if that is a string.
\<close>

datatype meta_event = TopLevelEvent "jsstr list" | NestedEvent "jsstr option list"

definition add_id :: "jsstr list \<Rightarrow> jsstr \<Rightarrow> jsstr list" where
  "add_id affected k = (if k \<in> set affected then affected else affected @ [k])"

fun extract_from :: "meta_event list \<Rightarrow> jsstr list \<Rightarrow> jsstr list option" where
  "extract_from [] affected = Some affected"
| "extract_from (TopLevelEvent ks # es) affected = extract_from es (foldl add_id affected ks)"
| "extract_from (NestedEvent p # es) affected =
     (case p of Some k # _ \<Rightarrow> extract_from es (add_id affected k) | _ \<Rightarrow> None)"

definition extractAffectedFileIds :: "meta_event list \<Rightarrow> jsstr list option" where
  "extractAffectedFileIds events = extract_from events []"

fun computeIncrementalMetaChanges ::
  "rat \<Rightarrow> meta_map \<Rightarrow> jsstr list \<Rightarrow> meta_snapshot \<Rightarrow> meta_change list \<times> meta_snapshot" where
  "computeIncrementalMetaChanges now metaMap [] snapshot = ([], snapshot)"
| "computeIncrementalMetaChanges now metaMap (fileId # ids) snapshot =
     (let prev = map_of snapshot fileId;
          (changes, snapshot') =
            (case decodeFileMeta (jget fileId metaMap) of
               None \<Rightarrow>
                 (case prev of
                    Some p \<Rightarrow> ([McRemoved fileId p], AList.delete fileId snapshot)
                  | None \<Rightarrow> ([McInvalid fileId], snapshot))
             | Some cur \<Rightarrow>
                 (case prev of
                    None \<Rightarrow> ([McAdded fileId cur], AList.update fileId cur snapshot)
                  | Some p \<Rightarrow> (modified_changes now fileId p cur, AList.update fileId cur snapshot)));
          (rest, final) = computeIncrementalMetaChanges now metaMap ids snapshot'
      in (changes @ rest, final))"

record meta_stats =
  ms_schemaVersion :: "rat option"
  ms_flat :: nat
  ms_nested :: nat
  ms_invalid :: nat
  ms_active :: nat
  ms_tombstone :: nat
  ms_total :: nat

definition count_entry :: "meta_stats \<Rightarrow> jsstr \<times> js_value \<Rightarrow> meta_stats" where
  "count_entry acc e =
     (case decodeFileMeta (snd e) of
        None \<Rightarrow> acc\<lparr> ms_invalid := ms_invalid acc + 1 \<rparr>
      | Some d \<Rightarrow>
          let acc = (if dm_shape d = Nested then acc\<lparr> ms_nested := ms_nested acc + 1 \<rparr>
                     else acc\<lparr> ms_flat := ms_flat acc + 1 \<rparr>)
          in if meta_is_deleted d then acc\<lparr> ms_tombstone := ms_tombstone acc + 1 \<rparr>
             else acc\<lparr> ms_active := ms_active acc + 1 \<rparr>)"

definition computeMetaShapeStats :: "meta_map \<Rightarrow> rat option \<Rightarrow> meta_stats" where
  "computeMetaShapeStats metaMap schemaVersion =
     (let acc = foldl count_entry
        \<lparr> ms_schemaVersion = schemaVersion, ms_flat = 0, ms_nested = 0, ms_invalid = 0, ms_active = 0,
          ms_tombstone = 0, ms_total = 0 \<rparr> metaMap
      in acc\<lparr> ms_total := ms_flat acc + ms_nested acc + ms_invalid acc \<rparr>)"

section \<open>Readers and decoder agree\<close>

text \<open>
  The single-field readers and the decoder never disagree.  An entry decodes exactly when it has
  a readable path, whatever its shape; then every reader returns the decoded field, and the entry
  counts as deleted for the reader exactly when its decoded form is a tombstone.
\<close>

theorem readers_agree_with_decoder:
  "case decodeFileMeta v of
     None \<Rightarrow> getMetaPath v = None
   | Some d \<Rightarrow> getMetaPath v = Some (dm_path d) \<and> getMetaMtime v = dm_mtime d \<and> getMetaDevice v = dm_device d
       \<and> getMetaDeletedAt v = dm_deletedAt d \<and> isFileMetaDeletedValue v = meta_is_deleted d
       \<and> (dm_shape d = Nested \<longleftrightarrow> isNestedFileMeta v) \<and> (dm_shape d = Flat \<longleftrightarrow> isObjectRecord v)"
  by (cases v)
    (auto simp: decode_fields_def getMetaPath_def getMetaMtime_def getMetaDevice_def getMetaDeletedAt_def
      isFileMetaDeletedValue_def meta_is_deleted_def split: option.splits if_splits)

section \<open>Lazy conversion\<close>

lemmas field_names = F_path_def F_deletedAt_def F_deleted_def F_mtime_def F_device_def js_def

lemma field_names_distinct: "distinct [F_path, F_deletedAt, F_deleted, F_mtime, F_device]"
  by (simp add: field_names)

text \<open>The decoded form of a converted entry.\<close>

definition upgraded :: "rat \<Rightarrow> decoded_meta \<Rightarrow> decoded_meta" where
  "upgraded now d =
     (if meta_is_deleted d
      then \<lparr> dm_shape = Nested, dm_path = dm_path d,
             dm_deletedAt = Some (case dm_deletedAt d of Some t \<Rightarrow> t | None \<Rightarrow> now), dm_deleted = None,
             dm_mtime = None, dm_device = None \<rparr>
      else d\<lparr> dm_shape := Nested, dm_deleted := None \<rparr>)"

lemma decode_created:
  assumes "dm_path d \<noteq> []"
  shows "decodeFileMeta (createNestedMetaFromDecoded now d) = Some (upgraded now d)"
  using assms field_names_distinct
  by (cases d; cases "meta_is_deleted d")
    (auto simp: createNestedMetaFromDecoded_def upgraded_def decode_fields_def jget_def meta_is_deleted_def
      split: option.splits)

lemma decoded_path_nonempty: "decodeFileMeta v = Some d \<Longrightarrow> dm_path d \<noteq> []"
  by (cases v) (auto simp: decode_fields_def split: option.splits if_splits)

lemma jget_update: "jget k (AList.update j v m) = (if k = j then v else jget k m)"
  by (simp add: jget_def update_conv')

text \<open>
  The on-write migration keeps the meaning of an entry.  A readable flat entry becomes a nested
  one with the same path; a tombstone stays a tombstone with its own time, or the time of the
  conversion if it had none, and an active entry keeps its times and device.  Nested entries are
  returned as they are, and no other entry of the map changes.
\<close>

theorem ensureNestedMetaEntry_migrates:
  fixes now :: rat and fileId :: jsstr and fb :: "decoded_meta option" and m :: meta_map
  defines "r \<equiv> ensureNestedMetaEntry now fileId fb m"
  shows "(\<forall>k. k \<noteq> fileId \<longrightarrow> jget k (fst r) = jget k m)
    \<and> (\<forall>v. snd r = Some v \<longrightarrow> isNestedFileMeta v \<and> jget fileId (fst r) = v)
    \<and> (\<forall>d. isObjectRecord (jget fileId m) \<and> decodeFileMeta (jget fileId m) = Some d \<longrightarrow>
         (\<exists>v. snd r = Some v \<and> decodeFileMeta v = Some (upgraded now d)))
    \<and> (isNestedFileMeta (jget fileId m) \<longrightarrow> r = (m, Some (jget fileId m)))"
proof -
  have nested: "isNestedFileMeta (createNestedMetaFromDecoded now d)" for d
    by (simp add: createNestedMetaFromDecoded_def)
  have "\<not> isNestedFileMeta v" if "isObjectRecord v" for v using that by (cases v) auto
  then show ?thesis
    using nested decode_created decoded_path_nonempty
    by (auto simp: r_def ensureNestedMetaEntry_def jget_update Let_def split: option.splits)
qed

text \<open>
  A nested entry without a readable path is handed back as it is, although a fallback was given,
  so the caller gets an entry that does not decode.
\<close>

theorem ensureNestedMetaEntry_keeps_invalid_nested:
  assumes "jget fileId m = JYMap fs" "jget F_path fs = JUndefined"
  shows "ensureNestedMetaEntry now fileId (Some fb) m = (m, Some (JYMap fs))
    \<and> decodeFileMeta (JYMap fs) = None"
  using assms by (simp add: ensureNestedMetaEntry_def decode_fields_def)

section \<open>Snapshots and changes\<close>

lemma buildMetaSnapshot_lookup:
  assumes "distinct (map fst m)"
  shows "map_of (buildMetaSnapshot m) k = decodeFileMeta (jget k m)"
    and "distinct (map fst (buildMetaSnapshot m))"
proof -
  let ?f = "\<lambda>snap (fileId, v). case decodeFileMeta v of Some d \<Rightarrow> AList.update fileId d snap | None \<Rightarrow> snap"
  have "map_of (foldl ?f snap m) k = (case map_of m k of
      Some v \<Rightarrow> (case decodeFileMeta v of Some d \<Rightarrow> Some d | None \<Rightarrow> map_of snap k) | None \<Rightarrow> map_of snap k)"
    for snap
    using assms
  proof (induction m arbitrary: snap)
    case (Cons e m)
    then have "map_of m (fst e) = None" by (simp add: map_of_eq_None_iff)
    then show ?case using Cons by (cases e) (auto simp: update_conv' split: option.splits)
  qed simp
  from this [of "[]"] show "map_of (buildMetaSnapshot m) k = decodeFileMeta (jget k m)"
    by (auto simp: buildMetaSnapshot_def jget_def split: option.splits)
  have "distinct (map fst snap) \<Longrightarrow> distinct (map fst (foldl ?f snap m))" for snap
    by (induction m arbitrary: snap) (auto simp: distinct_update split: option.splits)
  then show "distinct (map fst (buildMetaSnapshot m))" by (simp add: buildMetaSnapshot_def)
qed

text \<open>What the diff reports for one file.\<close>

definition file_changes :: "rat \<Rightarrow> jsstr \<Rightarrow> decoded_meta option \<Rightarrow> decoded_meta option \<Rightarrow> meta_change list" where
  "file_changes now k prev cur =
     (case (prev, cur) of
        (None, None) \<Rightarrow> []
      | (Some p, None) \<Rightarrow> [McRemoved k p]
      | (None, Some c) \<Rightarrow> [McAdded k c]
      | (Some p, Some c) \<Rightarrow> modified_changes now k p c)"

lemma modified_changes_same [simp]: "modified_changes now k d d = []"
  by (simp add: modified_changes_def Let_def)

lemma file_changes_same [simp]: "file_changes now k d d = []"
  by (simp add: file_changes_def split: option.splits)

lemma set_semantic_changes:
  assumes "distinct (map fst previous)" "distinct (map fst current)"
  shows "set (computeMetaSemanticChanges now previous current)
    = (\<Union>k. set (file_changes now k (map_of previous k) (map_of current k)))"
proof (intro set_eqI iffI)
  fix c assume "c \<in> set (computeMetaSemanticChanges now previous current)"
  then consider k p where "(k, p) \<in> set previous" "map_of current k = None" "c = McRemoved k p"
    | k q where "(k, q) \<in> set current"
        "c \<in> set (case map_of previous k of None \<Rightarrow> [McAdded k q] | Some p \<Rightarrow> modified_changes now k p q)"
    by (auto simp: computeMetaSemanticChanges_def split: if_splits)
  then show "c \<in> (\<Union>k. set (file_changes now k (map_of previous k) (map_of current k)))"
  proof cases
    case (1 k p)
    then have "map_of previous k = Some p" using assms(1) by simp
    then show ?thesis using 1 by (auto simp: file_changes_def intro!: exI [of _ k])
  next
    case (2 k q)
    then have "map_of current k = Some q" using assms(2) by simp
    then show ?thesis using 2 by (auto simp: file_changes_def split: option.splits intro!: exI [of _ k])
  qed
next
  fix c assume "c \<in> (\<Union>k. set (file_changes now k (map_of previous k) (map_of current k)))"
  then obtain k where c: "c \<in> set (file_changes now k (map_of previous k) (map_of current k))" by blast
  show "c \<in> set (computeMetaSemanticChanges now previous current)"
  proof (cases "map_of current k")
    case None
    then obtain p where "map_of previous k = Some p" "c = McRemoved k p"
      using c by (auto simp: file_changes_def split: option.splits)
    then have "(k, p) \<in> set previous" by (auto dest: map_of_SomeD)
    then show ?thesis using None \<open>c = McRemoved k p\<close>
      by (force simp: computeMetaSemanticChanges_def)
  next
    case (Some q)
    then have "(k, q) \<in> set current" by (auto dest: map_of_SomeD)
    moreover have "c \<in> set (case map_of previous k of None \<Rightarrow> [McAdded k q] | Some p \<Rightarrow> modified_changes now k p q)"
      using c Some by (auto simp: file_changes_def split: option.splits)
    ultimately show ?thesis by (force simp: computeMetaSemanticChanges_def)
  qed
qed

definition inc_one :: "rat \<Rightarrow> meta_map \<Rightarrow> jsstr \<Rightarrow> meta_snapshot \<Rightarrow> meta_change list \<times> meta_snapshot" where
  "inc_one now m k snap =
     (case decodeFileMeta (jget k m) of
        None \<Rightarrow>
          (case map_of snap k of
             Some p \<Rightarrow> ([McRemoved k p], AList.delete k snap)
           | None \<Rightarrow> ([McInvalid k], snap))
      | Some cur \<Rightarrow>
          (case map_of snap k of
             None \<Rightarrow> ([McAdded k cur], AList.update k cur snap)
           | Some p \<Rightarrow> (modified_changes now k p cur, AList.update k cur snap)))"

lemma incremental_Cons:
  "computeIncrementalMetaChanges now m (k # ks) snap =
     (let (changes, snap') = inc_one now m k snap; (rest, final) = computeIncrementalMetaChanges now m ks snap'
      in (changes @ rest, final))"
  by (simp add: inc_one_def Let_def)

lemma inc_one_effect:
  "map_of (snd (inc_one now m k snap)) = (map_of snap)(k := decodeFileMeta (jget k m))"
  "set (fst (inc_one now m k snap)) - range McInvalid
     = set (file_changes now k (map_of snap k) (decodeFileMeta (jget k m)))"
proof -
  show "map_of (snd (inc_one now m k snap)) = (map_of snap)(k := decodeFileMeta (jget k m))"
    by (auto simp: inc_one_def update_conv' delete_conv' split: option.splits)
  have "set (modified_changes now k p c) - range McInvalid = set (modified_changes now k p c)" for p c
    by (auto simp: modified_changes_def Let_def)
  then show "set (fst (inc_one now m k snap)) - range McInvalid
     = set (file_changes now k (map_of snap k) (decodeFileMeta (jget k m)))"
    by (auto simp: inc_one_def file_changes_def split: option.splits)
qed

lemma incremental_run:
  "distinct ids \<Longrightarrow>
     map_of (snd (computeIncrementalMetaChanges now m ids snap)) k
       = (if k \<in> set ids then decodeFileMeta (jget k m) else map_of snap k)
     \<and> set (fst (computeIncrementalMetaChanges now m ids snap)) - range McInvalid
       = (\<Union>j \<in> set ids. set (file_changes now j (map_of snap j) (decodeFileMeta (jget j m))))"
proof (induction ids arbitrary: snap)
  case (Cons i ids)
  obtain ch snap' where one: "inc_one now m i snap = (ch, snap')" by fastforce
  obtain rest final where r: "computeIncrementalMetaChanges now m ids snap' = (rest, final)" by fastforce
  have eff: "map_of snap' = (map_of snap)(i := decodeFileMeta (jget i m))"
    "set ch - range McInvalid = set (file_changes now i (map_of snap i) (decodeFileMeta (jget i m)))"
    using inc_one_effect [of now m i snap] one by simp_all
  have same: "(\<Union>j \<in> set ids. set (file_changes now j (map_of snap' j) (decodeFileMeta (jget j m))))
      = (\<Union>j \<in> set ids. set (file_changes now j (map_of snap j) (decodeFileMeta (jget j m))))"
    using Cons.prems by (intro SUP_cong) (auto simp: eff(1))
  have "computeIncrementalMetaChanges now m (i # ids) snap = (ch @ rest, final)"
    by (simp only: incremental_Cons one r Let_def prod.case)
  then show ?case
    using Cons.IH [of snap'] Cons.prems eff same r by (auto simp: Un_Diff)
qed simp

lemma UN_support: "(\<And>k. k \<notin> S \<Longrightarrow> A k = {}) \<Longrightarrow> (\<Union>k. A k) = (\<Union>k \<in> S. A k)"
  by blast

text \<open>
  C28: looking only at the affected entries gives what a full rescan would.  If the snapshot described
  the previous map and every entry that changed is among the affected ids, the incremental pass
  leaves exactly the snapshot of the new map and reports exactly the changes of the full diff,
  apart from notes about entries that were invalid before and after.
\<close>

theorem incremental_refines_full_diff:
  fixes now :: rat
  assumes "distinct (map fst old)" "distinct (map fst new)" "distinct ids"
    and "\<And>k. k \<notin> set ids \<Longrightarrow> jget k new = jget k old"
  defines "r \<equiv> computeIncrementalMetaChanges now new ids (buildMetaSnapshot old)"
  shows "map_of (snd r) = map_of (buildMetaSnapshot new)
    \<and> set (fst r) - range McInvalid
      = set (computeMetaSemanticChanges now (buildMetaSnapshot old) (buildMetaSnapshot new))"
proof -
  note look = buildMetaSnapshot_lookup(1) [OF assms(1)] buildMetaSnapshot_lookup(1) [OF assms(2)]
  have "map_of (snd r) = map_of (buildMetaSnapshot new)"
    using incremental_run [OF assms(3)] assms(4) by (intro ext) (auto simp: r_def look)
  moreover have "set (file_changes now k (decodeFileMeta (jget k old)) (decodeFileMeta (jget k new))) = {}"
    if "k \<notin> set ids" for k using assms(4) [OF that] by simp
  then have support: "(\<Union>k. set (file_changes now k (decodeFileMeta (jget k old)) (decodeFileMeta (jget k new))))
      = (\<Union>k \<in> set ids. set (file_changes now k (decodeFileMeta (jget k old)) (decodeFileMeta (jget k new))))"
    by (rule UN_support)
  have "set (fst r) - range McInvalid
      = set (computeMetaSemanticChanges now (buildMetaSnapshot old) (buildMetaSnapshot new))"
    using incremental_run [OF assms(3)] set_semantic_changes
        [OF buildMetaSnapshot_lookup(2) [OF assms(1)] buildMetaSnapshot_lookup(2) [OF assms(2)]]
    by (simp only: r_def look support)
  ultimately show ?thesis by blast
qed

lemma modified_changes_Nil:
  "modified_changes now k p c = [] \<longleftrightarrow>
     meta_is_deleted p = meta_is_deleted c \<and> dm_path p = dm_path c \<and> dm_mtime p = dm_mtime c
     \<and> dm_device p = dm_device c"
  by (auto simp: modified_changes_def Let_def)

text \<open>
  The diff is silent only when nothing an observer acts on changed: the same files, and for each
  the same path, liveness, modification time and device.
\<close>

theorem computeMetaSemanticChanges_complete:
  assumes "distinct (map fst previous)" "distinct (map fst current)"
  shows "computeMetaSemanticChanges now previous current = [] \<longleftrightarrow>
    (\<forall>k. rel_option (\<lambda>p c. meta_is_deleted p = meta_is_deleted c \<and> dm_path p = dm_path c
         \<and> dm_mtime p = dm_mtime c \<and> dm_device p = dm_device c) (map_of previous k) (map_of current k))"
proof -
  have "file_changes now k p c = [] \<longleftrightarrow>
      rel_option (\<lambda>p c. meta_is_deleted p = meta_is_deleted c \<and> dm_path p = dm_path c
         \<and> dm_mtime p = dm_mtime c \<and> dm_device p = dm_device c) p c" for k p c
    by (cases p; cases c) (simp_all add: file_changes_def modified_changes_Nil)
  then show ?thesis
    using set_semantic_changes [OF assms, of now] by (auto simp flip: set_empty)
qed

lemma count_entries:
  "ms_flat (foldl count_entry acc m) + ms_nested (foldl count_entry acc m) + ms_invalid (foldl count_entry acc m)
     = ms_flat acc + ms_nested acc + ms_invalid acc + length m
   \<and> ms_active (foldl count_entry acc m) + ms_tombstone (foldl count_entry acc m) + ms_flat acc + ms_nested acc
     = ms_active acc + ms_tombstone acc + ms_flat (foldl count_entry acc m) + ms_nested (foldl count_entry acc m)"
proof (induction m arbitrary: acc)
  case (Cons e m)
  have one: "ms_flat (count_entry acc e) + ms_nested (count_entry acc e) + ms_invalid (count_entry acc e)
      = Suc (ms_flat acc + ms_nested acc + ms_invalid acc)"
    "ms_active (count_entry acc e) + ms_tombstone (count_entry acc e) + ms_flat acc + ms_nested acc
      = ms_active acc + ms_tombstone acc + ms_flat (count_entry acc e) + ms_nested (count_entry acc e)"
    by (auto simp: count_entry_def Let_def split: option.splits)
  show ?case using Cons.IH [of "count_entry acc e"] one by simp
qed simp

text \<open>
  The shape statistics account for every entry once: the total is the number of entries, and the
  readable ones are split into active entries and tombstones.
\<close>

theorem computeMetaShapeStats_total:
  "ms_total (computeMetaShapeStats m v) = length m
   \<and> ms_active (computeMetaShapeStats m v) + ms_tombstone (computeMetaShapeStats m v)
     = ms_flat (computeMetaShapeStats m v) + ms_nested (computeMetaShapeStats m v)"
  using count_entries [of "\<lparr> ms_schemaVersion = v, ms_flat = 0, ms_nested = 0, ms_invalid = 0, ms_active = 0,
          ms_tombstone = 0, ms_total = 0 \<rparr>" m]
  by (simp add: computeMetaShapeStats_def Let_def)

section \<open>Witnesses\<close>

definition id_a :: jsstr where "id_a = js ''a''"
definition flat_a :: js_value where "flat_a = JObj [(F_path, JStr (js ''n.md'')), (F_mtime, JNum (Fin 3))]"
definition meta_a :: decoded_meta where
  "meta_a = \<lparr> dm_shape = Flat, dm_path = js ''n.md'', dm_deletedAt = None, dm_deleted = None,
     dm_mtime = Some 3, dm_device = None \<rparr>"

lemma decode_flat_a: "decodeFileMeta flat_a = Some meta_a"
  using field_names_distinct by (auto simp: flat_a_def decode_fields_def jget_def meta_a_def js_def)

theorem ensureNestedMetaEntry_migrates_witness:
  "\<exists>v. snd (ensureNestedMetaEntry 9 id_a None [(id_a, flat_a)]) = Some v
     \<and> decodeFileMeta v = Some (upgraded 9 meta_a)"
proof -
  have "isObjectRecord (jget id_a [(id_a, flat_a)]) \<and> decodeFileMeta (jget id_a [(id_a, flat_a)]) = Some meta_a"
    using decode_flat_a by (simp add: jget_def) (simp add: flat_a_def)
  with ensureNestedMetaEntry_migrates [of id_a 9 None "[(id_a, flat_a)]"] show ?thesis by blast
qed

theorem ensureNestedMetaEntry_keeps_invalid_nested_witness:
  "snd (ensureNestedMetaEntry 9 id_a (Some meta_a) [(id_a, JYMap [])]) = Some (JYMap [])"
  using ensureNestedMetaEntry_keeps_invalid_nested [of id_a "[(id_a, JYMap [])]" "[]" 9 meta_a]
  by (simp add: jget_def)

theorem incremental_refines_full_diff_witness:
  "set (fst (computeIncrementalMetaChanges 9 [(id_a, flat_a)] [id_a] (buildMetaSnapshot []))) - range McInvalid
     = set (computeMetaSemanticChanges 9 (buildMetaSnapshot []) (buildMetaSnapshot [(id_a, flat_a)]))"
proof -
  have "jget k [(id_a, flat_a)] = jget k []" if "k \<notin> set [id_a]" for k
    using that by (simp add: jget_def)
  then show ?thesis using incremental_refines_full_diff [of "[]" "[(id_a, flat_a)]" "[id_a]" 9] by simp
qed

theorem computeMetaSemanticChanges_complete_witness:
  "computeMetaSemanticChanges 9 [(id_a, meta_a)] [(id_a, meta_a)] = []"
  using computeMetaSemanticChanges_complete [of "[(id_a, meta_a)]" "[(id_a, meta_a)]" 9]
  by simp

end
