(* ===== verification/ChunkedPayload.thy ===== *)
theory ChunkedPayload
  imports Digits
begin

text \<open>
  The lower half of \<^verbatim>\<open>src/server/src/chunkedDocStore.ts\<close>: storage keys, batched access and payloads
  split into chunks.

  The durable object's storage is a map from keys to values.  A key is the constructor that the key
  functions of the source build a string from; \<open>key_string\<close> is that string, and it is injective, so
  working with constructors loses nothing.  Byte lengths and counts written by the store are natural
  numbers; what a load reads is an arbitrary value, whose integer fields may have any sign.
\<close>

section \<open>Keys\<close>

datatype store_key =
    CheckpointPointer
  | CheckpointManifestKey int
  | CheckpointChunkKey int nat
  | CheckpointStateVectorKey int
  | CheckpointStateVectorDescriptorKey int
  | CheckpointStateVectorChunkKey int nat
  | JournalMetaKey
  | JournalManifestKey int
  | JournalChunkKey int nat

definition int_string :: "int \<Rightarrow> jsstr" where
  "int_string i = (if i < 0 then 45 # digits_of 10 (nat (- i)) else digits_of 10 (nat i))"

definition numbered :: "string \<Rightarrow> int \<Rightarrow> nat option \<Rightarrow> jsstr" where
  "numbered pre v i =
     js pre @ int_string v @ (case i of None \<Rightarrow> [] | Some k \<Rightarrow> 58 # digits_of 10 k)"

fun key_string :: "store_key \<Rightarrow> jsstr" where
  "key_string CheckpointPointer = js ''document:checkpoint:current''"
| "key_string (CheckpointManifestKey v) = numbered ''document:checkpoint:manifest:'' v None"
| "key_string (CheckpointChunkKey v i) = numbered ''document:checkpoint:chunk:'' v (Some i)"
| "key_string (CheckpointStateVectorKey v) = numbered ''document:checkpoint:state-vector:'' v None"
| "key_string (CheckpointStateVectorDescriptorKey v) =
     numbered ''document:checkpoint:state-vector-descriptor:'' v None"
| "key_string (CheckpointStateVectorChunkKey v i) =
     numbered ''document:checkpoint:state-vector-chunk:'' v (Some i)"
| "key_string JournalMetaKey = js ''document:journal:meta''"
| "key_string (JournalManifestKey s) = numbered ''document:journal:manifest:'' s None"
| "key_string (JournalChunkKey s i) = numbered ''document:journal:chunk:'' s (Some i)"

section \<open>Values\<close>

record chunk_descriptor =
  cd_chunkSizeBytes :: int
  cd_chunkCount :: int
  cd_byteLength :: int
  cd_sha256 :: jsstr

record checkpoint_manifest = chunk_descriptor +
  cm_version :: int
  cm_stateVectorByteLength :: int
  cm_stateVectorSha256 :: jsstr
  cm_stateVectorChunked :: "bool option"
  cm_updatedAt :: jsstr

record state_vector_descriptor = chunk_descriptor +
  sd_version :: int
  sd_updatedAt :: jsstr

record journal_entry_manifest = chunk_descriptor +
  jm_seq :: int
  jm_updatedAt :: jsstr

record journal_meta =
  jr_nextSeq :: int
  jr_entryCount :: int
  jr_totalBytes :: int
  jr_updatedAt :: jsstr

datatype store_value =
    VPointer int
  | VManifest checkpoint_manifest
  | VStateVectorDescriptor state_vector_descriptor
  | VJournalMeta journal_meta
  | VJournalEntry journal_entry_manifest
  | VBytes "byte list"
  | VOther

type_synonym doc_store = "store_key \<Rightarrow> store_value option"

definition is_sha256_hex :: "jsstr \<Rightarrow> bool" where
  "is_sha256_hex s \<longleftrightarrow>
     length s = 64 \<and> list_all (\<lambda>c. (48 \<le> c \<and> c \<le> 57) \<or> (97 \<le> c \<and> c \<le> 102)) s"

text \<open>\<^verbatim>\<open>isManifestPointer\<close> accepts any object with a positive integer \<^verbatim>\<open>version\<close>.\<close>

fun value_version :: "store_value \<Rightarrow> int option" where
  "value_version (VPointer v) = Some v"
| "value_version (VManifest m) = Some (cm_version m)"
| "value_version (VStateVectorDescriptor d) = Some (sd_version d)"
| "value_version _ = None"

definition isManifestPointer :: "store_value \<Rightarrow> bool" where
  "isManifestPointer v = (case value_version v of Some n \<Rightarrow> n > 0 | None \<Rightarrow> False)"

definition valid_descriptor :: "'a chunk_descriptor_scheme \<Rightarrow> bool" where
  "valid_descriptor d \<longleftrightarrow>
     cd_chunkSizeBytes d > 0 \<and> cd_chunkCount d \<ge> 0 \<and> cd_byteLength d \<ge> 0 \<and> is_sha256_hex (cd_sha256 d)"

fun isChunkedManifest :: "store_value option \<Rightarrow> bool" where
  "isChunkedManifest (Some (VManifest m)) \<longleftrightarrow>
     cm_version m > 0 \<and> valid_descriptor m \<and> cm_stateVectorByteLength m \<ge> 0
     \<and> is_sha256_hex (cm_stateVectorSha256 m) \<and> cm_updatedAt m \<noteq> []"
| "isChunkedManifest _ \<longleftrightarrow> False"

fun isStateVectorDescriptor :: "store_value option \<Rightarrow> bool" where
  "isStateVectorDescriptor (Some (VStateVectorDescriptor d)) \<longleftrightarrow>
     sd_version d > 0 \<and> valid_descriptor d \<and> sd_updatedAt d \<noteq> []"
| "isStateVectorDescriptor _ \<longleftrightarrow> False"

fun isJournalMeta :: "store_value \<Rightarrow> bool" where
  "isJournalMeta (VJournalMeta m) \<longleftrightarrow>
     jr_nextSeq m \<ge> 1 \<and> jr_entryCount m \<ge> 0 \<and> jr_totalBytes m \<ge> 0 \<and> jr_updatedAt m \<noteq> []"
| "isJournalMeta _ \<longleftrightarrow> False"

fun isJournalEntryManifest :: "store_value option \<Rightarrow> bool" where
  "isJournalEntryManifest (Some (VJournalEntry m)) \<longleftrightarrow>
     jm_seq m \<ge> 1 \<and> valid_descriptor m \<and> jm_updatedAt m \<noteq> []"
| "isJournalEntryManifest _ \<longleftrightarrow> False"

section \<open>Errors\<close>

datatype store_error =
    NotPositiveInteger
  | InvalidPayload
  | PointerInvalid
  | ManifestInvalid
  | VersionMismatch
  | DescriptorInvalid
  | DescriptorMismatch
  | StateVectorMissing
  | StateVectorMismatch
  | JournalMetaInvalid
  | JournalInconsistent
  | JournalManifestInvalid
  | ChunkCountMismatch
  | ChunkMissing
  | ChunkLengthInvalid
  | ChunkBytesExceed
  | ByteLengthMismatch
  | Sha256Mismatch

type_synonym 'a outcome = "store_error + 'a"

fun normalizeBytes :: "store_value \<Rightarrow> byte list outcome" where
  "normalizeBytes (VBytes b) = Inr b"
| "normalizeBytes _ = Inl InvalidPayload"

section \<open>Batched access\<close>

text \<open>A batch sz of zero never occurs: the constructor insists on a positive one.\<close>

function chunkArray :: "'a list \<Rightarrow> nat \<Rightarrow> 'a list list" where
  "chunkArray arr sz = (if arr = [] \<or> sz = 0 then [] else take sz arr # chunkArray (drop sz arr) sz)"
  by pat_completeness auto
termination by (relation "measure (\<lambda>(arr, sz). length arr)") auto

declare chunkArray.simps [simp del]

definition storage_get_many :: "doc_store \<Rightarrow> store_key list \<Rightarrow> (store_key \<times> store_value) list" where
  "storage_get_many st ks =
     foldl (\<lambda>page k. case st k of Some v \<Rightarrow> AList.update k v page | None \<Rightarrow> page) [] ks"

definition storage_put :: "(store_key \<times> store_value) list \<Rightarrow> doc_store \<Rightarrow> doc_store" where
  "storage_put entries st = foldl (\<lambda>s e. s(fst e \<mapsto> snd e)) st entries"

definition storage_delete :: "store_key list \<Rightarrow> doc_store \<Rightarrow> doc_store" where
  "storage_delete ks st = foldl (\<lambda>s k. s(k := None)) st ks"

definition getManyBatched :: "doc_store \<Rightarrow> store_key list \<Rightarrow> nat \<Rightarrow> (store_key \<times> store_value) list" where
  "getManyBatched st ks maxKeys =
     foldl (\<lambda>merged batch. foldl (\<lambda>m e. AList.update (fst e) (snd e) m) merged (storage_get_many st batch))
       [] (chunkArray ks maxKeys)"

definition putEntriesBatched :: "(store_key \<times> store_value) list \<Rightarrow> nat \<Rightarrow> doc_store \<Rightarrow> doc_store" where
  "putEntriesBatched entries maxKeys st = foldl (\<lambda>s batch. storage_put batch s) st (chunkArray entries maxKeys)"

definition deleteKeysBatched :: "store_key list \<Rightarrow> nat \<Rightarrow> doc_store \<Rightarrow> doc_store" where
  "deleteKeysBatched ks maxKeys st =
     (if ks = [] then st else foldl (\<lambda>s batch. storage_delete batch s) st (chunkArray ks maxKeys))"

section \<open>Writing a payload\<close>

definition MAX_CHUNK_BYTES_PER_PUT :: nat where "MAX_CHUNK_BYTES_PER_PUT = 4 * 1024 * 1024"

record chunk_write_stats =
  cw_chunkCount :: nat
  cw_maxChunkBytes :: nat
  cw_maxBackingBufferBytes :: nat
  cw_maxPutBytes :: nat
  cw_putCount :: nat

definition emptyChunkWriteStats :: chunk_write_stats where
  "emptyChunkWriteStats =
     \<lparr> cw_chunkCount = 0, cw_maxChunkBytes = 0, cw_maxBackingBufferBytes = 0, cw_maxPutBytes = 0, cw_putCount = 0 \<rparr>"

definition combine_two :: "chunk_write_stats \<Rightarrow> chunk_write_stats \<Rightarrow> chunk_write_stats" where
  "combine_two out item =
     \<lparr> cw_chunkCount = cw_chunkCount out + cw_chunkCount item,
       cw_maxChunkBytes = max (cw_maxChunkBytes out) (cw_maxChunkBytes item),
       cw_maxBackingBufferBytes = max (cw_maxBackingBufferBytes out) (cw_maxBackingBufferBytes item),
       cw_maxPutBytes = max (cw_maxPutBytes out) (cw_maxPutBytes item),
       cw_putCount = cw_putCount out + cw_putCount item \<rparr>"

definition combineChunkWriteStats :: "chunk_write_stats list \<Rightarrow> chunk_write_stats" where
  "combineChunkWriteStats items = foldl combine_two emptyChunkWriteStats items"

definition chunk_count :: "nat \<Rightarrow> nat \<Rightarrow> nat" where
  "chunk_count len sz = (if len = 0 then 0 else (len + sz - 1) div sz)"

definition copyChunk :: "byte list \<Rightarrow> nat \<Rightarrow> nat \<Rightarrow> byte list" where
  "copyChunk bytes start endp = drop start (take endp bytes)"

definition chunk_at :: "byte list \<Rightarrow> nat \<Rightarrow> nat \<Rightarrow> byte list" where
  "chunk_at bytes sz i = copyChunk bytes (i * sz) (min (i * sz + sz) (length bytes))"

record put_record =
  pr_next :: nat
  pr_entries :: "(store_key \<times> store_value) list"
  pr_bytes :: nat
  pr_keys :: nat

text \<open>
  The inner loop fills one put: it stops at the last chunk, at the key limit, or before a chunk
  that would exceed the byte limit of a put that already holds one.
\<close>

definition record_full :: "byte list \<Rightarrow> nat \<Rightarrow> nat \<Rightarrow> nat \<Rightarrow> put_record \<Rightarrow> bool" where
  "record_full bytes sz maxKeys chunkCount r \<longleftrightarrow>
     \<not> (pr_next r < chunkCount \<and> pr_keys r < maxKeys)
     \<or> (pr_keys r > 0 \<and> pr_bytes r + length (chunk_at bytes sz (pr_next r)) > MAX_CHUNK_BYTES_PER_PUT)"

definition add_chunk :: "byte list \<Rightarrow> nat \<Rightarrow> (nat \<Rightarrow> store_key) \<Rightarrow> put_record \<Rightarrow> put_record" where
  "add_chunk bytes sz key r =
     (let i = pr_next r; chunk = chunk_at bytes sz i
      in \<lparr> pr_next = Suc i, pr_entries = pr_entries r @ [(key i, VBytes chunk)],
           pr_bytes = pr_bytes r + length chunk, pr_keys = Suc (pr_keys r) \<rparr>)"

function fill_record :: "byte list \<Rightarrow> nat \<Rightarrow> (nat \<Rightarrow> store_key) \<Rightarrow> nat \<Rightarrow> nat \<Rightarrow> put_record \<Rightarrow> put_record" where
  "fill_record bytes sz key maxKeys chunkCount r =
     (if record_full bytes sz maxKeys chunkCount r then r
      else fill_record bytes sz key maxKeys chunkCount (add_chunk bytes sz key r))"
  by pat_completeness auto
termination
  by (relation "measure (\<lambda>(bytes, sz, key, maxKeys, chunkCount, r). chunkCount - pr_next r)")
    (auto simp: record_full_def add_chunk_def Let_def)

declare fill_record.simps [simp del]

lemma fill_record_invariant:
  assumes "P r" "\<And>r. \<not> record_full bytes sz maxKeys n r \<Longrightarrow> P r \<Longrightarrow> P (add_chunk bytes sz key r)"
  shows "P (fill_record bytes sz key maxKeys n r)"
  using assms
  by (induction bytes sz key maxKeys n r rule: fill_record.induct) (subst fill_record.simps, auto)

definition start_record :: "nat \<Rightarrow> put_record" where
  "start_record i = \<lparr> pr_next = i, pr_entries = [], pr_bytes = 0, pr_keys = 0 \<rparr>"

definition note_put :: "put_record \<Rightarrow> chunk_write_stats \<Rightarrow> chunk_write_stats" where
  "note_put r s =
     (let sizes = map (\<lambda>e. case snd e of VBytes b \<Rightarrow> length b | _ \<Rightarrow> 0) (pr_entries r)
      in s\<lparr> cw_maxChunkBytes := fold max sizes (cw_maxChunkBytes s),
            cw_maxBackingBufferBytes := fold max sizes (cw_maxBackingBufferBytes s),
            cw_maxPutBytes := max (cw_maxPutBytes s) (pr_bytes r),
            cw_putCount := cw_putCount s + 1 \<rparr>)"

lemma fill_record_progress: "pr_next r \<le> pr_next (fill_record bytes sz key maxKeys n r)"
  by (rule fill_record_invariant [where P = "\<lambda>x. pr_next r \<le> pr_next x"]) (simp_all add: add_chunk_def Let_def)

lemma fill_record_starts:
  assumes "i < n" "0 < maxKeys"
  shows "i < pr_next (fill_record bytes sz key maxKeys n (start_record i))"
proof -
  have "fill_record bytes sz key maxKeys n (start_record i)
      = fill_record bytes sz key maxKeys n (add_chunk bytes sz key (start_record i))"
    using assms by (subst fill_record.simps) (simp add: record_full_def start_record_def)
  then show ?thesis
    using fill_record_progress [of "add_chunk bytes sz key (start_record i)" bytes sz key maxKeys n]
    by (simp add: add_chunk_def start_record_def Let_def)
qed

function put_chunks_from ::
  "byte list \<Rightarrow> nat \<Rightarrow> (nat \<Rightarrow> store_key) \<Rightarrow> nat \<Rightarrow> nat \<Rightarrow> nat \<Rightarrow> chunk_write_stats \<times> doc_store
   \<Rightarrow> chunk_write_stats \<times> doc_store" where
  "put_chunks_from bytes sz key maxKeys chunkCount i acc =
     (if i < chunkCount \<and> 0 < maxKeys then
        let r = fill_record bytes sz key maxKeys chunkCount (start_record i)
        in put_chunks_from bytes sz key maxKeys chunkCount (pr_next r)
             (note_put r (fst acc), storage_put (pr_entries r) (snd acc))
      else acc)"
  by pat_completeness auto
termination
  by (relation "measure (\<lambda>(bytes, sz, key, maxKeys, chunkCount, i, acc). chunkCount - i)")
    (auto intro: diff_less_mono2 fill_record_starts)

declare put_chunks_from.simps [simp del]

definition putChunkedPayloadBatched ::
  "byte list \<Rightarrow> nat \<Rightarrow> (nat \<Rightarrow> store_key) \<Rightarrow> nat \<Rightarrow> doc_store \<Rightarrow> chunk_write_stats \<times> doc_store" where
  "putChunkedPayloadBatched bytes sz key maxKeys st =
     (let chunkCount = chunk_count (length bytes) sz;
          stats = emptyChunkWriteStats\<lparr> cw_chunkCount := chunkCount \<rparr>
      in if chunkCount = 0 then (stats, st)
         else put_chunks_from bytes sz key maxKeys chunkCount 0 (stats, st))"

section \<open>Reading a payload\<close>

definition bytesToHex :: "byte list \<Rightarrow> jsstr" where
  "bytesToHex bytes = concat (map (\<lambda>b. padStart 2 48 (digits_of 16 (unat b))) bytes)"

definition sha256Hex :: "(byte list \<Rightarrow> byte list) \<Rightarrow> byte list \<Rightarrow> jsstr" where
  "sha256Hex digest bytes = bytesToHex (digest bytes)"

fun read_chunks ::
  "(store_key \<times> store_value) list \<Rightarrow> 'a chunk_descriptor_scheme \<Rightarrow> (nat \<Rightarrow> store_key) \<Rightarrow> nat \<Rightarrow> nat \<Rightarrow> byte list
   \<Rightarrow> byte list outcome" where
  "read_chunks chunks d key i 0 acc = Inr acc"
| "read_chunks chunks d key i (Suc left) acc =
     (case map_of chunks (key i) of
        None \<Rightarrow> Inl ChunkMissing
      | Some raw \<Rightarrow>
          (case normalizeBytes raw of
             Inl e \<Rightarrow> Inl e
           | Inr b \<Rightarrow>
               if left > 0 \<and> int (length b) \<noteq> cd_chunkSizeBytes d then Inl ChunkLengthInvalid
               else if left = 0 \<and> int (length b) > cd_chunkSizeBytes d then Inl ChunkLengthInvalid
               else if int (length acc + length b) > cd_byteLength d then Inl ChunkBytesExceed
               else read_chunks chunks d key (Suc i) left (acc @ b)))"

definition readChunkedPayload ::
  "(byte list \<Rightarrow> byte list) \<Rightarrow> doc_store \<Rightarrow> 'a chunk_descriptor_scheme \<Rightarrow> (nat \<Rightarrow> store_key) \<Rightarrow> nat
   \<Rightarrow> byte list outcome" where
  "readChunkedPayload digest st d key maxKeys =
     (let n = nat (cd_chunkCount d);
          chunks = getManyBatched st (map key [0 ..< n]) maxKeys
      in if length chunks \<noteq> n then Inl ChunkCountMismatch
         else case read_chunks chunks d key 0 n [] of
             Inl e \<Rightarrow> Inl e
           | Inr fullUpdate \<Rightarrow>
               if int (length fullUpdate) \<noteq> cd_byteLength d then Inl ByteLengthMismatch
               else if sha256Hex digest fullUpdate \<noteq> cd_sha256 d then Inl Sha256Mismatch
               else Inr fullUpdate)"

section \<open>Keys do not collide\<close>

lemma decimal_no_colon: "58 \<notin> set (digits_of 10 n)" and decimal_no_minus: "45 \<notin> set (digits_of 10 n)"
  using digits_of_chars [of 10 _ n] by fastforce+

lemma int_string_no_colon: "58 \<notin> set (int_string v)"
  by (simp add: int_string_def decimal_no_colon)

lemma int_string_inject: "int_string v = int_string w \<longleftrightarrow> v = w"
proof
  assume eq: "int_string v = int_string w"
  have "v < 0 \<longleftrightarrow> w < 0"
    using eq decimal_no_minus [of "nat v"] decimal_no_minus [of "nat w"]
    by (auto simp: int_string_def split: if_splits) (metis list.set_intros(1))+
  then show "v = w" using eq by (auto simp: int_string_def decimal_inject split: if_splits)
qed simp

lemma split_at_colon:
  assumes "58 \<notin> set a" "58 \<notin> set b" "a @ 58 # x = b @ 58 # (y :: jsstr)"
  shows "a = b \<and> x = y"
proof -
  have "takeWhile (\<lambda>c. c \<noteq> 58) (a @ 58 # x) = a" "takeWhile (\<lambda>c. c \<noteq> 58) (b @ 58 # y) = b"
    using assms(1,2) by (subst takeWhile_append2; force)+
  then have "a = b" using assms(3) by metis
  then show ?thesis using assms(3) by simp
qed

lemma numbered_inject:
  "numbered pre v (Some i) = numbered pre w (Some j) \<longleftrightarrow> v = w \<and> i = j"
  "numbered pre v None = numbered pre w None \<longleftrightarrow> v = w"
  using split_at_colon [OF int_string_no_colon int_string_no_colon, of v "digits_of 10 i" w "digits_of 10 j"]
  by (auto simp: numbered_def int_string_inject decimal_inject)

text \<open>
  No two pieces of the stored document share a storage key, whatever versions, sequence numbers
  and chunk indices they carry.
\<close>

theorem key_string_injective: "key_string k = key_string k' \<longleftrightarrow> k = k'"
proof
  assume "key_string k = key_string k'"
  then show "k = k'"
    by (cases k; cases k') (simp_all add: numbered_inject, simp_all add: numbered_def js_def)
qed simp

section \<open>Batching is invisible\<close>

text \<open>
  What the batched loops rely on of a bulk write: writing a list is writing its parts one after the
  other.  Then the batch size does not matter.
\<close>

locale bulk_writer =
  fixes bulk :: "'e list \<Rightarrow> 's \<Rightarrow> 's"
  assumes bulk_Nil: "bulk [] s = s"
    and bulk_append: "bulk (xs @ ys) s = bulk ys (bulk xs s)"
begin

lemma batches_eq: "0 < n \<Longrightarrow> foldl (\<lambda>s batch. bulk batch s) s (chunkArray xs n) = bulk xs s"
proof (induction xs n arbitrary: s rule: chunkArray.induct)
  case (1 xs n)
  show ?case
  proof (cases "xs = []")
    case True
    then show ?thesis by (simp add: chunkArray.simps bulk_Nil)
  next
    case False
    then have "foldl (\<lambda>s batch. bulk batch s) s (chunkArray xs n) = bulk (drop n xs) (bulk (take n xs) s)"
      using 1 by (subst chunkArray.simps) simp
    also have "\<dots> = bulk xs s" using bulk_append [of "take n xs" "drop n xs"] by simp
    finally show ?thesis .
  qed
qed

end

interpretation putw: bulk_writer storage_put
  by unfold_locales (simp_all add: storage_put_def)

interpretation delw: bulk_writer storage_delete
  by unfold_locales (simp_all add: storage_delete_def)

lemma putEntriesBatched_eq: "0 < n \<Longrightarrow> putEntriesBatched es n st = storage_put es st"
  by (simp add: putEntriesBatched_def putw.batches_eq)

lemma deleteKeysBatched_eq: "0 < n \<Longrightarrow> deleteKeysBatched ks n st = storage_delete ks st"
  by (auto simp: deleteKeysBatched_def delw.batches_eq delw.bulk_Nil)

lemma storage_put_lookup:
  "distinct (map fst es) \<Longrightarrow> storage_put es st k = (case map_of es k of Some v \<Rightarrow> Some v | None \<Rightarrow> st k)"
proof (induction es arbitrary: st)
  case (Cons e es)
  then have "map_of es (fst e) = None" by (simp add: map_of_eq_None_iff)
  then show ?case using Cons by (cases e; cases "map_of es k") (auto simp: storage_put_def)
qed (simp add: storage_put_def)

lemma storage_delete_lookup: "storage_delete ks st k = (if k \<in> set ks then None else st k)"
  by (induction ks arbitrary: st) (auto simp: storage_delete_def)

definition present :: "doc_store \<Rightarrow> store_key list \<Rightarrow> (store_key \<times> store_value) list" where
  "present st ks = map (\<lambda>k. (k, the (st k))) (filter (\<lambda>k. st k \<noteq> None) ks)"

lemma update_fresh: "k \<notin> fst ` set m \<Longrightarrow> AList.update k v m = m @ [(k, v)]"
  by (induction m) auto

lemma get_many_present:
  assumes "distinct ks"
  shows "storage_get_many st ks = present st ks"
proof -
  have "foldl (\<lambda>page k. case st k of Some v \<Rightarrow> AList.update k v page | None \<Rightarrow> page) acc ks = acc @ present st ks"
    if "fst ` set acc \<inter> set ks = {}" for acc
    using assms that
  proof (induction ks arbitrary: acc)
    case (Cons k ks)
    then show ?case by (cases "st k") (auto simp: update_fresh present_def)
  qed (simp add: present_def)
  then show ?thesis by (simp add: storage_get_many_def)
qed

lemma foldl_update_fresh:
  "distinct (map fst es) \<Longrightarrow> fst ` set acc \<inter> fst ` set es = {} \<Longrightarrow>
     foldl (\<lambda>m e. AList.update (fst e) (snd e) m) acc es = acc @ es"
proof (induction es arbitrary: acc)
  case (Cons e es)
  then show ?case using update_fresh [of "fst e" acc "snd e"] by auto
qed simp

lemma present_append: "present st (xs @ ys) = present st xs @ present st ys"
  by (simp add: present_def)

lemma fst_present: "map fst (present st ks) = filter (\<lambda>k. st k \<noteq> None) ks"
  by (simp add: present_def comp_def)

lemma getManyBatched_eq:
  assumes "distinct ks" "0 < n"
  shows "getManyBatched st ks n = present st ks"
proof -
  have "foldl (\<lambda>merged batch. foldl (\<lambda>m e. AList.update (fst e) (snd e) m) merged (storage_get_many st batch))
      acc (chunkArray ks n) = acc @ present st ks"
    if "distinct ks" "fst ` set acc \<inter> set ks = {}" for acc
    using that assms(2)
  proof (induction ks n arbitrary: acc rule: chunkArray.induct)
    case (1 ks n)
    show ?case
    proof (cases "ks = []")
      case True
      then show ?thesis by (simp add: chunkArray.simps present_def)
    next
      case False
      let ?b = "take n ks"
      have d: "distinct ?b" "distinct (drop n ks)" "set ?b \<inter> set (drop n ks) = {}"
        using 1(2) by (simp_all add: set_take_disj_set_drop_if_distinct)
      have sub: "fst ` set (present st ?b) \<subseteq> set ?b" "distinct (map fst (present st ?b))"
        using d(1) fst_present [of st ?b] by (auto simp flip: set_map)
      have page: "foldl (\<lambda>m e. AList.update (fst e) (snd e) m) acc (storage_get_many st ?b) = acc @ present st ?b"
        unfolding get_many_present [OF d(1)] using sub 1(3) set_take_subset [of n ks]
        by (intro foldl_update_fresh) blast+
      have "fst ` set (acc @ present st ?b) \<inter> set (drop n ks) = {}"
        using 1(3) sub(1) d(3) set_drop_subset [of n ks] by auto
      then have "foldl (\<lambda>merged batch. foldl (\<lambda>m e. AList.update (fst e) (snd e) m) merged (storage_get_many st batch))
          acc (chunkArray ks n) = (acc @ present st ?b) @ present st (drop n ks)"
        using False 1(1) [OF _ d(2)] 1(4) by (subst chunkArray.simps) (simp add: page)
      then show ?thesis using present_append [of st ?b "drop n ks"] by simp
    qed
  qed
  from this [OF assms(1), of "[]"] show ?thesis by (simp add: getManyBatched_def)
qed

section \<open>What a payload write leaves\<close>

definition chunk_entries :: "byte list \<Rightarrow> nat \<Rightarrow> (nat \<Rightarrow> store_key) \<Rightarrow> nat \<Rightarrow> nat \<Rightarrow> (store_key \<times> store_value) list" where
  "chunk_entries bytes sz key i n = map (\<lambda>j. (key j, VBytes (chunk_at bytes sz j))) [i ..< n]"

definition record_inv :: "byte list \<Rightarrow> nat \<Rightarrow> (nat \<Rightarrow> store_key) \<Rightarrow> nat \<Rightarrow> nat \<Rightarrow> nat \<Rightarrow> put_record \<Rightarrow> bool" where
  "record_inv bytes sz key maxKeys n i r \<longleftrightarrow>
     i \<le> pr_next r \<and> pr_next r \<le> n \<and> pr_keys r = pr_next r - i \<and> pr_keys r \<le> maxKeys
     \<and> pr_entries r = chunk_entries bytes sz key i (pr_next r)
     \<and> pr_bytes r \<le> max MAX_CHUNK_BYTES_PER_PUT sz"

lemma length_chunk_at: "length (chunk_at bytes sz i) \<le> sz"
  by (simp add: chunk_at_def copyChunk_def)

lemma add_chunk_inv:
  assumes "\<not> record_full bytes sz maxKeys n r" "record_inv bytes sz key maxKeys n i r"
    "pr_keys r = 0 \<Longrightarrow> pr_bytes r = 0"
  shows "record_inv bytes sz key maxKeys n i (add_chunk bytes sz key r)"
  using assms length_chunk_at [of bytes sz "pr_next r"]
  by (auto simp: record_inv_def record_full_def add_chunk_def Let_def chunk_entries_def max_def)

lemma fill_record_inv:
  assumes "i < n"
  shows "record_inv bytes sz key maxKeys n i (fill_record bytes sz key maxKeys n (start_record i))"
proof -
  let ?P = "\<lambda>r. record_inv bytes sz key maxKeys n i r \<and> (pr_keys r = 0 \<longrightarrow> pr_bytes r = 0)"
  have "?P (fill_record bytes sz key maxKeys n (start_record i))"
  proof (rule fill_record_invariant [where P = ?P])
    show "?P (start_record i)"
      using assms by (simp add: record_inv_def start_record_def chunk_entries_def)
    show "?P (add_chunk bytes sz key r)" if "\<not> record_full bytes sz maxKeys n r" "?P r" for r
      using add_chunk_inv [OF that(1)] that(2) by (simp add: add_chunk_def Let_def)
  qed
  then show ?thesis by simp
qed

lemma chunk_entries_append:
  "i \<le> j \<Longrightarrow> j \<le> n \<Longrightarrow> chunk_entries bytes sz key i j @ chunk_entries bytes sz key j n = chunk_entries bytes sz key i n"
  unfolding chunk_entries_def map_append [symmetric] using upt_add_eq_append [of i j "n - j"] by simp

definition stats_ok :: "nat \<Rightarrow> chunk_write_stats \<Rightarrow> bool" where
  "stats_ok sz s \<longleftrightarrow> cw_maxChunkBytes s \<le> sz \<and> cw_maxBackingBufferBytes s \<le> sz
     \<and> cw_maxPutBytes s \<le> max MAX_CHUNK_BYTES_PER_PUT sz"

lemma fold_max_le: "m \<le> b \<Longrightarrow> \<forall>x \<in> set xs. x \<le> b \<Longrightarrow> fold max xs m \<le> (b :: nat)"
  by (induction xs arbitrary: m) auto

lemma note_put_ok:
  assumes "stats_ok sz s" "record_inv bytes sz key maxKeys n i r"
  shows "stats_ok sz (note_put r s) \<and> cw_chunkCount (note_put r s) = cw_chunkCount s"
proof -
  let ?sizes = "map (\<lambda>e. case snd e of VBytes b \<Rightarrow> length b | _ \<Rightarrow> 0) (pr_entries r)"
  have "\<forall>x \<in> set ?sizes. x \<le> sz"
    using assms(2) length_chunk_at by (auto simp: record_inv_def chunk_entries_def)
  then show ?thesis
    using assms by (auto simp: stats_ok_def note_put_def Let_def record_inv_def intro!: fold_max_le)
qed

lemma put_chunks_from_effect:
  "0 < maxKeys \<Longrightarrow> i \<le> n \<Longrightarrow> stats_ok sz (fst acc) \<Longrightarrow>
     snd (put_chunks_from bytes sz key maxKeys n i acc) = storage_put (chunk_entries bytes sz key i n) (snd acc)
     \<and> stats_ok sz (fst (put_chunks_from bytes sz key maxKeys n i acc))
     \<and> cw_chunkCount (fst (put_chunks_from bytes sz key maxKeys n i acc)) = cw_chunkCount (fst acc)"
proof (induction bytes sz key maxKeys n i acc rule: put_chunks_from.induct)
  case (1 bytes sz key maxKeys n i acc)
  show ?case
  proof (cases "i < n")
    case True
    define r where "r = fill_record bytes sz key maxKeys n (start_record i)"
    have inv: "record_inv bytes sz key maxKeys n i r" using fill_record_inv [OF True] by (simp add: r_def)
    have unfold: "put_chunks_from bytes sz key maxKeys n i acc = put_chunks_from bytes sz key maxKeys n (pr_next r)
        (note_put r (fst acc), storage_put (pr_entries r) (snd acc))"
      using True 1(2) by (subst put_chunks_from.simps) (simp add: r_def Let_def)
    have "storage_put (chunk_entries bytes sz key (pr_next r) n) (storage_put (pr_entries r) (snd acc))
        = storage_put (chunk_entries bytes sz key i n) (snd acc)"
      using inv chunk_entries_append [of i "pr_next r" n bytes sz key]
      by (simp add: record_inv_def flip: putw.bulk_append)
    then show ?thesis
      unfolding unfold using 1(1) [OF conjI [OF True 1(2)] r_def] 1(2,4) inv note_put_ok [OF 1(4) inv]
      by (simp add: record_inv_def)
  next
    case False
    then show ?thesis using 1 by (subst put_chunks_from.simps, subst put_chunks_from.simps, subst put_chunks_from.simps)
      (simp add: chunk_entries_def putw.bulk_Nil)
  qed
qed

lemma stats_ok_init: "stats_ok sz (emptyChunkWriteStats\<lparr> cw_chunkCount := n \<rparr>)"
  by (simp add: stats_ok_def emptyChunkWriteStats_def)

lemma putChunked_effect:
  fixes bytes :: "byte list" and sz :: nat and key :: "nat \<Rightarrow> store_key" and st :: doc_store
  assumes "0 < maxKeys"
  defines "r \<equiv> putChunkedPayloadBatched bytes sz key maxKeys st"
  shows "snd r = storage_put (chunk_entries bytes sz key 0 (chunk_count (length bytes) sz)) st"
    and "stats_ok sz (fst r)" and "cw_chunkCount (fst r) = chunk_count (length bytes) sz"
  using put_chunks_from_effect [OF assms(1), of 0 "chunk_count (length bytes) sz" sz
      "(emptyChunkWriteStats\<lparr> cw_chunkCount := chunk_count (length bytes) sz \<rparr>, st)" bytes key] stats_ok_init
  by (auto simp: r_def putChunkedPayloadBatched_def Let_def chunk_entries_def putw.bulk_Nil)

lemma chunk_count_bounds:
  assumes "0 < sz" "0 < len"
  shows "0 < chunk_count len sz" "(chunk_count len sz - 1) * sz < len" "len \<le> chunk_count len sz * sz"
proof -
  let ?n = "chunk_count len sz"
  have "len + sz - 1 = (len - 1) + sz" using assms by simp
  moreover have "((len - 1) + sz) div sz = (len - 1) div sz + 1" using assms(1) by simp
  ultimately have n: "?n = (len - 1) div sz + 1" using assms(2) by (simp only: chunk_count_def) simp
  show "0 < ?n" by (simp add: n)
  have "(len - 1) div sz * sz \<le> len - 1" by simp
  moreover have "(?n - 1) * sz = (len - 1) div sz * sz" by (simp add: n)
  ultimately show "(?n - 1) * sz < len" using assms(2) by linarith
  have "len - 1 < (len - 1) div sz * sz + sz"
    using assms(1) div_mult_mod_eq [of "len - 1" sz] mod_less_divisor [of sz "len - 1"] by linarith
  then show "len \<le> ?n * sz" using assms(2) by (simp add: n algebra_simps)
qed

lemma length_chunk_at_inner:
  "(Suc i) * sz \<le> length bytes \<Longrightarrow> length (chunk_at bytes sz i) = sz"
  by (simp add: chunk_at_def copyChunk_def)

lemma concat_chunks:
  "concat (map (chunk_at bytes sz) [0 ..< n]) = take (n * sz) bytes"
proof (induction n)
  case (Suc n)
  have "take (n * sz) bytes @ drop (n * sz) (take (n * sz + sz) bytes) = take (Suc n * sz) bytes"
    by (metis add.commute append_take_drop_id le_add1 min.absorb1 mult_Suc take_take)
  then show ?case using Suc by (simp add: chunk_at_def copyChunk_def min_def)
qed simp

section \<open>Reading back what was written\<close>

lemma read_chunks_written:
  assumes "0 < sz" "n = chunk_count (length bytes) sz"
    and "\<forall>j < n. map_of chunks (key j) = Some (VBytes (chunk_at bytes sz j))"
    and "cd_chunkSizeBytes d = int sz" "cd_byteLength d = int (length bytes)"
  shows "i + left = n \<Longrightarrow> read_chunks chunks d key i left (take (i * sz) bytes) = Inr (take (n * sz) bytes)"
proof (induction left arbitrary: i)
  case 0
  then show ?case by simp
next
  case (Suc left)
  have i: "i < n" using Suc.prems by simp
  then have "0 < length bytes" using assms(2) by (auto simp: chunk_count_def split: if_splits)
  note bounds = chunk_count_bounds [OF assms(1) this, folded assms(2)]
  let ?c = "chunk_at bytes sz i"
  have next_acc: "take (i * sz) bytes @ ?c = take (Suc i * sz) bytes"
    using concat_chunks [of bytes sz "Suc i"] concat_chunks [of bytes sz i] by simp
  have inner: "length ?c = sz" if "left > 0"
  proof -
    have "Suc i \<le> n - 1" using Suc.prems that by simp
    then have "Suc i * sz \<le> (n - 1) * sz" by (rule mult_le_mono1)
    then show ?thesis using bounds(2) by (intro length_chunk_at_inner) linarith
  qed
  have "length (take (i * sz) bytes) + length ?c \<le> length bytes"
    using arg_cong [OF next_acc, of length] by simp
  then show ?case
    using Suc.IH [of "Suc i"] Suc.prems assms(3-5) i inner next_acc length_chunk_at [of bytes sz i]
    by (auto simp flip: of_nat_add)
qed

lemma present_lookup: "map_of (present st ks) k = (if k \<in> set ks then st k else None)"
  by (induction ks) (auto simp: present_def)

lemma distinct_keys: "inj key \<Longrightarrow> distinct (map key [0 ..< n])"
  by (simp add: distinct_map inj_on_def)

lemma readChunkedPayload_written:
  assumes "0 < sz" "0 < maxKeys" "inj key" "n = chunk_count (length bytes) sz"
    and "\<forall>j < n. st (key j) = Some (VBytes (chunk_at bytes sz j))"
    and "cd_chunkSizeBytes d = int sz" "cd_chunkCount d = int n" "cd_byteLength d = int (length bytes)"
    "cd_sha256 d = sha256Hex digest bytes"
  shows "readChunkedPayload digest st d key maxKeys = Inr bytes"
proof -
  let ?ks = "map key [0 ..< n]"
  have dist: "distinct ?ks" using assms(3) by (rule distinct_keys)
  have get: "getManyBatched st ?ks maxKeys = present st ?ks"
    by (rule getManyBatched_eq [OF dist assms(2)])
  have len: "length (present st ?ks) = n"
    using assms(5) by (simp add: present_def filter_True)
  have look: "\<forall>j < n. map_of (present st ?ks) (key j) = Some (VBytes (chunk_at bytes sz j))"
    using assms(5) by (auto simp: present_lookup)
  have "length bytes \<le> n * sz"
    using chunk_count_bounds(3) [OF assms(1), of "length bytes"] assms(4) by (cases "bytes = []") auto
  then have "read_chunks (present st ?ks) d key 0 n [] = Inr bytes"
    using read_chunks_written [OF assms(1,4) look assms(6,8), of 0 n] by simp
  then show ?thesis using get len assms(7-9) by (simp add: readChunkedPayload_def Let_def)
qed

lemma readChunkedPayload_cong:
  assumes "0 < maxKeys" "inj key" "\<And>j. j < nat (cd_chunkCount d) \<Longrightarrow> st' (key j) = st (key j)"
  shows "readChunkedPayload digest st' d key maxKeys = readChunkedPayload digest st d key maxKeys"
proof -
  let ?ks = "map key [0 ..< nat (cd_chunkCount d)]"
  have dist: "distinct ?ks" using assms(2) by (rule distinct_keys)
  have "present st' ?ks = present st ?ks"
    unfolding present_def using assms(3) by (auto intro!: map_cong filter_cong)
  then show ?thesis
    using getManyBatched_eq [OF dist assms(1)] by (simp add: readChunkedPayload_def)
qed

lemma chunk_entries_distinct: "inj key \<Longrightarrow> distinct (map fst (chunk_entries bytes sz key 0 n))"
  using distinct_keys [of key n] by (simp add: chunk_entries_def comp_def)

lemma chunk_entries_lookup:
  assumes "inj key"
  shows "j < n \<Longrightarrow> map_of (chunk_entries bytes sz key 0 n) (key j) = Some (VBytes (chunk_at bytes sz j))"
    and "k \<notin> key ` {..< n} \<Longrightarrow> map_of (chunk_entries bytes sz key 0 n) k = None"
proof -
  show "map_of (chunk_entries bytes sz key 0 n) (key j) = Some (VBytes (chunk_at bytes sz j))" if "j < n"
    using that chunk_entries_distinct [OF assms, of bytes sz n]
    by (intro map_of_is_SomeI) (auto simp: chunk_entries_def)
  show "map_of (chunk_entries bytes sz key 0 n) k = None" if "k \<notin> key ` {..< n}"
    using that by (auto simp: map_of_eq_None_iff chunk_entries_def)
qed

lemma putChunked_lookup:
  assumes "0 < maxKeys" "inj key"
  shows "j < chunk_count (length bytes) sz \<Longrightarrow>
      snd (putChunkedPayloadBatched bytes sz key maxKeys st) (key j) = Some (VBytes (chunk_at bytes sz j))"
    and "k \<notin> key ` {..< chunk_count (length bytes) sz} \<Longrightarrow>
      snd (putChunkedPayloadBatched bytes sz key maxKeys st) k = st k"
  by (simp_all add: putChunked_effect(1) [OF assms(1)] storage_put_lookup chunk_entries_distinct [OF assms(2)]
      chunk_entries_lookup [OF assms(2)] del: map_of_eq_Some_iff)

text \<open>
  C29: a payload written in chunks is read back exactly.  Whatever the chunk size and the batch size,
  the write touches only the payload's own chunk keys, keeps every single put within four megabytes
  (or one chunk, if that is larger) and every chunk within the chunk size, and reading with the
  matching descriptor returns the bytes.
\<close>

theorem chunked_payload_roundtrip:
  fixes bytes :: "byte list" and key :: "nat \<Rightarrow> store_key" and st :: doc_store
    and digest :: "byte list \<Rightarrow> byte list"
  assumes "0 < sz" "0 < maxKeys" "inj key"
  defines "r \<equiv> putChunkedPayloadBatched bytes sz key maxKeys st"
  defines "d \<equiv> \<lparr> cd_chunkSizeBytes = int sz, cd_chunkCount = int (cw_chunkCount (fst r)),
    cd_byteLength = int (length bytes), cd_sha256 = sha256Hex digest bytes \<rparr>"
  shows "readChunkedPayload digest (snd r) d key maxKeys = Inr bytes
    \<and> (\<forall>k. k \<notin> range key \<longrightarrow> snd r k = st k)
    \<and> cw_maxChunkBytes (fst r) \<le> sz \<and> cw_maxPutBytes (fst r) \<le> max MAX_CHUNK_BYTES_PER_PUT sz"
proof -
  have "readChunkedPayload digest (snd r) d key maxKeys = Inr bytes"
    using assms(1-3) putChunked_lookup(1) [OF assms(2,3)] putChunked_effect(3) [OF assms(2)]
    by (intro readChunkedPayload_written [where n = "chunk_count (length bytes) sz" and sz = sz])
      (simp_all add: r_def d_def)
  moreover have "\<forall>k. k \<notin> range key \<longrightarrow> snd r k = st k"
    using putChunked_lookup(2) [OF assms(2,3)] unfolding r_def by blast
  moreover have "stats_ok sz (fst r)" using putChunked_effect(2) [OF assms(2)] by (simp add: r_def)
  ultimately show ?thesis by (simp add: stats_ok_def)
qed

theorem chunked_payload_roundtrip_witness:
  "readChunkedPayload id (snd (putChunkedPayloadBatched [1, 2, 3] 2 (JournalChunkKey 1) 1 (\<lambda>k. None)))
     \<lparr> cd_chunkSizeBytes = 2, cd_chunkCount = int (cw_chunkCount (fst
         (putChunkedPayloadBatched [1, 2, 3] 2 (JournalChunkKey 1) 1 (\<lambda>k. None)))),
       cd_byteLength = 3, cd_sha256 = sha256Hex id [1, 2, 3] \<rparr> (JournalChunkKey 1) 1 = Inr [1, 2, 3]"
  using chunked_payload_roundtrip [where sz = 2 and maxKeys = 1 and key = "JournalChunkKey 1"
      and bytes = "[1, 2, 3]" and st = "\<lambda>k. None" and digest = id]
  by (simp add: inj_def)

end
