(* ===== verification/DocStore.thy ===== *)
theory DocStore
  imports ChunkedPayload
begin

text \<open>
  The document store of the server, class \<^verbatim>\<open>ChunkedDocStore\<close> of
  \<^verbatim>\<open>src/server/src/chunkedDocStore.ts\<close>: a versioned checkpoint (the whole document and its state
  vector) and a journal of later updates, both in chunks.

  A method that runs in a storage transaction is a function from the store to an error or a new
  store: when it throws, the transaction is rolled back and the store is the old one.  The digest
  and the Yjs functions are parameters; \<open>now\<close> is the ISO time string of the call.  Storage itself is
  the durable object's map (theory \<open>ChunkedPayload\<close>).
\<close>

section \<open>The store\<close>

record store_options =
  os_chunkSizeBytes :: nat
  os_maxKeysPerOperation :: nat

definition DEFAULT_CHUNK_SIZE_BYTES :: int where "DEFAULT_CHUNK_SIZE_BYTES = 512 * 1024"
definition DEFAULT_MAX_KEYS_PER_OPERATION :: int where "DEFAULT_MAX_KEYS_PER_OPERATION = 128"
definition DIRECT_STATE_VECTOR_MAX_BYTES :: nat where "DIRECT_STATE_VECTOR_MAX_BYTES = 1024 * 1024"

definition assertPositiveInteger :: "int \<Rightarrow> nat outcome" where
  "assertPositiveInteger v = (if v \<le> 0 then Inl NotPositiveInteger else Inr (nat v))"

definition newChunkedDocStore :: "int option \<Rightarrow> int option \<Rightarrow> store_options outcome" where
  "newChunkedDocStore chunkSize maxKeys =
     (case assertPositiveInteger (case chunkSize of Some c \<Rightarrow> c | None \<Rightarrow> DEFAULT_CHUNK_SIZE_BYTES) of
        Inl e \<Rightarrow> Inl e
      | Inr c \<Rightarrow>
          (case assertPositiveInteger (case maxKeys of Some k \<Rightarrow> k | None \<Rightarrow> DEFAULT_MAX_KEYS_PER_OPERATION) of
             Inl e \<Rightarrow> Inl e
           | Inr k \<Rightarrow> Inr \<lparr> os_chunkSizeBytes = c, os_maxKeysPerOperation = k \<rparr>))"

definition emptyJournalMeta :: "jsstr \<Rightarrow> journal_meta" where
  "emptyJournalMeta now = \<lparr> jr_nextSeq = 1, jr_entryCount = 0, jr_totalBytes = 0, jr_updatedAt = now \<rparr>"

record journal_stats =
  js_entryCount :: int
  js_totalBytes :: int
  js_nextSeq :: int

definition journalStatsFromMeta :: "journal_meta \<Rightarrow> journal_stats" where
  "journalStatsFromMeta m =
     \<lparr> js_entryCount = jr_entryCount m, js_totalBytes = jr_totalBytes m, js_nextSeq = jr_nextSeq m \<rparr>"

definition readJournalMeta :: "jsstr \<Rightarrow> doc_store \<Rightarrow> journal_meta outcome" where
  "readJournalMeta now st =
     (case st JournalMetaKey of
        None \<Rightarrow> Inr (emptyJournalMeta now)
      | Some v \<Rightarrow>
          (case v of
             VJournalMeta m \<Rightarrow> if isJournalMeta v then Inr m else Inl JournalMetaInvalid
           | _ \<Rightarrow> Inl JournalMetaInvalid))"

definition expectedJournalSeqs :: "journal_meta \<Rightarrow> int list outcome" where
  "expectedJournalSeqs m =
     (let firstSeq = jr_nextSeq m - jr_entryCount m
      in if firstSeq < 1 then Inl JournalInconsistent else Inr [firstSeq .. jr_nextSeq m - 1])"

section \<open>Loading\<close>

definition hasCheckpoint :: "doc_store \<Rightarrow> bool" where
  "hasCheckpoint st = (case st CheckpointPointer of None \<Rightarrow> False | Some v \<Rightarrow> isManifestPointer v)"

definition load_state_vector ::
  "(byte list \<Rightarrow> byte list) \<Rightarrow> store_options \<Rightarrow> doc_store \<Rightarrow> checkpoint_manifest \<Rightarrow> byte list outcome" where
  "load_state_vector digest opts st m =
     (if cm_stateVectorChunked m = Some True then
        (case st (CheckpointStateVectorDescriptorKey (cm_version m)) of
           Some (VStateVectorDescriptor d) \<Rightarrow>
             if \<not> isStateVectorDescriptor (Some (VStateVectorDescriptor d)) then Inl DescriptorInvalid
             else if cd_byteLength d \<noteq> cm_stateVectorByteLength m then Inl DescriptorMismatch
             else if cd_sha256 d \<noteq> cm_stateVectorSha256 m then Inl DescriptorMismatch
             else readChunkedPayload digest st d (CheckpointStateVectorChunkKey (cm_version m)) (os_maxKeysPerOperation opts)
         | _ \<Rightarrow> Inl DescriptorInvalid)
      else
        (case st (CheckpointStateVectorKey (cm_version m)) of
           None \<Rightarrow> Inl StateVectorMissing
         | Some raw \<Rightarrow> normalizeBytes raw))"

definition loadCheckpoint ::
  "(byte list \<Rightarrow> byte list) \<Rightarrow> store_options \<Rightarrow> doc_store \<Rightarrow> (byte list \<times> byte list) option outcome" where
  "loadCheckpoint digest opts st =
     (case st CheckpointPointer of
        None \<Rightarrow> Inr None
      | Some ptr \<Rightarrow>
          if \<not> isManifestPointer ptr then Inl PointerInvalid
          else
            let version = the (value_version ptr) in
            (case st (CheckpointManifestKey version) of
               Some (VManifest m) \<Rightarrow>
                 if \<not> isChunkedManifest (Some (VManifest m)) then Inl ManifestInvalid
                 else if cm_version m \<noteq> version then Inl VersionMismatch
                 else
                   (case readChunkedPayload digest st m (CheckpointChunkKey (cm_version m)) (os_maxKeysPerOperation opts) of
                      Inl e \<Rightarrow> Inl e
                    | Inr update \<Rightarrow>
                        (case load_state_vector digest opts st m of
                           Inl e \<Rightarrow> Inl e
                         | Inr sv \<Rightarrow>
                             if int (length sv) \<noteq> cm_stateVectorByteLength m then Inl StateVectorMismatch
                             else if sha256Hex digest sv \<noteq> cm_stateVectorSha256 m then Inl StateVectorMismatch
                             else Inr (Some (update, sv))))
             | _ \<Rightarrow> Inl ManifestInvalid))"

definition load_entry ::
  "(byte list \<Rightarrow> byte list) \<Rightarrow> store_options \<Rightarrow> doc_store \<Rightarrow> store_value option \<Rightarrow> int \<Rightarrow> byte list outcome" where
  "load_entry digest opts st raw seq =
     (case raw of
        Some (VJournalEntry m) \<Rightarrow>
          if \<not> isJournalEntryManifest (Some (VJournalEntry m)) \<or> jm_seq m \<noteq> seq then Inl JournalManifestInvalid
          else readChunkedPayload digest st m (JournalChunkKey seq) (os_maxKeysPerOperation opts)
      | _ \<Rightarrow> Inl JournalManifestInvalid)"

fun load_entries ::
  "(byte list \<Rightarrow> byte list) \<Rightarrow> store_options \<Rightarrow> doc_store \<Rightarrow> (store_key \<times> store_value) list \<Rightarrow> int list
   \<Rightarrow> byte list list outcome" where
  "load_entries digest opts st manifests [] = Inr []"
| "load_entries digest opts st manifests (seq # seqs) =
     (case load_entry digest opts st (map_of manifests (JournalManifestKey seq)) seq of
        Inl e \<Rightarrow> Inl e
      | Inr entry \<Rightarrow>
          (case load_entries digest opts st manifests seqs of
             Inl e \<Rightarrow> Inl e
           | Inr entries \<Rightarrow> Inr (entry # entries)))"

definition loadJournal ::
  "(byte list \<Rightarrow> byte list) \<Rightarrow> store_options \<Rightarrow> jsstr \<Rightarrow> doc_store \<Rightarrow> (journal_meta \<times> byte list list) outcome" where
  "loadJournal digest opts now st =
     (case readJournalMeta now st of
        Inl e \<Rightarrow> Inl e
      | Inr meta \<Rightarrow>
          if jr_entryCount meta = 0 then
            (if jr_totalBytes meta \<noteq> 0 then Inl JournalInconsistent else Inr (meta, []))
          else
            (case expectedJournalSeqs meta of
               Inl e \<Rightarrow> Inl e
             | Inr seqs \<Rightarrow>
                 let manifestKeys = map JournalManifestKey seqs;
                     manifestMap = getManyBatched st manifestKeys (os_maxKeysPerOperation opts)
                 in if length manifestMap \<noteq> length manifestKeys then Inl ChunkCountMismatch
                    else
                      (case load_entries digest opts st manifestMap seqs of
                         Inl e \<Rightarrow> Inl e
                       | Inr entries \<Rightarrow>
                           if int (sum_list (map length entries)) \<noteq> jr_totalBytes meta then Inl ByteLengthMismatch
                           else Inr (meta, entries))))"

record loaded_doc_state =
  ld_checkpoint :: "byte list option"
  ld_checkpointStateVector :: "byte list option"
  ld_journalUpdates :: "byte list list"
  ld_journalStats :: journal_stats

definition loadState ::
  "(byte list \<Rightarrow> byte list) \<Rightarrow> store_options \<Rightarrow> jsstr \<Rightarrow> doc_store \<Rightarrow> loaded_doc_state outcome" where
  "loadState digest opts now st =
     (case loadCheckpoint digest opts st of
        Inl e \<Rightarrow> Inl e
      | Inr checkpoint \<Rightarrow>
          (case loadJournal digest opts now st of
             Inl e \<Rightarrow> Inl e
           | Inr (meta, entries) \<Rightarrow>
               Inr \<lparr> ld_checkpoint = map_option fst checkpoint,
                     ld_checkpointStateVector = map_option snd checkpoint,
                     ld_journalUpdates = entries, ld_journalStats = journalStatsFromMeta meta \<rparr>))"

definition getJournalStats :: "jsstr \<Rightarrow> doc_store \<Rightarrow> journal_stats outcome" where
  "getJournalStats now st =
     (case readJournalMeta now st of Inl e \<Rightarrow> Inl e | Inr m \<Rightarrow> Inr (journalStatsFromMeta m))"

section \<open>Writing\<close>

definition append_entry ::
  "(byte list \<Rightarrow> byte list) \<Rightarrow> store_options \<Rightarrow> jsstr \<Rightarrow> byte list \<Rightarrow> journal_meta \<Rightarrow> doc_store
   \<Rightarrow> chunk_write_stats \<times> doc_store" where
  "append_entry digest opts now bytes meta st =
     (let seq = jr_nextSeq meta;
          (writeStats, st1) = putChunkedPayloadBatched bytes (os_chunkSizeBytes opts) (JournalChunkKey seq)
            (os_maxKeysPerOperation opts) st;
          manifest = \<lparr> cd_chunkSizeBytes = int (os_chunkSizeBytes opts), cd_chunkCount = int (cw_chunkCount writeStats),
            cd_byteLength = int (length bytes), cd_sha256 = sha256Hex digest bytes,
            jm_seq = seq, jm_updatedAt = now \<rparr>;
          updatedMeta = \<lparr> jr_nextSeq = seq + 1, jr_entryCount = jr_entryCount meta + 1,
            jr_totalBytes = jr_totalBytes meta + int (length bytes), jr_updatedAt = now \<rparr>
      in (writeStats, putEntriesBatched
            [(JournalManifestKey seq, VJournalEntry manifest), (JournalMetaKey, VJournalMeta updatedMeta)]
            (os_maxKeysPerOperation opts) st1))"

definition appendUpdate ::
  "(byte list \<Rightarrow> byte list) \<Rightarrow> store_options \<Rightarrow> jsstr \<Rightarrow> byte list \<Rightarrow> doc_store
   \<Rightarrow> (journal_stats \<times> chunk_write_stats option \<times> doc_store) outcome" where
  "appendUpdate digest opts now bytes st =
     (case readJournalMeta now st of
        Inl e \<Rightarrow> Inl e
      | Inr meta \<Rightarrow>
          let (writeStats, st') =
            (if bytes = [] then (None, st)
             else let (s, st2) = append_entry digest opts now bytes meta st in (Some s, st2))
          in (case readJournalMeta now st' of
                Inl e \<Rightarrow> Inl e
              | Inr meta' \<Rightarrow> Inr (journalStatsFromMeta meta', writeStats, st')))"

text \<open>The keys of the checkpoint that a rewrite replaces, and its version.\<close>

definition old_checkpoint_keys :: "doc_store \<Rightarrow> (int option \<times> store_key list) outcome" where
  "old_checkpoint_keys st =
     (case st CheckpointPointer of
        None \<Rightarrow> Inr (None, [])
      | Some ptr \<Rightarrow>
          if \<not> isManifestPointer ptr then Inl PointerInvalid
          else
            let version = the (value_version ptr) in
            (case st (CheckpointManifestKey version) of
               Some (VManifest m) \<Rightarrow>
                 if \<not> isChunkedManifest (Some (VManifest m)) then Inl ManifestInvalid
                 else
                   let base = [CheckpointManifestKey version, CheckpointStateVectorKey version];
                       chunks = map (CheckpointChunkKey (cm_version m)) [0 ..< nat (cd_chunkCount m)]
                   in if cm_stateVectorChunked m = Some True then
                        (case st (CheckpointStateVectorDescriptorKey version) of
                           Some (VStateVectorDescriptor d) \<Rightarrow>
                             if \<not> isStateVectorDescriptor (Some (VStateVectorDescriptor d)) then Inl DescriptorInvalid
                             else Inr (Some version, base @ [CheckpointStateVectorDescriptorKey version]
                               @ map (CheckpointStateVectorChunkKey version) [0 ..< nat (cd_chunkCount d)] @ chunks)
                         | _ \<Rightarrow> Inl DescriptorInvalid)
                      else Inr (Some version, base @ chunks)
             | _ \<Rightarrow> Inl ManifestInvalid))"

fun journal_entry_keys :: "(store_key \<times> store_value) list \<Rightarrow> int list \<Rightarrow> store_key list outcome" where
  "journal_entry_keys manifests [] = Inr []"
| "journal_entry_keys manifests (seq # seqs) =
     (case map_of manifests (JournalManifestKey seq) of
        Some (VJournalEntry m) \<Rightarrow>
          if \<not> isJournalEntryManifest (Some (VJournalEntry m)) \<or> jm_seq m \<noteq> seq then Inl JournalManifestInvalid
          else
            (case journal_entry_keys manifests seqs of
               Inl e \<Rightarrow> Inl e
             | Inr ks \<Rightarrow>
                 Inr (JournalManifestKey seq # map (JournalChunkKey seq) [0 ..< nat (cd_chunkCount m)] @ ks))
      | _ \<Rightarrow> Inl JournalManifestInvalid)"

definition old_journal_keys :: "store_options \<Rightarrow> jsstr \<Rightarrow> doc_store \<Rightarrow> store_key list outcome" where
  "old_journal_keys opts now st =
     (case readJournalMeta now st of
        Inl e \<Rightarrow> Inl e
      | Inr meta \<Rightarrow>
          if jr_entryCount meta > 0 then
            (case expectedJournalSeqs meta of
               Inl e \<Rightarrow> Inl e
             | Inr seqs \<Rightarrow>
                 let manifestKeys = map JournalManifestKey seqs;
                     manifestMap = getManyBatched st manifestKeys (os_maxKeysPerOperation opts)
                 in if length manifestMap \<noteq> length manifestKeys then Inl ChunkCountMismatch
                    else journal_entry_keys manifestMap seqs)
          else Inr [])"

text \<open>Writing the new version: the chunks, then the small entries.\<close>

definition write_checkpoint ::
  "(byte list \<Rightarrow> byte list) \<Rightarrow> store_options \<Rightarrow> jsstr \<Rightarrow> int \<Rightarrow> byte list \<Rightarrow> byte list \<Rightarrow> doc_store
   \<Rightarrow> chunk_write_stats \<times> doc_store" where
  "write_checkpoint digest opts now newVersion updateBytes svBytes st =
     (let sz = os_chunkSizeBytes opts; mk = os_maxKeysPerOperation opts;
          chunked = length svBytes > DIRECT_STATE_VECTOR_MAX_BYTES;
          (updateStats, st1) = putChunkedPayloadBatched updateBytes sz (CheckpointChunkKey newVersion) mk st;
          (svStats, st2) =
            (if chunked then putChunkedPayloadBatched svBytes sz (CheckpointStateVectorChunkKey newVersion) mk st1
             else (emptyChunkWriteStats, st1));
          svEntry =
            (if chunked
             then (CheckpointStateVectorDescriptorKey newVersion, VStateVectorDescriptor
                    \<lparr> cd_chunkSizeBytes = int sz, cd_chunkCount = int (cw_chunkCount svStats),
                      cd_byteLength = int (length svBytes), cd_sha256 = sha256Hex digest svBytes,
                      sd_version = newVersion, sd_updatedAt = now \<rparr>)
             else (CheckpointStateVectorKey newVersion, VBytes (copyChunk svBytes 0 (length svBytes))));
          manifest = \<lparr> cd_chunkSizeBytes = int sz, cd_chunkCount = int (cw_chunkCount updateStats),
            cd_byteLength = int (length updateBytes), cd_sha256 = sha256Hex digest updateBytes,
            cm_version = newVersion, cm_stateVectorByteLength = int (length svBytes),
            cm_stateVectorSha256 = sha256Hex digest svBytes, cm_stateVectorChunked = Some chunked, cm_updatedAt = now \<rparr>
      in (combineChunkWriteStats [updateStats, svStats], putEntriesBatched
            [svEntry, (CheckpointManifestKey newVersion, VManifest manifest), (CheckpointPointer, VPointer newVersion),
             (JournalMetaKey, VJournalMeta (emptyJournalMeta now))] mk st2))"

text \<open>The \<^verbatim>\<open>Set\<close> of keys to clean up, in insertion order.\<close>

definition key_set :: "store_key list \<Rightarrow> store_key list" where
  "key_set ks = rev (remdups (rev ks))"

definition rewriteCheckpoint ::
  "(byte list \<Rightarrow> byte list) \<Rightarrow> store_options \<Rightarrow> jsstr \<Rightarrow> byte list \<Rightarrow> byte list \<Rightarrow> doc_store
   \<Rightarrow> (chunk_write_stats \<times> doc_store) outcome" where
  "rewriteCheckpoint digest opts now updateBytes svBytes st =
     (case old_checkpoint_keys st of
        Inl e \<Rightarrow> Inl e
      | Inr (existing, checkpointKeys) \<Rightarrow>
          (case old_journal_keys opts now st of
             Inl e \<Rightarrow> Inl e
           | Inr journalKeys \<Rightarrow>
               let newVersion = (case existing of Some v \<Rightarrow> v + 1 | None \<Rightarrow> 1);
                   (stats, st1) = write_checkpoint digest opts now newVersion updateBytes svBytes st
               in Inr (stats, deleteKeysBatched (key_set (checkpointKeys @ journalKeys)) (os_maxKeysPerOperation opts) st1)))"

section \<open>Whole-document operations\<close>

definition state_updates :: "loaded_doc_state \<Rightarrow> byte list list" where
  "state_updates s = (case ld_checkpoint s of Some c \<Rightarrow> [c] | None \<Rightarrow> []) @ ld_journalUpdates s"

definition merge_all :: "(byte list list \<Rightarrow> byte list) \<Rightarrow> byte list list \<Rightarrow> byte list option" where
  "merge_all mergeUpdates us = (case us of [] \<Rightarrow> None | [u] \<Rightarrow> Some u | _ \<Rightarrow> Some (mergeUpdates us))"

definition loadLatest ::
  "(byte list \<Rightarrow> byte list) \<Rightarrow> (byte list list \<Rightarrow> byte list) \<Rightarrow> store_options \<Rightarrow> jsstr \<Rightarrow> doc_store
   \<Rightarrow> byte list option outcome" where
  "loadLatest digest mergeUpdates opts now st =
     (case loadState digest opts now st of
        Inl e \<Rightarrow> Inl e
      | Inr s \<Rightarrow> Inr (merge_all mergeUpdates (state_updates s)))"

definition saveLatest ::
  "(byte list \<Rightarrow> byte list) \<Rightarrow> (byte list \<Rightarrow> byte list) \<Rightarrow> store_options \<Rightarrow> jsstr \<Rightarrow> byte list \<Rightarrow> doc_store
   \<Rightarrow> (chunk_write_stats \<times> doc_store) outcome" where
  "saveLatest digest docStateVector opts now bytes st =
     rewriteCheckpoint digest opts now bytes (docStateVector bytes) st"

definition compactJournalToCheckpoint ::
  "(byte list \<Rightarrow> byte list) \<Rightarrow> (byte list list \<Rightarrow> byte list) \<Rightarrow> (byte list \<Rightarrow> byte list) \<Rightarrow> byte list
   \<Rightarrow> store_options \<Rightarrow> jsstr \<Rightarrow> doc_store \<Rightarrow> (byte list \<times> journal_stats \<times> doc_store) outcome" where
  "compactJournalToCheckpoint digest mergeUpdates svFromUpdate emptySv opts now st =
     (case loadState digest opts now st of
        Inl e \<Rightarrow> Inl e
      | Inr s \<Rightarrow>
          (case merge_all mergeUpdates (state_updates s) of
             None \<Rightarrow> Inr (emptySv, ld_journalStats s, st)
           | Some merged \<Rightarrow>
               (case rewriteCheckpoint digest opts now merged (svFromUpdate merged) st of
                  Inl e \<Rightarrow> Inl e
                | Inr (stats, st') \<Rightarrow>
                    (case getJournalStats now st' of
                       Inl e \<Rightarrow> Inl e
                     | Inr jst \<Rightarrow> Inr (svFromUpdate merged, jst, st')))))"

section \<open>Digests and keys\<close>

definition sha256_contract :: "(byte list \<Rightarrow> byte list) \<Rightarrow> bool" where
  "sha256_contract digest \<longleftrightarrow> (\<forall>b. length (digest b) = 32)"

definition options_ok :: "store_options \<Rightarrow> bool" where
  "options_ok opts \<longleftrightarrow> 0 < os_chunkSizeBytes opts \<and> 0 < os_maxKeysPerOperation opts"

lemma hex_digit_chars: "c \<in> set (digits_of 16 n) \<Longrightarrow> (48 \<le> c \<and> c \<le> 57) \<or> (97 \<le> c \<and> c \<le> 102)"
proof (induction "16 :: nat" n rule: digits_of.induct)
  case (1 n)
  have d: "(48 \<le> digit_char d \<and> digit_char d \<le> 57) \<or> (97 \<le> digit_char d \<and> digit_char d \<le> 102)" if "d < 16" for d
    using that by (simp add: digit_char_def word_le_nat_alt unat_of_nat del: of_nat_add)
  show ?case
  proof (cases "n < 16")
    case True
    then show ?thesis using 1(2) d [of n] by (simp add: digits_of.simps [of 16 n])
  next
    case False
    then have "c \<in> set (digits_of 16 (n div 16)) \<or> c = digit_char (n mod 16)"
      using 1(2) by (auto simp: digits_of.simps [of 16 n])
    then show ?thesis using 1(1) False d [of "n mod 16"] by auto
  qed
qed

lemma sha256Hex_valid:
  assumes "sha256_contract digest"
  shows "is_sha256_hex (sha256Hex digest b)"
proof -
  have len: "length (padStart 2 48 (digits_of 16 (unat (x :: byte)))) = 2" for x
    using unsigned_less [of x, where ?'a = nat] by (intro length_hex_pad) simp_all
  have "length (bytesToHex bs) = 2 * length bs" for bs
    unfolding bytesToHex_def by (induction bs) (simp_all add: len)
  moreover have "list_all (\<lambda>c. (48 \<le> c \<and> c \<le> 57) \<or> (97 \<le> c \<and> c \<le> 102)) (bytesToHex bs)" for bs
    using hex_digit_chars by (fastforce simp: bytesToHex_def list_all_iff padStart_def)
  ultimately show ?thesis using assms by (simp add: is_sha256_hex_def sha256Hex_def sha256_contract_def)
qed

lemma chunk_keys_inj [simp]:
  "inj (JournalChunkKey s)" "inj (CheckpointChunkKey v)" "inj (CheckpointStateVectorChunkKey v)"
  "inj JournalManifestKey"
  by (simp_all add: inj_def)

lemma newChunkedDocStore_ok: "newChunkedDocStore c k = Inr opts \<Longrightarrow> options_ok opts"
  by (auto simp: newChunkedDocStore_def assertPositiveInteger_def options_ok_def split: sum.splits if_splits)

section \<open>The journal as a list of updates\<close>

definition journal_entry :: "(byte list \<Rightarrow> byte list) \<Rightarrow> store_options \<Rightarrow> doc_store \<Rightarrow> int \<Rightarrow> byte list outcome" where
  "journal_entry digest opts st seq = load_entry digest opts st (st (JournalManifestKey seq)) seq"

lemma both_succeed:
  "(case a of Inl e \<Rightarrow> Inl e | Inr x \<Rightarrow> (case b of Inl e \<Rightarrow> Inl e | Inr xs \<Rightarrow> Inr (x # xs))) = Inr es
     \<longleftrightarrow> (\<exists>x xs. a = Inr x \<and> b = Inr xs \<and> es = x # xs)"
  by (auto split: sum.splits)

lemma load_entries_iff:
  assumes "\<forall>seq \<in> set seqs. map_of manifests (JournalManifestKey seq) = st (JournalManifestKey seq)"
  shows "load_entries digest opts st manifests seqs = Inr es \<longleftrightarrow>
    list_all2 (\<lambda>seq e. journal_entry digest opts st seq = Inr e) seqs es"
  using assms
proof (induction seqs arbitrary: es)
  case (Cons seq seqs)
  have IH: "load_entries digest opts st manifests seqs = Inr xs \<longleftrightarrow>
      list_all2 (\<lambda>seq e. journal_entry digest opts st seq = Inr e) seqs xs" for xs
    using Cons.prems by (intro Cons.IH) simp
  have "map_of manifests (JournalManifestKey seq) = st (JournalManifestKey seq)" using Cons.prems by simp
  then have "load_entries digest opts st manifests (seq # seqs) = Inr es \<longleftrightarrow>
      (\<exists>e rest. journal_entry digest opts st seq = Inr e \<and> load_entries digest opts st manifests seqs = Inr rest
        \<and> es = e # rest)"
    by (simp only: load_entries.simps journal_entry_def both_succeed)
  then show ?case by (auto simp: IH list_all2_Cons1)
qed auto

lemma journal_entry_present: "journal_entry digest opts st seq = Inr e \<Longrightarrow> st (JournalManifestKey seq) \<noteq> None"
  by (cases "st (JournalManifestKey seq)") (simp_all add: journal_entry_def load_entry_def)

lemma manifests_present:
  assumes "list_all2 (\<lambda>seq e. journal_entry digest opts st seq = Inr e) seqs es"
  shows "\<forall>seq \<in> set seqs. st (JournalManifestKey seq) \<noteq> None"
  using assms
  by (induction rule: list_all2_induct) (auto dest: journal_entry_present)

definition journal_holds ::
  "(byte list \<Rightarrow> byte list) \<Rightarrow> store_options \<Rightarrow> doc_store \<Rightarrow> journal_meta \<Rightarrow> byte list list \<Rightarrow> bool" where
  "journal_holds digest opts st meta es \<longleftrightarrow>
     jr_entryCount meta \<ge> 0 \<and> jr_nextSeq meta - jr_entryCount meta \<ge> 1
     \<and> list_all2 (\<lambda>seq e. journal_entry digest opts st seq = Inr e)
         [jr_nextSeq meta - jr_entryCount meta .. jr_nextSeq meta - 1] es
     \<and> int (sum_list (map length es)) = jr_totalBytes meta"

lemma readJournalMeta_valid:
  "readJournalMeta now st = Inr m \<Longrightarrow> now \<noteq> [] \<Longrightarrow> isJournalMeta (VJournalMeta m)"
  by (auto simp: readJournalMeta_def emptyJournalMeta_def split: option.splits store_value.splits if_splits)

lemma loadJournal_iff:
  assumes "options_ok opts" "now \<noteq> []"
  shows "loadJournal digest opts now st = Inr (meta, es) \<longleftrightarrow>
    readJournalMeta now st = Inr meta \<and>
    (if jr_entryCount meta = 0 then jr_totalBytes meta = 0 \<and> es = [] else journal_holds digest opts st meta es)"
proof (cases "readJournalMeta now st")
  case (Inl e)
  then show ?thesis by (simp add: loadJournal_def)
next
  case (Inr m)
  have valid: "jr_entryCount m \<ge> 0" using readJournalMeta_valid [OF Inr assms(2)] by simp
  let ?seqs = "[jr_nextSeq m - jr_entryCount m .. jr_nextSeq m - 1]"
  let ?keys = "map JournalManifestKey ?seqs"
  have get: "getManyBatched st ?keys (os_maxKeysPerOperation opts) = present st ?keys"
    using assms(1) by (intro getManyBatched_eq) (simp_all add: options_ok_def distinct_map inj_on_def)
  have look: "\<forall>seq \<in> set ?seqs. map_of (present st ?keys) (JournalManifestKey seq) = st (JournalManifestKey seq)"
    by (auto simp: present_lookup)
  note entries = load_entries_iff [OF look, of digest opts]
  have full: "length (present st ?keys) = length ?keys"
    if "list_all2 (\<lambda>seq e. journal_entry digest opts st seq = Inr e) ?seqs xs" for xs
    using manifests_present [OF that] by (simp add: present_def filter_True)
  show ?thesis
  proof (cases "jr_entryCount m = 0 \<or> jr_nextSeq m - jr_entryCount m < 1")
    case True
    then show ?thesis
      using Inr by (auto simp: loadJournal_def expectedJournalSeqs_def journal_holds_def split: if_splits)
  next
    case False
    have load: "loadJournal digest opts now st =
      (if length (present st ?keys) \<noteq> length ?keys then Inl ChunkCountMismatch
       else case load_entries digest opts st (present st ?keys) ?seqs of
           Inl e \<Rightarrow> Inl e
         | Inr entries \<Rightarrow> if int (sum_list (map length entries)) \<noteq> jr_totalBytes m then Inl ByteLengthMismatch
             else Inr (m, entries))"
      using Inr False by (simp add: loadJournal_def expectedJournalSeqs_def get Let_def)
    show ?thesis
    proof (cases "load_entries digest opts st (present st ?keys) ?seqs")
      case (Inl e)
      then have "\<not> list_all2 (\<lambda>seq e. journal_entry digest opts st seq = Inr e) ?seqs es"
        using entries by simp
      then show ?thesis using load Inl \<open>readJournalMeta now st = Inr m\<close> False by (auto simp: journal_holds_def)
    next
      case (Inr xs)
      then have all: "list_all2 (\<lambda>seq e. journal_entry digest opts st seq = Inr e) ?seqs ys \<longleftrightarrow> xs = ys" for ys
        using entries [of ys] by simp
      then have "length (present st ?keys) = length ?keys" using full [of xs] by simp
      then have "loadJournal digest opts now st = Inr (meta, es) \<longleftrightarrow>
          int (sum_list (map length xs)) = jr_totalBytes m \<and> m = meta \<and> xs = es"
        using load Inr by simp
      moreover have "journal_holds digest opts st m es \<longleftrightarrow> xs = es \<and> int (sum_list (map length es)) = jr_totalBytes m"
        unfolding journal_holds_def all using False valid by simp
      ultimately show ?thesis using \<open>readJournalMeta now st = Inr m\<close> False by auto
    qed
  qed
qed

lemma journal_entry_cong:
  assumes "options_ok opts" "st' (JournalManifestKey seq) = st (JournalManifestKey seq)"
    and "\<And>j. st' (JournalChunkKey seq j) = st (JournalChunkKey seq j)"
  shows "journal_entry digest opts st' seq = journal_entry digest opts st seq"
  using assms readChunkedPayload_cong [of "os_maxKeysPerOperation opts" "JournalChunkKey seq" _ st' st digest]
  by (auto simp: journal_entry_def load_entry_def options_ok_def split: option.splits store_value.splits)

definition appended_manifest :: "(byte list \<Rightarrow> byte list) \<Rightarrow> store_options \<Rightarrow> jsstr \<Rightarrow> byte list \<Rightarrow> int \<Rightarrow> journal_entry_manifest" where
  "appended_manifest digest opts now bytes seq =
     \<lparr> cd_chunkSizeBytes = int (os_chunkSizeBytes opts),
       cd_chunkCount = int (chunk_count (length bytes) (os_chunkSizeBytes opts)),
       cd_byteLength = int (length bytes), cd_sha256 = sha256Hex digest bytes, jm_seq = seq, jm_updatedAt = now \<rparr>"

definition appended_meta :: "jsstr \<Rightarrow> byte list \<Rightarrow> journal_meta \<Rightarrow> journal_meta" where
  "appended_meta now bytes meta =
     \<lparr> jr_nextSeq = jr_nextSeq meta + 1, jr_entryCount = jr_entryCount meta + 1,
       jr_totalBytes = jr_totalBytes meta + int (length bytes), jr_updatedAt = now \<rparr>"

lemma append_entry_lookup:
  fixes digest now bytes meta st
  assumes "options_ok opts"
  defines "st' \<equiv> snd (append_entry digest opts now bytes meta st)"
  defines "seq \<equiv> jr_nextSeq meta" and "sz \<equiv> os_chunkSizeBytes opts"
  shows "st' JournalMetaKey = Some (VJournalMeta (appended_meta now bytes meta))"
    and "st' (JournalManifestKey seq) = Some (VJournalEntry (appended_manifest digest opts now bytes seq))"
    and "j < chunk_count (length bytes) sz \<Longrightarrow> st' (JournalChunkKey seq j) = Some (VBytes (chunk_at bytes sz j))"
    and "k \<noteq> JournalMetaKey \<Longrightarrow> k \<noteq> JournalManifestKey seq \<Longrightarrow> k \<notin> range (JournalChunkKey seq) \<Longrightarrow> st' k = st k"
proof -
  have mk: "0 < os_maxKeysPerOperation opts" using assms(1) by (simp add: options_ok_def)
  let ?put = "putChunkedPayloadBatched bytes sz (JournalChunkKey seq) (os_maxKeysPerOperation opts) st"
  have st': "st' = storage_put [(JournalManifestKey seq, VJournalEntry (appended_manifest digest opts now bytes seq)),
      (JournalMetaKey, VJournalMeta (appended_meta now bytes meta))] (snd ?put)"
    using putChunked_effect(3) [OF mk, of bytes sz "JournalChunkKey seq" st]
    by (simp add: st'_def append_entry_def case_prod_beta Let_def putEntriesBatched_eq [OF mk] seq_def sz_def
        appended_manifest_def appended_meta_def)
  show "st' JournalMetaKey = Some (VJournalMeta (appended_meta now bytes meta))"
    "st' (JournalManifestKey seq) = Some (VJournalEntry (appended_manifest digest opts now bytes seq))"
    by (simp_all add: st' storage_put_def)
  show "st' (JournalChunkKey seq j) = Some (VBytes (chunk_at bytes sz j))" if "j < chunk_count (length bytes) sz"
    using putChunked_lookup(1) [OF mk chunk_keys_inj(1) that] by (simp add: st' storage_put_def)
  show "st' k = st k" if "k \<noteq> JournalMetaKey" "k \<noteq> JournalManifestKey seq" "k \<notin> range (JournalChunkKey seq)"
  proof -
    have "k \<notin> JournalChunkKey seq ` {..< chunk_count (length bytes) sz}" using that(3) by blast
    then show ?thesis using that(1,2) putChunked_lookup(2) [OF mk chunk_keys_inj(1)]
      by (simp add: st' storage_put_def)
  qed
qed

lemma append_entry_holds:
  assumes "options_ok opts" "sha256_contract digest" "now \<noteq> []"
    and "loadJournal digest opts now st = Inr (meta, es)"
  shows "journal_holds digest opts (snd (append_entry digest opts now bytes meta st))
    (appended_meta now bytes meta) (es @ [bytes])"
proof -
  let ?st' = "snd (append_entry digest opts now bytes meta st)"
  let ?seq = "jr_nextSeq meta" and ?first = "jr_nextSeq meta - jr_entryCount meta"
  note look = append_entry_lookup [OF assms(1), where digest = digest and now = now and bytes = bytes and meta = meta and st = st]
  have valid: "jr_nextSeq meta \<ge> 1" "jr_entryCount meta \<ge> 0"
    and J: "jr_entryCount meta = 0 \<Longrightarrow> jr_totalBytes meta = 0 \<and> es = []"
      "jr_entryCount meta \<noteq> 0 \<Longrightarrow> journal_holds digest opts st meta es"
    using assms(4) readJournalMeta_valid [of now st meta] assms(3)
    unfolding loadJournal_iff [OF assms(1,3)] by auto
  have old: "list_all2 (\<lambda>seq e. journal_entry digest opts st seq = Inr e) [?first .. ?seq - 1] es"
    and sum: "int (sum_list (map length es)) = jr_totalBytes meta" and first: "?first \<ge> 1"
    using J valid by (cases "jr_entryCount meta = 0"; simp add: journal_holds_def)+
  have "journal_entry digest opts ?st' seq = journal_entry digest opts st seq" if "seq \<in> set [?first .. ?seq - 1]" for seq
    using that by (intro journal_entry_cong [OF assms(1)] look(4)) auto
  then have kept: "list_all2 (\<lambda>seq e. journal_entry digest opts ?st' seq = Inr e) [?first .. ?seq - 1] es"
    using list.rel_mono_strong [OF old] by simp
  have "readChunkedPayload digest ?st' (appended_manifest digest opts now bytes ?seq) (JournalChunkKey ?seq)
      (os_maxKeysPerOperation opts) = Inr bytes"
    using assms(1) look(3)
    by (intro readChunkedPayload_written
        [where n = "chunk_count (length bytes) (os_chunkSizeBytes opts)" and sz = "os_chunkSizeBytes opts"])
      (simp_all add: options_ok_def appended_manifest_def)
  then have new: "journal_entry digest opts ?st' ?seq = Inr bytes"
    using look(2) valid assms(1,3) sha256Hex_valid [OF assms(2)]
    by (simp add: journal_entry_def load_entry_def appended_manifest_def valid_descriptor_def options_ok_def)
  have "[?first .. ?seq] = [?first .. ?seq - 1] @ [?seq]" using valid by (simp add: upto_rec2)
  then show ?thesis
    using kept new first valid sum
    by (simp add: journal_holds_def appended_meta_def list_all2_appendI)
qed

lemma appended_meta_valid:
  "isJournalMeta (VJournalMeta meta) \<Longrightarrow> now \<noteq> [] \<Longrightarrow> isJournalMeta (VJournalMeta (appended_meta now bytes meta))"
  by (simp add: appended_meta_def)

lemma appendUpdate_journal:
  assumes "options_ok opts" "sha256_contract digest" "now \<noteq> []" "bytes \<noteq> []"
    and "loadJournal digest opts now st = Inr (meta, es)"
  shows "\<exists>stats st'. appendUpdate digest opts now bytes st =
      Inr (journalStatsFromMeta (appended_meta now bytes meta), Some stats, st')
    \<and> st' = snd (append_entry digest opts now bytes meta st)
    \<and> (\<forall>t. t \<noteq> [] \<longrightarrow> loadJournal digest opts t st' = Inr (appended_meta now bytes meta, es @ [bytes]))"
proof -
  let ?st' = "snd (append_entry digest opts now bytes meta st)" and ?meta = "appended_meta now bytes meta"
  have read: "readJournalMeta now st = Inr meta"
    using assms(5) unfolding loadJournal_iff [OF assms(1,3)] by simp
  have "isJournalMeta (VJournalMeta ?meta)"
    by (rule appended_meta_valid [OF readJournalMeta_valid [OF read assms(3)] assms(3)])
  then have read': "readJournalMeta t ?st' = Inr ?meta" for t
    using append_entry_lookup(1) [OF assms(1), where digest = digest and now = now and bytes = bytes and meta = meta and st = st]
    by (simp add: readJournalMeta_def del: isJournalMeta.simps)
  have "loadJournal digest opts t ?st' = Inr (?meta, es @ [bytes])" if "t \<noteq> []" for t
    using append_entry_holds [OF assms(1,2,3,5), of bytes] read' readJournalMeta_valid [OF read assms(3)]
    by (simp add: loadJournal_iff [OF assms(1) that] appended_meta_def)
  then show ?thesis using read read' assms(4) by (simp add: appendUpdate_def case_prod_beta Let_def)
qed

section \<open>The checkpoint\<close>

text \<open>The version a key belongs to; the pointer and the journal have none.\<close>

fun key_version :: "store_key \<Rightarrow> int option" where
  "key_version (CheckpointManifestKey v) = Some v"
| "key_version (CheckpointChunkKey v _) = Some v"
| "key_version (CheckpointStateVectorKey v) = Some v"
| "key_version (CheckpointStateVectorDescriptorKey v) = Some v"
| "key_version (CheckpointStateVectorChunkKey v _) = Some v"
| "key_version _ = None"

fun journal_key :: "store_key \<Rightarrow> bool" where
  "journal_key (JournalManifestKey _) = True"
| "journal_key (JournalChunkKey _ _) = True"
| "journal_key _ = False"

lemma load_state_vector_cong:
  assumes "options_ok opts" "\<And>k. key_version k = Some (cm_version m) \<Longrightarrow> st' k = st k"
  shows "load_state_vector digest opts st' m = load_state_vector digest opts st m"
proof -
  have "readChunkedPayload digest st' d (CheckpointStateVectorChunkKey (cm_version m)) (os_maxKeysPerOperation opts)
      = readChunkedPayload digest st d (CheckpointStateVectorChunkKey (cm_version m)) (os_maxKeysPerOperation opts)"
    for d :: state_vector_descriptor
    using assms by (intro readChunkedPayload_cong) (simp_all add: options_ok_def)
  then show ?thesis using assms(2) by (simp add: load_state_vector_def split: option.split store_value.split)
qed

lemma loadCheckpoint_cong:
  assumes "options_ok opts" "\<And>k. key_version k \<noteq> None \<or> k = CheckpointPointer \<Longrightarrow> st' k = st k"
  shows "loadCheckpoint digest opts st' = loadCheckpoint digest opts st"
proof -
  have "readChunkedPayload digest st' d (CheckpointChunkKey v) (os_maxKeysPerOperation opts)
      = readChunkedPayload digest st d (CheckpointChunkKey v) (os_maxKeysPerOperation opts)"
    for v and d :: checkpoint_manifest
    using assms by (intro readChunkedPayload_cong) (simp_all add: options_ok_def)
  moreover have "load_state_vector digest opts st' m = load_state_vector digest opts st m" for m
    using assms by (intro load_state_vector_cong) simp_all
  ultimately show ?thesis using assms(2) by (simp add: loadCheckpoint_def Let_def split: option.split store_value.split sum.split)
qed

lemma loadCheckpoint_old_keys:
  assumes "loadCheckpoint digest opts st = Inr c"
  shows "\<exists>ex ks. old_checkpoint_keys st = Inr (ex, ks) \<and> (\<forall>k \<in> set ks. ex \<noteq> None \<and> key_version k = ex)
    \<and> (\<forall>v. ex = Some v \<longrightarrow> 0 < v)"
proof (cases "st CheckpointPointer")
  case None
  then show ?thesis by (simp add: old_checkpoint_keys_def)
next
  case (Some ptr)
  let ?v = "the (value_version ptr)"
  have ptr: "isManifestPointer ptr" using assms Some by (simp add: loadCheckpoint_def split: if_splits)
  then have pos: "0 < ?v" by (auto simp: isManifestPointer_def split: option.splits)
  obtain m where m: "st (CheckpointManifestKey ?v) = Some (VManifest m)"
      "isChunkedManifest (Some (VManifest m))" "cm_version m = ?v"
      "\<exists>sv. load_state_vector digest opts st m = Inr sv"
    using assms Some ptr
    by (auto simp add: loadCheckpoint_def Let_def simp del: isChunkedManifest.simps
        split: option.splits store_value.splits if_splits sum.splits)
  show ?thesis
  proof (cases "cm_stateVectorChunked m = Some True")
    case True
    obtain d where "st (CheckpointStateVectorDescriptorKey ?v) = Some (VStateVectorDescriptor d)"
        "isStateVectorDescriptor (Some (VStateVectorDescriptor d))"
      using m(3,4) True
      by (auto simp add: load_state_vector_def simp del: isStateVectorDescriptor.simps
          split: option.splits store_value.splits if_splits)
    then show ?thesis
      using m(1-3) True Some ptr pos
      by (auto simp add: old_checkpoint_keys_def Let_def
          simp del: isStateVectorDescriptor.simps isChunkedManifest.simps)
  next
    case False
    then show ?thesis
      using m(1-3) Some ptr pos
      by (auto simp add: old_checkpoint_keys_def Let_def simp del: isChunkedManifest.simps)
  qed
qed

lemma journal_entry_manifest:
  assumes "journal_entry digest opts st seq = Inr e"
  shows "\<exists>m. st (JournalManifestKey seq) = Some (VJournalEntry m)
    \<and> isJournalEntryManifest (Some (VJournalEntry m)) \<and> jm_seq m = seq"
  using assms
  by (auto simp add: journal_entry_def load_entry_def simp del: isJournalEntryManifest.simps
      split: option.splits store_value.splits if_splits)

text \<open>The keys that one journal entry occupies.\<close>

definition entry_keys :: "doc_store \<Rightarrow> int \<Rightarrow> store_key set" where
  "entry_keys st seq =
     (case st (JournalManifestKey seq) of
        Some (VJournalEntry m) \<Rightarrow>
          insert (JournalManifestKey seq) (JournalChunkKey seq ` {..< nat (cd_chunkCount m)})
      | _ \<Rightarrow> {})"

lemma journal_entry_keys_ok:
  assumes "list_all2 (\<lambda>seq e. journal_entry digest opts st seq = Inr e) seqs es"
    and "\<forall>seq \<in> set seqs. map_of manifests (JournalManifestKey seq) = st (JournalManifestKey seq)"
  shows "\<exists>ks. journal_entry_keys manifests seqs = Inr ks \<and> set ks = (\<Union>seq \<in> set seqs. entry_keys st seq)"
  using assms
proof (induction rule: list_all2_induct)
  case (Cons seq seqs e es)
  obtain m where "st (JournalManifestKey seq) = Some (VJournalEntry m)"
      "isJournalEntryManifest (Some (VJournalEntry m))" "jm_seq m = seq"
    using journal_entry_manifest [OF Cons.hyps(1)] by blast
  moreover obtain ks where "journal_entry_keys manifests seqs = Inr ks"
      "set ks = (\<Union>seq \<in> set seqs. entry_keys st seq)"
    using Cons by auto
  moreover have "{0 ..< n} = {..< n}" for n :: nat by auto
  ultimately show ?case
    using Cons.prems by (simp add: entry_keys_def del: isJournalEntryManifest.simps)
qed simp

lemma loadJournal_old_keys:
  assumes "options_ok opts" "now \<noteq> []" "loadJournal digest opts now st = Inr (meta, es)"
  shows "\<exists>ks. old_journal_keys opts now st = Inr ks
    \<and> set ks = (\<Union>seq \<in> {jr_nextSeq meta - jr_entryCount meta .. jr_nextSeq meta - 1}. entry_keys st seq)"
proof -
  have read: "readJournalMeta now st = Inr meta"
    and J: "jr_entryCount meta \<noteq> 0 \<Longrightarrow> journal_holds digest opts st meta es"
    using assms(3) unfolding loadJournal_iff [OF assms(1,2)] by auto
  show ?thesis
  proof (cases "jr_entryCount meta > 0")
    case False
    then have "jr_entryCount meta = 0" using readJournalMeta_valid [OF read assms(2)] by simp
    then show ?thesis using read by (simp add: old_journal_keys_def)
  next
    case True
    let ?seqs = "[jr_nextSeq meta - jr_entryCount meta .. jr_nextSeq meta - 1]"
    let ?keys = "map JournalManifestKey ?seqs"
    have all: "list_all2 (\<lambda>seq e. journal_entry digest opts st seq = Inr e) ?seqs es"
      and first: "jr_nextSeq meta - jr_entryCount meta \<ge> 1"
      using J True by (simp_all add: journal_holds_def)
    have get: "getManyBatched st ?keys (os_maxKeysPerOperation opts) = present st ?keys"
      using assms(1) by (intro getManyBatched_eq) (simp_all add: options_ok_def distinct_map inj_on_def)
    have full: "length (present st ?keys) = length ?keys"
      using manifests_present [OF all] by (simp add: present_def filter_True)
    have "\<forall>seq \<in> set ?seqs. map_of (present st ?keys) (JournalManifestKey seq) = st (JournalManifestKey seq)"
      by (auto simp: present_lookup)
    from journal_entry_keys_ok [OF all this] show ?thesis
      using read True first full by (simp add: old_journal_keys_def expectedJournalSeqs_def get)
  qed
qed

lemma entry_keys_journal: "k \<in> entry_keys st seq \<Longrightarrow> journal_key k"
  by (auto simp: entry_keys_def split: option.splits store_value.splits)

definition written_manifest ::
  "(byte list \<Rightarrow> byte list) \<Rightarrow> store_options \<Rightarrow> jsstr \<Rightarrow> int \<Rightarrow> byte list \<Rightarrow> byte list \<Rightarrow> checkpoint_manifest" where
  "written_manifest digest opts now v u sv =
     \<lparr> cd_chunkSizeBytes = int (os_chunkSizeBytes opts),
       cd_chunkCount = int (chunk_count (length u) (os_chunkSizeBytes opts)),
       cd_byteLength = int (length u), cd_sha256 = sha256Hex digest u,
       cm_version = v, cm_stateVectorByteLength = int (length sv), cm_stateVectorSha256 = sha256Hex digest sv,
       cm_stateVectorChunked = Some (length sv > DIRECT_STATE_VECTOR_MAX_BYTES), cm_updatedAt = now \<rparr>"

definition written_descriptor ::
  "(byte list \<Rightarrow> byte list) \<Rightarrow> store_options \<Rightarrow> jsstr \<Rightarrow> int \<Rightarrow> byte list \<Rightarrow> state_vector_descriptor" where
  "written_descriptor digest opts now v sv =
     \<lparr> cd_chunkSizeBytes = int (os_chunkSizeBytes opts),
       cd_chunkCount = int (chunk_count (length sv) (os_chunkSizeBytes opts)),
       cd_byteLength = int (length sv), cd_sha256 = sha256Hex digest sv, sd_version = v, sd_updatedAt = now \<rparr>"

definition written_sv_entry ::
  "(byte list \<Rightarrow> byte list) \<Rightarrow> store_options \<Rightarrow> jsstr \<Rightarrow> int \<Rightarrow> byte list \<Rightarrow> store_key \<times> store_value" where
  "written_sv_entry digest opts now v sv =
     (if length sv > DIRECT_STATE_VECTOR_MAX_BYTES
      then (CheckpointStateVectorDescriptorKey v, VStateVectorDescriptor (written_descriptor digest opts now v sv))
      else (CheckpointStateVectorKey v, VBytes sv))"

lemma write_checkpoint_eq:
  assumes "options_ok opts"
  shows "snd (write_checkpoint digest opts now v u sv st) =
    (let sz = os_chunkSizeBytes opts; mk = os_maxKeysPerOperation opts;
         st1 = snd (putChunkedPayloadBatched u sz (CheckpointChunkKey v) mk st);
         st2 = (if length sv > DIRECT_STATE_VECTOR_MAX_BYTES
                then snd (putChunkedPayloadBatched sv sz (CheckpointStateVectorChunkKey v) mk st1) else st1)
     in st2(fst (written_sv_entry digest opts now v sv) \<mapsto> snd (written_sv_entry digest opts now v sv),
            CheckpointManifestKey v \<mapsto> VManifest (written_manifest digest opts now v u sv),
            CheckpointPointer \<mapsto> VPointer v, JournalMetaKey \<mapsto> VJournalMeta (emptyJournalMeta now)))"
proof -
  have mk: "0 < os_maxKeysPerOperation opts" using assms by (simp add: options_ok_def)
  note cnt = putChunked_effect(3) [OF mk]
  show ?thesis
    by (simp add: write_checkpoint_def Let_def case_prod_beta putEntriesBatched_eq [OF mk] storage_put_def cnt
        written_manifest_def written_descriptor_def written_sv_entry_def copyChunk_def)
qed

lemma write_checkpoint_lookup:
  fixes digest now v u sv st
  assumes "options_ok opts"
  defines "st' \<equiv> snd (write_checkpoint digest opts now v u sv st)"
  shows "st' CheckpointPointer = Some (VPointer v)"
    and "st' JournalMetaKey = Some (VJournalMeta (emptyJournalMeta now))"
    and "st' (CheckpointManifestKey v) = Some (VManifest (written_manifest digest opts now v u sv))"
    and "st' (fst (written_sv_entry digest opts now v sv)) = Some (snd (written_sv_entry digest opts now v sv))"
    and "j < chunk_count (length u) (os_chunkSizeBytes opts) \<Longrightarrow>
      st' (CheckpointChunkKey v j) = Some (VBytes (chunk_at u (os_chunkSizeBytes opts) j))"
    and "length sv > DIRECT_STATE_VECTOR_MAX_BYTES \<Longrightarrow> j < chunk_count (length sv) (os_chunkSizeBytes opts) \<Longrightarrow>
      st' (CheckpointStateVectorChunkKey v j) = Some (VBytes (chunk_at sv (os_chunkSizeBytes opts) j))"
proof -
  have mk: "0 < os_maxKeysPerOperation opts" using assms(1) by (simp add: options_ok_def)
  note eq = write_checkpoint_eq [OF assms(1), of digest now v u sv st, folded st'_def]
  show "st' CheckpointPointer = Some (VPointer v)"
    "st' JournalMetaKey = Some (VJournalMeta (emptyJournalMeta now))"
    "st' (CheckpointManifestKey v) = Some (VManifest (written_manifest digest opts now v u sv))"
    "st' (fst (written_sv_entry digest opts now v sv)) = Some (snd (written_sv_entry digest opts now v sv))"
    by (simp_all add: eq Let_def written_sv_entry_def)
  show "st' (CheckpointChunkKey v j) = Some (VBytes (chunk_at u (os_chunkSizeBytes opts) j))"
    if "j < chunk_count (length u) (os_chunkSizeBytes opts)"
  proof -
    have "CheckpointChunkKey v j \<notin> CheckpointStateVectorChunkKey v ` A" for A by auto
    then show ?thesis
      using putChunked_lookup(1) [OF mk chunk_keys_inj(2) that] putChunked_lookup(2) [OF mk chunk_keys_inj(3)]
      by (simp add: eq Let_def written_sv_entry_def)
  qed
  show "st' (CheckpointStateVectorChunkKey v j) = Some (VBytes (chunk_at sv (os_chunkSizeBytes opts) j))"
    if "length sv > DIRECT_STATE_VECTOR_MAX_BYTES" "j < chunk_count (length sv) (os_chunkSizeBytes opts)"
    using that putChunked_lookup(1) [OF mk chunk_keys_inj(3) that(2)]
    by (simp add: eq Let_def written_sv_entry_def)
qed

lemma written_manifest_valid:
  assumes "options_ok opts" "sha256_contract digest" "now \<noteq> []" "0 < v"
  shows "isChunkedManifest (Some (VManifest (written_manifest digest opts now v u sv)))"
    and "isStateVectorDescriptor (Some (VStateVectorDescriptor (written_descriptor digest opts now v sv)))"
  using assms sha256Hex_valid [OF assms(2)]
  by (simp_all add: written_manifest_def written_descriptor_def valid_descriptor_def options_ok_def)

lemma load_written:
  assumes "options_ok opts" "sha256_contract digest" "now \<noteq> []" "0 < v"
    and "\<And>k. key_version k = Some v \<or> k = CheckpointPointer \<Longrightarrow>
      st' k = snd (write_checkpoint digest opts now v u sv st) k"
  shows "loadCheckpoint digest opts st' = Inr (Some (u, sv))"
proof -
  let ?m = "written_manifest digest opts now v u sv" and ?d = "written_descriptor digest opts now v sv"
  let ?sz = "os_chunkSizeBytes opts"
  note look = write_checkpoint_lookup [OF assms(1), where digest = digest and now = now and v = v and u = u and sv = sv and st = st]
  have chunks: "readChunkedPayload digest st' ?m (CheckpointChunkKey v) (os_maxKeysPerOperation opts) = Inr u"
    using assms(1,5) look(5)
    by (intro readChunkedPayload_written [where n = "chunk_count (length u) ?sz" and sz = ?sz])
      (simp_all add: options_ok_def written_manifest_def)
  have "load_state_vector digest opts st' ?m = Inr sv"
  proof (cases "length sv > DIRECT_STATE_VECTOR_MAX_BYTES")
    case True
    have "readChunkedPayload digest st' ?d (CheckpointStateVectorChunkKey v) (os_maxKeysPerOperation opts) = Inr sv"
      using assms(1,5) look(6) True
      by (intro readChunkedPayload_written [where n = "chunk_count (length sv) ?sz" and sz = ?sz])
        (simp_all add: options_ok_def written_descriptor_def)
    moreover have "st' (CheckpointStateVectorDescriptorKey v) = Some (VStateVectorDescriptor ?d)"
      using look(4) True assms(5) by (simp add: written_sv_entry_def)
    ultimately show ?thesis
      using True written_manifest_valid(2) [OF assms(1-4)]
      by (simp add: load_state_vector_def del: isStateVectorDescriptor.simps)
        (simp add: written_manifest_def written_descriptor_def)
  next
    case False
    then show ?thesis
      using look(4) assms(5) by (simp add: load_state_vector_def written_sv_entry_def written_manifest_def)
  qed
  moreover have "st' CheckpointPointer = Some (VPointer v)" "st' (CheckpointManifestKey v) = Some (VManifest ?m)"
    using look(1,3) assms(5) by simp_all
  ultimately show ?thesis
    using chunks written_manifest_valid(1) [OF assms(1-4), of u sv] assms(4)
    by (simp add: loadCheckpoint_def isManifestPointer_def written_manifest_def)
qed

definition written_keys :: "store_options \<Rightarrow> int \<Rightarrow> byte list \<Rightarrow> byte list \<Rightarrow> store_key list" where
  "written_keys opts v u sv =
     [CheckpointManifestKey v, CheckpointStateVectorKey v]
     @ (if length sv > DIRECT_STATE_VECTOR_MAX_BYTES
        then CheckpointStateVectorDescriptorKey v
          # map (CheckpointStateVectorChunkKey v) [0 ..< chunk_count (length sv) (os_chunkSizeBytes opts)]
        else [])
     @ map (CheckpointChunkKey v) [0 ..< chunk_count (length u) (os_chunkSizeBytes opts)]"

lemma write_checkpoint_frame:
  assumes "options_ok opts" "k \<notin> set (written_keys opts v u sv)" "k \<noteq> CheckpointPointer" "k \<noteq> JournalMetaKey"
  shows "snd (write_checkpoint digest opts now v u sv st) k = st k"
proof -
  have mk: "0 < os_maxKeysPerOperation opts" using assms(1) by (simp add: options_ok_def)
  have 1: "k \<notin> CheckpointChunkKey v ` {..< chunk_count (length u) (os_chunkSizeBytes opts)}"
    using assms(2) by (auto simp: written_keys_def)
  have 2: "k \<notin> CheckpointStateVectorChunkKey v ` {..< chunk_count (length sv) (os_chunkSizeBytes opts)}"
    if "length sv > DIRECT_STATE_VECTOR_MAX_BYTES"
    using assms(2) that by (auto simp: written_keys_def)
  have 3: "k \<noteq> fst (written_sv_entry digest opts now v sv)" "k \<noteq> CheckpointManifestKey v"
    using assms(2) by (auto simp: written_keys_def written_sv_entry_def)
  show ?thesis
    unfolding write_checkpoint_eq [OF assms(1)] Let_def
    using assms(3,4) 3 putChunked_lookup(2) [OF mk chunk_keys_inj(2) 1] putChunked_lookup(2) [OF mk chunk_keys_inj(3) 2]
    by simp
qed

lemma old_keys_written:
  assumes "options_ok opts" "sha256_contract digest" "now \<noteq> []" "0 < v"
    and "\<And>k. key_version k = Some v \<or> k = CheckpointPointer \<Longrightarrow>
      st' k = snd (write_checkpoint digest opts now v u sv st) k"
  shows "old_checkpoint_keys st' = Inr (Some v, written_keys opts v u sv)"
proof -
  note look = write_checkpoint_lookup [OF assms(1), where digest = digest and now = now and v = v and u = u and sv = sv and st = st]
  have "st' CheckpointPointer = Some (VPointer v)"
    "st' (CheckpointManifestKey v) = Some (VManifest (written_manifest digest opts now v u sv))"
    using look(1,3) assms(5) by simp_all
  moreover have "st' (CheckpointStateVectorDescriptorKey v) =
      Some (VStateVectorDescriptor (written_descriptor digest opts now v sv))"
    if "length sv > DIRECT_STATE_VECTOR_MAX_BYTES"
    using look(4) that assms(5) by (simp add: written_sv_entry_def)
  moreover have "cd_chunkCount (written_descriptor digest opts now v sv) = chunk_count (length sv) (os_chunkSizeBytes opts)"
    "cd_chunkCount (written_manifest digest opts now v u sv) = chunk_count (length u) (os_chunkSizeBytes opts)"
    "cm_stateVectorChunked (written_manifest digest opts now v u sv) = Some (length sv > DIRECT_STATE_VECTOR_MAX_BYTES)"
    "cm_version (written_manifest digest opts now v u sv) = v"
    by (simp_all add: written_manifest_def written_descriptor_def)
  ultimately show ?thesis
    using written_manifest_valid [OF assms(1-4)] assms(4)
    by (simp add: old_checkpoint_keys_def isManifestPointer_def written_keys_def Let_def
        del: isChunkedManifest.simps isStateVectorDescriptor.simps)
qed

lemma rewriteCheckpoint_eq:
  assumes "options_ok opts" "now \<noteq> []"
    and "loadCheckpoint digest opts st = Inr c" "loadJournal digest opts now st = Inr (meta, es)"
  shows "\<exists>ex ks js v stats st'. old_checkpoint_keys st = Inr (ex, ks) \<and> old_journal_keys opts now st = Inr js
    \<and> 0 < v \<and> rewriteCheckpoint digest opts now u sv st = Inr (stats, st')
    \<and> (\<forall>k. st' k = (if k \<in> set ks \<union> set js then None else snd (write_checkpoint digest opts now v u sv st) k))
    \<and> (\<forall>k \<in> set ks \<union> set js. key_version k \<noteq> Some v \<and> k \<noteq> CheckpointPointer \<and> k \<noteq> JournalMetaKey)"
proof -
  have mk: "0 < os_maxKeysPerOperation opts" using assms(1) by (simp add: options_ok_def)
  obtain ex ks where ks: "old_checkpoint_keys st = Inr (ex, ks)"
      "\<forall>k \<in> set ks. ex \<noteq> None \<and> key_version k = ex" "\<forall>v. ex = Some v \<longrightarrow> 0 < v"
    using loadCheckpoint_old_keys [OF assms(3)] by (elim exE conjE) (rule that)
  obtain js where js: "old_journal_keys opts now st = Inr js"
      "set js = (\<Union>seq \<in> {jr_nextSeq meta - jr_entryCount meta .. jr_nextSeq meta - 1}. entry_keys st seq)"
    using loadJournal_old_keys [OF assms(1,2,4)] by blast
  define v where "v = (case ex of Some v \<Rightarrow> v + 1 | None \<Rightarrow> 1)"
  have v: "0 < v" "ex \<noteq> Some v" using ks(3) by (auto simp: v_def split: option.splits)
  have keep: "key_version k \<noteq> Some v \<and> k \<noteq> CheckpointPointer \<and> k \<noteq> JournalMetaKey" if "k \<in> set ks \<union> set js" for k
  proof (cases "k \<in> set ks")
    case True
    then show ?thesis using ks(2) v(2) by (cases k) auto
  next
    case False
    then have "journal_key k" using that js(2) entry_keys_journal by auto
    then show ?thesis by (cases k) auto
  qed
  have rewrite: "rewriteCheckpoint digest opts now u sv st =
      Inr (fst (write_checkpoint digest opts now v u sv st),
           storage_delete (key_set (ks @ js)) (snd (write_checkpoint digest opts now v u sv st)))"
    by (simp add: rewriteCheckpoint_def ks(1) js(1) v_def case_prod_beta Let_def deleteKeysBatched_eq [OF mk])
  have look: "storage_delete (key_set (ks @ js)) st1 k = (if k \<in> set ks \<union> set js then None else st1 k)" for st1 k
    by (simp add: storage_delete_lookup key_set_def)
  show ?thesis
    by (intro exI conjI, rule ks(1), rule js(1), rule v(1), rule rewrite, intro allI, rule look, intro ballI, rule keep)
qed

lemma rewriteCheckpoint_loads:
  assumes "options_ok opts" "sha256_contract digest" "now \<noteq> []"
    and "loadCheckpoint digest opts st = Inr c" "loadJournal digest opts now st = Inr (meta, es)"
  shows "\<exists>stats st'. rewriteCheckpoint digest opts now u sv st = Inr (stats, st')
    \<and> loadCheckpoint digest opts st' = Inr (Some (u, sv))
    \<and> (\<forall>t. t \<noteq> [] \<longrightarrow> loadJournal digest opts t st' = Inr (emptyJournalMeta now, []))"
proof -
  obtain ex ks js v stats st' where R: "0 < v" "rewriteCheckpoint digest opts now u sv st = Inr (stats, st')"
      and look: "\<And>k. st' k = (if k \<in> set ks \<union> set js then None else snd (write_checkpoint digest opts now v u sv st) k)"
      and keep: "\<And>k. k \<in> set ks \<union> set js \<Longrightarrow> key_version k \<noteq> Some v \<and> k \<noteq> CheckpointPointer \<and> k \<noteq> JournalMetaKey"
    using rewriteCheckpoint_eq [OF assms(1,3,4,5), of u sv]
    by (elim exE conjE) (rule that, assumption, assumption, erule spec, erule bspec)
  have same: "st' k = snd (write_checkpoint digest opts now v u sv st) k"
    if "key_version k = Some v \<or> k = CheckpointPointer \<or> k = JournalMetaKey" for k
    using that keep [of k] by (auto simp: look)
  have "loadCheckpoint digest opts st' = Inr (Some (u, sv))"
    using same by (intro load_written [OF assms(1,2,3) R(1)]) auto
  moreover have "readJournalMeta t st' = Inr (emptyJournalMeta now)" for t
    using same [of JournalMetaKey] write_checkpoint_lookup(2) [OF assms(1)] assms(3)
    by (simp add: readJournalMeta_def emptyJournalMeta_def)
  ultimately show ?thesis using R(2) by (simp add: loadJournal_def emptyJournalMeta_def)
qed

section \<open>Nothing is left behind\<close>

text \<open>
  Every key of the storage belongs to the checkpoint or to a journal entry that the store still
  refers to: the keys a rewrite would clean up, the pointer and the journal record.
\<close>

definition live_keys :: "store_options \<Rightarrow> jsstr \<Rightarrow> doc_store \<Rightarrow> store_key set" where
  "live_keys opts now st =
     {CheckpointPointer, JournalMetaKey}
     \<union> (case old_checkpoint_keys st of Inr (_, ks) \<Rightarrow> set ks | Inl _ \<Rightarrow> {})
     \<union> (case old_journal_keys opts now st of Inr ks \<Rightarrow> set ks | Inl _ \<Rightarrow> {})"

lemma rewriteCheckpoint_tidy:
  assumes "options_ok opts" "sha256_contract digest" "now \<noteq> []"
    and "loadCheckpoint digest opts st = Inr c" "loadJournal digest opts now st = Inr (meta, es)"
    and "dom st \<subseteq> live_keys opts now st" "rewriteCheckpoint digest opts now u sv st = Inr (stats, st')"
  shows "dom st' \<subseteq> live_keys opts t st'"
proof -
  obtain ex ks js v where K: "old_checkpoint_keys st = Inr (ex, ks)" "old_journal_keys opts now st = Inr js" "0 < v"
      and look: "\<And>k. st' k = (if k \<in> set ks \<union> set js then None else snd (write_checkpoint digest opts now v u sv st) k)"
      and keep: "\<And>k. k \<in> set ks \<union> set js \<Longrightarrow> key_version k \<noteq> Some v \<and> k \<noteq> CheckpointPointer \<and> k \<noteq> JournalMetaKey"
    using rewriteCheckpoint_eq [OF assms(1,3,4,5), of u sv] unfolding assms(7) sum.inject prod.inject
    by (elim exE conjE) (rule that, assumption, assumption, assumption, hypsubst, erule spec, erule bspec)
  have "old_checkpoint_keys st' = Inr (Some v, written_keys opts v u sv)"
    using keep look by (intro old_keys_written [OF assms(1,2,3) K(3)]) auto
  then have live: "live_keys opts t st' \<supseteq> {CheckpointPointer, JournalMetaKey} \<union> set (written_keys opts v u sv)"
    by (auto simp: live_keys_def)
  show ?thesis
  proof
    fix k assume "k \<in> dom st'"
    then have k: "k \<notin> set ks \<union> set js" "snd (write_checkpoint digest opts now v u sv st) k \<noteq> None"
      using look [of k] by (cases "k \<in> set ks \<union> set js"; simp add: domIff)+
    show "k \<in> live_keys opts t st'"
    proof (cases "k \<in> {CheckpointPointer, JournalMetaKey} \<union> set (written_keys opts v u sv)")
      case False
      then have "k \<in> dom st" using k(2) write_checkpoint_frame [OF assms(1), of k v u sv digest now st] by auto
      then have "k \<in> live_keys opts now st" using assms(6) by blast
      then show ?thesis using K(1,2) k(1) False by (simp add: live_keys_def)
    qed (use live in blast)
  qed
qed

lemma old_checkpoint_keys_cong:
  assumes "\<And>k. key_version k \<noteq> None \<or> k = CheckpointPointer \<Longrightarrow> st' k = st k"
  shows "old_checkpoint_keys st' = old_checkpoint_keys st"
  using assms by (simp add: old_checkpoint_keys_def Let_def split: option.split store_value.split)

lemma append_entry_frame:
  assumes "options_ok opts" "k \<noteq> JournalMetaKey" "k \<noteq> JournalManifestKey (jr_nextSeq meta)"
    and "k \<notin> JournalChunkKey (jr_nextSeq meta) ` {..< chunk_count (length bytes) (os_chunkSizeBytes opts)}"
  shows "snd (append_entry digest opts now bytes meta st) k = st k"
proof -
  have mk: "0 < os_maxKeysPerOperation opts" using assms(1) by (simp add: options_ok_def)
  show ?thesis
    using assms(2,3) putChunked_lookup(2) [OF mk chunk_keys_inj(1) assms(4)]
    by (simp add: append_entry_def case_prod_beta Let_def putEntriesBatched_eq [OF mk] storage_put_def)
qed

lemma append_entry_tidy:
  assumes "options_ok opts" "sha256_contract digest" "now \<noteq> []" "t \<noteq> []" "bytes \<noteq> []"
    and "loadJournal digest opts now st = Inr (meta, es)" "dom st \<subseteq> live_keys opts now st"
  defines "st' \<equiv> snd (append_entry digest opts now bytes meta st)"
  shows "dom st' \<subseteq> live_keys opts t st'"
proof -
  let ?seq = "jr_nextSeq meta" and ?first = "jr_nextSeq meta - jr_entryCount meta"
  let ?new = "insert (JournalManifestKey ?seq)
    (JournalChunkKey ?seq ` {..< chunk_count (length bytes) (os_chunkSizeBytes opts)})"
  note look = append_entry_lookup [OF assms(1), where digest = digest and now = now and bytes = bytes and meta = meta
      and st = st, folded st'_def]
  have "loadJournal digest opts t st' = Inr (appended_meta now bytes meta, es @ [bytes])"
    using appendUpdate_journal [OF assms(1-3,5,6)] assms(4) by (auto simp: st'_def)
  from loadJournal_old_keys [OF assms(1,4) this]
  obtain js' where js': "old_journal_keys opts t st' = Inr js'" "set js' = (\<Union>seq \<in> {?first .. ?seq}. entry_keys st' seq)"
    by (auto simp: appended_meta_def)
  obtain js where js: "old_journal_keys opts now st = Inr js" "set js = (\<Union>seq \<in> {?first .. ?seq - 1}. entry_keys st seq)"
    using loadJournal_old_keys [OF assms(1,3,6)] by blast
  have "jr_entryCount meta \<ge> 0"
    using assms(6) readJournalMeta_valid [of now st meta] assms(3) unfolding loadJournal_iff [OF assms(1,3)] by auto
  moreover have "entry_keys st' ?seq = ?new" using look(2) by (simp add: entry_keys_def appended_manifest_def)
  moreover have "entry_keys st' seq = entry_keys st seq" if "seq < ?seq" for seq
  proof -
    have "st' (JournalManifestKey seq) = st (JournalManifestKey seq)" using that by (intro look(4)) auto
    then show ?thesis by (simp add: entry_keys_def)
  qed
  ultimately have sub: "set js \<union> ?new \<subseteq> set js'"
    unfolding js(2) js'(2) by (auto 0 4)
  have cp: "old_checkpoint_keys st' = old_checkpoint_keys st"
    by (rule old_checkpoint_keys_cong, rule look(4)) auto
  show ?thesis
  proof
    fix k assume k: "k \<in> dom st'"
    show "k \<in> live_keys opts t st'"
    proof (cases "k = JournalMetaKey \<or> k \<in> ?new")
      case True
      then show ?thesis using sub js'(1) by (auto simp: live_keys_def)
    next
      case False
      then have "k \<in> dom st" using k append_entry_frame [OF assms(1), of k meta bytes digest now st] by (auto simp: st'_def)
      then have "k \<in> live_keys opts now st" using assms(7) by blast
      then show ?thesis using js(1) js'(1) sub by (auto simp: live_keys_def cp)
    qed
  qed
qed

section \<open>The store as a checkpoint and a list of updates\<close>

text \<open>
  The abstract document: the last checkpoint with its state vector, and the updates since, in
  order.  A client's calls carry the time at which they run.
\<close>

record abstract_doc =
  ad_checkpoint :: "(byte list \<times> byte list) option"
  ad_journal :: "byte list list"

datatype store_call =
    AppendUpdate "byte list"
  | RewriteCheckpoint "byte list" "byte list"
  | CompactJournal

definition doc_updates :: "abstract_doc \<Rightarrow> byte list list" where
  "doc_updates d = (case ad_checkpoint d of Some (u, _) \<Rightarrow> [u] | None \<Rightarrow> []) @ ad_journal d"

fun spec_call ::
  "(byte list list \<Rightarrow> byte list) \<Rightarrow> (byte list \<Rightarrow> byte list) \<Rightarrow> jsstr \<times> store_call \<Rightarrow> abstract_doc \<Rightarrow> abstract_doc" where
  "spec_call mergeUpdates svFromUpdate (_, AppendUpdate u) d =
     (if u = [] then d else d\<lparr> ad_journal := ad_journal d @ [u] \<rparr>)"
| "spec_call mergeUpdates svFromUpdate (_, RewriteCheckpoint u sv) d =
     \<lparr> ad_checkpoint = Some (u, sv), ad_journal = [] \<rparr>"
| "spec_call mergeUpdates svFromUpdate (_, CompactJournal) d =
     (case merge_all mergeUpdates (doc_updates d) of
        None \<Rightarrow> d
      | Some u \<Rightarrow> \<lparr> ad_checkpoint = Some (u, svFromUpdate u), ad_journal = [] \<rparr>)"

fun run_call ::
  "(byte list \<Rightarrow> byte list) \<Rightarrow> (byte list list \<Rightarrow> byte list) \<Rightarrow> (byte list \<Rightarrow> byte list) \<Rightarrow> byte list
   \<Rightarrow> store_options \<Rightarrow> jsstr \<times> store_call \<Rightarrow> doc_store \<Rightarrow> doc_store outcome" where
  "run_call digest mergeUpdates svFromUpdate emptySv opts (now, AppendUpdate u) st =
     (case appendUpdate digest opts now u st of Inl e \<Rightarrow> Inl e | Inr (_, _, st') \<Rightarrow> Inr st')"
| "run_call digest mergeUpdates svFromUpdate emptySv opts (now, RewriteCheckpoint u sv) st =
     (case rewriteCheckpoint digest opts now u sv st of Inl e \<Rightarrow> Inl e | Inr (_, st') \<Rightarrow> Inr st')"
| "run_call digest mergeUpdates svFromUpdate emptySv opts (now, CompactJournal) st =
     (case compactJournalToCheckpoint digest mergeUpdates svFromUpdate emptySv opts now st of
        Inl e \<Rightarrow> Inl e | Inr (_, _, st') \<Rightarrow> Inr st')"

definition store_holds ::
  "(byte list \<Rightarrow> byte list) \<Rightarrow> store_options \<Rightarrow> doc_store \<Rightarrow> abstract_doc \<Rightarrow> bool" where
  "store_holds digest opts st d \<longleftrightarrow>
     options_ok opts \<and> sha256_contract digest
     \<and> loadCheckpoint digest opts st = Inr (ad_checkpoint d)
     \<and> (\<forall>t. t \<noteq> [] \<longrightarrow> (\<exists>meta. loadJournal digest opts t st = Inr (meta, ad_journal d))
          \<and> dom st \<subseteq> live_keys opts t st)"

lemma store_holdsD:
  assumes "store_holds digest opts st d"
  shows "options_ok opts" "sha256_contract digest" "loadCheckpoint digest opts st = Inr (ad_checkpoint d)"
    and "t \<noteq> [] \<Longrightarrow> \<exists>meta. loadJournal digest opts t st = Inr (meta, ad_journal d)"
    and "t \<noteq> [] \<Longrightarrow> dom st \<subseteq> live_keys opts t st"
  using assms by (simp_all add: store_holds_def)

lemma store_holds_empty:
  "options_ok opts \<Longrightarrow> sha256_contract digest \<Longrightarrow>
     store_holds digest opts (\<lambda>_. None) \<lparr> ad_checkpoint = None, ad_journal = [] \<rparr>"
  by (simp add: store_holds_def loadCheckpoint_def loadJournal_def readJournalMeta_def emptyJournalMeta_def)

lemma store_holds_append:
  assumes "store_holds digest opts st d" "now \<noteq> []"
  shows "\<exists>stats ws st'. appendUpdate digest opts now u st = Inr (stats, ws, st')
    \<and> store_holds digest opts st' (if u = [] then d else d\<lparr> ad_journal := ad_journal d @ [u] \<rparr>)"
proof -
  note H = store_holdsD [OF assms(1)]
  obtain meta where J: "loadJournal digest opts now st = Inr (meta, ad_journal d)" using H(4) [OF assms(2)] by blast
  then have read: "readJournalMeta now st = Inr meta" unfolding loadJournal_iff [OF H(1) assms(2)] by simp
  show ?thesis
  proof (cases "u = []")
    case True
    then show ?thesis using read assms(1) by (simp add: appendUpdate_def)
  next
    case False
    obtain stats st' where A: "appendUpdate digest opts now u st =
          Inr (journalStatsFromMeta (appended_meta now u meta), Some stats, st')"
        and st': "st' = snd (append_entry digest opts now u meta st)"
        and load: "\<And>t. t \<noteq> [] \<Longrightarrow> loadJournal digest opts t st' = Inr (appended_meta now u meta, ad_journal d @ [u])"
      using appendUpdate_journal [OF H(1,2) assms(2) False J] by auto
    have "loadCheckpoint digest opts st' = loadCheckpoint digest opts st"
      unfolding st' by (rule loadCheckpoint_cong [OF H(1)], rule append_entry_lookup(4) [OF H(1)]) auto
    moreover have "dom st' \<subseteq> live_keys opts t st'" if "t \<noteq> []" for t
      unfolding st' by (rule append_entry_tidy [OF H(1,2) assms(2) that False J H(5) [OF assms(2)]])
    ultimately have "store_holds digest opts st' (d\<lparr> ad_journal := ad_journal d @ [u] \<rparr>)"
      using H load by (simp add: store_holds_def)
    then show ?thesis using A False by simp
  qed
qed

lemma store_holds_rewrite:
  assumes "store_holds digest opts st d" "now \<noteq> []"
  shows "\<exists>stats st'. rewriteCheckpoint digest opts now u sv st = Inr (stats, st')
    \<and> store_holds digest opts st' \<lparr> ad_checkpoint = Some (u, sv), ad_journal = [] \<rparr>"
proof -
  note H = store_holdsD [OF assms(1)]
  obtain meta where J: "loadJournal digest opts now st = Inr (meta, ad_journal d)" using H(4) [OF assms(2)] by blast
  obtain stats st' where R: "rewriteCheckpoint digest opts now u sv st = Inr (stats, st')"
      "loadCheckpoint digest opts st' = Inr (Some (u, sv))"
      "\<forall>t. t \<noteq> [] \<longrightarrow> loadJournal digest opts t st' = Inr (emptyJournalMeta now, [])"
    using rewriteCheckpoint_loads [OF H(1,2) assms(2) H(3) J] by blast
  have "dom st' \<subseteq> live_keys opts t st'" for t
    by (rule rewriteCheckpoint_tidy [OF H(1,2) assms(2) H(3) J H(5) [OF assms(2)] R(1)])
  then show ?thesis using R H(1,2) by (simp add: store_holds_def)
qed

lemma store_holds_loadState:
  assumes "store_holds digest opts st d" "now \<noteq> []"
  shows "\<exists>s. loadState digest opts now st = Inr s \<and> state_updates s = doc_updates d
    \<and> ld_checkpoint s = map_option fst (ad_checkpoint d)
    \<and> ld_checkpointStateVector s = map_option snd (ad_checkpoint d) \<and> ld_journalUpdates s = ad_journal d"
proof -
  obtain meta where "loadJournal digest opts now st = Inr (meta, ad_journal d)"
    using store_holdsD(4) [OF assms] by blast
  then show ?thesis
    using store_holdsD(3) [OF assms(1)]
    by (cases "ad_checkpoint d") (simp_all add: loadState_def state_updates_def doc_updates_def case_prod_beta)
qed

lemma store_holds_compact:
  assumes "store_holds digest opts st d" "now \<noteq> []"
  shows "\<exists>sv stats st'. compactJournalToCheckpoint digest mergeUpdates svFromUpdate emptySv opts now st = Inr (sv, stats, st')
    \<and> store_holds digest opts st' (spec_call mergeUpdates svFromUpdate (now, CompactJournal) d)"
proof -
  obtain s where s: "loadState digest opts now st = Inr s" "state_updates s = doc_updates d"
    using store_holds_loadState [OF assms] by blast
  show ?thesis
  proof (cases "merge_all mergeUpdates (doc_updates d)")
    case None
    then show ?thesis using s assms(1) by (simp add: compactJournalToCheckpoint_def)
  next
    case (Some u)
    let ?d' = "\<lparr> ad_checkpoint = Some (u, svFromUpdate u), ad_journal = [] \<rparr>"
    obtain stats st' where R: "rewriteCheckpoint digest opts now u (svFromUpdate u) st = Inr (stats, st')"
        "store_holds digest opts st' ?d'"
      using store_holds_rewrite [OF assms] by blast
    obtain meta where "loadJournal digest opts now st' = Inr (meta, [])"
      using store_holdsD(4) [OF R(2) assms(2)] by auto
    then have "readJournalMeta now st' = Inr meta"
      unfolding loadJournal_iff [OF store_holdsD(1) [OF R(2)] assms(2)] by simp
    then show ?thesis
      using s Some R by (simp add: compactJournalToCheckpoint_def getJournalStats_def)
  qed
qed

interpretation store_sim: op_simulation
  "run_call digest mergeUpdates svFromUpdate emptySv opts" "spec_call mergeUpdates svFromUpdate"
  "store_holds digest opts" "\<lambda>c. fst c \<noteq> []"
  for digest mergeUpdates svFromUpdate emptySv opts
proof
  fix st d and c :: "jsstr \<times> store_call"
  assume A: "store_holds digest opts st d" "fst c \<noteq> []"
  obtain now call where c: "c = (now, call)" by fastforce
  then have now: "now \<noteq> []" using A(2) by simp
  show "\<exists>st'. run_call digest mergeUpdates svFromUpdate emptySv opts c st = Inr st'
    \<and> store_holds digest opts st' (spec_call mergeUpdates svFromUpdate c d)"
  proof (cases call)
    case (AppendUpdate u)
    then show ?thesis using store_holds_append [OF A(1) now, of u] c by auto
  next
    case (RewriteCheckpoint u sv)
    then show ?thesis using store_holds_rewrite [OF A(1) now, of u sv] c by auto
  next
    case CompactJournal
    then show ?thesis
      using store_holds_compact [OF A(1) now, of mergeUpdates svFromUpdate emptySv] c
      by (auto simp del: spec_call.simps)
  qed
qed

section \<open>Properties\<close>

text \<open>
  C3: The document store implements its specification.  Starting from empty storage, any sequence
  of \<^verbatim>\<open>appendUpdate\<close>, \<^verbatim>\<open>rewriteCheckpoint\<close> and \<^verbatim>\<open>compactJournalToCheckpoint\<close> calls
  succeeds; a later load returns exactly the checkpoint, the state vector and the updates of the
  abstract document, in order; and storage holds no key that the store no longer refers to.
\<close>

theorem doc_store_refines_spec:
  assumes "options_ok opts" "sha256_contract digest" "list_all (\<lambda>c. fst c \<noteq> []) calls" "now \<noteq> []"
  shows "\<exists>st s. run_seq (run_call digest mergeUpdates svFromUpdate emptySv opts) calls (\<lambda>_. None) = Inr st
    \<and> loadState digest opts now st = Inr s
    \<and> (let d = fold (spec_call mergeUpdates svFromUpdate) calls \<lparr> ad_checkpoint = None, ad_journal = [] \<rparr>
       in ld_checkpoint s = map_option fst (ad_checkpoint d)
          \<and> ld_checkpointStateVector s = map_option snd (ad_checkpoint d)
          \<and> ld_journalUpdates s = ad_journal d)
    \<and> dom st \<subseteq> live_keys opts now st"
proof -
  let ?d = "fold (spec_call mergeUpdates svFromUpdate) calls \<lparr> ad_checkpoint = None, ad_journal = [] \<rparr>"
  obtain st where st: "run_seq (run_call digest mergeUpdates svFromUpdate emptySv opts) calls (\<lambda>_. None) = Inr st"
      "store_holds digest opts st ?d"
    using store_sim.steps [OF store_holds_empty [OF assms(1,2)] assms(3)] by blast
  obtain s where "loadState digest opts now st = Inr s" "ld_checkpoint s = map_option fst (ad_checkpoint ?d)"
      "ld_checkpointStateVector s = map_option snd (ad_checkpoint ?d)" "ld_journalUpdates s = ad_journal ?d"
    using store_holds_loadState [OF st(2) assms(4)] by blast
  then show ?thesis using st(1) store_holdsD(5) [OF st(2) assms(4)] by (simp add: Let_def)
qed

theorem doc_store_refines_spec_witness:
  "\<exists>st s. run_seq (run_call (\<lambda>_. replicate 32 0) concat id [] \<lparr> os_chunkSizeBytes = 2, os_maxKeysPerOperation = 2 \<rparr>)
      [([50], AppendUpdate [1, 2, 3]), ([50], CompactJournal), ([51], AppendUpdate [4])] (\<lambda>_. None) = Inr st
    \<and> loadState (\<lambda>_. replicate 32 0) \<lparr> os_chunkSizeBytes = 2, os_maxKeysPerOperation = 2 \<rparr> [52] st = Inr s
    \<and> ld_checkpoint s = Some [1, 2, 3] \<and> ld_checkpointStateVector s = Some [1, 2, 3] \<and> ld_journalUpdates s = [[4]]
    \<and> dom st \<subseteq> live_keys \<lparr> os_chunkSizeBytes = 2, os_maxKeysPerOperation = 2 \<rparr> [52] st"
  using doc_store_refines_spec [where opts = "\<lparr> os_chunkSizeBytes = 2, os_maxKeysPerOperation = 2 \<rparr>"
      and digest = "\<lambda>_. replicate 32 0" and mergeUpdates = concat and svFromUpdate = id and emptySv = "[]" and now = "[52]"
      and calls = "[([50], AppendUpdate [1, 2, 3]), ([50], CompactJournal), ([51], AppendUpdate [4])]"]
  by (simp add: options_ok_def sha256_contract_def doc_updates_def merge_all_def)

text \<open>
  C25: Compaction does not change the document.  On every store whose checkpoint and journal load,
  \<^verbatim>\<open>compactJournalToCheckpoint\<close> succeeds, the merged update that \<^verbatim>\<open>loadLatest\<close> returns is the
  same before and after, and the journal is empty afterwards.
\<close>

theorem compaction_preserves_document:
  assumes "options_ok opts" "sha256_contract digest" "now \<noteq> []"
    and "loadState digest opts now st = Inr s"
  shows "\<exists>sv stats st'. compactJournalToCheckpoint digest mergeUpdates svFromUpdate emptySv opts now st = Inr (sv, stats, st')
    \<and> loadLatest digest mergeUpdates opts now st' = loadLatest digest mergeUpdates opts now st
    \<and> (\<exists>s'. loadState digest opts now st' = Inr s' \<and> ld_journalUpdates s' = [])"
proof -
  obtain c meta es where L: "loadCheckpoint digest opts st = Inr c" "loadJournal digest opts now st = Inr (meta, es)"
    using assms(4) by (auto simp: loadState_def split: sum.splits prod.splits)
  show ?thesis
  proof (cases "merge_all mergeUpdates (state_updates s)")
    case None
    then have "ld_journalUpdates s = []" by (auto simp: merge_all_def state_updates_def split: list.splits)
    then show ?thesis using None assms(4) by (simp add: compactJournalToCheckpoint_def)
  next
    case (Some u)
    obtain stats st' where R: "rewriteCheckpoint digest opts now u (svFromUpdate u) st = Inr (stats, st')"
        "loadCheckpoint digest opts st' = Inr (Some (u, svFromUpdate u))"
        "loadJournal digest opts now st' = Inr (emptyJournalMeta now, [])"
      using rewriteCheckpoint_loads [OF assms(1-3) L, of u "svFromUpdate u"] assms(3) by blast
    have "readJournalMeta now st' = Inr (emptyJournalMeta now)"
      using R(3) unfolding loadJournal_iff [OF assms(1,3)] by simp
    then show ?thesis
      using Some R assms(4)
      by (simp add: compactJournalToCheckpoint_def getJournalStats_def loadLatest_def loadState_def state_updates_def
          merge_all_def)
  qed
qed

theorem compaction_preserves_document_witness:
  "\<exists>sv stats st'. compactJournalToCheckpoint (\<lambda>_. replicate 32 0) concat id [] \<lparr> os_chunkSizeBytes = 2, os_maxKeysPerOperation = 2 \<rparr>
      [50] (\<lambda>_. None) = Inr (sv, stats, st')
    \<and> loadLatest (\<lambda>_. replicate 32 0) concat \<lparr> os_chunkSizeBytes = 2, os_maxKeysPerOperation = 2 \<rparr> [50] st'
      = loadLatest (\<lambda>_. replicate 32 0) concat \<lparr> os_chunkSizeBytes = 2, os_maxKeysPerOperation = 2 \<rparr> [50] (\<lambda>_. None)
    \<and> (\<exists>s'. loadState (\<lambda>_. replicate 32 0) \<lparr> os_chunkSizeBytes = 2, os_maxKeysPerOperation = 2 \<rparr> [50] st' = Inr s'
        \<and> ld_journalUpdates s' = [])"
  by (rule compaction_preserves_document)
    (simp_all add: options_ok_def sha256_contract_def loadState_def loadCheckpoint_def loadJournal_def readJournalMeta_def
      emptyJournalMeta_def)

text \<open>
  Appending is exact.  If the journal loads as a list of updates, \<^verbatim>\<open>appendUpdate\<close> of a
  non-empty update succeeds, reports the new entry count, byte total and sequence number, the
  journal then loads as the same list with the update at its end, and the checkpoint is untouched.
\<close>

theorem appendUpdate_appends:
  assumes "options_ok opts" "sha256_contract digest" "now \<noteq> []" "u \<noteq> []"
    and "loadJournal digest opts now st = Inr (meta, es)"
  shows "\<exists>ws st' meta'. appendUpdate digest opts now u st =
      Inr (\<lparr> js_entryCount = jr_entryCount meta + 1, js_totalBytes = jr_totalBytes meta + int (length u),
             js_nextSeq = jr_nextSeq meta + 1 \<rparr>, Some ws, st')
    \<and> loadJournal digest opts now st' = Inr (meta', es @ [u])
    \<and> loadCheckpoint digest opts st' = loadCheckpoint digest opts st"
proof -
  obtain ws st' where A: "appendUpdate digest opts now u st =
        Inr (journalStatsFromMeta (appended_meta now u meta), Some ws, st')"
      "st' = snd (append_entry digest opts now u meta st)"
      "loadJournal digest opts now st' = Inr (appended_meta now u meta, es @ [u])"
    using appendUpdate_journal [OF assms] assms(3) by auto
  have "loadCheckpoint digest opts st' = loadCheckpoint digest opts st"
    unfolding A(2) by (rule loadCheckpoint_cong [OF assms(1)], rule append_entry_lookup(4) [OF assms(1)]) auto
  then show ?thesis using A(1,3) by (auto simp: journalStatsFromMeta_def appended_meta_def)
qed

theorem appendUpdate_appends_witness:
  "\<exists>ws st' meta'. appendUpdate (\<lambda>_. replicate 32 0) \<lparr> os_chunkSizeBytes = 2, os_maxKeysPerOperation = 2 \<rparr> [50] [7, 8, 9] (\<lambda>_. None) =
      Inr (\<lparr> js_entryCount = 1, js_totalBytes = 3, js_nextSeq = 2 \<rparr>, Some ws, st')
    \<and> loadJournal (\<lambda>_. replicate 32 0) \<lparr> os_chunkSizeBytes = 2, os_maxKeysPerOperation = 2 \<rparr> [50] st' = Inr (meta', [[7, 8, 9]])
    \<and> loadCheckpoint (\<lambda>_. replicate 32 0) \<lparr> os_chunkSizeBytes = 2, os_maxKeysPerOperation = 2 \<rparr> st'
      = loadCheckpoint (\<lambda>_. replicate 32 0) \<lparr> os_chunkSizeBytes = 2, os_maxKeysPerOperation = 2 \<rparr> (\<lambda>_. None)"
  using appendUpdate_appends [where opts = "\<lparr> os_chunkSizeBytes = 2, os_maxKeysPerOperation = 2 \<rparr>"
      and digest = "\<lambda>_. replicate 32 0" and now = "[50]" and u = "[7, 8, 9]" and st = "\<lambda>_. None" and es = "[]"
      and meta = "emptyJournalMeta [50]"]
  by (simp add: options_ok_def sha256_contract_def loadJournal_def readJournalMeta_def emptyJournalMeta_def)

end
