(* ===== verification/Persistence.thy ===== *)
theory Persistence
  imports DocStore
begin

text \<open>
  The save coordinator of the server, \<^verbatim>\<open>src/server/src/persistenceCoordinator.ts\<close>, over the document
  store of theory \<open>DocStore\<close>.

  The coordinator is a record of the class's fields and of its health report, without the
  durations, the timestamps and the chunk sizes, which nothing reads.  An \<^verbatim>\<open>async\<close> method is cut at
  its awaits: a function for the code up to the first await, and one for the continuation after each
  outcome of the storage call; \<open>save_state\<close> says at which await a save stands.  The promise chain is
  the list of tasks that have not started.  Functions of Yjs are the record \<open>yjs\<close>, a document is the
  set of operations it has integrated.
\<close>

section \<open>Yjs\<close>

record 'op yjs =
  yj_content :: "byte list \<Rightarrow> 'op set"
  yj_encodeStateVector :: "'op set \<Rightarrow> byte list"
  yj_encodeStateAsUpdate :: "'op set \<Rightarrow> byte list option \<Rightarrow> byte list"
  yj_mergeUpdates :: "byte list list \<Rightarrow> byte list"
  yj_encodeStateVectorFromUpdate :: "byte list \<Rightarrow> byte list"

text \<open>
  What the documentation of Yjs promises: an update carries a set of operations, merging updates
  unites them, the full update of a document carries the document, an update against the vector of
  an older document carries at least what is new, and the vector of an update is the vector of a
  document holding it.
\<close>

definition yjs_contract :: "'op yjs \<Rightarrow> bool" where
  "yjs_contract yj \<longleftrightarrow>
     yj_content yj [] = {}
     \<and> (\<forall>us. yj_content yj (yj_mergeUpdates yj us) = (\<Union>u \<in> set us. yj_content yj u))
     \<and> (\<forall>D. yj_content yj (yj_encodeStateAsUpdate yj D None) = D)
     \<and> (\<forall>D D0. D0 \<subseteq> D \<longrightarrow>
          D - D0 \<subseteq> yj_content yj (yj_encodeStateAsUpdate yj D (Some (yj_encodeStateVector yj D0)))
          \<and> yj_content yj (yj_encodeStateAsUpdate yj D (Some (yj_encodeStateVector yj D0))) \<subseteq> D)
     \<and> (\<forall>u. yj_encodeStateVectorFromUpdate yj u = yj_encodeStateVector yj (yj_content yj u))"

section \<open>The coordinator\<close>

definition CHECKPOINT_FALLBACK_AFTER_FAILURES :: nat where "CHECKPOINT_FALLBACK_AFTER_FAILURES = 2"
definition JOURNAL_COMPACT_MAX_ENTRIES :: int where "JOURNAL_COMPACT_MAX_ENTRIES = 50"
definition JOURNAL_COMPACT_MAX_BYTES :: int where "JOURNAL_COMPACT_MAX_BYTES = 1 * 1024 * 1024"

datatype persistence_status = Healthy | Degraded

datatype save_phase =
    EncodeStateVector | SkippedEqualSv | DeltaIncremental | DeltaFallback | SkippedEmptyDelta
  | CheckpointFallbackEncode | CheckpointFallbackWrite | AppendPhase
  | ImmediateFallbackEncode | ImmediateFallbackWrite | CompactionBinary

datatype compaction_reason = EntryCountExceeded | ByteSizeExceeded

record persistence_health =
  ph_status :: persistence_status
  ph_lastSaveError :: "jsstr option"
  ph_successfulSaveCount :: nat
  ph_failedSaveCount :: nat
  ph_consecutiveSaveFailures :: nat
  ph_pendingPersistence :: bool
  ph_queuedSaveCount :: nat
  ph_lastDeltaBytes :: "nat option"
  ph_lastCheckpointUpdateBytes :: "nat option"
  ph_lastStateVectorBytes :: "nat option"
  ph_lastSavePhase :: "save_phase option"
  ph_lastFailurePhase :: "save_phase option"
  ph_lastPersistedStateVectorHash :: "jsstr option"
  ph_journalEntryCount :: "int option"
  ph_journalBytes :: "int option"
  ph_checkpointFallbackCount :: nat
  ph_lastCompactionReason :: "compaction_reason option"
  ph_lastCompactionError :: "jsstr option"

record coordinator =
  pc_pendingUpdates :: "byte list list"
  pc_lastPersistedStateVector :: "byte list option"
  pc_consecutiveSaveFailures :: nat
  pc_checkpointFallbackAfterFailures :: nat
  pc_journalCompactMaxEntries :: int
  pc_journalCompactMaxBytes :: int
  pc_health :: persistence_health

definition newPersistenceCoordinator :: "nat option \<Rightarrow> int option \<Rightarrow> int option \<Rightarrow> coordinator" where
  "newPersistenceCoordinator failures entries bytes =
     \<lparr> pc_pendingUpdates = [], pc_lastPersistedStateVector = None, pc_consecutiveSaveFailures = 0,
       pc_checkpointFallbackAfterFailures =
         (case failures of Some n \<Rightarrow> n | None \<Rightarrow> CHECKPOINT_FALLBACK_AFTER_FAILURES),
       pc_journalCompactMaxEntries = (case entries of Some n \<Rightarrow> n | None \<Rightarrow> JOURNAL_COMPACT_MAX_ENTRIES),
       pc_journalCompactMaxBytes = (case bytes of Some n \<Rightarrow> n | None \<Rightarrow> JOURNAL_COMPACT_MAX_BYTES),
       pc_health = \<lparr> ph_status = Healthy, ph_lastSaveError = None, ph_successfulSaveCount = 0,
         ph_failedSaveCount = 0, ph_consecutiveSaveFailures = 0, ph_pendingPersistence = False,
         ph_queuedSaveCount = 0, ph_lastDeltaBytes = None, ph_lastCheckpointUpdateBytes = None,
         ph_lastStateVectorBytes = None, ph_lastSavePhase = None, ph_lastFailurePhase = None,
         ph_lastPersistedStateVectorHash = None, ph_journalEntryCount = None, ph_journalBytes = None,
         ph_checkpointFallbackCount = 0, ph_lastCompactionReason = None, ph_lastCompactionError = None \<rparr> \<rparr>"

abbreviation on_health :: "(persistence_health \<Rightarrow> persistence_health) \<Rightarrow> coordinator \<Rightarrow> coordinator" where
  "on_health f c \<equiv> c\<lparr> pc_health := f (pc_health c) \<rparr>"

definition sv_hash :: "byte list \<Rightarrow> jsstr" where
  "sv_hash sv = bytesToHex (take 16 sv)"

definition setInitialStateVector :: "byte list \<Rightarrow> coordinator \<Rightarrow> coordinator" where
  "setInitialStateVector sv c =
     on_health (\<lambda>h. h\<lparr> ph_lastPersistedStateVectorHash := Some (sv_hash sv) \<rparr>)
       (c\<lparr> pc_lastPersistedStateVector := Some sv \<rparr>)"

definition recordIncrementalUpdate :: "byte list \<Rightarrow> coordinator \<Rightarrow> coordinator" where
  "recordIncrementalUpdate u c =
     (if u = [] then c
      else on_health (\<lambda>h. h\<lparr> ph_pendingPersistence := True \<rparr>)
        (c\<lparr> pc_pendingUpdates := pc_pendingUpdates c @ [u] \<rparr>))"

definition setPhase :: "save_phase \<Rightarrow> coordinator \<Rightarrow> coordinator" where
  "setPhase p = on_health (\<lambda>h. h\<lparr> ph_lastSavePhase := Some p \<rparr>)"

definition restorePendingUpdates :: "byte list list \<Rightarrow> coordinator \<Rightarrow> coordinator" where
  "restorePendingUpdates us c =
     (if us = [] then c
      else on_health (\<lambda>h. h\<lparr> ph_pendingPersistence := True \<rparr>)
        (c\<lparr> pc_pendingUpdates := us @ pc_pendingUpdates c \<rparr>))"

text \<open>\<^verbatim>\<open>enqueueSave\<close>: the synchronous part, and the \<^verbatim>\<open>finally\<close> block of the task.\<close>

definition enqueueSave_now :: "coordinator \<Rightarrow> coordinator" where
  "enqueueSave_now =
     on_health (\<lambda>h. h\<lparr> ph_queuedSaveCount := ph_queuedSaveCount h + 1, ph_pendingPersistence := True \<rparr>)"

definition enqueueSave_finally :: "coordinator \<Rightarrow> coordinator" where
  "enqueueSave_finally c =
     (let queued = ph_queuedSaveCount (pc_health c) - 1
      in on_health (\<lambda>h. h\<lparr> ph_queuedSaveCount := queued,
           ph_pendingPersistence := queued > 0 \<or> ph_status h = Degraded \<or> pc_pendingUpdates c \<noteq> [] \<rparr>) c)"

section \<open>A save\<close>

datatype save_method = MethodAppend | MethodCheckpointFallback | MethodImmediateFallback | MethodSkipped

record save_result =
  sr_success :: bool
  sr_method :: save_method
  sr_error :: "jsstr option"
  sr_journalStats :: "journal_stats option"

text \<open>
  The awaits of a save: the append; the rewrite of a checkpoint fallback (immediate or not) and the
  reading of the journal statistics after it; and the end, before the \<^verbatim>\<open>finally\<close> block runs.  The
  drained updates are kept, because a failure restores them.
\<close>

datatype save_state =
    AwaitAppend "byte list" "byte list" "byte list list"
  | AwaitRewrite bool "byte list" "byte list" "byte list" "byte list list"
  | AwaitStats bool "byte list list"
  | SaveDone save_result

abbreviation skipped_result :: save_result where
  "skipped_result \<equiv> \<lparr> sr_success = True, sr_method = MethodSkipped, sr_error = None, sr_journalStats = None \<rparr>"

definition begin_fallback ::
  "bool \<Rightarrow> 'op yjs \<Rightarrow> 'op set \<Rightarrow> byte list \<Rightarrow> byte list list \<Rightarrow> coordinator \<Rightarrow> coordinator \<times> save_state" where
  "begin_fallback immediate yj doc delta drained c =
     (let c1 = setPhase (if immediate then ImmediateFallbackEncode else CheckpointFallbackEncode) c;
          checkpointUpdate = yj_encodeStateAsUpdate yj doc None;
          checkpointStateVector = yj_encodeStateVector yj doc;
          c2 = on_health (\<lambda>h. h\<lparr> ph_lastCheckpointUpdateBytes := Some (length checkpointUpdate),
                 ph_lastStateVectorBytes := Some (length checkpointStateVector) \<rparr>) c1
      in (setPhase (if immediate then ImmediateFallbackWrite else CheckpointFallbackWrite) c2,
          AwaitRewrite immediate checkpointUpdate checkpointStateVector delta drained))"

text \<open>The update to write: the pending updates, or a fresh encoding against the last vector.\<close>

definition save_delta :: "'op yjs \<Rightarrow> 'op set \<Rightarrow> byte list option \<Rightarrow> byte list list \<Rightarrow> byte list" where
  "save_delta yj doc base pending =
     (if length pending > 0
      then if length pending = 1 then hd pending else yj_mergeUpdates yj pending
      else yj_encodeStateAsUpdate yj doc base)"

definition executeSave_begin :: "'op yjs \<Rightarrow> 'op set \<Rightarrow> coordinator \<Rightarrow> coordinator \<times> save_state" where
  "executeSave_begin yj doc c =
     (let c0 = setPhase EncodeStateVector
                 (on_health (\<lambda>h. h\<lparr> ph_lastFailurePhase := None, ph_lastCheckpointUpdateBytes := None \<rparr>) c);
          base = pc_lastPersistedStateVector c0;
          currentStateVector = yj_encodeStateVector yj doc;
          c1 = on_health (\<lambda>h. h\<lparr> ph_lastStateVectorBytes := Some (length currentStateVector) \<rparr>) c0;
          pending = pc_pendingUpdates c1;
          c2 = c1\<lparr> pc_pendingUpdates := [] \<rparr>
      in if base = Some currentStateVector \<and> length pending = 0
         then (setPhase SkippedEqualSv c2, SaveDone skipped_result)
         else
           let c3 = setPhase (if length pending > 0 then DeltaIncremental else DeltaFallback) c2;
               delta = save_delta yj doc base pending
           in if delta = [] then (setPhase SkippedEmptyDelta c3, SaveDone skipped_result)
              else
                let c4 = on_health (\<lambda>h. h\<lparr> ph_lastDeltaBytes := Some (length delta) \<rparr>) c3
                in if pc_consecutiveSaveFailures c4 \<ge> pc_checkpointFallbackAfterFailures c4
                   then begin_fallback False yj doc delta pending c4
                   else (setPhase AppendPhase c4, AwaitAppend delta currentStateVector pending))"

text \<open>An exception is its class name and its message.\<close>

type_synonym save_error = "jsstr \<times> jsstr"

definition reported_error :: "save_error \<Rightarrow> jsstr" where
  "reported_error err = fst err @ js '': '' @ snd err"

text \<open>The failure branch that \<^verbatim>\<open>executeAppend\<close> and \<^verbatim>\<open>executeCheckpointFallback\<close> share.\<close>

definition note_failure :: "jsstr \<Rightarrow> coordinator \<Rightarrow> coordinator" where
  "note_failure err c =
     (let n = pc_consecutiveSaveFailures c + 1
      in on_health (\<lambda>h. h\<lparr> ph_lastSaveError := Some err, ph_failedSaveCount := ph_failedSaveCount h + 1,
           ph_consecutiveSaveFailures := n, ph_status := Degraded, ph_lastFailurePhase := ph_lastSavePhase h \<rparr>)
           (c\<lparr> pc_consecutiveSaveFailures := n \<rparr>))"

definition append_failed ::
  "'op yjs \<Rightarrow> 'op set \<Rightarrow> save_error \<Rightarrow> byte list \<Rightarrow> byte list list \<Rightarrow> coordinator \<Rightarrow> coordinator \<times> save_state" where
  "append_failed yj doc err delta drained c =
     (let c1 = note_failure (reported_error err) c
      in if pc_consecutiveSaveFailures c1 \<ge> pc_checkpointFallbackAfterFailures c1
         then begin_fallback True yj doc delta drained c1
         else (restorePendingUpdates drained c1,
               SaveDone \<lparr> sr_success = False, sr_method = MethodAppend, sr_error = Some (snd err), sr_journalStats = None \<rparr>))"

text \<open>The third component says whether a compaction is scheduled behind the queued tasks.\<close>

definition append_succeeded ::
  "journal_stats \<Rightarrow> byte list \<Rightarrow> byte list \<Rightarrow> coordinator \<Rightarrow> coordinator \<times> save_state \<times> journal_stats option" where
  "append_succeeded stats delta currentStateVector c =
     (on_health (\<lambda>h. h\<lparr> ph_status := Healthy, ph_lastSaveError := None,
         ph_successfulSaveCount := ph_successfulSaveCount h + 1, ph_lastDeltaBytes := Some (length delta),
         ph_lastPersistedStateVectorHash := Some (sv_hash currentStateVector),
         ph_journalEntryCount := Some (js_entryCount stats), ph_journalBytes := Some (js_totalBytes stats),
         ph_consecutiveSaveFailures := 0 \<rparr>)
       (c\<lparr> pc_lastPersistedStateVector := Some currentStateVector, pc_consecutiveSaveFailures := 0 \<rparr>),
      SaveDone \<lparr> sr_success = True, sr_method = MethodAppend, sr_error = None, sr_journalStats = Some stats \<rparr>,
      if js_entryCount stats > pc_journalCompactMaxEntries c \<or> js_totalBytes stats > pc_journalCompactMaxBytes c
      then Some stats else None)"

definition fallback_failed ::
  "bool \<Rightarrow> save_error \<Rightarrow> byte list list \<Rightarrow> coordinator \<Rightarrow> coordinator \<times> save_state" where
  "fallback_failed immediate err drained c =
     (if immediate
      then (restorePendingUpdates drained (on_health (\<lambda>h. h\<lparr> ph_lastFailurePhase := ph_lastSavePhase h \<rparr>) c),
            SaveDone \<lparr> sr_success = False, sr_method = MethodImmediateFallback, sr_error = Some (snd err), sr_journalStats = None \<rparr>)
      else (restorePendingUpdates drained (note_failure (reported_error err @ js '' (checkpoint fallback)'') c),
            SaveDone \<lparr> sr_success = False, sr_method = MethodCheckpointFallback, sr_error = Some (snd err), sr_journalStats = None \<rparr>))"

definition rewrite_succeeded ::
  "bool \<Rightarrow> byte list \<Rightarrow> byte list \<Rightarrow> byte list list \<Rightarrow> coordinator \<Rightarrow> coordinator \<times> save_state" where
  "rewrite_succeeded immediate checkpointStateVector delta drained c =
     (on_health (\<lambda>h. h\<lparr> ph_status := Healthy, ph_lastSaveError := None,
         ph_successfulSaveCount := ph_successfulSaveCount h + 1, ph_lastDeltaBytes := Some (length delta),
         ph_lastPersistedStateVectorHash := Some (sv_hash checkpointStateVector),
         ph_checkpointFallbackCount := ph_checkpointFallbackCount h + 1, ph_consecutiveSaveFailures := 0 \<rparr>)
       (c\<lparr> pc_lastPersistedStateVector := Some checkpointStateVector, pc_consecutiveSaveFailures := 0 \<rparr>),
      AwaitStats immediate drained)"

definition stats_read :: "bool \<Rightarrow> journal_stats \<Rightarrow> coordinator \<Rightarrow> coordinator \<times> save_state" where
  "stats_read immediate stats c =
     (on_health (\<lambda>h. h\<lparr> ph_journalEntryCount := Some (js_entryCount stats), ph_journalBytes := Some (js_totalBytes stats) \<rparr>) c,
      SaveDone \<lparr> sr_success = True, sr_method = (if immediate then MethodImmediateFallback else MethodCheckpointFallback),
        sr_error = None, sr_journalStats = Some stats \<rparr>)"

section \<open>Compaction\<close>

definition compaction_reason_of :: "journal_stats \<Rightarrow> coordinator \<Rightarrow> compaction_reason" where
  "compaction_reason_of stats c =
     (if js_entryCount stats > pc_journalCompactMaxEntries c then EntryCountExceeded else ByteSizeExceeded)"

definition executeCompaction_begin :: "coordinator \<Rightarrow> coordinator" where
  "executeCompaction_begin = setPhase CompactionBinary"

definition compaction_succeeded ::
  "journal_stats \<Rightarrow> byte list \<Rightarrow> journal_stats \<Rightarrow> coordinator \<Rightarrow> coordinator" where
  "compaction_succeeded before checkpointStateVector stats c =
     on_health (\<lambda>h. h\<lparr> ph_status := Healthy,
         ph_lastPersistedStateVectorHash := Some (sv_hash checkpointStateVector),
         ph_lastCompactionReason := Some (compaction_reason_of before c), ph_lastCompactionError := None,
         ph_journalEntryCount := Some (js_entryCount stats), ph_journalBytes := Some (js_totalBytes stats) \<rparr>)
       (c\<lparr> pc_lastPersistedStateVector := Some checkpointStateVector, pc_consecutiveSaveFailures := 0 \<rparr>)"

definition compaction_failed :: "journal_stats \<Rightarrow> save_error \<Rightarrow> coordinator \<Rightarrow> coordinator" where
  "compaction_failed before err c =
     on_health (\<lambda>h. h\<lparr> ph_lastCompactionReason := Some (compaction_reason_of before c),
         ph_lastCompactionError := Some (reported_error err), ph_lastFailurePhase := ph_lastSavePhase h \<rparr>) c"

section \<open>Runs\<close>

datatype save_task = SaveTask | CompactTask journal_stats

datatype activity = Idle | Saving save_state | Compacting journal_stats

record 'op save_world =
  sw_doc :: "'op set"
  sw_store :: doc_store
  sw_coord :: coordinator
  sw_chain :: "save_task list"
  sw_activity :: activity

text \<open>
  One step: the document changes (its update event calls \<open>recordIncrementalUpdate\<close>), a save is
  requested, the next task of the chain starts, or an awaited storage call settles.  A call that
  throws has left the store as it was, or its transaction was committed and the error came later.
\<close>

inductive save_step ::
  "'op yjs \<Rightarrow> (byte list \<Rightarrow> byte list) \<Rightarrow> store_options \<Rightarrow> 'op save_world \<Rightarrow> 'op save_world \<Rightarrow> bool"
  for yj digest opts where
  doc_update: "save_step yj digest opts w
    (w\<lparr> sw_doc := sw_doc w \<union> yj_content yj u, sw_coord := recordIncrementalUpdate u (sw_coord w) \<rparr>)"
| enqueue: "save_step yj digest opts w
    (w\<lparr> sw_coord := enqueueSave_now (sw_coord w), sw_chain := sw_chain w @ [SaveTask] \<rparr>)"
| begin_save: "sw_activity w = Idle \<Longrightarrow> sw_chain w = SaveTask # ts \<Longrightarrow>
    executeSave_begin yj (sw_doc w) (sw_coord w) = (c, s) \<Longrightarrow>
    save_step yj digest opts w (w\<lparr> sw_coord := c, sw_chain := ts, sw_activity := Saving s \<rparr>)"
| append_ok: "sw_activity w = Saving (AwaitAppend delta sv drained) \<Longrightarrow> now \<noteq> [] \<Longrightarrow>
    appendUpdate digest opts now delta (sw_store w) = Inr (stats, ws, st) \<Longrightarrow>
    append_succeeded stats delta sv (sw_coord w) = (c, s, sched) \<Longrightarrow>
    save_step yj digest opts w (w\<lparr> sw_store := st, sw_coord := c, sw_activity := Saving s,
      sw_chain := sw_chain w @ (case sched of Some j \<Rightarrow> [CompactTask j] | None \<Rightarrow> []) \<rparr>)"
| append_error: "sw_activity w = Saving (AwaitAppend delta sv drained) \<Longrightarrow> now \<noteq> [] \<Longrightarrow>
    st = sw_store w \<or> appendUpdate digest opts now delta (sw_store w) = Inr (stats, ws, st) \<Longrightarrow>
    append_failed yj (sw_doc w) err delta drained (sw_coord w) = (c, s) \<Longrightarrow>
    save_step yj digest opts w (w\<lparr> sw_store := st, sw_coord := c, sw_activity := Saving s \<rparr>)"
| rewrite_ok: "sw_activity w = Saving (AwaitRewrite im u sv delta drained) \<Longrightarrow> now \<noteq> [] \<Longrightarrow>
    rewriteCheckpoint digest opts now u sv (sw_store w) = Inr (ws, st) \<Longrightarrow>
    rewrite_succeeded im sv delta drained (sw_coord w) = (c, s) \<Longrightarrow>
    save_step yj digest opts w (w\<lparr> sw_store := st, sw_coord := c, sw_activity := Saving s \<rparr>)"
| rewrite_error: "sw_activity w = Saving (AwaitRewrite im u sv delta drained) \<Longrightarrow> now \<noteq> [] \<Longrightarrow>
    st = sw_store w \<or> rewriteCheckpoint digest opts now u sv (sw_store w) = Inr (ws, st) \<Longrightarrow>
    fallback_failed im err drained (sw_coord w) = (c, s) \<Longrightarrow>
    save_step yj digest opts w (w\<lparr> sw_store := st, sw_coord := c, sw_activity := Saving s \<rparr>)"
| stats_ok: "sw_activity w = Saving (AwaitStats im drained) \<Longrightarrow>
    getJournalStats now (sw_store w) = Inr stats \<Longrightarrow> stats_read im stats (sw_coord w) = (c, s) \<Longrightarrow>
    save_step yj digest opts w (w\<lparr> sw_coord := c, sw_activity := Saving s \<rparr>)"
| stats_error: "sw_activity w = Saving (AwaitStats im drained) \<Longrightarrow>
    fallback_failed im err drained (sw_coord w) = (c, s) \<Longrightarrow>
    save_step yj digest opts w (w\<lparr> sw_coord := c, sw_activity := Saving s \<rparr>)"
| finish_save: "sw_activity w = Saving (SaveDone r) \<Longrightarrow>
    save_step yj digest opts w (w\<lparr> sw_coord := enqueueSave_finally (sw_coord w), sw_activity := Idle \<rparr>)"
| begin_compaction: "sw_activity w = Idle \<Longrightarrow> sw_chain w = CompactTask before # ts \<Longrightarrow>
    save_step yj digest opts w
      (w\<lparr> sw_coord := executeCompaction_begin (sw_coord w), sw_chain := ts, sw_activity := Compacting before \<rparr>)"
| compaction_ok: "sw_activity w = Compacting before \<Longrightarrow> now \<noteq> [] \<Longrightarrow>
    compactJournalToCheckpoint digest (yj_mergeUpdates yj) (yj_encodeStateVectorFromUpdate yj)
      (yj_encodeStateVector yj {}) opts now (sw_store w) = Inr (sv, stats, st) \<Longrightarrow>
    save_step yj digest opts w (w\<lparr> sw_store := st,
      sw_coord := compaction_succeeded before sv stats (sw_coord w), sw_activity := Idle \<rparr>)"
| compaction_error: "sw_activity w = Compacting before \<Longrightarrow> now \<noteq> [] \<Longrightarrow>
    st = sw_store w \<or> compactJournalToCheckpoint digest (yj_mergeUpdates yj) (yj_encodeStateVectorFromUpdate yj)
      (yj_encodeStateVector yj {}) opts now (sw_store w) = Inr (sv, stats, st) \<Longrightarrow>
    save_step yj digest opts w (w\<lparr> sw_store := st,
      sw_coord := compaction_failed before err (sw_coord w), sw_activity := Idle \<rparr>)"

text \<open>
  After loading, the document is what the store holds, and the coordinator has been given its
  state vector.
\<close>

definition stored_ops :: "'op yjs \<Rightarrow> (byte list \<Rightarrow> byte list) \<Rightarrow> store_options \<Rightarrow> jsstr \<Rightarrow> doc_store \<Rightarrow> 'op set" where
  "stored_ops yj digest opts now st =
     (case loadState digest opts now st of
        Inl e \<Rightarrow> {}
      | Inr s \<Rightarrow> (\<Union>u \<in> set (state_updates s). yj_content yj u))"

definition loaded_world ::
  "'op yjs \<Rightarrow> 'op set \<Rightarrow> doc_store \<Rightarrow> coordinator \<Rightarrow> 'op save_world" where
  "loaded_world yj doc st c =
     \<lparr> sw_doc = doc, sw_store = st, sw_coord = setInitialStateVector (yj_encodeStateVector yj doc) c,
       sw_chain = [], sw_activity = Idle \<rparr>"

section \<open>The invariant\<close>

definition ops_of :: "'op yjs \<Rightarrow> byte list list \<Rightarrow> 'op set" where
  "ops_of yj us = (\<Union>u \<in> set us. yj_content yj u)"

lemma ops_of_simps [simp]:
  "ops_of yj [] = {}" "ops_of yj (u # us) = yj_content yj u \<union> ops_of yj us"
  "ops_of yj (us @ vs) = ops_of yj us \<union> ops_of yj vs"
  by (auto simp: ops_of_def)

lemma ops_of_merge:
  assumes "yjs_contract yj"
  shows "yj_content yj (yj_mergeUpdates yj us) = ops_of yj us"
    and "merge_all (yj_mergeUpdates yj) us = Some u \<Longrightarrow> yj_content yj u = ops_of yj us"
    and "merge_all (yj_mergeUpdates yj) us = None \<Longrightarrow> ops_of yj us = {}"
  using assms by (auto simp: yjs_contract_def merge_all_def ops_of_def split: list.splits)

definition is_save :: "save_task \<Rightarrow> bool" where
  "is_save t = (t = SaveTask)"

text \<open>The part of the invariant that depends on where the running save stands; \<open>S\<close> is what the store
  holds and \<open>P\<close> what is pending.\<close>

fun save_state_inv :: "'op yjs \<Rightarrow> 'op set \<Rightarrow> 'op set \<Rightarrow> 'op set \<Rightarrow> save_state \<Rightarrow> bool" where
  "save_state_inv yj doc S P (AwaitAppend delta sv drained) \<longleftrightarrow>
     doc \<subseteq> S \<union> P \<union> ops_of yj drained \<and> ops_of yj drained \<subseteq> yj_content yj delta
     \<and> yj_content yj delta \<subseteq> doc \<and> delta \<noteq> []
     \<and> (\<exists>D. sv = yj_encodeStateVector yj D \<and> D \<subseteq> S \<union> yj_content yj delta)"
| "save_state_inv yj doc S P (AwaitRewrite im u sv delta drained) \<longleftrightarrow>
     doc \<subseteq> S \<union> P \<union> ops_of yj drained \<and> ops_of yj drained \<subseteq> doc
     \<and> yj_content yj u \<subseteq> doc \<and> S \<subseteq> yj_content yj u \<and> doc \<subseteq> yj_content yj u \<union> P
     \<and> sv = yj_encodeStateVector yj (yj_content yj u)"
| "save_state_inv yj doc S P (AwaitStats im drained) \<longleftrightarrow> doc \<subseteq> S \<union> P \<and> ops_of yj drained \<subseteq> doc"
| "save_state_inv yj doc S P (SaveDone r) \<longleftrightarrow> doc \<subseteq> S \<union> P"

fun activity_inv :: "'op yjs \<Rightarrow> 'op set \<Rightarrow> 'op set \<Rightarrow> 'op set \<Rightarrow> activity \<Rightarrow> bool" where
  "activity_inv yj doc S P (Saving s) \<longleftrightarrow> save_state_inv yj doc S P s"
| "activity_inv yj doc S P _ \<longleftrightarrow> doc \<subseteq> S \<union> P"

definition queued_saves :: "save_task list \<Rightarrow> activity \<Rightarrow> nat" where
  "queued_saves chain a = length (filter is_save chain) + (case a of Saving _ \<Rightarrow> 1 | _ \<Rightarrow> 0)"

definition persisted_vector_ok :: "'op yjs \<Rightarrow> 'op set \<Rightarrow> coordinator \<Rightarrow> bool" where
  "persisted_vector_ok yj S c \<longleftrightarrow>
     (\<forall>sv. pc_lastPersistedStateVector c = Some sv \<longrightarrow> (\<exists>D. D \<subseteq> S \<and> sv = yj_encodeStateVector yj D))"

definition flags_ok :: "save_task list \<Rightarrow> activity \<Rightarrow> coordinator \<Rightarrow> bool" where
  "flags_ok chain a c \<longleftrightarrow>
     ph_queuedSaveCount (pc_health c) = queued_saves chain a
     \<and> (\<not> ph_pendingPersistence (pc_health c) \<longrightarrow> queued_saves chain a = 0 \<and> pc_pendingUpdates c = [])"

definition coordinator_inv ::
  "'op yjs \<Rightarrow> 'op set \<Rightarrow> 'op set \<Rightarrow> save_task list \<Rightarrow> activity \<Rightarrow> coordinator \<Rightarrow> bool" where
  "coordinator_inv yj doc S chain a c \<longleftrightarrow>
     S \<subseteq> doc \<and> ops_of yj (pc_pendingUpdates c) \<subseteq> doc
     \<and> activity_inv yj doc S (ops_of yj (pc_pendingUpdates c)) a
     \<and> persisted_vector_ok yj S c \<and> flags_ok chain a c"

definition save_inv :: "'op yjs \<Rightarrow> (byte list \<Rightarrow> byte list) \<Rightarrow> store_options \<Rightarrow> 'op save_world \<Rightarrow> bool" where
  "save_inv yj digest opts w \<longleftrightarrow>
     (\<exists>d. store_holds digest opts (sw_store w) d
        \<and> coordinator_inv yj (sw_doc w) (ops_of yj (doc_updates d)) (sw_chain w) (sw_activity w) (sw_coord w))"

section \<open>Every step keeps the invariant\<close>

lemmas coordinator_defs =
  recordIncrementalUpdate_def enqueueSave_now_def enqueueSave_finally_def setPhase_def restorePendingUpdates_def
  note_failure_def

lemma coordinator_invD:
  assumes "coordinator_inv yj doc S chain a c"
  shows "S \<subseteq> doc" "ops_of yj (pc_pendingUpdates c) \<subseteq> doc"
    "activity_inv yj doc S (ops_of yj (pc_pendingUpdates c)) a" "persisted_vector_ok yj S c" "flags_ok chain a c"
  using assms by (simp_all add: coordinator_inv_def)

lemma persisted_vector_ok_mono: "persisted_vector_ok yj S c \<Longrightarrow> S \<subseteq> S' \<Longrightarrow> persisted_vector_ok yj S' c"
  unfolding persisted_vector_ok_def by blast

lemma save_state_inv_grows:
  "save_state_inv yj doc S P s \<Longrightarrow> save_state_inv yj (doc \<union> X) S (P \<union> X) s"
  by (cases s) auto

lemma inv_doc_update:
  assumes "yjs_contract yj" "coordinator_inv yj doc S chain a c"
  shows "coordinator_inv yj (doc \<union> yj_content yj u) S chain a (recordIncrementalUpdate u c)"
proof -
  note I = coordinator_invD [OF assms(2)]
  have empty: "yj_content yj [] = {}" using assms(1) by (simp add: yjs_contract_def)
  let ?c = "recordIncrementalUpdate u c"
  have pend: "ops_of yj (pc_pendingUpdates ?c) = ops_of yj (pc_pendingUpdates c) \<union> yj_content yj u"
    using empty by (simp add: recordIncrementalUpdate_def)
  have "activity_inv yj (doc \<union> yj_content yj u) S (ops_of yj (pc_pendingUpdates ?c)) a"
    using I(3) unfolding pend by (cases a) (auto intro: save_state_inv_grows)
  moreover have "persisted_vector_ok yj S ?c" "flags_ok chain a ?c"
    using I(4,5) by (simp_all add: recordIncrementalUpdate_def persisted_vector_ok_def flags_ok_def)
  ultimately show ?thesis using I(1,2) pend by (auto simp: coordinator_inv_def)
qed

lemma inv_enqueue:
  assumes "coordinator_inv yj doc S chain a c"
  shows "coordinator_inv yj doc S (chain @ [SaveTask]) a (enqueueSave_now c)"
  using coordinator_invD [OF assms]
  by (simp add: coordinator_inv_def enqueueSave_now_def persisted_vector_ok_def flags_ok_def queued_saves_def is_save_def)

lemma flags_saving: "flags_ok chain (Saving s) c \<longleftrightarrow>
    ph_queuedSaveCount (pc_health c) = Suc (length (filter is_save chain)) \<and> ph_pendingPersistence (pc_health c)"
  by (auto simp: flags_ok_def queued_saves_def)

text \<open>What the parts of a save do to the fields the invariant speaks of.\<close>

lemma begin_fallback_fields:
  assumes "begin_fallback im yj doc delta drained c = (c', s)"
  shows "s = AwaitRewrite im (yj_encodeStateAsUpdate yj doc None) (yj_encodeStateVector yj doc) delta drained"
    "pc_pendingUpdates c' = pc_pendingUpdates c" "pc_lastPersistedStateVector c' = pc_lastPersistedStateVector c"
    "ph_queuedSaveCount (pc_health c') = ph_queuedSaveCount (pc_health c)"
    "ph_pendingPersistence (pc_health c') = ph_pendingPersistence (pc_health c)"
  using assms by (auto simp: begin_fallback_def setPhase_def Let_def)

lemma inv_begin_fallback:
  assumes "yjs_contract yj" "begin_fallback im yj doc delta drained c = (c', s)"
    and "S \<subseteq> doc" "ops_of yj (pc_pendingUpdates c) \<subseteq> doc" "persisted_vector_ok yj S c" "flags_ok chain (Saving t) c"
    and "doc \<subseteq> S \<union> ops_of yj (pc_pendingUpdates c) \<union> ops_of yj drained" "ops_of yj drained \<subseteq> doc"
  shows "coordinator_inv yj doc S chain (Saving s) c'"
proof -
  note F = begin_fallback_fields [OF assms(2)]
  have "yj_content yj (yj_encodeStateAsUpdate yj doc None) = doc" using assms(1) by (simp add: yjs_contract_def)
  then show ?thesis
    using assms(3-8) F by (auto simp: coordinator_inv_def persisted_vector_ok_def flags_saving)
qed

lemma save_delta_content:
  assumes "yjs_contract yj" "S \<subseteq> doc" "\<And>sv. base = Some sv \<Longrightarrow> \<exists>D. D \<subseteq> S \<and> sv = yj_encodeStateVector yj D"
    and "ops_of yj pending \<subseteq> doc"
  shows "ops_of yj pending \<subseteq> yj_content yj (save_delta yj doc base pending)"
    and "yj_content yj (save_delta yj doc base pending) \<subseteq> doc"
proof -
  consider "pending = []" "base = None" | D where "pending = []" "base = Some (yj_encodeStateVector yj D)" "D \<subseteq> doc"
    | u where "pending = [u]" | "length pending > 1"
    using assms(2,3) by (cases pending; cases "tl pending"; cases base) fastforce+
  then have "ops_of yj pending \<subseteq> yj_content yj (save_delta yj doc base pending)
      \<and> yj_content yj (save_delta yj doc base pending) \<subseteq> doc"
  proof cases
    case 1
    then show ?thesis using assms(1) by (simp add: save_delta_def yjs_contract_def)
  next
    case 2
    then show ?thesis using assms(1) by (simp add: save_delta_def yjs_contract_def)
  next
    case 3
    then show ?thesis using assms(4) by (simp add: save_delta_def)
  next
    case 4
    then show ?thesis using assms(4) ops_of_merge(1) [OF assms(1)] by (cases pending) (simp_all add: save_delta_def)
  qed
  then show "ops_of yj pending \<subseteq> yj_content yj (save_delta yj doc base pending)"
    "yj_content yj (save_delta yj doc base pending) \<subseteq> doc" by simp_all
qed

lemma inv_begin_save:
  assumes "yjs_contract yj" "coordinator_inv yj doc S (SaveTask # ts) Idle c" "executeSave_begin yj doc c = (c', s)"
  shows "coordinator_inv yj doc S ts (Saving s) c'"
proof -
  note I = coordinator_invD [OF assms(2)]
  define pending where "pending = pc_pendingUpdates c"
  define delta where "delta = save_delta yj doc (pc_lastPersistedStateVector c) pending"
  have empty: "yj_content yj [] = {}" using assms(1) by (simp add: yjs_contract_def)
  have cover: "doc \<subseteq> S \<union> ops_of yj pending" using I(3) by (simp add: pending_def)
  have vec: "\<exists>D. D \<subseteq> S \<and> sv = yj_encodeStateVector yj D" if "pc_lastPersistedStateVector c = Some sv" for sv
    using I(4) that by (simp add: persisted_vector_ok_def)
  have content: "ops_of yj pending \<subseteq> yj_content yj delta" "yj_content yj delta \<subseteq> doc"
    using save_delta_content [OF assms(1) I(1) vec I(2)] by (simp_all add: delta_def pending_def)
  have flags: "ph_queuedSaveCount (pc_health c) = Suc (length (filter is_save ts))" "ph_pendingPersistence (pc_health c)"
    using I(5) by (auto simp: flags_ok_def queued_saves_def is_save_def)
  have done_: "coordinator_inv yj doc S ts (Saving (SaveDone r)) x"
    if "ops_of yj pending = {}" "pc_pendingUpdates x = []" "pc_lastPersistedStateVector x = pc_lastPersistedStateVector c"
      "ph_queuedSaveCount (pc_health x) = ph_queuedSaveCount (pc_health c)"
      "ph_pendingPersistence (pc_health x) = ph_pendingPersistence (pc_health c)" for r x
    using that I(1,4) cover flags by (simp add: coordinator_inv_def persisted_vector_ok_def flags_saving)
  show ?thesis
  proof (cases "pc_lastPersistedStateVector c = Some (yj_encodeStateVector yj doc) \<and> length pending = 0")
    case True
    show ?thesis
      using assms(3) True
      by (auto simp: executeSave_begin_def setPhase_def Let_def pending_def intro!: done_)
  next
    case False
    show ?thesis
    proof (cases "delta = []")
      case True
      then have "ops_of yj pending = {}" using content empty by simp
      then show ?thesis
        using assms(3) True False
        by (auto simp: executeSave_begin_def setPhase_def Let_def pending_def [symmetric] delta_def [symmetric] intro!: done_)
    next
      case nonempty: False
      show ?thesis
      proof (cases "pc_consecutiveSaveFailures c \<ge> pc_checkpointFallbackAfterFailures c")
        case True
        then obtain c4 where c4: "begin_fallback False yj doc delta pending c4 = (c', s)"
            "pc_pendingUpdates c4 = []" "pc_lastPersistedStateVector c4 = pc_lastPersistedStateVector c"
            "ph_queuedSaveCount (pc_health c4) = ph_queuedSaveCount (pc_health c)"
            "ph_pendingPersistence (pc_health c4) = ph_pendingPersistence (pc_health c)"
          using assms(3) False nonempty
          by (auto simp: executeSave_begin_def setPhase_def Let_def pending_def [symmetric] delta_def [symmetric])
        show ?thesis
          using c4(2-5) I(1,2,4) cover flags
          by (intro inv_begin_fallback [OF assms(1) c4(1), where t = s])
            (simp_all add: persisted_vector_ok_def flags_saving pending_def)
      next
        case below: False
        then have "s = AwaitAppend delta (yj_encodeStateVector yj doc) pending" "pc_pendingUpdates c' = []"
            "pc_lastPersistedStateVector c' = pc_lastPersistedStateVector c"
            "ph_queuedSaveCount (pc_health c') = ph_queuedSaveCount (pc_health c)"
            "ph_pendingPersistence (pc_health c') = ph_pendingPersistence (pc_health c)"
          using assms(3) False nonempty
          by (auto simp: executeSave_begin_def setPhase_def Let_def pending_def [symmetric] delta_def [symmetric])
        moreover have "doc \<subseteq> S \<union> yj_content yj delta" using cover content(1) by blast
        ultimately show ?thesis
          using I(1,4) cover content flags nonempty
          by (auto simp: coordinator_inv_def persisted_vector_ok_def flags_saving)
      qed
    qed
  qed
qed

lemma flags_chain: "flags_ok (chain @ [CompactTask j]) a c \<longleftrightarrow> flags_ok chain a c"
  by (simp add: flags_ok_def queued_saves_def is_save_def)

lemma inv_append_succeeded:
  assumes "coordinator_inv yj doc S chain (Saving (AwaitAppend delta sv drained)) c"
    and "append_succeeded stats delta sv c = (c', s, sched)"
  shows "coordinator_inv yj doc (S \<union> yj_content yj delta)
    (chain @ (case sched of Some j \<Rightarrow> [CompactTask j] | None \<Rightarrow> [])) (Saving s) c'"
proof -
  note I = coordinator_invD [OF assms(1)]
  have c': "pc_pendingUpdates c' = pc_pendingUpdates c" "pc_lastPersistedStateVector c' = Some sv"
      "ph_queuedSaveCount (pc_health c') = ph_queuedSaveCount (pc_health c)"
      "ph_pendingPersistence (pc_health c') = ph_pendingPersistence (pc_health c)"
    and s: "\<exists>r. s = SaveDone r"
    using assms(2) by (auto simp: append_succeeded_def)
  have "flags_ok chain (Saving s) c'" using I(5) c' by (simp add: flags_saving)
  then have "flags_ok (chain @ (case sched of Some j \<Rightarrow> [CompactTask j] | None \<Rightarrow> [])) (Saving s) c'"
    by (simp add: flags_chain split: option.split)
  moreover have "persisted_vector_ok yj (S \<union> yj_content yj delta) c'"
    using I(3) c'(2) by (auto simp: persisted_vector_ok_def)
  moreover have "doc \<subseteq> S \<union> yj_content yj delta \<union> ops_of yj (pc_pendingUpdates c)"
    "yj_content yj delta \<subseteq> doc" using I(3) by auto
  ultimately show ?thesis using I(1,2) c' s by (auto simp: coordinator_inv_def)
qed

lemma restorePendingUpdates_fields:
  "pc_lastPersistedStateVector (restorePendingUpdates us c) = pc_lastPersistedStateVector c"
  "ph_queuedSaveCount (pc_health (restorePendingUpdates us c)) = ph_queuedSaveCount (pc_health c)"
  "pc_pendingUpdates (restorePendingUpdates us c) = us @ pc_pendingUpdates c"
  "ph_pendingPersistence (pc_health c) \<Longrightarrow> ph_pendingPersistence (pc_health (restorePendingUpdates us c))"
  by (simp_all add: restorePendingUpdates_def)

lemma inv_restored:
  assumes "S \<subseteq> doc" "ops_of yj (pc_pendingUpdates c) \<subseteq> doc" "ops_of yj drained \<subseteq> doc"
    and "doc \<subseteq> S \<union> ops_of yj (pc_pendingUpdates c) \<union> ops_of yj drained"
    and "persisted_vector_ok yj S c" "flags_ok chain (Saving t) c"
  shows "coordinator_inv yj doc S chain (Saving (SaveDone r)) (restorePendingUpdates drained c)"
  using assms restorePendingUpdates_fields [where us = drained and c = c]
  by (auto simp: coordinator_inv_def persisted_vector_ok_def flags_saving)

lemma note_failure_fields:
  "pc_lastPersistedStateVector (note_failure e c) = pc_lastPersistedStateVector c"
  "pc_pendingUpdates (note_failure e c) = pc_pendingUpdates c"
  "ph_queuedSaveCount (pc_health (note_failure e c)) = ph_queuedSaveCount (pc_health c)"
  "ph_pendingPersistence (pc_health (note_failure e c)) = ph_pendingPersistence (pc_health c)"
  by (simp_all add: note_failure_def Let_def)

lemma inv_append_failed:
  assumes "yjs_contract yj" "coordinator_inv yj doc S chain (Saving (AwaitAppend delta sv drained)) c"
    and "S' = S \<or> S' = S \<union> yj_content yj delta"
    and "append_failed yj doc err delta drained c = (c', s)"
  shows "coordinator_inv yj doc S' chain (Saving s) c'"
proof -
  note I = coordinator_invD [OF assms(2)]
  let ?c = "note_failure (reported_error err) c"
  note F = note_failure_fields [of "reported_error err" c]
  have A: "doc \<subseteq> S \<union> ops_of yj (pc_pendingUpdates c) \<union> ops_of yj drained"
      "ops_of yj drained \<subseteq> doc" "yj_content yj delta \<subseteq> doc"
    using I(3) by auto
  have S': "S \<subseteq> S'" "S' \<subseteq> doc" using assms(3) I(1) A(3) by auto
  have pre: "ops_of yj (pc_pendingUpdates ?c) \<subseteq> doc"
      "doc \<subseteq> S' \<union> ops_of yj (pc_pendingUpdates ?c) \<union> ops_of yj drained"
    using A(1) I(2) S'(1) F(2) by auto
  have vec: "persisted_vector_ok yj S' ?c"
    using persisted_vector_ok_mono [OF I(4) S'(1)] F(1) by (simp add: persisted_vector_ok_def)
  have flags: "flags_ok chain (Saving (AwaitAppend delta sv drained)) ?c"
    using I(5) F(3,4) by (simp add: flags_saving)
  show ?thesis
  proof (cases "pc_consecutiveSaveFailures ?c \<ge> pc_checkpointFallbackAfterFailures ?c")
    case True
    then have "begin_fallback True yj doc delta drained ?c = (c', s)"
      using assms(4) by (simp add: append_failed_def Let_def)
    from inv_begin_fallback [OF assms(1) this S'(2) pre(1) vec flags pre(2) A(2)] show ?thesis .
  next
    case False
    then have "c' = restorePendingUpdates drained ?c" "\<exists>r. s = SaveDone r"
      using assms(4) by (auto simp: append_failed_def Let_def)
    then show ?thesis using inv_restored [OF S'(2) pre(1) A(2) pre(2) vec flags] by auto
  qed
qed

lemma inv_rewrite_succeeded:
  assumes "coordinator_inv yj doc S chain (Saving (AwaitRewrite im u sv delta drained)) c"
    and "rewrite_succeeded im sv delta drained c = (c', s)"
  shows "coordinator_inv yj doc (yj_content yj u) chain (Saving s) c'"
proof -
  note I = coordinator_invD [OF assms(1)]
  have c': "pc_pendingUpdates c' = pc_pendingUpdates c" "pc_lastPersistedStateVector c' = Some sv"
      "ph_queuedSaveCount (pc_health c') = ph_queuedSaveCount (pc_health c)"
      "ph_pendingPersistence (pc_health c') = ph_pendingPersistence (pc_health c)" "s = AwaitStats im drained"
    using assms(2) by (auto simp: rewrite_succeeded_def)
  have "persisted_vector_ok yj (yj_content yj u) c'" using I(3) c'(2) by (auto simp: persisted_vector_ok_def)
  then show ?thesis using I(2,3,5) c' by (auto simp: coordinator_inv_def flags_saving)
qed

lemma inv_fallback_failed:
  assumes "coordinator_inv yj doc S chain (Saving t) c"
    and "S \<subseteq> S'" "S' \<subseteq> doc" "ops_of yj drained \<subseteq> doc"
    and "doc \<subseteq> S \<union> ops_of yj (pc_pendingUpdates c) \<union> ops_of yj drained"
    and "fallback_failed im err drained c = (c', s)"
  shows "coordinator_inv yj doc S' chain (Saving s) c'"
proof -
  note I = coordinator_invD [OF assms(1)]
  define c1 where "c1 = (if im then on_health (\<lambda>h. h\<lparr> ph_lastFailurePhase := ph_lastSavePhase h \<rparr>) c
    else note_failure (reported_error err @ js '' (checkpoint fallback)'') c)"
  have F: "pc_lastPersistedStateVector c1 = pc_lastPersistedStateVector c"
      "pc_pendingUpdates c1 = pc_pendingUpdates c"
      "ph_queuedSaveCount (pc_health c1) = ph_queuedSaveCount (pc_health c)"
      "ph_pendingPersistence (pc_health c1) = ph_pendingPersistence (pc_health c)"
    by (simp_all add: c1_def note_failure_fields)
  have "c' = restorePendingUpdates drained c1" "\<exists>r. s = SaveDone r"
    using assms(6) by (auto simp: fallback_failed_def c1_def split: if_splits)
  moreover have "persisted_vector_ok yj S' c1"
    using persisted_vector_ok_mono [OF I(4) assms(2)] F(1) by (simp add: persisted_vector_ok_def)
  moreover have "flags_ok chain (Saving t) c1" using I(5) F(3,4) by (simp add: flags_saving)
  moreover have "doc \<subseteq> S' \<union> ops_of yj (pc_pendingUpdates c1) \<union> ops_of yj drained" using assms(2,5) F(2) by auto
  ultimately show ?thesis
    using inv_restored [OF assms(3) _ assms(4), of c1 chain t] I(2) F(2) by auto
qed

lemma inv_stats_read:
  assumes "coordinator_inv yj doc S chain (Saving (AwaitStats im drained)) c"
    and "stats_read im stats c = (c', s)"
  shows "coordinator_inv yj doc S chain (Saving s) c'"
  using coordinator_invD [OF assms(1)] assms(2)
  by (auto simp: stats_read_def coordinator_inv_def persisted_vector_ok_def flags_saving)

lemma inv_finish:
  assumes "coordinator_inv yj doc S chain (Saving (SaveDone r)) c"
  shows "coordinator_inv yj doc S chain Idle (enqueueSave_finally c)"
  using coordinator_invD [OF assms]
  by (auto simp: coordinator_inv_def enqueueSave_finally_def Let_def persisted_vector_ok_def flags_ok_def queued_saves_def)

lemma inv_begin_compaction:
  assumes "coordinator_inv yj doc S (CompactTask before # ts) Idle c"
  shows "coordinator_inv yj doc S ts (Compacting before) (executeCompaction_begin c)"
  using coordinator_invD [OF assms]
  by (simp add: coordinator_inv_def executeCompaction_begin_def setPhase_def persisted_vector_ok_def flags_ok_def
      queued_saves_def is_save_def)

lemma inv_compaction_succeeded:
  assumes "coordinator_inv yj doc S chain (Compacting before) c" "sv = yj_encodeStateVector yj S"
  shows "coordinator_inv yj doc S chain Idle (compaction_succeeded before sv stats c)"
  using coordinator_invD [OF assms(1)] assms(2)
  by (auto simp: coordinator_inv_def compaction_succeeded_def persisted_vector_ok_def flags_ok_def queued_saves_def)

lemma inv_compaction_failed:
  assumes "coordinator_inv yj doc S chain (Compacting before) c"
  shows "coordinator_inv yj doc S chain Idle (compaction_failed before err c)"
  using coordinator_invD [OF assms]
  by (simp add: coordinator_inv_def compaction_failed_def persisted_vector_ok_def flags_ok_def queued_saves_def)

section \<open>The store under the coordinator\<close>

lemma ops_of_append: "ops_of yj (doc_updates (d\<lparr> ad_journal := ad_journal d @ [u] \<rparr>)) = ops_of yj (doc_updates d) \<union> yj_content yj u"
  by (auto simp: doc_updates_def)

lemma store_appended:
  assumes "store_holds digest opts st d" "now \<noteq> []" "u \<noteq> []" "appendUpdate digest opts now u st = Inr (stats, ws, st')"
  shows "\<exists>d'. store_holds digest opts st' d' \<and> ops_of yj (doc_updates d') = ops_of yj (doc_updates d) \<union> yj_content yj u"
  using store_holds_append [OF assms(1,2), of u] assms(3,4) ops_of_append by force

lemma store_rewritten:
  assumes "store_holds digest opts st d" "now \<noteq> []" "rewriteCheckpoint digest opts now u sv st = Inr (ws, st')"
  shows "\<exists>d'. store_holds digest opts st' d' \<and> ops_of yj (doc_updates d') = yj_content yj u"
proof -
  have "store_holds digest opts st' \<lparr> ad_checkpoint = Some (u, sv), ad_journal = [] \<rparr>"
    using store_holds_rewrite [OF assms(1,2), of u sv] assms(3) by auto
  moreover have "ops_of yj (doc_updates \<lparr> ad_checkpoint = Some (u, sv), ad_journal = [] \<rparr>) = yj_content yj u"
    by (simp add: doc_updates_def)
  ultimately show ?thesis by blast
qed

lemma store_compacted:
  assumes "yjs_contract yj" "store_holds digest opts st d" "now \<noteq> []"
    and "compactJournalToCheckpoint digest (yj_mergeUpdates yj) (yj_encodeStateVectorFromUpdate yj)
      (yj_encodeStateVector yj {}) opts now st = Inr (sv, stats, st')"
  shows "(\<exists>d'. store_holds digest opts st' d' \<and> ops_of yj (doc_updates d') = ops_of yj (doc_updates d))
    \<and> sv = yj_encodeStateVector yj (ops_of yj (doc_updates d))"
proof -
  let ?m = "merge_all (yj_mergeUpdates yj) (doc_updates d)"
  have holds: "store_holds digest opts st' (spec_call (yj_mergeUpdates yj) (yj_encodeStateVectorFromUpdate yj) (now, CompactJournal) d)"
    using store_holds_compact [OF assms(2,3), of "yj_mergeUpdates yj" "yj_encodeStateVectorFromUpdate yj" "yj_encodeStateVector yj {}"]
      assms(4) by auto
  obtain s where s: "loadState digest opts now st = Inr s" "state_updates s = doc_updates d"
    using store_holds_loadState [OF assms(2,3)] by blast
  show ?thesis
  proof (cases ?m)
    case None
    then show ?thesis
      using holds assms(4) s ops_of_merge(3) [OF assms(1) None] by (auto simp: compactJournalToCheckpoint_def)
  next
    case (Some u)
    have u: "yj_content yj u = ops_of yj (doc_updates d)" by (rule ops_of_merge(2) [OF assms(1) Some])
    have "sv = yj_encodeStateVectorFromUpdate yj u"
      using assms(4) s Some by (auto simp: compactJournalToCheckpoint_def split: sum.splits prod.splits)
    then have "sv = yj_encodeStateVector yj (ops_of yj (doc_updates d))"
      using assms(1) u by (simp add: yjs_contract_def)
    moreover have "ops_of yj (doc_updates \<lparr> ad_checkpoint = Some (u, yj_encodeStateVectorFromUpdate yj u), ad_journal = [] \<rparr>)
        = ops_of yj (doc_updates d)"
      by (simp add: doc_updates_def u)
    ultimately show ?thesis using holds Some by auto
  qed
qed

lemma save_step_inv:
  assumes "yjs_contract yj" "save_step yj digest opts w w'" "save_inv yj digest opts w"
  shows "save_inv yj digest opts w'"
proof -
  obtain d where d: "store_holds digest opts (sw_store w) d"
      and I: "coordinator_inv yj (sw_doc w) (ops_of yj (doc_updates d)) (sw_chain w) (sw_activity w) (sw_coord w)"
    using assms(3) unfolding save_inv_def by blast
  have intro: "save_inv yj digest opts x" if "store_holds digest opts (sw_store x) d'"
      "coordinator_inv yj (sw_doc x) (ops_of yj (doc_updates d')) (sw_chain x) (sw_activity x) (sw_coord x)" for x d'
    using that unfolding save_inv_def by blast
  note on = coordinator_invD(3) [OF I]
  from assms(2) show ?thesis
  proof cases
    case (doc_update u)
    then show ?thesis using d inv_doc_update [OF assms(1) I] by (intro intro [of _ d]) simp_all
  next
    case enqueue
    then show ?thesis using d inv_enqueue [OF I] by (intro intro [of _ d]) simp_all
  next
    case (begin_save ts c s)
    have "coordinator_inv yj (sw_doc w) (ops_of yj (doc_updates d)) ts (Saving s) c"
      using I begin_save(2,3) by (intro inv_begin_save [OF assms(1) _ begin_save(4)]) simp
    then show ?thesis using d begin_save(1) by (intro intro [of _ d]) simp_all
  next
    case (append_ok delta sv drained now stats ws st c s sched)
    have ne: "delta \<noteq> []" using on append_ok(2) by simp
    obtain d' where d': "store_holds digest opts st d'"
        "ops_of yj (doc_updates d') = ops_of yj (doc_updates d) \<union> yj_content yj delta"
      using store_appended [OF d append_ok(3) ne append_ok(4), of yj] by (elim exE conjE) (rule that)
    note J = inv_append_succeeded [OF I [unfolded append_ok(2)] append_ok(5)]
    show ?thesis using d'(1) J unfolding append_ok(1) d'(2) [symmetric] by (intro intro [of _ d']) simp_all
  next
    case (append_error delta sv drained now st stats ws err c s)
    have ne: "delta \<noteq> []" using on append_error(2) by simp
    obtain d' where d': "store_holds digest opts st d'" "ops_of yj (doc_updates d') = ops_of yj (doc_updates d)
        \<or> ops_of yj (doc_updates d') = ops_of yj (doc_updates d) \<union> yj_content yj delta"
    proof (cases "st = sw_store w")
      case True
      then show thesis using that [of d] d by simp
    next
      case False
      then have "appendUpdate digest opts now delta (sw_store w) = Inr (stats, ws, st)" using append_error(4) by simp
      from store_appended [OF d append_error(3) ne this, of yj] show thesis using that by blast
    qed
    note J = inv_append_failed [OF assms(1) I [unfolded append_error(2)] d'(2) append_error(5)]
    show ?thesis using d'(1) J unfolding append_error(1) by (intro intro [of _ d']) simp_all
  next
    case (rewrite_ok im u sv delta drained now ws st c s)
    obtain d' where d': "store_holds digest opts st d'" "ops_of yj (doc_updates d') = yj_content yj u"
      using store_rewritten [OF d rewrite_ok(3,4), of yj] by (elim exE conjE) (rule that)
    note J = inv_rewrite_succeeded [OF I [unfolded rewrite_ok(2)] rewrite_ok(5)]
    show ?thesis using d'(1) J unfolding rewrite_ok(1) d'(2) [symmetric] by (intro intro [of _ d']) simp_all
  next
    case (rewrite_error im u sv delta drained now st ws err c s)
    obtain d' where d': "store_holds digest opts st d'"
        "ops_of yj (doc_updates d') = ops_of yj (doc_updates d) \<or> ops_of yj (doc_updates d') = yj_content yj u"
    proof (cases "st = sw_store w")
      case True
      then show thesis using that [of d] d by simp
    next
      case False
      then have "rewriteCheckpoint digest opts now u sv (sw_store w) = Inr (ws, st)" using rewrite_error(4) by simp
      from store_rewritten [OF d rewrite_error(3) this, of yj] show thesis using that by blast
    qed
    have "ops_of yj (doc_updates d) \<subseteq> ops_of yj (doc_updates d')" "ops_of yj (doc_updates d') \<subseteq> sw_doc w"
        "ops_of yj drained \<subseteq> sw_doc w"
        "sw_doc w \<subseteq> ops_of yj (doc_updates d) \<union> ops_of yj (pc_pendingUpdates (sw_coord w)) \<union> ops_of yj drained"
      using d'(2) on rewrite_error(2) coordinator_invD(1) [OF I] by auto
    note J = inv_fallback_failed [OF I [unfolded rewrite_error(2)] this rewrite_error(5)]
    show ?thesis using d'(1) J unfolding rewrite_error(1) by (intro intro [of _ d']) simp_all
  next
    case (stats_ok im drained now stats c s)
    note J = inv_stats_read [OF I [unfolded stats_ok(2)] stats_ok(4)]
    show ?thesis using d J unfolding stats_ok(1) by (intro intro [of _ d]) simp_all
  next
    case (stats_error im drained err c s)
    have "ops_of yj drained \<subseteq> sw_doc w"
        "sw_doc w \<subseteq> ops_of yj (doc_updates d) \<union> ops_of yj (pc_pendingUpdates (sw_coord w)) \<union> ops_of yj drained"
      using on stats_error(2) by auto
    note J = inv_fallback_failed [OF I [unfolded stats_error(2)] subset_refl coordinator_invD(1) [OF I] this stats_error(3)]
    show ?thesis using d J unfolding stats_error(1) by (intro intro [of _ d]) simp_all
  next
    case (finish_save r)
    note J = inv_finish [OF I [unfolded finish_save(2)]]
    show ?thesis using d J unfolding finish_save(1) by (intro intro [of _ d]) simp_all
  next
    case (begin_compaction before ts)
    note J = inv_begin_compaction [OF I [unfolded begin_compaction(2,3)]]
    show ?thesis using d J unfolding begin_compaction(1) by (intro intro [of _ d]) simp_all
  next
    case (compaction_ok before now sv stats st)
    obtain d' where d': "store_holds digest opts st d'" "ops_of yj (doc_updates d') = ops_of yj (doc_updates d)"
        and sv: "sv = yj_encodeStateVector yj (ops_of yj (doc_updates d))"
      using store_compacted [OF assms(1) d compaction_ok(3,4)] by (elim exE conjE) (rule that)
    note J = inv_compaction_succeeded [OF I [unfolded compaction_ok(2)] sv, of stats]
    show ?thesis using d'(1) J unfolding compaction_ok(1) d'(2) [symmetric] by (intro intro [of _ d']) simp_all
  next
    case (compaction_error before now st sv stats err)
    obtain d' where d': "store_holds digest opts st d'" "ops_of yj (doc_updates d') = ops_of yj (doc_updates d)"
    proof (cases "st = sw_store w")
      case True
      then show thesis using that [of d] d by simp
    next
      case False
      then have "compactJournalToCheckpoint digest (yj_mergeUpdates yj) (yj_encodeStateVectorFromUpdate yj)
          (yj_encodeStateVector yj {}) opts now (sw_store w) = Inr (sv, stats, st)"
        using compaction_error(4) by simp
      from store_compacted [OF assms(1) d compaction_error(3) this] show thesis using that by blast
    qed
    note J = inv_compaction_failed [OF I [unfolded compaction_error(2)], of err]
    show ?thesis using d'(1) J unfolding compaction_error(1) d'(2) [symmetric] by (intro intro [of _ d']) simp_all
  qed
qed

section \<open>Reachable worlds\<close>

text \<open>Everything that can happen after a load: a store whose calls succeeded so far, its content as
  the document, and a fresh coordinator.\<close>

inductive save_reachable ::
  "'op yjs \<Rightarrow> (byte list \<Rightarrow> byte list) \<Rightarrow> store_options \<Rightarrow> 'op save_world \<Rightarrow> bool"
  for yj digest opts where
  loaded: "store_holds digest opts st d \<Longrightarrow>
    save_reachable yj digest opts (loaded_world yj (ops_of yj (doc_updates d)) st (newPersistenceCoordinator f e b))"
| step: "save_reachable yj digest opts w \<Longrightarrow> save_step yj digest opts w w' \<Longrightarrow> save_reachable yj digest opts w'"

lemma loaded_inv:
  assumes "store_holds digest opts st d"
  shows "save_inv yj digest opts (loaded_world yj (ops_of yj (doc_updates d)) st (newPersistenceCoordinator f e b))"
proof -
  have "coordinator_inv yj (ops_of yj (doc_updates d)) (ops_of yj (doc_updates d)) [] Idle
      (setInitialStateVector (yj_encodeStateVector yj (ops_of yj (doc_updates d))) (newPersistenceCoordinator f e b))"
    by (auto simp: coordinator_inv_def setInitialStateVector_def newPersistenceCoordinator_def persisted_vector_ok_def
        flags_ok_def queued_saves_def)
  then show ?thesis using assms by (auto simp: save_inv_def loaded_world_def)
qed

lemma save_reachable_inv:
  assumes "yjs_contract yj" "save_reachable yj digest opts w"
  shows "save_inv yj digest opts w"
  using assms(2)
proof induction
  case (loaded st d f e b)
  then show ?case by (rule loaded_inv)
next
  case (step w w')
  then show ?case using save_step_inv [OF assms(1)] by blast
qed

lemma stored_ops_eq:
  assumes "store_holds digest opts st d" "now \<noteq> []"
  shows "stored_ops yj digest opts now st = ops_of yj (doc_updates d)"
proof -
  obtain s where "loadState digest opts now st = Inr s" "state_updates s = doc_updates d"
    using store_holds_loadState [OF assms] by blast
  then show ?thesis by (simp add: stored_ops_def ops_of_def)
qed

lemma save_reachableD:
  assumes "yjs_contract yj" "save_reachable yj digest opts w" "now \<noteq> []"
  shows "coordinator_inv yj (sw_doc w) (stored_ops yj digest opts now (sw_store w)) (sw_chain w) (sw_activity w) (sw_coord w)"
proof -
  obtain d where "store_holds digest opts (sw_store w) d"
      "coordinator_inv yj (sw_doc w) (ops_of yj (doc_updates d)) (sw_chain w) (sw_activity w) (sw_coord w)"
    using save_reachable_inv [OF assms(1,2)] unfolding save_inv_def by blast
  then show ?thesis by (simp add: stored_ops_eq [OF _ assms(3)])
qed

fun updates_in_flight :: "activity \<Rightarrow> byte list list" where
  "updates_in_flight (Saving (AwaitAppend delta sv drained)) = drained"
| "updates_in_flight (Saving (AwaitRewrite im u sv delta drained)) = drained"
| "updates_in_flight _ = []"

text \<open>Bytes as operations: a contract instance that computes.\<close>

definition byte_yjs :: "byte yjs" where
  "byte_yjs = \<lparr> yj_content = set, yj_encodeStateVector = sorted_list_of_set,
     yj_encodeStateAsUpdate = (\<lambda>D base. sorted_list_of_set (case base of None \<Rightarrow> D | Some v \<Rightarrow> D - set v)),
     yj_mergeUpdates = concat, yj_encodeStateVectorFromUpdate = (\<lambda>u. sorted_list_of_set (set u)) \<rparr>"

lemma byte_yjs_contract: "yjs_contract byte_yjs"
  by (simp add: yjs_contract_def byte_yjs_def)

definition small_options :: store_options where
  "small_options = \<lparr> os_chunkSizeBytes = 2, os_maxKeysPerOperation = 2 \<rparr>"

definition zero_digest :: "byte list \<Rightarrow> byte list" where
  "zero_digest b = replicate 32 0"

definition empty_world :: "int option \<Rightarrow> byte save_world" where
  "empty_world entries = loaded_world byte_yjs {} (\<lambda>_. None) (newPersistenceCoordinator None entries None)"

lemma small_ok: "options_ok small_options" "sha256_contract zero_digest"
  by (simp_all add: options_ok_def small_options_def sha256_contract_def zero_digest_def)

lemma empty_reachable: "save_reachable byte_yjs zero_digest small_options (empty_world e)"
  using save_reachable.loaded [OF store_holds_empty [OF small_ok], of byte_yjs None e None]
  by (simp add: empty_world_def doc_updates_def)

section \<open>Properties\<close>

text \<open>
  C2: no accepted operation is ever lost.  Whatever saves, failures, fallbacks, compactions and edits
  happened in whatever order, every operation of the server's document is in storage, or pending, or
  in the save that is under way; and storage holds nothing the document does not have.
\<close>

theorem no_operation_lost:
  assumes "yjs_contract yj" "save_reachable yj digest opts w" "now \<noteq> []"
  shows "sw_doc w \<subseteq> stored_ops yj digest opts now (sw_store w)
      \<union> ops_of yj (pc_pendingUpdates (sw_coord w)) \<union> ops_of yj (updates_in_flight (sw_activity w))
    \<and> stored_ops yj digest opts now (sw_store w) \<subseteq> sw_doc w"
proof -
  note I = coordinator_invD [OF save_reachableD [OF assms]]
  show ?thesis using I(1,3) by (cases "(sw_activity w)" rule: updates_in_flight.cases) auto
qed

definition edited_world :: "byte save_world" where
  "edited_world = (empty_world None)\<lparr> sw_doc := {1},
     sw_coord := recordIncrementalUpdate [1] (sw_coord (empty_world None)) \<rparr>"

lemma edited_reachable: "save_reachable byte_yjs zero_digest small_options edited_world"
  using save_reachable.step [OF empty_reachable save_step.doc_update [of _ _ _ _ "[1]"], of None]
  by (simp add: edited_world_def empty_world_def loaded_world_def byte_yjs_def)

theorem no_operation_lost_witness:
  "sw_doc edited_world \<subseteq> stored_ops byte_yjs zero_digest small_options [50] (sw_store edited_world)
      \<union> ops_of byte_yjs (pc_pendingUpdates (sw_coord edited_world))
      \<union> ops_of byte_yjs (updates_in_flight (sw_activity edited_world))
    \<and> stored_ops byte_yjs zero_digest small_options [50] (sw_store edited_world) \<subseteq> sw_doc edited_world"
  by (rule no_operation_lost [OF byte_yjs_contract edited_reachable]) simp

text \<open>
  C14: the health report is honest about durability.  Whenever \<^verbatim>\<open>pendingPersistence\<close> is false, every
  operation of the document is in storage, nothing is pending and no save is queued or running.
\<close>

theorem persistence_flag_truthful:
  assumes "yjs_contract yj" "save_reachable yj digest opts w" "now \<noteq> []"
    and "\<not> ph_pendingPersistence (pc_health (sw_coord w))"
  shows "sw_doc w = stored_ops yj digest opts now (sw_store w) \<and> pc_pendingUpdates (sw_coord w) = []
    \<and> queued_saves (sw_chain w) (sw_activity w) = 0"
proof -
  note I = coordinator_invD [OF save_reachableD [OF assms(1-3)]]
  have "queued_saves (sw_chain w) (sw_activity w) = 0" "pc_pendingUpdates (sw_coord w) = []"
    using I(5) assms(4) by (simp_all add: flags_ok_def)
  then show ?thesis using I(1,3) by (cases "sw_activity w") (auto simp: queued_saves_def)
qed

theorem persistence_flag_truthful_witness:
  "sw_doc (empty_world None) = stored_ops byte_yjs zero_digest small_options [50] (sw_store (empty_world None))
    \<and> pc_pendingUpdates (sw_coord (empty_world None)) = []
    \<and> queued_saves (sw_chain (empty_world None)) (sw_activity (empty_world None)) = 0"
  by (rule persistence_flag_truthful [OF byte_yjs_contract empty_reachable])
    (simp_all add: empty_world_def loaded_world_def setInitialStateVector_def newPersistenceCoordinator_def)



text \<open>Storage never forgets: no step, even one that fails half-way, removes an operation from it.\<close>

lemma store_grows:
  assumes "yjs_contract yj" "save_reachable yj digest opts w" "now \<noteq> []" "save_step yj digest opts w w'"
  shows "stored_ops yj digest opts now (sw_store w) \<subseteq> stored_ops yj digest opts now (sw_store w')"
proof -
  obtain d where d: "store_holds digest opts (sw_store w) d"
    using save_reachable_inv [OF assms(1,2)] unfolding save_inv_def by blast
  note eq = stored_ops_eq [OF _ assms(3), of digest opts _ _ yj]
  note on = coordinator_invD(3) [OF save_reachableD [OF assms(1-3)]]
  have appended: "stored_ops yj digest opts now (sw_store w) \<subseteq> stored_ops yj digest opts now st"
    if "sw_activity w = Saving (AwaitAppend delta sv drained)" "t \<noteq> []"
      "appendUpdate digest opts t delta (sw_store w) = Inr (stats, ws, st)" for delta sv drained t stats ws st
  proof -
    have "delta \<noteq> []" using on that(1) by simp
    from store_appended [OF d that(2) this that(3), of yj] show ?thesis using eq d by auto
  qed
  have rewritten: "stored_ops yj digest opts now (sw_store w) \<subseteq> stored_ops yj digest opts now st"
    if "sw_activity w = Saving (AwaitRewrite im u sv delta drained)" "t \<noteq> []"
      "rewriteCheckpoint digest opts t u sv (sw_store w) = Inr (ws, st)" for im u sv delta drained t ws st
  proof -
    have "stored_ops yj digest opts now (sw_store w) \<subseteq> yj_content yj u" using on that(1) by simp
    with store_rewritten [OF d that(2,3), of yj] show ?thesis using eq by auto
  qed
  have compacted: "stored_ops yj digest opts now (sw_store w) \<subseteq> stored_ops yj digest opts now st"
    if "t \<noteq> []" "compactJournalToCheckpoint digest (yj_mergeUpdates yj) (yj_encodeStateVectorFromUpdate yj)
      (yj_encodeStateVector yj {}) opts t (sw_store w) = Inr (sv, stats, st)" for t sv stats st
    using store_compacted [OF assms(1) d that] eq d by auto
  from assms(4) show ?thesis
  proof cases
    case (append_error delta sv drained t st stats ws err c s)
    then show ?thesis using appended [OF append_error(2,3)] by (elim disjE) simp_all
  next
    case (rewrite_error im u sv delta drained t st ws err c s)
    then show ?thesis using rewritten [OF rewrite_error(2,3)] by (elim disjE) simp_all
  next
    case (compaction_error before t st sv stats err)
    then show ?thesis using compacted [OF compaction_error(3)] by (elim disjE) simp_all
  next
    case (append_ok delta sv drained t stats ws st c s sched)
    then show ?thesis using appended [OF append_ok(2,3,4)] by simp
  next
    case (rewrite_ok im u sv delta drained t ws st c s)
    then show ?thesis using rewritten [OF rewrite_ok(2,3,4)] by simp
  next
    case (compaction_ok before t sv stats st)
    then show ?thesis using compacted [OF compaction_ok(3,4)] by simp
  qed simp_all
qed

lemma store_grows_run:
  assumes "yjs_contract yj" "save_reachable yj digest opts w" "now \<noteq> []" "(save_step yj digest opts)\<^sup>*\<^sup>* w w'"
  shows "stored_ops yj digest opts now (sw_store w) \<subseteq> stored_ops yj digest opts now (sw_store w')
    \<and> save_reachable yj digest opts w'"
  using assms(4)
proof (induction rule: rtranclp_induct)
  case base
  show ?case using assms(2) by simp
next
  case (step v w')
  then show ?case
    using store_grows [OF assms(1) _ assms(3) step(2)] save_reachable.step [of yj digest opts v w'] by blast
qed


section \<open>Recovery\<close>







section \<open>A compaction behind a failed save\<close>

lemma begin_append:
  assumes "pc_pendingUpdates c = [u]" "u \<noteq> []"
    and "pc_consecutiveSaveFailures c < pc_checkpointFallbackAfterFailures c"
  shows "\<exists>c'. executeSave_begin yj doc c = (c', AwaitAppend u (yj_encodeStateVector yj doc) [u])
    \<and> pc_pendingUpdates c' = [] \<and> pc_consecutiveSaveFailures c' = pc_consecutiveSaveFailures c
    \<and> pc_checkpointFallbackAfterFailures c' = pc_checkpointFallbackAfterFailures c
    \<and> pc_journalCompactMaxEntries c' = pc_journalCompactMaxEntries c"
  using assms by (auto simp: executeSave_begin_def save_delta_def setPhase_def Let_def)

lemma appended_first:
  assumes "now \<noteq> []" "u \<noteq> []"
  shows "\<exists>stats ws st. appendUpdate zero_digest small_options now u (\<lambda>_. None) = Inr (stats, ws, st)
    \<and> js_entryCount stats = 1
    \<and> store_holds zero_digest small_options st \<lparr> ad_checkpoint = None, ad_journal = [u] \<rparr>"
proof -
  have J: "loadJournal zero_digest small_options now (\<lambda>_. None) = Inr (emptyJournalMeta now, [])"
    by (simp add: loadJournal_def readJournalMeta_def emptyJournalMeta_def)
  obtain ws st where "appendUpdate zero_digest small_options now u (\<lambda>_. None) =
      Inr (journalStatsFromMeta (appended_meta now u (emptyJournalMeta now)), Some ws, st)"
    using appendUpdate_journal [OF small_ok assms J] by blast
  then show ?thesis
    using store_holds_append [OF store_holds_empty [OF small_ok] assms(1), of u] assms(2)
    by (auto simp: journalStatsFromMeta_def appended_meta_def emptyJournalMeta_def)
qed

text \<open>A save is under way whose append will schedule a compaction behind a second, queued save.\<close>

definition two_saves_world :: "byte save_world" where
  "two_saves_world = (empty_world (Some 0))\<lparr> sw_doc := {1},
     sw_coord := enqueueSave_now (enqueueSave_now (recordIncrementalUpdate [1] (sw_coord (empty_world (Some 0))))),
     sw_chain := [SaveTask, SaveTask] \<rparr>"

lemma two_saves_reachable: "save_reachable byte_yjs zero_digest small_options two_saves_world"
proof -
  have "save_reachable byte_yjs zero_digest small_options ((empty_world (Some 0))\<lparr> sw_doc := {1},
     sw_coord := recordIncrementalUpdate [1] (sw_coord (empty_world (Some 0))) \<rparr>)"
    using save_reachable.step [OF empty_reachable save_step.doc_update [of _ _ _ _ "[1]"], of "Some 0"]
    by (simp add: empty_world_def loaded_world_def byte_yjs_def)
  from save_reachable.step [OF save_reachable.step [OF this save_step.enqueue] save_step.enqueue]
  show ?thesis by (simp add: two_saves_world_def empty_world_def loaded_world_def)
qed

lemma failed_behind_append:
  "\<exists>w stats. save_reachable byte_yjs zero_digest small_options w \<and> sw_activity w = Compacting stats
    \<and> sw_chain w = [] \<and> 2 \<in> sw_doc w
    \<and> ph_consecutiveSaveFailures (pc_health (sw_coord w)) = 1
    \<and> ph_lastSaveError (pc_health (sw_coord w)) \<noteq> None
    \<and> store_holds zero_digest small_options (sw_store w) \<lparr> ad_checkpoint = None, ad_journal = [[1]] \<rparr>"
proof -
  let ?R = "save_reachable byte_yjs zero_digest small_options"
  let ?c = "sw_coord two_saves_world"
  have c: "pc_pendingUpdates ?c = [[1]]" "pc_consecutiveSaveFailures ?c = 0"
      "pc_checkpointFallbackAfterFailures ?c = 2" "pc_journalCompactMaxEntries ?c = 0"
    and w: "sw_activity two_saves_world = Idle" "sw_chain two_saves_world = [SaveTask, SaveTask]"
      "sw_doc two_saves_world = {1}" "sw_store two_saves_world = (\<lambda>_. None)"
    by (simp_all add: two_saves_world_def empty_world_def loaded_world_def setInitialStateVector_def
        newPersistenceCoordinator_def recordIncrementalUpdate_def enqueueSave_now_def CHECKPOINT_FALLBACK_AFTER_FAILURES_def)
  obtain c1 sv1 where b1: "executeSave_begin byte_yjs {1} ?c = (c1, AwaitAppend [1] sv1 [[1]])"
      "pc_pendingUpdates c1 = []" "pc_checkpointFallbackAfterFailures c1 = 2" "pc_journalCompactMaxEntries c1 = 0"
    using begin_append [of ?c "[1]" byte_yjs "{1}"] c by auto
  define w1 where "w1 = two_saves_world\<lparr> sw_coord := c1, sw_chain := [SaveTask], sw_activity := Saving (AwaitAppend [1] sv1 [[1]]) \<rparr>"
  have r1: "?R w1" unfolding w1_def
    by (rule save_reachable.step [OF two_saves_reachable save_step.begin_save]) (use w b1 in simp_all)
  obtain stats ws st where a: "appendUpdate zero_digest small_options [50] [1] (\<lambda>_. None) = Inr (stats, ws, st)"
      "js_entryCount stats = 1" "store_holds zero_digest small_options st \<lparr> ad_checkpoint = None, ad_journal = [[1]] \<rparr>"
    using appended_first [of "[50]" "[1]"] by auto
  obtain c2 s2 where a2: "append_succeeded stats [1] sv1 c1 = (c2, SaveDone s2, Some stats)" "pc_pendingUpdates c2 = []"
      "pc_checkpointFallbackAfterFailures c2 = 2" "pc_consecutiveSaveFailures c2 = 0"
    using a(2) b1 by (auto simp: append_succeeded_def)
  define w2 where "w2 = w1\<lparr> sw_store := st, sw_coord := c2, sw_activity := Saving (SaveDone s2), sw_chain := [SaveTask, CompactTask stats] \<rparr>"
  have "save_step byte_yjs zero_digest small_options w1 (w1\<lparr> sw_store := st, sw_coord := c2,
      sw_activity := Saving (SaveDone s2), sw_chain := sw_chain w1 @ (case Some stats of Some j \<Rightarrow> [CompactTask j] | None \<Rightarrow> []) \<rparr>)"
    by (rule save_step.append_ok [where now = "[50]" and drained = "[[1]]" and ws = ws and delta = "[1]" and sv = sv1 and stats = stats])
      (use a(1) a2(1) w in \<open>simp_all add: w1_def\<close>)
  then have r2: "?R w2" using save_reachable.step [OF r1] by (simp add: w1_def w2_def)
  define c3 where "c3 = recordIncrementalUpdate [2] (enqueueSave_finally c2)"
  define w3 where "w3 = w2\<lparr> sw_activity := Idle, sw_doc := {1, 2}, sw_coord := c3 \<rparr>"
  have r3: "?R w3"
    using save_reachable.step [OF save_reachable.step [OF r2 save_step.finish_save] save_step.doc_update [of _ _ _ _ "[2]"]] w
    by (simp add: w1_def w2_def w3_def c3_def byte_yjs_def insert_commute)
  have c3: "pc_pendingUpdates c3 = [[2]]" "pc_consecutiveSaveFailures c3 = 0" "pc_checkpointFallbackAfterFailures c3 = 2"
    using a2 by (simp_all add: c3_def recordIncrementalUpdate_def enqueueSave_finally_def Let_def)
  obtain c4 sv4 where b4: "executeSave_begin byte_yjs {1, 2} c3 = (c4, AwaitAppend [2] sv4 [[2]])"
      "pc_consecutiveSaveFailures c4 = 0" "pc_checkpointFallbackAfterFailures c4 = 2"
    using begin_append [of c3 "[2]" byte_yjs "{1, 2}"] c3 by auto
  define w4 where "w4 = w3\<lparr> sw_coord := c4, sw_chain := [CompactTask stats], sw_activity := Saving (AwaitAppend [2] sv4 [[2]]) \<rparr>"
  have r4: "?R w4" unfolding w4_def
    by (rule save_reachable.step [OF r3 save_step.begin_save]) (use b4(1) in \<open>simp_all add: w3_def w2_def\<close>)
  obtain c5 s5 where e5: "append_failed byte_yjs {1, 2} ([], []) [2] [[2]] c4 = (c5, SaveDone s5)"
      "ph_consecutiveSaveFailures (pc_health c5) = 1" "ph_lastSaveError (pc_health c5) \<noteq> None"
    using b4(2,3) by (auto simp: append_failed_def note_failure_def restorePendingUpdates_def Let_def)
  define w5 where "w5 = w4\<lparr> sw_coord := c5, sw_activity := Saving (SaveDone s5) \<rparr>"
  have "save_step byte_yjs zero_digest small_options w4
      (w4\<lparr> sw_store := sw_store w4, sw_coord := c5, sw_activity := Saving (SaveDone s5) \<rparr>)"
    by (rule save_step.append_error [where now = "[50]" and drained = "[[2]]" and err = "([], [])" and delta = "[2]" and sv = sv4])
      (use e5(1) in \<open>simp_all add: w4_def w3_def w2_def\<close>)
  then have r5: "?R w5" using save_reachable.step [OF r4] by (simp add: w5_def)
  define w6 where "w6 = w5\<lparr> sw_coord := executeCompaction_begin (enqueueSave_finally c5), sw_chain := [], sw_activity := Compacting stats \<rparr>"
  have r6: "?R w6"
    using save_reachable.step [OF save_reachable.step [OF r5 save_step.finish_save] save_step.begin_compaction [where before = stats and ts = "[]"]]
    by (simp add: w6_def w5_def w4_def)
  show ?thesis
    by (intro exI [of _ w6] exI [of _ stats])
      (use r6 e5(2,3) a(3) in \<open>simp add: w6_def w5_def w4_def w3_def w2_def executeCompaction_begin_def enqueueSave_finally_def
        setPhase_def Let_def\<close>)
qed

text \<open>
  C35: a compaction that runs behind a failed save reports health although operations are missing
  from storage.  A save is appended and schedules a compaction; the next save, already queued, fails;
  then the compaction succeeds, sets the status to healthy and forgets the failure, while the report
  still counts one consecutive failure with its error, and the failed operation is only in memory.
\<close>

theorem compaction_hides_failed_save:
  "\<exists>w. save_reachable byte_yjs zero_digest small_options w \<and> sw_activity w = Idle \<and> sw_chain w = []
    \<and> ph_status (pc_health (sw_coord w)) = Healthy \<and> pc_consecutiveSaveFailures (sw_coord w) = 0
    \<and> ph_consecutiveSaveFailures (pc_health (sw_coord w)) = 1
    \<and> ph_lastSaveError (pc_health (sw_coord w)) \<noteq> None
    \<and> \<not> sw_doc w \<subseteq> stored_ops byte_yjs zero_digest small_options [50] (sw_store w)"
proof -
  obtain w before where w: "save_reachable byte_yjs zero_digest small_options w" "sw_activity w = Compacting before"
      "sw_chain w = []" "2 \<in> sw_doc w" "ph_consecutiveSaveFailures (pc_health (sw_coord w)) = 1"
      "ph_lastSaveError (pc_health (sw_coord w)) \<noteq> None"
      "store_holds zero_digest small_options (sw_store w) \<lparr> ad_checkpoint = None, ad_journal = [[1]] \<rparr>"
    using failed_behind_append by blast
  obtain sv stats st where k: "compactJournalToCheckpoint zero_digest (yj_mergeUpdates byte_yjs)
      (yj_encodeStateVectorFromUpdate byte_yjs) (yj_encodeStateVector byte_yjs {}) small_options [50] (sw_store w) = Inr (sv, stats, st)"
    using store_holds_compact [OF w(7), of "[50]"] by blast
  have "stored_ops byte_yjs zero_digest small_options [50] st = {1}"
    using store_compacted [OF byte_yjs_contract w(7) _ k] stored_ops_eq [of zero_digest small_options st _ "[50]" byte_yjs]
    by (auto simp: doc_updates_def byte_yjs_def)
  then show ?thesis
    using save_reachable.step [OF w(1) save_step.compaction_ok [OF w(2) _ k]] w(3-6)
    by (intro exI [of _ "w\<lparr> sw_store := st, sw_coord := compaction_succeeded before sv stats (sw_coord w), sw_activity := Idle \<rparr>"])
      (auto simp: compaction_succeeded_def)
qed

end
