(* ===== verification/Receipt.thy ===== *)
theory Receipt
  imports ServerAck Persistence
begin

text \<open>
  The receipt from end to end: the tracker of a client (theory \<open>ServerAck\<close>) against the save
  coordinator of the server (theory \<open>Persistence\<close>), which sends its persisted state vector as the
  echo.
\<close>








end
