(* ===== verification/BlobIntents.thy ===== *)
theory BlobIntents
  imports Digits
begin

text \<open>
  The journal of attachment mutations that were observed before the provider had supplied the shared
  state: \<^verbatim>\<open>src/src/sync/pendingBlobIntentJournal.ts\<close>, with the write-ahead commit of one intent in
  \<^verbatim>\<open>pendingBlobIntentCommit.ts\<close>, its retirement in \<^verbatim>\<open>pendingBlobIntentRetirement.ts\<close> and the blob
  references of \<^verbatim>\<open>src/src/types.ts\<close>.

  The journal is the list \<^verbatim>\<open>entries\<close>.  Optional fields are options; \<^verbatim>\<open>normalizePath\<close> of Obsidian is the
  parameter \<open>normPath\<close>, and \<^verbatim>\<open>createIntentId\<close>, a time, a counter and a random part, is the argument
  \<open>newId\<close>.  Entries are mutated in place by the class and only clones are handed out, so no reference
  is shared and a list of records is enough.
\<close>

section \<open>Blob references\<close>

record blob_ref =
  br_hash :: hash
  br_size :: int
  br_priorHashes :: "hash list option"

definition MAX_BLOB_REF_PRIOR_HASHES :: nat where "MAX_BLOB_REF_PRIOR_HASHES = 16"

definition isSha256Hex :: "jsstr \<Rightarrow> bool" where
  "isSha256Hex s \<longleftrightarrow>
     length s = 64 \<and> list_all (\<lambda>c. (48 \<le> c \<and> c \<le> 57) \<or> (97 \<le> c \<and> c \<le> 102)) s"

text \<open>\<^verbatim>\<open>Array.from(new Set(xs))\<close>: first occurrences, in order.\<close>

definition js_unique :: "'a list \<Rightarrow> 'a list" where
  "js_unique xs = rev (remdups (rev xs))"

definition getBlobRefPriorHashes :: "blob_ref option \<Rightarrow> hash list" where
  "getBlobRefPriorHashes ref =
     (case ref of
        None \<Rightarrow> []
      | Some r \<Rightarrow>
          (case br_priorHashes r of
             None \<Rightarrow> []
           | Some hs \<Rightarrow>
               if length hs > MAX_BLOB_REF_PRIOR_HASHES \<or> list_ex (\<lambda>h. \<not> isSha256Hex h) hs then []
               else js_unique hs))"

definition make_ref :: "hash \<Rightarrow> int \<Rightarrow> hash list \<Rightarrow> blob_ref" where
  "make_ref h sz prior = \<lparr> br_hash = h, br_size = sz, br_priorHashes = (if length prior > 0 then Some prior else None) \<rparr>"

fun collect_prior :: "hash \<Rightarrow> hash list \<Rightarrow> hash list \<Rightarrow> hash list" where
  "collect_prior h [] acc = acc"
| "collect_prior h (c # cs) acc =
     (if \<not> isSha256Hex c \<or> c = h \<or> c \<in> set acc then collect_prior h cs acc
      else if length (acc @ [c]) = MAX_BLOB_REF_PRIOR_HASHES then acc @ [c]
      else collect_prior h cs (acc @ [c]))"

definition createCausalBlobRef :: "hash \<Rightarrow> int \<Rightarrow> blob_ref option \<Rightarrow> hash list \<Rightarrow> blob_ref" where
  "createCausalBlobRef h sz previous inherited =
     make_ref h sz
       (collect_prior h
         ((case previous of Some p \<Rightarrow> br_hash p # getBlobRefPriorHashes previous | None \<Rightarrow> []) @ inherited) [])"

definition cloneBlobRef :: "blob_ref option \<Rightarrow> blob_ref option" where
  "cloneBlobRef ref =
     (case ref of None \<Rightarrow> None | Some r \<Rightarrow> Some (make_ref (br_hash r) (br_size r) (getBlobRefPriorHashes ref)))"

definition sameBlobRef :: "blob_ref option \<Rightarrow> blob_ref option \<Rightarrow> bool" where
  "sameBlobRef left right =
     (case left of
        None \<Rightarrow> right = None
      | Some l \<Rightarrow>
          (case right of
             None \<Rightarrow> False
           | Some r \<Rightarrow>
               if br_hash l \<noteq> br_hash r \<or> br_size l \<noteq> br_size r then False
               else getBlobRefPriorHashes left = getBlobRefPriorHashes right))"

section \<open>Intents\<close>

record intent_scope =
  is_host :: jsstr
  is_vaultId :: jsstr
  is_localDeviceId :: jsstr

record mutation_base =
  mb_known :: bool
  mb_ref :: "blob_ref option"
  mb_sourceVersionKnown :: "bool option"
  mb_expectedSourceVersion :: "jsstr option"

datatype intent_kind = IntentDelete path | IntentRename path path

record blob_intent =
  bi_kind :: intent_kind
  bi_id :: jsstr
  bi_recordedAt :: int
  bi_scope :: intent_scope
  bi_baseRefKnown :: bool
  bi_expectedSourceRef :: "blob_ref option"
  bi_sourceVersionKnown :: "bool option"
  bi_expectedSourceVersion :: "jsstr option"
  bi_commitAttemptId :: "jsstr option"
  bi_attemptedAt :: "int option"
  bi_attemptSessionId :: "jsstr option"
  bi_committedAt :: "int option"
  bi_receiptCandidateId :: "jsstr option"
  bi_commitSessionId :: "jsstr option"
  bi_commitDeleteFingerprint :: "jsstr option"

fun intent_paths :: "intent_kind \<Rightarrow> path list" where
  "intent_paths (IntentDelete p) = [p]"
| "intent_paths (IntentRename a b) = [a, b]"

definition pendingBlobIntentsOverlap :: "blob_intent \<Rightarrow> blob_intent \<Rightarrow> bool" where
  "pendingBlobIntentsOverlap left right \<longleftrightarrow>
     list_ex (\<lambda>p. p \<in> set (intent_paths (bi_kind left))) (intent_paths (bi_kind right))"

definition MAX_SAFE_INTEGER :: int where "MAX_SAFE_INTEGER = 9007199254740991"

definition isBlobSourceVersion :: "jsstr \<Rightarrow> bool" where
  "isBlobSourceVersion s =
     (let client = takeWhile (\<lambda>c. c \<noteq> 58) s; rest = dropWhile (\<lambda>c. c \<noteq> 58) s; clock = drop 1 rest;
          digits = (\<lambda>t. t \<noteq> [] \<and> list_all (\<lambda>c. 48 \<le> c \<and> c \<le> 57) t);
          safe = (\<lambda>t. int (digits_val 10 t) \<le> MAX_SAFE_INTEGER)
      in rest \<noteq> [] \<and> digits client \<and> digits clock \<and> safe client \<and> safe clock)"

definition isValidTimestamp :: "int \<Rightarrow> bool" where
  "isValidTimestamp t \<longleftrightarrow> 0 \<le> t \<and> t \<le> MAX_SAFE_INTEGER"

definition isReadyToCommit :: "blob_intent \<Rightarrow> bool" where
  "isReadyToCommit i \<longleftrightarrow>
     bi_commitAttemptId i = None \<and> bi_attemptedAt i = None \<and> bi_attemptSessionId i = None
     \<and> bi_committedAt i = None \<and> bi_receiptCandidateId i = None \<and> bi_commitSessionId i = None
     \<and> bi_commitDeleteFingerprint i = None"

definition hasExactCommitAttempt :: "blob_intent \<Rightarrow> jsstr \<Rightarrow> bool" where
  "hasExactCommitAttempt i attempt \<longleftrightarrow>
     bi_commitAttemptId i = Some attempt \<and> bi_attemptedAt i \<noteq> None \<and> bi_attemptSessionId i \<noteq> None
     \<and> bi_committedAt i = None \<and> bi_receiptCandidateId i = None \<and> bi_commitSessionId i = None
     \<and> bi_commitDeleteFingerprint i = None"

definition cloneIntent :: "blob_intent \<Rightarrow> blob_intent" where
  "cloneIntent i = i\<lparr> bi_expectedSourceRef := cloneBlobRef (bi_expectedSourceRef i) \<rparr>"

section \<open>The journal\<close>

type_synonym intent_journal = "blob_intent list"

fun removeIntent :: "jsstr \<Rightarrow> intent_journal \<Rightarrow> bool \<times> intent_journal" where
  "removeIntent k [] = (False, [])"
| "removeIntent k (e # es) =
     (if bi_id e = k then (True, es) else let (found, rest) = removeIntent k es in (found, e # rest))"

fun rename_target :: "intent_kind \<Rightarrow> path option" where
  "rename_target (IntentRename a b) = Some b"
| "rename_target _ = None"

fun rename_source :: "intent_kind \<Rightarrow> path option" where
  "rename_source (IntentRename a b) = Some a"
| "rename_source _ = None"

definition ready_in :: "intent_scope \<Rightarrow> blob_intent \<Rightarrow> bool" where
  "ready_in scope e \<longleftrightarrow> bi_scope e = scope \<and> isReadyToCommit e"

definition base_of :: "blob_intent \<Rightarrow> mutation_base" where
  "base_of e =
     \<lparr> mb_known = bi_baseRefKnown e, mb_ref = cloneBlobRef (bi_expectedSourceRef e),
       mb_sourceVersionKnown = Some (bi_sourceVersionKnown e = Some True),
       mb_expectedSourceVersion = bi_expectedSourceVersion e \<rparr>"

lemma removeIntent_shorter: "k \<in> bi_id ` set es \<Longrightarrow> length (snd (removeIntent k es)) < length es"
  by (induction es) (auto simp: case_prod_beta Let_def)

text \<open>
  The loop of \<^verbatim>\<open>recordDelete\<close>: as long as a ready rename ends at the path, continue with its source
  and drop it.  It ends because every round removes an entry.
\<close>

function follow_renames ::
  "intent_scope \<Rightarrow> path \<Rightarrow> mutation_base \<Rightarrow> intent_journal \<Rightarrow> path \<times> mutation_base \<times> intent_journal" where
  "follow_renames scope p base es =
     (case find (\<lambda>e. ready_in scope e \<and> rename_target (bi_kind e) = Some p) es of
        None \<Rightarrow> (p, base, es)
      | Some e \<Rightarrow>
          follow_renames scope (the (rename_source (bi_kind e))) (base_of e) (snd (removeIntent (bi_id e) es)))"
  by pat_completeness auto
termination
  by (relation "measure (\<lambda>(scope, p, base, es). length es)")
    (auto simp: find_Some_iff intro!: removeIntent_shorter)

declare follow_renames.simps [simp del]

definition new_intent ::
  "jsstr \<Rightarrow> intent_kind \<Rightarrow> intent_scope \<Rightarrow> mutation_base \<Rightarrow> int \<Rightarrow> blob_intent" where
  "new_intent newId kind scope base recordedAt =
     \<lparr> bi_kind = kind, bi_id = newId, bi_recordedAt = recordedAt, bi_scope = scope,
       bi_baseRefKnown = mb_known base,
       bi_expectedSourceRef = (if mb_known base then cloneBlobRef (mb_ref base) else None),
       bi_sourceVersionKnown = Some (mb_sourceVersionKnown base = Some True),
       bi_expectedSourceVersion =
         (if mb_sourceVersionKnown base = Some True then mb_expectedSourceVersion base else None),
       bi_commitAttemptId = None, bi_attemptedAt = None, bi_attemptSessionId = None, bi_committedAt = None,
       bi_receiptCandidateId = None, bi_commitSessionId = None, bi_commitDeleteFingerprint = None \<rparr>"

definition recordDelete ::
  "(path \<Rightarrow> path) \<Rightarrow> jsstr \<Rightarrow> path \<Rightarrow> intent_scope \<Rightarrow> mutation_base \<Rightarrow> int \<Rightarrow> intent_journal
   \<Rightarrow> blob_intent \<times> intent_journal" where
  "recordDelete normPath newId path scope base recordedAt entries =
     (let (normalized, effectiveBase, es) = follow_renames scope (normPath path) base entries
      in case find (\<lambda>e. ready_in scope e \<and> bi_kind e = IntentDelete normalized) es of
           Some existing \<Rightarrow> (cloneIntent existing, es)
         | None \<Rightarrow>
             let es' = filter (\<lambda>e. \<not> (ready_in scope e \<and> rename_source (bi_kind e) = Some normalized)) es;
                 intent = new_intent newId (IntentDelete normalized) scope effectiveBase recordedAt
             in (cloneIntent intent, es' @ [intent]))"

text \<open>The update in place of the first entry that satisfies a predicate.\<close>

fun update_first :: "('a \<Rightarrow> bool) \<Rightarrow> ('a \<Rightarrow> 'a) \<Rightarrow> 'a list \<Rightarrow> 'a list" where
  "update_first P f [] = []"
| "update_first P f (x # xs) = (if P x then f x # xs else x # update_first P f xs)"

definition retarget :: "path \<Rightarrow> int \<Rightarrow> blob_intent \<Rightarrow> blob_intent" where
  "retarget new recordedAt e =
     (case bi_kind e of
        IntentRename a b \<Rightarrow> e\<lparr> bi_kind := IntentRename a new, bi_recordedAt := recordedAt \<rparr>
      | _ \<Rightarrow> e)"

text \<open>The pending rename to extend: one that ends at the old path, otherwise one that starts there.\<close>

definition rename_hit :: "intent_scope \<Rightarrow> path \<Rightarrow> intent_journal \<Rightarrow> blob_intent \<Rightarrow> bool" where
  "rename_hit scope old entries =
     (let ends = (\<lambda>e. ready_in scope e \<and> rename_target (bi_kind e) = Some old)
      in if list_ex ends entries then ends
         else (\<lambda>e. ready_in scope e \<and> rename_source (bi_kind e) = Some old))"

definition recordRename ::
  "(path \<Rightarrow> path) \<Rightarrow> jsstr \<Rightarrow> path \<Rightarrow> path \<Rightarrow> intent_scope \<Rightarrow> mutation_base \<Rightarrow> int \<Rightarrow> intent_journal
   \<Rightarrow> blob_intent option \<times> intent_journal" where
  "recordRename normPath newId oldPath newPath scope base recordedAt entries =
     (let old = normPath oldPath; new = normPath newPath
      in if old = [] \<or> new = [] \<or> old = new then (None, entries)
         else if list_ex (\<lambda>e. ready_in scope e \<and> bi_kind e = IntentDelete old) entries then (None, entries)
         else case find (rename_hit scope old entries) entries of
             Some existing \<Rightarrow>
               if rename_source (bi_kind existing) = Some new
               then (None, snd (removeIntent (bi_id existing) entries))
               else (Some (cloneIntent (retarget new recordedAt existing)),
                     update_first (rename_hit scope old entries) (retarget new recordedAt) entries)
           | None \<Rightarrow>
               let intent = new_intent newId (IntentRename old new) scope base recordedAt
               in (Some (cloneIntent intent), entries @ [intent]))"

definition restoreIntent :: "blob_intent \<Rightarrow> intent_journal \<Rightarrow> intent_journal" where
  "restoreIntent i entries =
     (if list_ex (\<lambda>e. bi_id e = bi_id i) entries then entries else entries @ [cloneIntent i])"

definition present_nonempty :: "jsstr option \<Rightarrow> bool" where
  "present_nonempty v = (case v of None \<Rightarrow> True | Some s \<Rightarrow> s \<noteq> [])"

text \<open>The first entry with the id, changed if it satisfies the condition of the transition.\<close>

definition transition ::
  "jsstr \<Rightarrow> (blob_intent \<Rightarrow> bool) \<Rightarrow> (blob_intent \<Rightarrow> blob_intent) \<Rightarrow> intent_journal \<Rightarrow> bool \<times> intent_journal" where
  "transition k ok f entries =
     (case find (\<lambda>e. bi_id e = k) entries of
        None \<Rightarrow> (False, entries)
      | Some e \<Rightarrow> if \<not> ok e then (False, entries) else (True, update_first (\<lambda>e. bi_id e = k) f entries))"

definition set_committed ::
  "int \<Rightarrow> jsstr \<Rightarrow> jsstr option \<Rightarrow> jsstr option \<Rightarrow> blob_intent \<Rightarrow> blob_intent" where
  "set_committed committedAt session receipt fingerprint e =
     e\<lparr> bi_commitAttemptId := None, bi_attemptedAt := None, bi_attemptSessionId := None,
        bi_committedAt := Some committedAt, bi_commitSessionId := Some session,
        bi_receiptCandidateId := receipt, bi_commitDeleteFingerprint := fingerprint \<rparr>"

definition markCommitted ::
  "jsstr \<Rightarrow> int \<Rightarrow> jsstr \<Rightarrow> jsstr option \<Rightarrow> jsstr option \<Rightarrow> intent_journal \<Rightarrow> bool \<times> intent_journal" where
  "markCommitted k committedAt session receipt fingerprint entries =
     (if \<not> isValidTimestamp committedAt \<or> session = [] \<or> \<not> present_nonempty receipt \<or> \<not> present_nonempty fingerprint
      then (False, entries)
      else transition k isReadyToCommit (set_committed committedAt session receipt fingerprint) entries)"

definition markCommitAttempted ::
  "jsstr \<Rightarrow> jsstr \<Rightarrow> int \<Rightarrow> jsstr \<Rightarrow> intent_journal \<Rightarrow> bool \<times> intent_journal" where
  "markCommitAttempted k attempt attemptedAt session entries =
     (if attempt = [] \<or> \<not> isValidTimestamp attemptedAt \<or> session = [] then (False, entries)
      else transition k isReadyToCommit
        (\<lambda>e. e\<lparr> bi_commitAttemptId := Some attempt, bi_attemptedAt := Some attemptedAt,
                bi_attemptSessionId := Some session \<rparr>) entries)"

definition clearCommitAttempt :: "jsstr \<Rightarrow> jsstr \<Rightarrow> intent_journal \<Rightarrow> bool \<times> intent_journal" where
  "clearCommitAttempt k attempt entries =
     (if attempt = [] then (False, entries)
      else transition k (\<lambda>e. hasExactCommitAttempt e attempt)
        (\<lambda>e. e\<lparr> bi_commitAttemptId := None, bi_attemptedAt := None, bi_attemptSessionId := None \<rparr>) entries)"

definition markCommittedFromAttempt ::
  "jsstr \<Rightarrow> jsstr \<Rightarrow> int \<Rightarrow> jsstr \<Rightarrow> jsstr option \<Rightarrow> jsstr option \<Rightarrow> intent_journal \<Rightarrow> bool \<times> intent_journal" where
  "markCommittedFromAttempt k attempt committedAt session receipt fingerprint entries =
     (if attempt = [] \<or> \<not> isValidTimestamp committedAt \<or> session = [] \<or> \<not> present_nonempty receipt
          \<or> \<not> present_nonempty fingerprint
      then (False, entries)
      else transition k (\<lambda>e. hasExactCommitAttempt e attempt)
        (set_committed committedAt session receipt fingerprint) entries)"

definition getIntentEntries :: "intent_scope option \<Rightarrow> intent_journal \<Rightarrow> intent_journal" where
  "getIntentEntries scope entries =
     map cloneIntent (filter (\<lambda>e. scope = None \<or> Some (bi_scope e) = scope) entries)"

definition hasIntentPath :: "(path \<Rightarrow> path) \<Rightarrow> path \<Rightarrow> intent_scope option \<Rightarrow> intent_journal \<Rightarrow> bool" where
  "hasIntentPath normPath path scope entries =
     (let normalized = normPath path
      in list_ex (\<lambda>e.
           if scope \<noteq> None \<and> Some (bi_scope e) \<noteq> scope then False
           else case bi_kind e of
               IntentDelete p \<Rightarrow> p = normalized
             | IntentRename a b \<Rightarrow> a = normalized \<or> (bi_committedAt e = None \<and> b = normalized)) entries)"

section \<open>Retirement\<close>

datatype retirement = Retain | RetireAbsenceSettled | RetireAuthorityMoved | RetireStaleLocalEpisode | RetireOperatorDismissed

definition decidePendingBlobIntentRetirement :: "blob_intent \<Rightarrow> bool \<Rightarrow> bool \<Rightarrow> retirement" where
  "decidePendingBlobIntentRetirement i diskOccupied liveRef =
     (if \<not> diskOccupied then (if liveRef then RetireAuthorityMoved else RetireAbsenceSettled)
      else if bi_commitAttemptId i \<noteq> None then RetireStaleLocalEpisode
      else Retain)"

section \<open>Well-formed intents\<close>

fun opt_all :: "('a \<Rightarrow> bool) \<Rightarrow> 'a option \<Rightarrow> bool" where
  "opt_all P None \<longleftrightarrow> True"
| "opt_all P (Some x) \<longleftrightarrow> P x"

definition ref_ok :: "blob_ref \<Rightarrow> bool" where
  "ref_ok r \<longleftrightarrow>
     isSha256Hex (br_hash r) \<and> isValidTimestamp (br_size r)
     \<and> (case br_priorHashes r of None \<Rightarrow> True
        | Some hs \<Rightarrow> hs \<noteq> [] \<and> length hs \<le> MAX_BLOB_REF_PRIOR_HASHES \<and> distinct hs \<and> list_all isSha256Hex hs
            \<and> br_hash r \<notin> set hs)"

definition base_ok :: "bool \<Rightarrow> blob_ref option \<Rightarrow> bool \<Rightarrow> jsstr option \<Rightarrow> bool" where
  "base_ok known ref svk version \<longleftrightarrow>
     (known \<or> ref = None) \<and> opt_all ref_ok ref
     \<and> (version = None \<or> svk \<and> ref \<noteq> None) \<and> opt_all isBlobSourceVersion version
     \<and> (svk \<and> ref \<noteq> None \<longrightarrow> version \<noteq> None)"

definition scope_ok :: "intent_scope \<Rightarrow> bool" where
  "scope_ok s \<longleftrightarrow> is_host s \<noteq> [] \<and> is_vaultId s \<noteq> [] \<and> is_localDeviceId s \<noteq> []"

fun kind_ok :: "(path \<Rightarrow> path) \<Rightarrow> intent_kind \<Rightarrow> bool" where
  "kind_ok normPath (IntentDelete p) \<longleftrightarrow> p \<noteq> [] \<and> normPath p = p"
| "kind_ok normPath (IntentRename a b) \<longleftrightarrow> a \<noteq> [] \<and> b \<noteq> [] \<and> a \<noteq> b \<and> normPath a = a \<and> normPath b = b"

text \<open>Attempt and commit metadata: none, a whole attempt, or a whole commit.\<close>

definition metadata_ok :: "blob_intent \<Rightarrow> bool" where
  "metadata_ok i \<longleftrightarrow>
     (if bi_commitAttemptId i \<noteq> None \<or> bi_attemptedAt i \<noteq> None \<or> bi_attemptSessionId i \<noteq> None
      then bi_commitAttemptId i \<noteq> None \<and> bi_attemptedAt i \<noteq> None \<and> bi_attemptSessionId i \<noteq> None
        \<and> bi_committedAt i = None \<and> bi_receiptCandidateId i = None \<and> bi_commitSessionId i = None
        \<and> bi_commitDeleteFingerprint i = None
      else if bi_committedAt i \<noteq> None \<or> bi_receiptCandidateId i \<noteq> None \<or> bi_commitSessionId i \<noteq> None
        \<or> bi_commitDeleteFingerprint i \<noteq> None
      then bi_committedAt i \<noteq> None \<and> bi_commitSessionId i \<noteq> None
      else True)"

definition metadata_values_ok :: "blob_intent \<Rightarrow> bool" where
  "metadata_values_ok i \<longleftrightarrow>
     opt_all (\<lambda>s. s \<noteq> []) (bi_commitAttemptId i) \<and> opt_all isValidTimestamp (bi_attemptedAt i)
     \<and> opt_all (\<lambda>s. s \<noteq> []) (bi_attemptSessionId i) \<and> opt_all isValidTimestamp (bi_committedAt i)
     \<and> opt_all (\<lambda>s. s \<noteq> []) (bi_receiptCandidateId i) \<and> opt_all (\<lambda>s. s \<noteq> []) (bi_commitSessionId i)
     \<and> opt_all (\<lambda>s. s \<noteq> []) (bi_commitDeleteFingerprint i)"

definition intent_ok :: "(path \<Rightarrow> path) \<Rightarrow> blob_intent \<Rightarrow> bool" where
  "intent_ok normPath i \<longleftrightarrow>
     bi_id i \<noteq> [] \<and> isValidTimestamp (bi_recordedAt i) \<and> scope_ok (bi_scope i) \<and> kind_ok normPath (bi_kind i)
     \<and> bi_sourceVersionKnown i \<noteq> None
     \<and> base_ok (bi_baseRefKnown i) (bi_expectedSourceRef i) (bi_sourceVersionKnown i = Some True) (bi_expectedSourceVersion i)
     \<and> metadata_ok i \<and> metadata_values_ok i"

definition journal_ok :: "(path \<Rightarrow> path) \<Rightarrow> intent_journal \<Rightarrow> bool" where
  "journal_ok normPath es \<longleftrightarrow> list_all (intent_ok normPath) es \<and> distinct (map bi_id es)"

definition mutation_base_ok :: "mutation_base \<Rightarrow> bool" where
  "mutation_base_ok b \<longleftrightarrow>
     base_ok (mb_known b) (mb_ref b) (mb_sourceVersionKnown b = Some True)
       (if mb_sourceVersionKnown b = Some True then mb_expectedSourceVersion b else None)"

lemma js_unique_distinct: "distinct xs \<Longrightarrow> js_unique xs = xs"
  by (simp add: js_unique_def distinct_remdups_id)

lemma clone_ref_ok: "opt_all ref_ok r \<Longrightarrow> cloneBlobRef r = r"
proof (cases r)
  case (Some x)
  assume "opt_all ref_ok r"
  then have ok: "ref_ok x" using Some by simp
  have "getBlobRefPriorHashes (Some x) = (case br_priorHashes x of None \<Rightarrow> [] | Some hs \<Rightarrow> hs)"
    using ok by (auto simp: getBlobRefPriorHashes_def ref_ok_def js_unique_distinct list_ex_iff list_all_iff
        split: option.splits)
  then show ?thesis
    using ok Some by (cases "br_priorHashes x") (auto simp: cloneBlobRef_def make_ref_def ref_ok_def)
qed (simp add: cloneBlobRef_def)

lemma clone_intent_ok: "intent_ok normPath i \<Longrightarrow> cloneIntent i = i"
  by (simp add: cloneIntent_def intent_ok_def base_ok_def clone_ref_ok)

lemma map_clone_ok: "journal_ok normPath es \<Longrightarrow> map cloneIntent es = es"
  by (auto simp: journal_ok_def list_all_iff intro!: map_idI clone_intent_ok)


section \<open>What the list operations keep\<close>

lemma removeIntent_filter:
  "distinct (map bi_id es) \<Longrightarrow> removeIntent k es = (k \<in> bi_id ` set es, filter (\<lambda>e. bi_id e \<noteq> k) es)"
proof (induction es)
  case (Cons e es)
  have "filter (\<lambda>x. bi_id x \<noteq> bi_id e) es = es" using Cons.prems by (intro filter_True) (fastforce simp: image_iff)
  then show ?case using Cons by (auto simp: case_prod_beta Let_def)
qed simp

lemma journal_ok_filter: "journal_ok normPath es \<Longrightarrow> journal_ok normPath (filter P es)"
  by (auto simp: journal_ok_def list_all_iff distinct_map inj_on_def)

lemma journal_ok_remove: "journal_ok normPath es \<Longrightarrow> journal_ok normPath (snd (removeIntent k es))"
  using journal_ok_filter [of normPath es] by (simp add: removeIntent_filter journal_ok_def)

lemma journal_ok_append:
  "journal_ok normPath es \<Longrightarrow> intent_ok normPath i \<Longrightarrow> bi_id i \<notin> bi_id ` set es \<Longrightarrow> journal_ok normPath (es @ [i])"
  by (simp add: journal_ok_def)

lemma map_id_update_first: "(\<And>e. bi_id (f e) = bi_id e) \<Longrightarrow> map bi_id (update_first P f es) = map bi_id es"
  by (induction es) auto

lemma list_all_update_first:
  "list_all Q xs \<Longrightarrow> (\<And>x. x \<in> set xs \<Longrightarrow> P x \<Longrightarrow> Q x \<Longrightarrow> Q (f x)) \<Longrightarrow> list_all Q (update_first P f xs)"
  by (induction xs) auto

lemma in_update_first: "x \<in> set xs \<Longrightarrow> \<not> P x \<Longrightarrow> x \<in> set (update_first P f xs)"
  by (induction xs) auto

lemma update_first_by_id:
  "distinct (map bi_id es) \<Longrightarrow> e \<in> set es \<Longrightarrow> bi_id e = k \<Longrightarrow>
     update_first (\<lambda>x. bi_id x = k) f es = map (\<lambda>x. if bi_id x = k then f e else x) es"
proof (induction es)
  case (Cons x es)
  show ?case
  proof (cases "bi_id x = k")
    case True
    then have "x = e" using Cons.prems by (auto simp: image_iff)
    moreover have "map (\<lambda>y. if bi_id y = k then f e else y) es = es"
      using Cons.prems(1) True by (intro map_idI) (fastforce simp: image_iff)
    ultimately show ?thesis using True by simp
  next
    case False
    then show ?thesis using Cons by auto
  qed
qed simp

lemma find_by_id:
  assumes "distinct (map bi_id es)" "e \<in> set es" "bi_id e = k"
  shows "find (\<lambda>x. bi_id x = k) es = Some e"
  using assms by (induction es) auto

lemma journal_ok_update_first:
  assumes "journal_ok normPath es" "\<And>e. bi_id (f e) = bi_id e"
    and "\<And>e. e \<in> set es \<Longrightarrow> P e \<Longrightarrow> intent_ok normPath e \<Longrightarrow> intent_ok normPath (f e)"
  shows "journal_ok normPath (update_first P f es)"
  using assms by (simp add: journal_ok_def map_id_update_first list_all_update_first)

text \<open>A transition of one entry.\<close>

lemma transition_cases:
  assumes "journal_ok normPath es"
  shows "transition k ok f es =
     (if \<exists>e \<in> set es. bi_id e = k \<and> ok e
      then (True, map (\<lambda>x. if bi_id x = k then f x else x) es) else (False, es))"
proof -
  have d: "distinct (map bi_id es)" using assms by (simp add: journal_ok_def)
  show ?thesis
  proof (cases "\<exists>e \<in> set es. bi_id e = k")
    case True
    then obtain e where e: "e \<in> set es" "bi_id e = k" by blast
    have uniq: "x = e" if "x \<in> set es" "bi_id x = k" for x
      using d e that by (metis distinct_map inj_onD)
    have "map (\<lambda>x. if bi_id x = k then f e else x) es = map (\<lambda>x. if bi_id x = k then f x else x) es"
      using uniq by (intro map_cong) auto
    then have "transition k ok f es =
        (if ok e then (True, map (\<lambda>x. if bi_id x = k then f x else x) es) else (False, es))"
      by (simp add: transition_def find_by_id [OF d e] update_first_by_id [OF d e])
    moreover have "(\<exists>x \<in> set es. bi_id x = k \<and> ok x) = ok e" using uniq e by blast
    ultimately show ?thesis by simp
  next
    case False
    then have "find (\<lambda>x. bi_id x = k) es = None" by (auto simp: find_None_iff)
    then show ?thesis using False by (auto simp: transition_def)
  qed
qed

lemma transition_ok:
  assumes "journal_ok normPath es" "\<And>e. bi_id (f e) = bi_id e"
    and "\<And>e. e \<in> set es \<Longrightarrow> ok e \<Longrightarrow> intent_ok normPath e \<Longrightarrow> intent_ok normPath (f e)"
  shows "journal_ok normPath (snd (transition k ok f es))"
proof (cases "find (\<lambda>e. bi_id e = k) es")
  case (Some e)
  have "journal_ok normPath (update_first (\<lambda>x. bi_id x = k) f es)" if "ok e"
  proof (rule journal_ok_update_first [OF assms(1,2)])
    fix x assume x: "x \<in> set es" "bi_id x = k" "intent_ok normPath x"
    have "x = e"
      using assms(1) x Some find_by_id [of es x k] by (simp add: journal_ok_def)
    then show "intent_ok normPath (f x)" using assms(3) x that by blast
  qed
  then show ?thesis using Some assms(1) by (simp add: transition_def)
qed (simp add: transition_def assms(1))

lemma follow_renames_ok:
  assumes "journal_ok normPath es" "follow_renames scope p base es = (p', base', es')"
    and "mutation_base_ok base" "p \<noteq> []" "normPath p = p"
  shows "journal_ok normPath es' \<and> mutation_base_ok base' \<and> p' \<noteq> [] \<and> normPath p' = p'
    \<and> set es' \<subseteq> set es \<and> {e \<in> set es. \<not> ready_in scope e} \<subseteq> set es'"
  using assms
proof (induction scope p base es rule: follow_renames.induct)
  case (1 scope p base es)
  show ?case
  proof (cases "find (\<lambda>e. ready_in scope e \<and> rename_target (bi_kind e) = Some p) es")
    case None
    then show ?thesis using 1(2-) by (simp add: follow_renames.simps [of scope p])
  next
    case (Some e)
    then have e: "e \<in> set es" "ready_in scope e" "rename_target (bi_kind e) = Some p"
      by (auto simp: find_Some_iff)
    have d: "distinct (map bi_id es)" and ok: "intent_ok normPath e"
      using 1(2) e(1) by (auto simp: journal_ok_def list_all_iff)
    obtain a where a: "bi_kind e = IntentRename a p" using e(3) by (cases "bi_kind e") auto
    have base: "mutation_base_ok (base_of e)"
      using ok by (auto simp: mutation_base_ok_def base_of_def intent_ok_def base_ok_def clone_ref_ok)
    have rest: "journal_ok normPath (snd (removeIntent (bi_id e) es))"
      using 1(2) by (rule journal_ok_remove)
    have IH: "journal_ok normPath es' \<and> mutation_base_ok base' \<and> p' \<noteq> [] \<and> normPath p' = p'
        \<and> set es' \<subseteq> set (snd (removeIntent (bi_id e) es))
        \<and> {x \<in> set (snd (removeIntent (bi_id e) es)). \<not> ready_in scope x} \<subseteq> set es'"
      using 1(1) [OF Some rest _ base] 1(3) a ok Some
      by (simp add: follow_renames.simps [of scope p] intent_ok_def)
    have "x \<noteq> e \<longrightarrow> bi_id x \<noteq> bi_id e" if "x \<in> set es" for x
      using d e(1) that by (metis distinct_map inj_onD)
    then show ?thesis using IH e(2) by (auto simp: removeIntent_filter [OF d])
  qed
qed


section \<open>Every operation keeps the journal well-formed\<close>

lemma new_intent_ok:
  assumes "mutation_base_ok base" "scope_ok scope" "isValidTimestamp recordedAt" "newId \<noteq> []" "kind_ok normPath kind"
  shows "intent_ok normPath (new_intent newId kind scope base recordedAt)"
  using assms
  by (cases "mb_known base")
    (auto simp: new_intent_def intent_ok_def mutation_base_ok_def base_ok_def metadata_ok_def metadata_values_ok_def
      clone_ref_ok)

lemma recordDelete_ok:
  assumes "journal_ok normPath es" "mutation_base_ok base" "scope_ok scope" "isValidTimestamp recordedAt"
    and "newId \<noteq> []" "newId \<notin> bi_id ` set es" "normPath p \<noteq> []" "normPath (normPath p) = normPath p"
  shows "journal_ok normPath (snd (recordDelete normPath newId p scope base recordedAt es))"
    and "{e \<in> set es. \<not> ready_in scope e} \<subseteq> set (snd (recordDelete normPath newId p scope base recordedAt es))"
proof -
  obtain p' base' es' where F: "follow_renames scope (normPath p) base es = (p', base', es')"
    by (metis prod_cases3)
  note I = follow_renames_ok [OF assms(1) F assms(2) assms(7,8)]
  let ?keep = "filter (\<lambda>e. \<not> (ready_in scope e \<and> rename_source (bi_kind e) = Some p')) es'"
  let ?new = "new_intent newId (IntentDelete p') scope base' recordedAt"
  have "intent_ok normPath ?new" using I assms(3-5) by (intro new_intent_ok) auto
  moreover have "bi_id ?new \<notin> bi_id ` set ?keep" using I assms(6) by (auto simp: new_intent_def)
  ultimately have "journal_ok normPath (?keep @ [?new])"
    using journal_ok_append [OF journal_ok_filter] I by blast
  then show "journal_ok normPath (snd (recordDelete normPath newId p scope base recordedAt es))"
    using I by (simp add: recordDelete_def F Let_def split: option.split)
  show "{e \<in> set es. \<not> ready_in scope e} \<subseteq> set (snd (recordDelete normPath newId p scope base recordedAt es))"
    using I by (auto simp: recordDelete_def F Let_def split: option.split)
qed

lemma retarget_ok:
  assumes "intent_ok normPath e" "isValidTimestamp recordedAt" "new \<noteq> []" "normPath new = new"
    "rename_source (bi_kind e) \<noteq> Some new"
  shows "intent_ok normPath (retarget new recordedAt e)"
  using assms
  by (cases "bi_kind e") (auto simp: retarget_def intent_ok_def metadata_ok_def metadata_values_ok_def)

lemma retarget_id [simp]: "bi_id (retarget new recordedAt e) = bi_id e"
  by (simp add: retarget_def split: intent_kind.split)

lemma journal_ok_update_hit:
  assumes "journal_ok normPath es" "find P es = Some e" "\<And>x. bi_id (f x) = bi_id x" "intent_ok normPath (f e)"
  shows "journal_ok normPath (update_first P f es)"
proof -
  have "list_all (intent_ok normPath) (update_first P f es)"
    using assms(1,2,4) by (auto simp: journal_ok_def list_all_iff) (induction es; auto split: if_splits)
  then show ?thesis using assms(1,3) by (simp add: journal_ok_def map_id_update_first)
qed

lemma recordRename_journal:
  obtains "snd (recordRename normPath newId p q scope base t es) = es"
  | e where "find (rename_hit scope (normPath p) es) es = Some e" "rename_source (bi_kind e) = Some (normPath q)"
      "snd (recordRename normPath newId p q scope base t es) = snd (removeIntent (bi_id e) es)"
  | e where "find (rename_hit scope (normPath p) es) es = Some e" "rename_source (bi_kind e) \<noteq> Some (normPath q)"
      "normPath q \<noteq> []"
      "snd (recordRename normPath newId p q scope base t es)
         = update_first (rename_hit scope (normPath p) es) (retarget (normPath q) t) es"
  | "normPath p \<noteq> []" "normPath q \<noteq> []" "normPath p \<noteq> normPath q"
      "snd (recordRename normPath newId p q scope base t es)
         = es @ [new_intent newId (IntentRename (normPath p) (normPath q)) scope base t]"
proof (cases "normPath p = [] \<or> normPath q = [] \<or> normPath p = normPath q
    \<or> list_ex (\<lambda>e. ready_in scope e \<and> bi_kind e = IntentDelete (normPath p)) es")
  case True
  then have "recordRename normPath newId p q scope base t es = (None, es)"
    by (elim disjE) (simp_all add: recordRename_def Let_def del: list_ex_iff)
  then show ?thesis by (intro that(1)) simp
next
  case False
  show ?thesis
  proof (cases "find (rename_hit scope (normPath p) es) es")
    case None
    then have "snd (recordRename normPath newId p q scope base t es)
        = es @ [new_intent newId (IntentRename (normPath p) (normPath q)) scope base t]"
      using False by (simp add: recordRename_def Let_def)
    then show ?thesis using that(4) False by blast
  next
    case (Some e)
    show ?thesis
    proof (cases "rename_source (bi_kind e) = Some (normPath q)")
      case True
      then show ?thesis using that(2) [OF Some True] Some False by (simp add: recordRename_def Let_def)
    next
      case neq: False
      then show ?thesis using that(3) [OF Some neq] Some False by (simp add: recordRename_def Let_def)
    qed
  qed
qed

lemma recordRename_ok:
  assumes "journal_ok normPath es" "mutation_base_ok base" "scope_ok scope" "isValidTimestamp recordedAt"
    and "newId \<noteq> []" "newId \<notin> bi_id ` set es" "\<And>p. normPath (normPath p) = normPath p"
  shows "journal_ok normPath (snd (recordRename normPath newId p q scope base recordedAt es))"
    and "{e \<in> set es. \<not> ready_in scope e} \<subseteq> set (snd (recordRename normPath newId p q scope base recordedAt es))"
proof -
  define hit where "hit = rename_hit scope (normPath p) es"
  have hit: "ready_in scope e" if "hit e" for e
    using that by (simp add: hit_def rename_hit_def Let_def split: if_splits)
  let ?new = "new_intent newId (IntentRename (normPath p) (normPath q)) scope base recordedAt"
  have "journal_ok normPath (snd (recordRename normPath newId p q scope base recordedAt es))
      \<and> {e \<in> set es. \<not> ready_in scope e} \<subseteq> set (snd (recordRename normPath newId p q scope base recordedAt es))"
  proof (cases rule: recordRename_journal [of normPath newId p q scope base recordedAt es, folded hit_def])
    case 1
    then show ?thesis using assms(1) by simp
  next
    case (2 e)
    then have "e \<in> set es" "ready_in scope e" using hit by (auto simp: find_Some_iff)
    moreover have d: "distinct (map bi_id es)" using assms(1) by (simp add: journal_ok_def)
    ultimately have "bi_id x \<noteq> bi_id e" if "x \<in> set es" "\<not> ready_in scope x" for x
      using that by (metis distinct_map inj_onD)
    then show ?thesis
      using assms(1) 2(3) by (auto simp: journal_ok_filter removeIntent_filter [OF d])
  next
    case (3 e)
    then have "e \<in> set es" by (auto simp: find_Some_iff)
    then have "intent_ok normPath e" using assms(1) by (simp add: journal_ok_def list_all_iff)
    then have "intent_ok normPath (retarget (normPath q) recordedAt e)"
      by (rule retarget_ok) (simp_all add: 3(2,3) assms(4,7))
    then have "journal_ok normPath (update_first hit (retarget (normPath q) recordedAt) es)"
      using journal_ok_update_hit [OF assms(1) 3(1), where f = "retarget (normPath q) recordedAt"] by simp
    moreover have "x \<in> set (update_first hit (retarget (normPath q) recordedAt) es)"
      if "x \<in> set es" "\<not> ready_in scope x" for x
      using in_update_first [OF that(1)] hit that(2) by blast
    ultimately show ?thesis using 3(4) by auto
  next
    case 4
    have "kind_ok normPath (IntentRename (normPath p) (normPath q))" using 4(1-3) assms(7) by simp
    then have "intent_ok normPath ?new" by (rule new_intent_ok [OF assms(2-5)])
    then have "journal_ok normPath (es @ [?new])"
      using assms(1,6) by (intro journal_ok_append) (auto simp: new_intent_def)
    then show ?thesis using 4(4) by auto
  qed
  then show "journal_ok normPath (snd (recordRename normPath newId p q scope base recordedAt es))"
    and "{e \<in> set es. \<not> ready_in scope e} \<subseteq> set (snd (recordRename normPath newId p q scope base recordedAt es))"
    by simp_all
qed

section \<open>Runs of the journal\<close>

datatype journal_op =
    RecordDelete jsstr path intent_scope mutation_base int
  | RecordRename jsstr path path intent_scope mutation_base int
  | RemoveIntent jsstr
  | RestoreIntent blob_intent
  | MarkCommitted jsstr int jsstr "jsstr option" "jsstr option"
  | MarkCommitAttempted jsstr jsstr int jsstr
  | ClearCommitAttempt jsstr jsstr
  | MarkCommittedFromAttempt jsstr jsstr int jsstr "jsstr option" "jsstr option"

fun run_journal :: "(path \<Rightarrow> path) \<Rightarrow> journal_op \<Rightarrow> intent_journal \<Rightarrow> intent_journal" where
  "run_journal normPath (RecordDelete newId p scope base t) es = snd (recordDelete normPath newId p scope base t es)"
| "run_journal normPath (RecordRename newId p q scope base t) es = snd (recordRename normPath newId p q scope base t es)"
| "run_journal normPath (RemoveIntent k) es = snd (removeIntent k es)"
| "run_journal normPath (RestoreIntent i) es = restoreIntent i es"
| "run_journal normPath (MarkCommitted k t s r f) es = snd (markCommitted k t s r f es)"
| "run_journal normPath (MarkCommitAttempted k a t s) es = snd (markCommitAttempted k a t s es)"
| "run_journal normPath (ClearCommitAttempt k a) es = snd (clearCommitAttempt k a es)"
| "run_journal normPath (MarkCommittedFromAttempt k a t s r f) es = snd (markCommittedFromAttempt k a t s r f es)"

text \<open>
  The arguments an operation is called with: a fresh identifier, a scope and a base that are
  well-formed, an intent handed out before.
\<close>

fun journal_op_ok :: "(path \<Rightarrow> path) \<Rightarrow> intent_journal \<Rightarrow> journal_op \<Rightarrow> bool" where
  "journal_op_ok normPath es (RecordDelete newId p scope base t) \<longleftrightarrow>
     newId \<noteq> [] \<and> newId \<notin> bi_id ` set es \<and> scope_ok scope \<and> mutation_base_ok base \<and> isValidTimestamp t \<and> normPath p \<noteq> []"
| "journal_op_ok normPath es (RecordRename newId p q scope base t) \<longleftrightarrow>
     newId \<noteq> [] \<and> newId \<notin> bi_id ` set es \<and> scope_ok scope \<and> mutation_base_ok base \<and> isValidTimestamp t"
| "journal_op_ok normPath es (RestoreIntent i) \<longleftrightarrow> intent_ok normPath i"
| "journal_op_ok normPath es _ \<longleftrightarrow> True"

lemma set_committed_ok:
  "intent_ok normPath e \<Longrightarrow> isValidTimestamp t \<Longrightarrow> session \<noteq> [] \<Longrightarrow> present_nonempty r \<Longrightarrow> present_nonempty f \<Longrightarrow>
     intent_ok normPath (set_committed t session r f e)"
  by (simp add: intent_ok_def set_committed_def metadata_ok_def metadata_values_ok_def present_nonempty_def
      split: option.splits)

lemmas phase_defs = intent_ok_def metadata_ok_def metadata_values_ok_def isReadyToCommit_def hasExactCommitAttempt_def

lemma attempt_ok:
  assumes "intent_ok normPath e" "isReadyToCommit e" "a \<noteq> []" "isValidTimestamp t" "s \<noteq> []"
  shows "intent_ok normPath (e\<lparr> bi_commitAttemptId := Some a, bi_attemptedAt := Some t, bi_attemptSessionId := Some s \<rparr>)"
  using assms by (simp add: phase_defs)

lemma clear_ok:
  assumes "intent_ok normPath e" "hasExactCommitAttempt e a"
  shows "intent_ok normPath (e\<lparr> bi_commitAttemptId := None, bi_attemptedAt := None, bi_attemptSessionId := None \<rparr>)"
  using assms by (simp add: phase_defs)

lemma mark_ok:
  assumes "journal_ok normPath es"
  shows "journal_ok normPath (snd (markCommitted k t s r f es))"
    and "journal_ok normPath (snd (markCommitAttempted k a t s es))"
    and "journal_ok normPath (snd (clearCommitAttempt k a es))"
    and "journal_ok normPath (snd (markCommittedFromAttempt k a t s r f es))"
proof -
  show "journal_ok normPath (snd (markCommitted k t s r f es))"
    using assms by (auto simp: markCommitted_def intro!: transition_ok set_committed_ok) (simp add: set_committed_def)
  show "journal_ok normPath (snd (markCommitAttempted k a t s es))"
    using assms by (auto simp: markCommitAttempted_def intro!: transition_ok attempt_ok)
  show "journal_ok normPath (snd (clearCommitAttempt k a es))"
    using assms by (auto simp: clearCommitAttempt_def intro!: transition_ok intro: clear_ok)
  show "journal_ok normPath (snd (markCommittedFromAttempt k a t s r f es))"
    using assms by (auto simp: markCommittedFromAttempt_def intro!: transition_ok set_committed_ok) (simp add: set_committed_def)
qed

lemma restore_ok:
  assumes "journal_ok normPath es" "intent_ok normPath i"
  shows "journal_ok normPath (restoreIntent i es)"
proof (cases "list_ex (\<lambda>e. bi_id e = bi_id i) es")
  case False
  then have "bi_id i \<notin> bi_id ` set es" by (auto simp: list_ex_iff)
  then show ?thesis using False assms journal_ok_append by (simp add: restoreIntent_def clone_intent_ok)
qed (simp add: restoreIntent_def assms)

lemma run_journal_ok:
  assumes "journal_ok normPath es" "journal_op_ok normPath es op" "\<And>p. normPath (normPath p) = normPath p"
  shows "journal_ok normPath (run_journal normPath op es)"
  using assms
  by (cases op) (auto intro: recordDelete_ok(1) recordRename_ok(1) journal_ok_remove restore_ok mark_ok)

inductive journal_reach :: "(path \<Rightarrow> path) \<Rightarrow> intent_journal \<Rightarrow> intent_journal \<Rightarrow> bool" for normPath es where
  start: "journal_reach normPath es es"
| op: "journal_reach normPath es es' \<Longrightarrow> journal_op_ok normPath es' op \<Longrightarrow>
    journal_reach normPath es (run_journal normPath op es')"

lemma journal_reach_ok:
  assumes "journal_reach normPath es es'" "journal_ok normPath es" "\<And>p. normPath (normPath p) = normPath p"
  shows "journal_ok normPath es'"
  using assms by (induction rule: journal_reach.induct) (auto intro: run_journal_ok)


section \<open>Fences\<close>

text \<open>The operations that settle or fence the intent \<open>k\<close> itself.\<close>

fun addresses :: "jsstr \<Rightarrow> journal_op \<Rightarrow> bool" where
  "addresses k (RemoveIntent k') \<longleftrightarrow> k' = k"
| "addresses k (MarkCommitted k' t s r f) \<longleftrightarrow> k' = k"
| "addresses k (MarkCommitAttempted k' a t s) \<longleftrightarrow> k' = k"
| "addresses k (ClearCommitAttempt k' a) \<longleftrightarrow> k' = k"
| "addresses k (MarkCommittedFromAttempt k' a t s r f) \<longleftrightarrow> k' = k"
| "addresses k _ \<longleftrightarrow> False"

lemma transition_other:
  assumes "journal_ok normPath es" "e \<in> set es" "bi_id e \<noteq> k \<or> \<not> ok e"
  shows "e \<in> set (snd (transition k ok f es))"
proof (cases "bi_id e = k")
  case False
  then show ?thesis using assms(2) by (auto simp: transition_cases [OF assms(1)])
next
  case True
  have "x = e" if "x \<in> set es" "bi_id x = k" for x
    using assms(1,2) that True by (metis journal_ok_def distinct_map inj_onD)
  then have "\<not> (\<exists>x \<in> set es. bi_id x = k \<and> ok x)" using assms(3) True by blast
  then show ?thesis using assms(2) by (simp only: transition_cases [OF assms(1)] if_False snd_conv)
qed

lemma run_journal_keeps_fence:
  assumes "journal_ok normPath es" "journal_op_ok normPath es op" "\<And>p. normPath (normPath p) = normPath p"
    and "e \<in> set es" "\<not> isReadyToCommit e" "\<not> addresses (bi_id e) op"
  shows "e \<in> set (run_journal normPath op es)"
proof (cases op)
  case (RecordDelete newId p scope base t)
  have "newId \<noteq> []" "newId \<notin> bi_id ` set es" "scope_ok scope" "mutation_base_ok base" "isValidTimestamp t" "normPath p \<noteq> []"
    using assms(2) unfolding RecordDelete by simp_all
  note keep = recordDelete_ok(2) [OF assms(1) this(4,3,5,1,2,6) assms(3)]
  have "e \<in> {e \<in> set es. \<not> ready_in scope e}" using assms(4,5) by (simp add: ready_in_def)
  then show ?thesis unfolding RecordDelete run_journal.simps by (rule subsetD [OF keep])
next
  case (RecordRename newId p q scope base t)
  have "newId \<noteq> []" "newId \<notin> bi_id ` set es" "scope_ok scope" "mutation_base_ok base" "isValidTimestamp t"
    using assms(2) unfolding RecordRename by simp_all
  note keep = recordRename_ok(2) [OF assms(1) this(4,3,5,1,2) assms(3)]
  have "e \<in> {e \<in> set es. \<not> ready_in scope e}" using assms(4,5) by (simp add: ready_in_def)
  then show ?thesis unfolding RecordRename run_journal.simps by (rule subsetD [OF keep])
next
  case (RemoveIntent k)
  then show ?thesis using assms(1,4,6) by (simp add: removeIntent_filter journal_ok_def)
next
  case (RestoreIntent i)
  then show ?thesis using assms(4) by (simp add: restoreIntent_def)
next
  case (MarkCommitted k t s r f)
  then have "bi_id e \<noteq> k" using assms(6) by auto
  then show ?thesis using MarkCommitted assms(4) transition_other [OF assms(1,4)] by (simp add: markCommitted_def)
next
  case (MarkCommitAttempted k a t s)
  then have "bi_id e \<noteq> k" using assms(6) by auto
  then show ?thesis using MarkCommitAttempted assms(4) transition_other [OF assms(1,4)] by (simp add: markCommitAttempted_def)
next
  case (ClearCommitAttempt k a)
  then have "bi_id e \<noteq> k" using assms(6) by auto
  then show ?thesis using ClearCommitAttempt assms(4) transition_other [OF assms(1,4)] by (simp add: clearCommitAttempt_def)
next
  case (MarkCommittedFromAttempt k a t s r f)
  then have "bi_id e \<noteq> k" using assms(6) by auto
  then show ?thesis
    using MarkCommittedFromAttempt assms(4) transition_other [OF assms(1,4)] by (simp add: markCommittedFromAttempt_def)
qed

section \<open>The base of a mutation\<close>

text \<open>
  \<^verbatim>\<open>captureBlobMutationBase\<close> of \<^verbatim>\<open>main.ts\<close>.  \<open>staged\<close>: a settlement of the path is in progress;
  \<open>authority\<close>: the provider has synchronised and both stores are ready.
\<close>

definition captureBlobMutationBase ::
  "bool \<Rightarrow> blob_ref option \<Rightarrow> jsstr option \<Rightarrow> blob_ref option \<Rightarrow> jsstr option \<Rightarrow> bool \<Rightarrow> mutation_base" where
  "captureBlobMutationBase staged settled settledVersion current currentVersion authority =
     (let unknown = \<lparr> mb_known = False, mb_ref = None, mb_sourceVersionKnown = Some False, mb_expectedSourceVersion = None \<rparr>;
          settledRef = cloneBlobRef settled;
          currentRef = cloneBlobRef current
      in if staged then unknown
         else if settledRef \<noteq> None then
           \<lparr> mb_known = True, mb_ref = settledRef,
             mb_sourceVersionKnown = Some (sameBlobRef currentRef settledRef \<and> settledVersion \<noteq> None
               \<and> currentVersion = settledVersion),
             mb_expectedSourceVersion =
               (if sameBlobRef currentRef settledRef \<and> currentVersion = settledVersion then settledVersion else None) \<rparr>
         else if authority \<and> current = None then
           \<lparr> mb_known = True, mb_ref = None, mb_sourceVersionKnown = Some True, mb_expectedSourceVersion = None \<rparr>
         else unknown)"

lemma captureBlobMutationBase_ok:
  assumes "opt_all ref_ok settled" "opt_all isBlobSourceVersion settledVersion"
  shows "mutation_base_ok (captureBlobMutationBase staged settled settledVersion current currentVersion authority)"
  using assms
  by (cases settled)
    (auto simp: captureBlobMutationBase_def mutation_base_ok_def base_ok_def clone_ref_ok Let_def)

section \<open>A file that moves\<close>

text \<open>A file moves from \<open>cur\<close> through a list of paths; every move comes with its new identifier, the
  base captured for it and its time.\<close>

fun record_moves ::
  "(path \<Rightarrow> path) \<Rightarrow> intent_scope \<Rightarrow> path \<Rightarrow> (jsstr \<times> path \<times> mutation_base \<times> int) list \<Rightarrow> intent_journal
   \<Rightarrow> path \<times> intent_journal" where
  "record_moves normPath scope cur [] es = (cur, es)"
| "record_moves normPath scope cur ((newId, p, base, t) # ms) es =
     record_moves normPath scope p ms (snd (recordRename normPath newId cur p scope base t es))"

definition free_of :: "intent_scope \<Rightarrow> path set \<Rightarrow> intent_journal \<Rightarrow> bool" where
  "free_of scope P es \<longleftrightarrow> (\<forall>e \<in> set es. ready_in scope e \<longrightarrow> set (intent_paths (bi_kind e)) \<inter> P = {})"

definition moved :: "intent_scope \<Rightarrow> path \<Rightarrow> path \<Rightarrow> intent_journal \<Rightarrow> intent_journal \<Rightarrow> bool" where
  "moved scope p0 cur es es' \<longleftrightarrow>
     (if cur = p0 then es' = es
      else \<exists>i. es' = es @ [i] \<and> bi_kind i = IntentRename p0 cur \<and> ready_in scope i \<and> bi_id i \<notin> bi_id ` set es)"

lemma free_ofD:
  assumes "free_of scope P es" "p \<in> P"
  shows "find (\<lambda>e. ready_in scope e \<and> rename_target (bi_kind e) = Some p) es = None"
    and "find (\<lambda>e. ready_in scope e \<and> rename_source (bi_kind e) = Some p) es = None"
    and "\<not> list_ex (\<lambda>e. ready_in scope e \<and> bi_kind e = IntentDelete p) es"
    and "\<not> list_ex (\<lambda>e. ready_in scope e \<and> rename_target (bi_kind e) = Some p) es"
proof -
  have E: "rename_target (bi_kind e) \<noteq> Some p \<and> rename_source (bi_kind e) \<noteq> Some p \<and> bi_kind e \<noteq> IntentDelete p"
    if "e \<in> set es" "ready_in scope e" for e
    using assms that unfolding free_of_def by (cases "bi_kind e") (fastforce+)
  then show "find (\<lambda>e. ready_in scope e \<and> rename_target (bi_kind e) = Some p) es = None"
    "find (\<lambda>e. ready_in scope e \<and> rename_source (bi_kind e) = Some p) es = None"
    "\<not> list_ex (\<lambda>e. ready_in scope e \<and> bi_kind e = IntentDelete p) es"
    "\<not> list_ex (\<lambda>e. ready_in scope e \<and> rename_target (bi_kind e) = Some p) es"
    by (auto simp: find_None_iff list_ex_iff)
qed

lemma find_append_None: "find P xs = None \<Longrightarrow> find P (xs @ ys) = find P ys"
  by (induction xs) (auto split: if_splits)

lemma update_first_append: "find P xs = None \<Longrightarrow> update_first P f (xs @ ys) = xs @ update_first P f ys"
  by (induction xs) (auto split: if_splits)

lemma removeIntent_append: "k \<notin> bi_id ` set xs \<Longrightarrow> snd (removeIntent k (xs @ ys)) = xs @ snd (removeIntent k ys)"
  by (induction xs) (auto simp: case_prod_beta Let_def)

lemma ready_new_intent [simp]: "ready_in scope (new_intent newId kind scope base t)"
  by (simp add: ready_in_def isReadyToCommit_def new_intent_def)

lemma ready_retarget [simp]: "ready_in scope (retarget new t e) = ready_in scope e"
  by (simp add: ready_in_def isReadyToCommit_def retarget_def split: intent_kind.split)

lemma recordRename_moves:
  assumes "moved scope p0 cur es es'" "free_of scope P es" "{p0, cur, p} \<subseteq> P" "newId \<notin> bi_id ` set es"
    and "\<And>q. q \<in> P \<Longrightarrow> normPath q = q \<and> q \<noteq> []"
  shows "moved scope p0 p es (snd (recordRename normPath newId cur p scope base t es'))"
proof (cases "cur = p0")
  case True
  then have es': "es' = es" using assms(1) by (simp add: moved_def)
  have P: "normPath cur = cur" "normPath p = p" "cur \<noteq> []" "p \<noteq> []" using assms(3,5) by auto
  note F = free_ofD [OF assms(2), of cur]
  have "rename_hit scope cur es = (\<lambda>e. ready_in scope e \<and> rename_source (bi_kind e) = Some cur)"
    using F(4) assms(3) by (simp add: rename_hit_def)
  then have "find (rename_hit scope cur es) es = None" using F(2) assms(3) by simp
  then show ?thesis
    using True P F(3) assms(3,4) es'
    by (auto simp: recordRename_def moved_def Let_def) (simp_all add: new_intent_def)
next
  case False
  then obtain i where i: "es' = es @ [i]" "bi_kind i = IntentRename p0 cur" "ready_in scope i" "bi_id i \<notin> bi_id ` set es"
    using assms(1) by (auto simp: moved_def)
  have P: "normPath cur = cur" "normPath p = p" "cur \<noteq> []" "p \<noteq> []" using assms(3,5) by auto
  note F = free_ofD [OF assms(2), of cur]
  have hit: "rename_hit scope cur es' = (\<lambda>e. ready_in scope e \<and> rename_target (bi_kind e) = Some cur)"
    using i by (simp add: rename_hit_def)
  have find: "find (rename_hit scope cur es') es' = Some i"
    using F(1) assms(3) i unfolding hit by (simp add: find_append_None)
  have del: "\<not> list_ex (\<lambda>e. ready_in scope e \<and> bi_kind e = IntentDelete cur) es'"
    using F(3) assms(3) i by simp
  show ?thesis
  proof (cases "p = cur")
    case True
    then show ?thesis using assms(1) P by (simp add: recordRename_def)
  next
    case neq: False
    have upd: "update_first (rename_hit scope cur es') (retarget p t) es' = es @ [retarget p t i]"
      using F(1) assms(3) i unfolding hit by (simp add: update_first_append)
    have "recordRename normPath newId cur p scope base t es' =
        (if p0 = p then (None, snd (removeIntent (bi_id i) es'))
         else (Some (cloneIntent (retarget p t i)), es @ [retarget p t i]))"
      unfolding recordRename_def Let_def using P neq del find upd i(2) by simp
    then show ?thesis
      using i removeIntent_append [OF i(4), of "[i]"] by (auto simp: moved_def) (simp add: retarget_def)
  qed
qed

lemma record_moves_moved:
  assumes "moved scope p0 cur es es'" "free_of scope P es" "{p0, cur} \<subseteq> P" "(\<lambda>(k, p, b, t). p) ` set ms \<subseteq> P"
    and "(\<lambda>(k, p, b, t). k) ` set ms \<inter> bi_id ` set es = {}"
    and "\<And>q. q \<in> P \<Longrightarrow> normPath q = q \<and> q \<noteq> []" "record_moves normPath scope cur ms es' = (q, es'')"
  shows "moved scope p0 q es es'' \<and> q \<in> P"
  using assms(1,3-5,7)
proof (induction ms arbitrary: cur es')
  case (Cons m ms)
  obtain k p b t where m: "m = (k, p, b, t)" by (cases m)
  have "moved scope p0 p es (snd (recordRename normPath k cur p scope b t es'))"
    using Cons.prems(1-4) m by (intro recordRename_moves [OF _ assms(2) _ _ assms(6)]) auto
  then show ?case using Cons.IH [of p "snd (recordRename normPath k cur p scope b t es')"] Cons.prems(2-5) m by simp
qed simp

lemma recordDelete_moved:
  assumes "moved scope p0 cur es es'" "free_of scope P es" "{p0, cur} \<subseteq> P"
    and "\<And>q. q \<in> P \<Longrightarrow> normPath q = q \<and> q \<noteq> []"
  shows "\<exists>d. snd (recordDelete normPath newId cur scope base t es') = es @ [d] \<and> bi_kind d = IntentDelete p0"
proof -
  note F = free_ofD [OF assms(2), of p0]
  have "\<exists>b. follow_renames scope cur base es' = (p0, b, es)"
  proof (cases "cur = p0")
    case True
    then show ?thesis using assms(1,3) F(1) by (simp add: moved_def follow_renames.simps [of scope p0])
  next
    case False
    then obtain i where i: "es' = es @ [i]" "bi_kind i = IntentRename p0 cur" "ready_in scope i" "bi_id i \<notin> bi_id ` set es"
      using assms(1) by (auto simp: moved_def)
    have "find (\<lambda>e. ready_in scope e \<and> rename_target (bi_kind e) = Some cur) es' = Some i"
      using free_ofD(1) [OF assms(2), of cur] assms(3) i by (simp add: find_append_None)
    moreover have "snd (removeIntent (bi_id i) es') = es" using i removeIntent_append [OF i(4), of "[i]"] by simp
    moreover have "follow_renames scope p0 (base_of i) es = (p0, base_of i, es)"
      using F(1) assms(3) by (simp add: follow_renames.simps [of scope p0])
    ultimately show ?thesis using i(2) by (simp add: follow_renames.simps [of scope cur])
  qed
  then obtain b where b: "follow_renames scope cur base es' = (p0, b, es)" by blast
  have "find (\<lambda>e. ready_in scope e \<and> bi_kind e = IntentDelete p0) es = None"
    using F(3) assms(3) by (auto simp: find_None_iff list_ex_iff)
  moreover have "filter (\<lambda>e. \<not> (ready_in scope e \<and> rename_source (bi_kind e) = Some p0)) es = es"
    using F(2) assms(3) by (auto simp: find_None_iff intro!: filter_True)
  moreover have "normPath cur = cur" using assms(3,4) by auto
  ultimately show ?thesis by (simp add: recordDelete_def b Let_def) (simp add: new_intent_def)
qed

text \<open>A concrete deletion, for the witnesses.\<close>

definition sample_ref :: blob_ref where
  "sample_ref = \<lparr> br_hash = replicate 64 97, br_size = 5, br_priorHashes = None \<rparr>"

definition sample_scope :: intent_scope where
  "sample_scope = \<lparr> is_host = js ''h'', is_vaultId = js ''v'', is_localDeviceId = js ''d'' \<rparr>"

definition sample_base :: mutation_base where
  "sample_base = \<lparr> mb_known = True, mb_ref = Some sample_ref, mb_sourceVersionKnown = Some True,
     mb_expectedSourceVersion = Some (js ''1:2'') \<rparr>"

definition sample_intent :: blob_intent where
  "sample_intent = new_intent (js ''i'') (IntentDelete (js ''a.png'')) sample_scope sample_base 1"

lemma sample_base_ok: "mutation_base_ok sample_base"
proof -
  have "isBlobSourceVersion (js ''1:2'')" by code_simp
  moreover have "isSha256Hex (replicate 64 97)" by (simp add: isSha256Hex_def list_all_iff)
  ultimately show ?thesis
    by (simp add: mutation_base_ok_def sample_base_def base_ok_def ref_ok_def sample_ref_def isValidTimestamp_def MAX_SAFE_INTEGER_def)
qed

lemma sample_ok: "intent_ok id sample_intent"
  unfolding sample_intent_def
  by (rule new_intent_ok [OF sample_base_ok])
    (simp_all add: sample_scope_def scope_ok_def js_def isValidTimestamp_def MAX_SAFE_INTEGER_def)

text \<open>
  The journal follows a file.  A file at \<open>p0\<close> that is renamed any number of times, over paths no
  other pending intent speaks of, leaves exactly one rename from \<open>p0\<close> to where the file is now,
  and nothing if it is back at \<open>p0\<close>; deleting it then leaves exactly the deletion of \<open>p0\<close>, the only
  path the other devices know it under.\<close>

theorem rename_chain_collapses:
  assumes "free_of scope P es" "p0 \<in> P" "\<And>q. q \<in> P \<Longrightarrow> normPath q = q \<and> q \<noteq> []"
    and "(\<lambda>(k, p, b, t). p) ` set ms \<subseteq> P" "(\<lambda>(k, p, b, t). k) ` set ms \<inter> bi_id ` set es = {}"
    and "record_moves normPath scope p0 ms es = (q, es')"
  shows "(if q = p0 then es' = es else (\<exists>i. es' = es @ [i] \<and> bi_kind i = IntentRename p0 q))
     \<and> (\<exists>d. snd (recordDelete normPath newId q scope base t es') = es @ [d] \<and> bi_kind d = IntentDelete p0)"
proof
  have m: "moved scope p0 q es es' \<and> q \<in> P"
    using record_moves_moved [OF _ assms(1) _ assms(4,5,3,6), of p0] assms(2) by (simp add: moved_def)
  then show "if q = p0 then es' = es else (\<exists>i. es' = es @ [i] \<and> bi_kind i = IntentRename p0 q)"
    by (auto simp: moved_def)
  show "\<exists>d. snd (recordDelete normPath newId q scope base t es') = es @ [d] \<and> bi_kind d = IntentDelete p0"
    using m assms(2) by (intro recordDelete_moved [OF _ assms(1) _ assms(3)]) auto
qed

theorem rename_chain_collapses_witness:
  "(\<exists>i. snd (record_moves id sample_scope (js ''a'') [(js ''1'', js ''b'', sample_base, 1), (js ''2'', js ''c'', sample_base, 2)] []) = [] @ [i]
      \<and> bi_kind i = IntentRename (js ''a'') (js ''c''))
   \<and> (\<exists>d. snd (recordDelete id (js ''3'') (js ''c'') sample_scope sample_base 3
         (snd (record_moves id sample_scope (js ''a'') [(js ''1'', js ''b'', sample_base, 1), (js ''2'', js ''c'', sample_base, 2)] [])))
         = [] @ [d] \<and> bi_kind d = IntentDelete (js ''a''))"
proof -
  let ?ms = "[(js ''1'', js ''b'', sample_base, 1), (js ''2'', js ''c'', sample_base, 2)]"
  have "fst (record_moves id sample_scope (js ''a'') ?ms []) = js ''c''" by simp
  then have r: "record_moves id sample_scope (js ''a'') ?ms [] = (js ''c'', snd (record_moves id sample_scope (js ''a'') ?ms []))"
    by (simp only: prod_eq_iff fst_conv snd_conv)
  have P: "id q = q \<and> q \<noteq> []" if "q \<in> {js ''a'', js ''b'', js ''c''}" for q using that by (auto simp: js_def)
  show ?thesis
    using rename_chain_collapses [where P = "{js ''a'', js ''b'', js ''c''}", OF _ _ P _ _ r, where newId = "js ''3''" and base = sample_base and t = 3]
    by (simp add: free_of_def) (simp add: js_def)
qed

text \<open>
  C36: The collapse does not tell files apart.  After \<open>a\<close> was renamed to \<open>b\<close> and another file \<open>z\<close>
  to the free name \<open>a\<close>, deleting \<open>b\<close> follows both renames: the journal holds the deletion of \<open>z\<close>
  alone, where the comment in the code promises the deletion of \<open>a\<close>, and the rename of \<open>z\<close> is gone.\<close>

theorem delete_crosses_reused_name:
  assumes "distinct [a, b, z]" "\<And>q. q \<in> {a, b, z} \<Longrightarrow> normPath q = q \<and> q \<noteq> []" "k1 \<noteq> k2"
  shows "map bi_kind (snd (recordDelete normPath k3 b scope b3 t3
           (snd (recordRename normPath k2 z a scope b2 t2
             (snd (recordRename normPath k1 a b scope b1 t1 [])))))) = [IntentDelete z]"
proof -
  have n: "normPath a = a" "normPath b = b" "normPath z = z" "a \<noteq> []" "b \<noteq> []" "z \<noteq> []" using assms(2) by auto
  have ne: "a \<noteq> b" "b \<noteq> a" "a \<noteq> z" "z \<noteq> a" "b \<noteq> z" "z \<noteq> b" using assms(1) by auto
  let ?i = "new_intent k1 (IntentRename a b) scope b1 t1" and ?j = "new_intent k2 (IntentRename z a) scope b2 t2"
  have fields: "bi_kind (new_intent k kind scope bs t) = kind" "bi_id (new_intent k kind scope bs t) = k" for k kind bs t
    by (simp_all add: new_intent_def)
  have "snd (recordRename normPath k1 a b scope b1 t1 []) = [?i]"
    using n ne by (simp add: recordRename_def rename_hit_def Let_def)
  moreover have "snd (recordRename normPath k2 z a scope b2 t2 [?i]) = [?i, ?j]"
    using n ne by (simp add: recordRename_def rename_hit_def Let_def fields)
  moreover have "follow_renames scope b b3 [?i, ?j] = (z, base_of ?j, [])"
    using ne assms(3) by (simp add: follow_renames.simps fields)
  ultimately show ?thesis using n by (simp add: recordDelete_def Let_def fields)
qed

theorem delete_crosses_reused_name_witness:
  "map bi_kind (snd (recordDelete id (js ''3'') (js ''b'') sample_scope sample_base 3
     (snd (recordRename id (js ''2'') (js ''z'') (js ''a'') sample_scope sample_base 2
       (snd (recordRename id (js ''1'') (js ''a'') (js ''b'') sample_scope sample_base 1 [])))))) = [IntentDelete (js ''z'')]"
  by (rule delete_crosses_reused_name) (auto simp: js_def)

end
