(* ===== verification/Json.thy ===== *)
theory Json
  imports Prelude
begin

text \<open>
  Stored and transmitted values.  The database of the plugin, the storage of the server's durable
  objects and the bodies of its requests hold JSON values; what is read from them has type
  \<^verbatim>\<open>unknown\<close> in the source and passes a guard before it is used.  A property whose value is
  \<^verbatim>\<open>undefined\<close> reads like an absent one; objects have distinct keys.
\<close>

section \<open>Values and readers\<close>

text \<open>A stored value; an absent property is \<^verbatim>\<open>undefined\<close>, and so is \<open>None\<close>.\<close>

datatype json =
    JsonNull
  | JsonBool bool
  | JsonNumber rat
  | JsonString jsstr
  | JsonArray "json list"
  | JsonObject "(jsstr \<times> json) list"

definition field :: "string \<Rightarrow> (jsstr \<times> json) list \<Rightarrow> json option" where
  "field k fs = map_of fs (js k)"

definition only_keys :: "string list \<Rightarrow> (jsstr \<times> json) list \<Rightarrow> bool" where
  "only_keys ks fs \<longleftrightarrow> list_all (\<lambda>(k, v). k \<in> set (map js ks)) fs"

fun read_nonempty :: "json option \<Rightarrow> jsstr option" where
  "read_nonempty (Some (JsonString s)) = (if s \<noteq> [] then Some s else None)"
| "read_nonempty _ = None"

text \<open>An optional field: absent, or well-formed; anything else makes the record unreadable.\<close>

definition optional :: "(json option \<Rightarrow> 'a option) \<Rightarrow> json option \<Rightarrow> 'a option option" where
  "optional reader v = (if v = None then Some None else map_option Some (reader v))"

fun read_bool :: "json option \<Rightarrow> bool option" where
  "read_bool (Some (JsonBool b)) = Some b"
| "read_bool _ = None"

fun read_string :: "json option \<Rightarrow> jsstr option" where
  "read_string (Some (JsonString s)) = Some s"
| "read_string _ = None"

section \<open>Writers\<close>

definition opt_prop :: "string \<Rightarrow> ('a \<Rightarrow> json) \<Rightarrow> 'a option \<Rightarrow> (jsstr \<times> json) list" where
  "opt_prop k f v = (case v of None \<Rightarrow> [] | Some x \<Rightarrow> [(js k, f x)])"

definition json_int :: "int \<Rightarrow> json" where
  "json_int n = JsonNumber (of_int n)"

section \<open>Fields of written objects\<close>

lemma js_inject [simp]: "js s = js t \<longleftrightarrow> s = t"
proof -
  have "inj (\<lambda>c. of_nat (of_char c) :: jschar)"
  proof (rule injI)
    fix c d :: char
    assume "(of_nat (of_char c) :: jschar) = of_nat (of_char d)"
    then have "unat (of_nat (of_char c) :: jschar) = unat (of_nat (of_char d) :: jschar)" by simp
    then have "(of_char c :: nat) mod 65536 = of_char d mod 65536" by (simp only: unat_of_nat) simp
    moreover have "(of_char c :: nat) < 256" "(of_char d :: nat) < 256" by simp_all
    ultimately show "c = d" by simp
  qed
  then show ?thesis by (simp add: js_def inj_map_eq_map)
qed

lemma field_Cons: "field k ((js k', v) # fs) = (if k = k' then Some v else field k fs)"
  by (simp add: field_def)

lemma field_Nil: "field k [] = None"
  by (simp add: field_def)

lemma field_opt_prop: "field k (opt_prop k' f v @ fs) = (if k = k' \<and> v \<noteq> None then map_option f v else field k fs)"
  by (auto simp: opt_prop_def field_def split: option.split)

lemma field_opt_prop_last: "field k (opt_prop k' f v) = (if k = k' then map_option f v else None)"
  using field_opt_prop [of k k' f v "[]"] by (auto simp: field_Nil)

lemma only_keys_simps:
  "only_keys ks []" "only_keys ks ((js k, x) # fs) \<longleftrightarrow> k \<in> set ks \<and> only_keys ks fs"
  "only_keys ks (fs @ gs) \<longleftrightarrow> only_keys ks fs \<and> only_keys ks gs"
  "k \<in> set ks \<Longrightarrow> only_keys ks (opt_prop k f v)"
  by (auto simp: only_keys_def opt_prop_def split: option.split)

lemmas json_simps = field_Cons field_Nil field_opt_prop field_opt_prop_last only_keys_simps

end
