(* ===== verification/BlobIntentStore.thy ===== *)
theory BlobIntentStore
  imports Json BlobIntents
begin

text \<open>
  The persisted form of the intent journal: the reader of \<^verbatim>\<open>pendingBlobIntentJournal.ts\<close>, which accepts
  a record only if every field is as the journal writes it, and the IndexedDB record of one scope,
  \<^verbatim>\<open>src/src/sync/indexedDbPendingBlobIntentStore.ts\<close>.  The database itself is the value stored under
  the key of the scope.  A property whose value is \<^verbatim>\<open>undefined\<close> reads like an absent one, so writers
  leave it out here; objects have distinct keys.
\<close>

section \<open>The persisted form\<close>

text \<open>\<^verbatim>\<open>Number.isSafeInteger(v) && v >= 0\<close> on a number.\<close>

fun read_natural :: "json option \<Rightarrow> int option" where
  "read_natural (Some (JsonNumber q)) =
     (if q = of_int \<lfloor>q\<rfloor> \<and> isValidTimestamp \<lfloor>q\<rfloor> then Some \<lfloor>q\<rfloor> else None)"
| "read_natural _ = None"

fun read_version :: "json option \<Rightarrow> jsstr option" where
  "read_version (Some (JsonString s)) = (if isBlobSourceVersion s then Some s else None)"
| "read_version _ = None"

definition readScope :: "json option \<Rightarrow> intent_scope option" where
  "readScope v =
     (case v of
        Some (JsonObject fs) \<Rightarrow>
          (case (read_nonempty (field ''host'' fs), read_nonempty (field ''vaultId'' fs), read_nonempty (field ''localDeviceId'' fs)) of
             (Some h, Some w, Some d) \<Rightarrow> Some \<lparr> is_host = h, is_vaultId = w, is_localDeviceId = d \<rparr>
           | _ \<Rightarrow> None)
      | _ \<Rightarrow> None)"

fun read_prior :: "hash \<Rightarrow> json list \<Rightarrow> hash list \<Rightarrow> hash list option" where
  "read_prior h [] acc = Some acc"
| "read_prior h (v # vs) acc =
     (case v of
        JsonString s \<Rightarrow> if \<not> isSha256Hex s \<or> s = h \<or> s \<in> set acc then None else read_prior h vs (acc @ [s])
      | _ \<Rightarrow> None)"

definition readBlobRef :: "json option \<Rightarrow> blob_ref option" where
  "readBlobRef v =
     (case v of
        Some (JsonObject fs) \<Rightarrow>
          if \<not> only_keys [''hash'', ''size'', ''priorHashes''] fs then None
          else
            (case (field ''hash'' fs, read_natural (field ''size'' fs)) of
               (Some (JsonString h), Some sz) \<Rightarrow>
                 if \<not> isSha256Hex h then None
                 else (case field ''priorHashes'' fs of
                     None \<Rightarrow> Some \<lparr> br_hash = h, br_size = sz, br_priorHashes = None \<rparr>
                   | Some (JsonArray vs) \<Rightarrow>
                       if length vs > MAX_BLOB_REF_PRIOR_HASHES then None
                       else map_option (make_ref h sz) (read_prior h vs [])
                   | _ \<Rightarrow> None)
             | _ \<Rightarrow> None)
      | _ \<Rightarrow> None)"

definition common_keys :: "string list" where
  "common_keys = [''id'', ''kind'', ''recordedAt'', ''scope'', ''baseRefKnown'', ''expectedSourceRef'',
     ''sourceVersionKnown'', ''expectedSourceVersion'', ''commitAttemptId'', ''attemptedAt'', ''attemptSessionId'',
     ''committedAt'', ''receiptCandidateId'', ''commitSessionId'', ''commitDeleteFingerprint'']"

definition read_kind :: "(path \<Rightarrow> path) \<Rightarrow> (jsstr \<times> json) list \<Rightarrow> intent_kind option" where
  "read_kind normPath fs =
     (if field ''kind'' fs = Some (JsonString (js ''delete'')) then
        (case read_string (field ''path'' fs) of
           Some p \<Rightarrow> if normPath p \<noteq> [] then Some (IntentDelete (normPath p)) else None
         | None \<Rightarrow> None)
      else if field ''kind'' fs = Some (JsonString (js ''rename'')) then
        (case (read_string (field ''oldPath'' fs), read_string (field ''newPath'' fs)) of
           (Some a, Some b) \<Rightarrow>
             if normPath a \<noteq> [] \<and> normPath b \<noteq> [] \<and> normPath a \<noteq> normPath b
             then Some (IntentRename (normPath a) (normPath b)) else None
         | _ \<Rightarrow> None)
      else None)"

definition kind_keys :: "(jsstr \<times> json) list \<Rightarrow> string list option" where
  "kind_keys fs =
     (if field ''kind'' fs = Some (JsonString (js ''delete'')) then Some (common_keys @ [''path''])
      else if field ''kind'' fs = Some (JsonString (js ''rename'')) then Some (common_keys @ [''oldPath'', ''newPath''])
      else None)"

text \<open>The checks on the base of the mutation, and the base itself.\<close>

definition read_base ::
  "(jsstr \<times> json) list \<Rightarrow> (bool \<times> blob_ref option \<times> bool \<times> jsstr option) option" where
  "read_base fs =
     (case (read_bool (field ''baseRefKnown'' fs), optional read_bool (field ''sourceVersionKnown'' fs),
            optional read_version (field ''expectedSourceVersion'' fs)) of
        (Some known, Some svk, Some version) \<Rightarrow>
          let ref = (if known then readBlobRef (field ''expectedSourceRef'' fs) else None);
              sourceVersionKnown = (svk = Some True)
          in if field ''expectedSourceRef'' fs \<noteq> None \<and> (\<not> known \<or> ref = None) then None
             else if \<not> sourceVersionKnown \<and> version \<noteq> None then None
             else if sourceVersionKnown \<and> ref \<noteq> None \<and> version = None then None
             else if version \<noteq> None \<and> ref = None then None
             else Some (known, ref, sourceVersionKnown, version)
      | _ \<Rightarrow> None)"

definition readIntent :: "(path \<Rightarrow> path) \<Rightarrow> json \<Rightarrow> blob_intent option" where
  "readIntent normPath v =
     (case v of
        JsonObject fs \<Rightarrow>
          (case kind_keys fs of
             None \<Rightarrow> None
           | Some ks \<Rightarrow>
               if \<not> only_keys ks fs then None
               else
                 (case (read_nonempty (field ''id'' fs), read_natural (field ''recordedAt'' fs),
                        readScope (field ''scope'' fs), read_base fs) of
                    (Some k, Some recorded, Some scope, Some (known, ref, svk, version)) \<Rightarrow>
                      (case (optional read_nonempty (field ''commitAttemptId'' fs), optional read_natural (field ''attemptedAt'' fs),
                             optional read_nonempty (field ''attemptSessionId'' fs), optional read_natural (field ''committedAt'' fs),
                             optional read_nonempty (field ''receiptCandidateId'' fs), optional read_nonempty (field ''commitSessionId'' fs),
                             optional read_nonempty (field ''commitDeleteFingerprint'' fs), read_kind normPath fs) of
                         (Some a1, Some a2, Some a3, Some c1, Some c2, Some c3, Some c4, Some kind) \<Rightarrow>
                           let i = \<lparr> bi_kind = kind, bi_id = k, bi_recordedAt = recorded, bi_scope = scope, bi_baseRefKnown = known,
                                     bi_expectedSourceRef = ref, bi_sourceVersionKnown = Some svk,
                                     bi_expectedSourceVersion = version, bi_commitAttemptId = a1, bi_attemptedAt = a2,
                                     bi_attemptSessionId = a3, bi_committedAt = c1, bi_receiptCandidateId = c2,
                                     bi_commitSessionId = c3, bi_commitDeleteFingerprint = c4 \<rparr>
                           in if metadata_ok i then Some i else None
                       | _ \<Rightarrow> None)
                  | _ \<Rightarrow> None))
      | _ \<Rightarrow> None)"

definition hydrateIntents :: "(path \<Rightarrow> path) \<Rightarrow> json \<Rightarrow> intent_journal" where
  "hydrateIntents normPath v =
     (case v of JsonArray vs \<Rightarrow> concat (map (\<lambda>x. case readIntent normPath x of Some i \<Rightarrow> [i] | None \<Rightarrow> []) vs) | _ \<Rightarrow> [])"

text \<open>The value of an intent, as the store keeps it.\<close>

definition scope_json :: "intent_scope \<Rightarrow> json" where
  "scope_json s = JsonObject [(js ''host'', JsonString (is_host s)), (js ''vaultId'', JsonString (is_vaultId s)),
     (js ''localDeviceId'', JsonString (is_localDeviceId s))]"

definition blob_ref_json :: "blob_ref \<Rightarrow> json" where
  "blob_ref_json r = JsonObject ([(js ''hash'', JsonString (br_hash r)), (js ''size'', json_int (br_size r))]
     @ opt_prop ''priorHashes'' (\<lambda>hs. JsonArray (map JsonString hs)) (br_priorHashes r))"

fun kind_json :: "intent_kind \<Rightarrow> (jsstr \<times> json) list" where
  "kind_json (IntentDelete p) = [(js ''kind'', JsonString (js ''delete'')), (js ''path'', JsonString p)]"
| "kind_json (IntentRename a b) =
     [(js ''kind'', JsonString (js ''rename'')), (js ''oldPath'', JsonString a), (js ''newPath'', JsonString b)]"

definition intent_props :: "blob_intent \<Rightarrow> (jsstr \<times> json) list" where
  "intent_props i =
     (kind_json (bi_kind i)
      @ [(js ''id'', JsonString (bi_id i)), (js ''recordedAt'', json_int (bi_recordedAt i)), (js ''scope'', scope_json (bi_scope i)),
         (js ''baseRefKnown'', JsonBool (bi_baseRefKnown i))]
      @ opt_prop ''expectedSourceRef'' blob_ref_json (bi_expectedSourceRef i)
      @ opt_prop ''sourceVersionKnown'' JsonBool (bi_sourceVersionKnown i)
      @ opt_prop ''expectedSourceVersion'' JsonString (bi_expectedSourceVersion i)
      @ opt_prop ''commitAttemptId'' JsonString (bi_commitAttemptId i)
      @ opt_prop ''attemptedAt'' json_int (bi_attemptedAt i)
      @ opt_prop ''attemptSessionId'' JsonString (bi_attemptSessionId i)
      @ opt_prop ''committedAt'' json_int (bi_committedAt i)
      @ opt_prop ''receiptCandidateId'' JsonString (bi_receiptCandidateId i)
      @ opt_prop ''commitSessionId'' JsonString (bi_commitSessionId i)
      @ opt_prop ''commitDeleteFingerprint'' JsonString (bi_commitDeleteFingerprint i))"

definition intent_json :: "blob_intent \<Rightarrow> json" where
  "intent_json i = JsonObject (intent_props i)"

section \<open>The store of one scope\<close>

datatype load_status = StoreMissing | StoreLoaded | StoreCorrupt

definition PERSISTED_SCHEMA :: int where "PERSISTED_SCHEMA = 1"

definition saveIntents :: "(path \<Rightarrow> path) \<Rightarrow> intent_scope \<Rightarrow> intent_journal \<Rightarrow> jsstr + json" where
  "saveIntents normPath scope candidates =
     (let journal = hydrateIntents normPath (JsonArray (map intent_json candidates))
      in if length (getIntentEntries None journal) \<noteq> length candidates
         then Inl (js ''Invalid pending blob intent journal'')
         else Inr (JsonObject [(js ''schema'', json_int PERSISTED_SCHEMA), (js ''scope'', scope_json scope),
                (js ''entries'', JsonArray (map intent_json (getIntentEntries (Some scope) journal)))]))"

definition scopeMatches :: "json option \<Rightarrow> intent_scope \<Rightarrow> bool" where
  "scopeMatches v expected =
     (case v of
        Some (JsonObject fs) \<Rightarrow>
          field ''host'' fs = Some (JsonString (is_host expected))
          \<and> field ''vaultId'' fs = Some (JsonString (is_vaultId expected))
          \<and> field ''localDeviceId'' fs = Some (JsonString (is_localDeviceId expected))
      | _ \<Rightarrow> False)"

definition readPersistedJournal :: "(path \<Rightarrow> path) \<Rightarrow> json option \<Rightarrow> intent_scope \<Rightarrow> intent_journal \<times> load_status" where
  "readPersistedJournal normPath raw expected =
     (case raw of
        None \<Rightarrow> ([], StoreMissing)
      | Some (JsonObject fs) \<Rightarrow>
          if field ''schema'' fs \<noteq> Some (json_int PERSISTED_SCHEMA) then ([], StoreCorrupt)
          else if \<not> scopeMatches (field ''scope'' fs) expected then ([], StoreCorrupt)
          else (case field ''entries'' fs of
              Some (JsonArray vs) \<Rightarrow>
                let entries = getIntentEntries (Some expected) (hydrateIntents normPath (JsonArray vs))
                in if length entries = length vs then (entries, StoreLoaded) else ([], StoreCorrupt)
            | _ \<Rightarrow> ([], StoreCorrupt))
      | _ \<Rightarrow> ([], StoreCorrupt))"

section \<open>Reading back what was written\<close>

lemma read_natural_json: "isValidTimestamp n \<Longrightarrow> read_natural (Some (json_int n)) = Some n"
  by (simp add: json_int_def)

lemma readScope_json: "scope_ok s \<Longrightarrow> readScope (Some (scope_json s)) = Some s"
  by (simp add: readScope_def scope_json_def scope_ok_def json_simps)

lemma read_prior_json:
  "distinct (acc @ hs) \<Longrightarrow> list_all isSha256Hex hs \<Longrightarrow> h \<notin> set hs \<Longrightarrow>
     read_prior h (map JsonString hs) acc = Some (acc @ hs)"
  by (induction hs arbitrary: acc) auto

lemma readBlobRef_json:
  assumes "ref_ok r"
  shows "readBlobRef (Some (blob_ref_json r)) = Some r"
proof (cases "br_priorHashes r")
  case None
  then show ?thesis
    using assms by (simp add: readBlobRef_def blob_ref_json_def json_simps ref_ok_def read_natural_json)
next
  case (Some hs)
  then show ?thesis
    using assms read_prior_json [of "[]" hs "br_hash r"]
    by (simp add: readBlobRef_def blob_ref_json_def json_simps ref_ok_def read_natural_json make_ref_def)
qed

lemma opt_field_collapse: "(if v \<noteq> None then map_option f v else None) = map_option f v"
  by simp

lemma intent_fields:
  "field ''id'' (intent_props i) = Some (JsonString (bi_id i))"
  "field ''recordedAt'' (intent_props i) = Some (json_int (bi_recordedAt i))"
  "field ''scope'' (intent_props i) = Some (scope_json (bi_scope i))"
  "field ''baseRefKnown'' (intent_props i) = Some (JsonBool (bi_baseRefKnown i))"
  "field ''expectedSourceRef'' (intent_props i) = map_option blob_ref_json (bi_expectedSourceRef i)"
  "field ''sourceVersionKnown'' (intent_props i) = map_option JsonBool (bi_sourceVersionKnown i)"
  "field ''expectedSourceVersion'' (intent_props i) = map_option JsonString (bi_expectedSourceVersion i)"
  "field ''commitAttemptId'' (intent_props i) = map_option JsonString (bi_commitAttemptId i)"
  "field ''attemptedAt'' (intent_props i) = map_option json_int (bi_attemptedAt i)"
  "field ''attemptSessionId'' (intent_props i) = map_option JsonString (bi_attemptSessionId i)"
  "field ''committedAt'' (intent_props i) = map_option json_int (bi_committedAt i)"
  "field ''receiptCandidateId'' (intent_props i) = map_option JsonString (bi_receiptCandidateId i)"
  "field ''commitSessionId'' (intent_props i) = map_option JsonString (bi_commitSessionId i)"
  "field ''commitDeleteFingerprint'' (intent_props i) = map_option JsonString (bi_commitDeleteFingerprint i)"
  by (cases "bi_kind i"; simp add: intent_props_def json_simps)+

lemma kind_fields:
  "field ''kind'' (intent_props i) =
     Some (JsonString (js (case bi_kind i of IntentDelete p \<Rightarrow> ''delete'' | IntentRename a b \<Rightarrow> ''rename'')))"
  "bi_kind i = IntentDelete p \<Longrightarrow> field ''path'' (intent_props i) = Some (JsonString p)"
  "bi_kind i = IntentRename a b \<Longrightarrow> field ''oldPath'' (intent_props i) = Some (JsonString a)"
  "bi_kind i = IntentRename a b \<Longrightarrow> field ''newPath'' (intent_props i) = Some (JsonString b)"
  by (cases "bi_kind i"; simp add: intent_props_def json_simps)+

lemma kind_keys_intent:
  "kind_keys (intent_props i) =
     Some (common_keys @ (case bi_kind i of IntentDelete p \<Rightarrow> [''path''] | IntentRename a b \<Rightarrow> [''oldPath'', ''newPath'']))"
  by (simp add: kind_keys_def kind_fields split: intent_kind.split)

lemma only_keys_intent:
  "only_keys (common_keys @ (case bi_kind i of IntentDelete p \<Rightarrow> [''path''] | IntentRename a b \<Rightarrow> [''oldPath'', ''newPath'']))
     (intent_props i)"
  by (cases "bi_kind i"; simp add: intent_props_def only_keys_simps common_keys_def)

lemma read_kind_intent: "kind_ok normPath (bi_kind i) \<Longrightarrow> read_kind normPath (intent_props i) = Some (bi_kind i)"
  by (cases "bi_kind i") (simp_all add: read_kind_def kind_fields)

lemma optional_read:
  "opt_all P v \<Longrightarrow> (\<And>x. P x \<Longrightarrow> r (Some (f x)) = Some x) \<Longrightarrow> optional r (map_option f v) = Some v"
  by (cases v) (auto simp: optional_def)

lemma read_base_intent:
  assumes "intent_ok normPath i"
  shows "read_base (intent_props i) =
    Some (bi_baseRefKnown i, bi_expectedSourceRef i, bi_sourceVersionKnown i = Some True, bi_expectedSourceVersion i)"
proof -
  have ok: "base_ok (bi_baseRefKnown i) (bi_expectedSourceRef i) (bi_sourceVersionKnown i = Some True) (bi_expectedSourceVersion i)"
    using assms by (simp add: intent_ok_def)
  have ref: "readBlobRef (map_option blob_ref_json (bi_expectedSourceRef i)) = bi_expectedSourceRef i"
  proof (cases "bi_expectedSourceRef i")
    case None
    then show ?thesis by (simp add: readBlobRef_def)
  next
    case (Some r)
    then show ?thesis using ok by (simp add: base_ok_def readBlobRef_json)
  qed
  have svk: "optional read_bool (map_option JsonBool (bi_sourceVersionKnown i)) = Some (bi_sourceVersionKnown i)"
    by (cases "bi_sourceVersionKnown i") (simp_all add: optional_def)
  have version: "optional read_version (map_option JsonString (bi_expectedSourceVersion i)) = Some (bi_expectedSourceVersion i)"
    using ok by (intro optional_read [where P = isBlobSourceVersion]) (auto simp: base_ok_def)
  show ?thesis
    using ok ref by (auto simp: read_base_def intent_fields svk version base_ok_def Let_def)
qed

lemma intent_eta:
  "\<lparr> bi_kind = bi_kind i, bi_id = bi_id i, bi_recordedAt = bi_recordedAt i, bi_scope = bi_scope i,
      bi_baseRefKnown = bi_baseRefKnown i, bi_expectedSourceRef = bi_expectedSourceRef i,
      bi_sourceVersionKnown = bi_sourceVersionKnown i, bi_expectedSourceVersion = bi_expectedSourceVersion i,
      bi_commitAttemptId = bi_commitAttemptId i, bi_attemptedAt = bi_attemptedAt i,
      bi_attemptSessionId = bi_attemptSessionId i, bi_committedAt = bi_committedAt i,
      bi_receiptCandidateId = bi_receiptCandidateId i, bi_commitSessionId = bi_commitSessionId i,
      bi_commitDeleteFingerprint = bi_commitDeleteFingerprint i \<rparr> = i"
  by (cases i) simp

theorem readIntent_intent_json:
  assumes "intent_ok normPath i"
  shows "readIntent normPath (intent_json i) = Some i"
proof -
  have s: "optional read_nonempty (map_option JsonString v) = Some v" if "opt_all (\<lambda>s. s \<noteq> []) v" for v
    using that by (rule optional_read) simp
  have t: "optional read_natural (map_option json_int v) = Some v" if "opt_all isValidTimestamp v" for v
    using that by (rule optional_read) (rule read_natural_json)
  note ok = assms [unfolded intent_ok_def metadata_values_ok_def]
  have svk: "bi_sourceVersionKnown i = Some (bi_sourceVersionKnown i = Some True)"
    using ok by (cases "bi_sourceVersionKnown i") auto
  show ?thesis
    using ok svk
    by (simp add: readIntent_def intent_json_def kind_keys_intent only_keys_intent intent_fields read_kind_intent
        read_base_intent [OF assms] s t read_natural_json readScope_json intent_eta Let_def)
qed

section \<open>Whatever is read is well-formed\<close>

lemma read_nonempty_ok: "read_nonempty v = Some s \<Longrightarrow> s \<noteq> []"
  by (induction v rule: read_nonempty.induct) (auto split: if_splits)

lemma read_natural_ok: "read_natural v = Some n \<Longrightarrow> isValidTimestamp n"
  by (induction v rule: read_natural.induct) (auto split: if_splits)

lemma read_version_ok: "read_version v = Some s \<Longrightarrow> isBlobSourceVersion s"
  by (induction v rule: read_version.induct) (auto split: if_splits)

lemma optional_ok: "optional r x = Some v \<Longrightarrow> (\<And>y. r x = Some y \<Longrightarrow> P y) \<Longrightarrow> opt_all P v"
  by (auto simp: optional_def split: if_splits)

lemma readScope_ok: "readScope v = Some s \<Longrightarrow> scope_ok s"
  by (auto simp: readScope_def scope_ok_def dest: read_nonempty_ok split: option.splits json.splits)

lemma read_prior_ok:
  "read_prior h vs acc = Some hs \<Longrightarrow> distinct acc \<and> list_all isSha256Hex acc \<and> h \<notin> set acc \<Longrightarrow>
     distinct hs \<and> list_all isSha256Hex hs \<and> h \<notin> set hs \<and> length hs = length acc + length vs"
  by (induction vs arbitrary: acc) (fastforce split: json.splits if_splits)+

lemma readBlobRef_ok:
  assumes "readBlobRef v = Some r"
  shows "ref_ok r"
proof -
  obtain fs where v: "v = Some (JsonObject fs)"
    using assms by (auto simp: readBlobRef_def split: option.splits json.splits)
  then obtain h sz where h: "field ''hash'' fs = Some (JsonString h)" "read_natural (field ''size'' fs) = Some sz" "isSha256Hex h"
    using assms by (auto simp: readBlobRef_def split: option.splits json.splits if_splits)
  have sz: "isValidTimestamp sz" using h(2) by (rule read_natural_ok)
  have r: "(case field ''priorHashes'' fs of
        None \<Rightarrow> Some \<lparr> br_hash = h, br_size = sz, br_priorHashes = None \<rparr>
      | Some (JsonArray vs) \<Rightarrow>
          if length vs > MAX_BLOB_REF_PRIOR_HASHES then None else map_option (make_ref h sz) (read_prior h vs [])
      | _ \<Rightarrow> None) = Some r"
    using assms v h by (simp add: readBlobRef_def split: if_splits)
  consider "r = \<lparr> br_hash = h, br_size = sz, br_priorHashes = None \<rparr>"
    | vs hs where "length vs \<le> MAX_BLOB_REF_PRIOR_HASHES" "read_prior h vs [] = Some hs" "r = make_ref h sz hs"
  proof (cases "field ''priorHashes'' fs")
    case None
    then show ?thesis using r that(1) by simp
  next
    case (Some p)
    then obtain vs where "p = JsonArray vs" using r by (cases p) auto
    then show ?thesis using r Some that(2) [of vs] by (cases "read_prior h vs []") (auto split: if_splits)
  qed
  then show ?thesis
  proof cases
    case 1
    then show ?thesis using h sz by (simp add: ref_ok_def)
  next
    case 2
    then show ?thesis using h sz read_prior_ok [OF 2(2)] by (auto simp: ref_ok_def make_ref_def)
  qed
qed

lemma read_base_ok:
  assumes "read_base fs = Some (known, ref, svk, version)"
  shows "base_ok known ref svk version"
proof -
  obtain k sv w where a: "read_bool (field ''baseRefKnown'' fs) = Some k"
      "optional read_bool (field ''sourceVersionKnown'' fs) = Some sv"
      "optional read_version (field ''expectedSourceVersion'' fs) = Some w"
    using assms unfolding read_base_def
    by (cases "read_bool (field ''baseRefKnown'' fs)"; cases "optional read_bool (field ''sourceVersionKnown'' fs)";
        cases "optional read_version (field ''expectedSourceVersion'' fs)") auto
  have p: "k = known" "w = version" "ref = (if known then readBlobRef (field ''expectedSourceRef'' fs) else None)"
      "svk = (sv = Some True)" "svk \<or> version = None" "svk \<and> ref \<noteq> None \<longrightarrow> version \<noteq> None" "version \<noteq> None \<longrightarrow> ref \<noteq> None"
    using assms unfolding read_base_def a by (simp_all add: Let_def split: if_split_asm) blast+
  have "opt_all ref_ok ref" 
  proof (cases ref)
    case (Some r)
    then have "readBlobRef (field ''expectedSourceRef'' fs) = Some r" using p(3) by (simp split: if_splits)
    then show ?thesis using Some readBlobRef_ok by simp
  qed simp
  moreover have "opt_all isBlobSourceVersion version" using a(3) unfolding p(2) by (rule optional_ok) (rule read_version_ok)
  ultimately show ?thesis using p by (auto simp: base_ok_def)
qed

lemma read_kind_ok:
  assumes "read_kind normPath fs = Some k" "\<And>p. normPath (normPath p) = normPath p"
  shows "kind_ok normPath k"
proof -
  consider p where "k = IntentDelete (normPath p)" "normPath p \<noteq> []"
    | a b where "k = IntentRename (normPath a) (normPath b)" "normPath a \<noteq> []" "normPath b \<noteq> []" "normPath a \<noteq> normPath b"
    using assms(1) by (auto simp: read_kind_def split: option.splits if_splits)
  then show ?thesis by cases (simp_all add: assms(2))
qed

theorem readIntent_ok:
  assumes "readIntent normPath v = Some i" "\<And>p. normPath (normPath p) = normPath p"
  shows "intent_ok normPath i"
proof -
  obtain fs ks where v: "v = JsonObject fs" "kind_keys fs = Some ks" "only_keys ks fs"
    using assms(1) by (auto simp: readIntent_def split: json.splits option.splits if_splits)
  obtain k t scope known ref svk version where
    A: "read_nonempty (field ''id'' fs) = Some k" "read_natural (field ''recordedAt'' fs) = Some t"
      "readScope (field ''scope'' fs) = Some scope" "read_base fs = Some (known, ref, svk, version)"
    using assms(1) v by (auto simp: readIntent_def split: option.splits)
  obtain a1 a2 a3 c1 c2 c3 c4 kind where
    B: "optional read_nonempty (field ''commitAttemptId'' fs) = Some a1" "optional read_natural (field ''attemptedAt'' fs) = Some a2"
      "optional read_nonempty (field ''attemptSessionId'' fs) = Some a3" "optional read_natural (field ''committedAt'' fs) = Some c1"
      "optional read_nonempty (field ''receiptCandidateId'' fs) = Some c2" "optional read_nonempty (field ''commitSessionId'' fs) = Some c3"
      "optional read_nonempty (field ''commitDeleteFingerprint'' fs) = Some c4" "read_kind normPath fs = Some kind"
    using assms(1) v A by (auto simp: readIntent_def split: option.splits)
  have i: "metadata_ok i" "i = \<lparr> bi_kind = kind, bi_id = k, bi_recordedAt = t, bi_scope = scope, bi_baseRefKnown = known,
      bi_expectedSourceRef = ref, bi_sourceVersionKnown = Some svk, bi_expectedSourceVersion = version, bi_commitAttemptId = a1,
      bi_attemptedAt = a2, bi_attemptSessionId = a3, bi_committedAt = c1, bi_receiptCandidateId = c2, bi_commitSessionId = c3,
      bi_commitDeleteFingerprint = c4 \<rparr>"
    using assms(1) v A B by (auto simp: readIntent_def Let_def split: if_splits)
  note vals = optional_ok [OF B(1) read_nonempty_ok] optional_ok [OF B(2) read_natural_ok] optional_ok [OF B(3) read_nonempty_ok]
    optional_ok [OF B(4) read_natural_ok] optional_ok [OF B(5) read_nonempty_ok] optional_ok [OF B(6) read_nonempty_ok]
    optional_ok [OF B(7) read_nonempty_ok]
  have "metadata_values_ok i" using vals by (simp add: metadata_values_ok_def i(2))
  moreover have "k \<noteq> []" "isValidTimestamp t" "scope_ok scope" "base_ok known ref svk version" "kind_ok normPath kind"
    using read_nonempty_ok [OF A(1)] read_natural_ok [OF A(2)] readScope_ok [OF A(3)] read_base_ok [OF A(4)]
      read_kind_ok [OF B(8) assms(2)] by simp_all
  ultimately show ?thesis using i(1) by (simp add: intent_ok_def i(2))
qed

section \<open>Restarts\<close>

lemma hydrate_written: "list_all (intent_ok normPath) es \<Longrightarrow> hydrateIntents normPath (JsonArray (map intent_json es)) = es"
  by (induction es) (simp_all add: hydrateIntents_def readIntent_intent_json)

lemma hydrate_ok:
  assumes "\<And>p. normPath (normPath p) = normPath p"
  shows "list_all (intent_ok normPath) (hydrateIntents normPath v)"
  using readIntent_ok [OF _ assms] by (auto simp: hydrateIntents_def list_all_iff split: json.splits option.splits)

lemma clone_list_ok: "list_all (intent_ok normPath) es \<Longrightarrow> map cloneIntent es = es"
  by (auto simp: list_all_iff intro!: map_idI clone_intent_ok)

lemma entries_ok:
  assumes "list_all (intent_ok normPath) es"
  shows "getIntentEntries (Some scope) es = filter (\<lambda>e. bi_scope e = scope) es" "getIntentEntries None es = es"
proof -
  have "map cloneIntent (filter P es) = filter P es" for P
    using assms by (intro clone_list_ok [of normPath]) (auto simp: list_all_iff)
  then show "getIntentEntries (Some scope) es = filter (\<lambda>e. bi_scope e = scope) es" "getIntentEntries None es = es"
    using clone_list_ok [OF assms] by (simp_all add: getIntentEntries_def eq_commute)
qed

lemma scopeMatches_json: "scopeMatches (Some (scope_json s)) s"
  by (simp add: scopeMatches_def scope_json_def json_simps)

lemma saved_intents_load:
  assumes "list_all (intent_ok normPath) es"
  shows "\<exists>stored. saveIntents normPath scope es = Inr stored
     \<and> readPersistedJournal normPath (Some stored) scope = (filter (\<lambda>e. bi_scope e = scope) es, StoreLoaded)"
proof -
  define fs where "fs = filter (\<lambda>e. bi_scope e = scope) es"
  have ok': "list_all (intent_ok normPath) fs" using assms by (auto simp: fs_def list_all_iff)
  have fs: "getIntentEntries (Some scope) es = fs" "getIntentEntries (Some scope) fs = fs"
    using entries_ok [OF assms] entries_ok [OF ok'] by (simp_all add: fs_def)
  let ?stored = "JsonObject [(js ''schema'', json_int PERSISTED_SCHEMA), (js ''scope'', scope_json scope),
      (js ''entries'', JsonArray (map intent_json fs))]"
  have "saveIntents normPath scope es = Inr ?stored"
    using assms fs by (simp add: saveIntents_def hydrate_written entries_ok Let_def)
  moreover have "readPersistedJournal normPath (Some ?stored) scope = (fs, StoreLoaded)"
    using ok' fs by (simp add: readPersistedJournal_def json_simps scopeMatches_json hydrate_written Let_def)
  ultimately show ?thesis by (simp add: fs_def)
qed

text \<open>
  C23: Pending attachment mutations survive a restart.  Whatever sequence of operations built the
  journal, saving it succeeds and loading the record gives back every intent of the scope, field by
  field: paths, base, attempt fence, commit metadata.\<close>

theorem reachable_journal_survives_restart:
  assumes "journal_reach normPath [] es" "\<And>p. normPath (normPath p) = normPath p"
  shows "\<exists>stored. saveIntents normPath scope es = Inr stored
     \<and> readPersistedJournal normPath (Some stored) scope = (filter (\<lambda>e. bi_scope e = scope) es, StoreLoaded)"
proof -
  have "journal_ok normPath es" by (rule journal_reach_ok [OF assms(1) _ assms(2)]) (simp add: journal_ok_def)
  then show ?thesis by (intro saved_intents_load) (simp add: journal_ok_def)
qed

theorem reachable_journal_survives_restart_witness:
  "\<exists>stored. saveIntents id sample_scope
       (run_journal id (RecordDelete (js ''i'') (js ''a'') sample_scope sample_base 1) []) = Inr stored
     \<and> readPersistedJournal id (Some stored) sample_scope
       = (filter (\<lambda>e. bi_scope e = sample_scope) (run_journal id (RecordDelete (js ''i'') (js ''a'') sample_scope sample_base 1) []),
          StoreLoaded)"
proof -
  have "journal_reach id [] (run_journal id (RecordDelete (js ''i'') (js ''a'') sample_scope sample_base 1) [])"
    by (intro journal_reach.op journal_reach.start)
      (simp add: sample_base_ok, simp add: sample_scope_def scope_ok_def js_def isValidTimestamp_def MAX_SAFE_INTEGER_def)
  then show ?thesis by (rule reachable_journal_survives_restart) simp
qed

text \<open>
  Loading fails closed.  Whatever the store holds, the loaded entries are well-formed intents of the
  scope; they are all the record holds, or there are none and the status says why.\<close>

theorem load_fails_closed:
  assumes "readPersistedJournal normPath raw scope = (es, status)" "\<And>p. normPath (normPath p) = normPath p"
  shows "list_all (\<lambda>e. intent_ok normPath e \<and> bi_scope e = scope) es
     \<and> (status = StoreLoaded \<or> es = [])
     \<and> (status = StoreMissing \<longleftrightarrow> raw = None)
     \<and> (status = StoreLoaded \<longrightarrow>
          (\<exists>fs vs. raw = Some (JsonObject fs) \<and> field ''entries'' fs = Some (JsonArray vs)
             \<and> map (readIntent normPath) vs = map Some es))"
proof (cases "status = StoreLoaded")
  case True
  then obtain fs vs where r: "raw = Some (JsonObject fs)" "field ''entries'' fs = Some (JsonArray vs)"
      "es = getIntentEntries (Some scope) (hydrateIntents normPath (JsonArray vs))" "length es = length vs"
    using assms(1) by (auto simp: readPersistedJournal_def Let_def split: option.splits json.splits if_splits)
  define hs where "hs = hydrateIntents normPath (JsonArray vs)"
  have ok: "list_all (intent_ok normPath) hs" unfolding hs_def by (rule hydrate_ok [OF assms(2)])
  have es: "es = filter (\<lambda>e. bi_scope e = scope) hs" using r(3) entries_ok [OF ok] by (simp add: hs_def)
  have len: "length (hydrateIntents normPath (JsonArray ws)) \<le> length ws" for ws
    by (induction ws) (auto simp: hydrateIntents_def split: option.split)
  have "length hs = length vs"
    using len [of vs] r(4) es length_filter_le [of "\<lambda>e. bi_scope e = scope" hs] by (simp add: hs_def)
  then have "length (filter (\<lambda>e. bi_scope e = scope) hs) = length hs" using es r(4) by simp
  then have all: "es = hs" using es by (metis filter_True length_filter_less less_irrefl)
  have read: "length (hydrateIntents normPath (JsonArray ws)) = length ws \<Longrightarrow>
      map (readIntent normPath) ws = map Some (hydrateIntents normPath (JsonArray ws))" for ws
  proof (induction ws)
    case (Cons w ws)
    then show ?case using len [of ws] by (cases "readIntent normPath w") (auto simp: hydrateIntents_def)
  qed (simp add: hydrateIntents_def)
  have "map (readIntent normPath) vs = map Some es" using read [of vs] all r(4) by (simp add: hs_def)
  moreover have "bi_scope e = scope" if "e \<in> set es" for e using that es by simp
  then have "list_all (\<lambda>e. intent_ok normPath e \<and> bi_scope e = scope) es" using ok all by (auto simp: list_all_iff)
  ultimately show ?thesis using True r by auto
next
  case False
  then have "es = []" "status = StoreMissing \<longleftrightarrow> raw = None"
    using assms(1) by (auto simp: readPersistedJournal_def Let_def split: option.splits json.splits if_splits)
  then show ?thesis using False by simp
qed

theorem load_fails_closed_witness:
  "\<exists>fs vs. JsonObject [(js ''schema'', json_int 1), (js ''scope'', scope_json sample_scope), (js ''entries'', JsonArray [])]
       = JsonObject fs \<and> field ''entries'' fs = Some (JsonArray vs) \<and> map (readIntent id) vs = map Some []"
proof -
  have "readPersistedJournal id
      (Some (JsonObject [(js ''schema'', json_int 1), (js ''scope'', scope_json sample_scope), (js ''entries'', JsonArray [])]))
      sample_scope = ([], StoreLoaded)"
    by (simp add: readPersistedJournal_def json_simps PERSISTED_SCHEMA_def scopeMatches_json getIntentEntries_def hydrateIntents_def)
  from load_fails_closed [OF this] show ?thesis by simp
qed

end
