(* ===== verification/BlobRefs.thy ===== *)
theory BlobRefs
  imports BlobIntents
begin

text \<open>
  The shared attachment maps of \<^verbatim>\<open>src/src/sync/vaultSync.ts\<close>: which content a path refers to, the
  tombstones of deleted paths, the metadata of contents, and the guarded mutations on them.

  A live path is an item: its ref and the identity of the Yjs item that holds it (client and clock as
  text, or nothing when they are not safe integers).  Every \<^verbatim>\<open>set\<close> makes a new item, whose identity is
  the argument \<open>fresh\<close>.  What synchronous observers do to the maps when the transaction opens and
  when it closes are the arguments \<open>before\<close> and \<open>after\<close>.
\<close>

section \<open>The maps\<close>

record blob_item =
  it_ref :: blob_ref
  it_version :: "jsstr option"

record blob_tombstone =
  bt_deletedAt :: int
  bt_device :: "jsstr option"
  bt_deletedRef :: "blob_ref option"

record blob_meta =
  bm_size :: int
  bm_mime :: jsstr
  bm_createdAt :: int
  bm_device :: "jsstr option"

record blob_maps =
  bm_pathToBlob :: "path \<Rightarrow> blob_item option"
  bm_tombstones :: "path \<Rightarrow> blob_tombstone option"
  bm_blobMeta :: "hash \<Rightarrow> blob_meta option"

definition live_ref :: "path \<Rightarrow> blob_maps \<Rightarrow> blob_ref option" where
  "live_ref p m = map_option it_ref (bm_pathToBlob m p)"

definition getBlobRef :: "(path \<Rightarrow> path) \<Rightarrow> path \<Rightarrow> blob_maps \<Rightarrow> blob_ref option" where
  "getBlobRef normPath p m = live_ref (normPath p) m"

definition getBlobSourceVersion :: "(path \<Rightarrow> path) \<Rightarrow> path \<Rightarrow> blob_maps \<Rightarrow> jsstr option" where
  "getBlobSourceVersion normPath p m =
     (case bm_pathToBlob m (normPath p) of None \<Rightarrow> None | Some it \<Rightarrow> it_version it)"

definition isBlobTombstoned :: "(path \<Rightarrow> path) \<Rightarrow> path \<Rightarrow> blob_maps \<Rightarrow> bool" where
  "isBlobTombstoned normPath p m \<longleftrightarrow> bm_pathToBlob m (normPath p) = None \<and> bm_tombstones m (normPath p) \<noteq> None"

text \<open>The writes inside a transaction.\<close>

definition put_item :: "path \<Rightarrow> blob_ref \<Rightarrow> jsstr option \<Rightarrow> blob_maps \<Rightarrow> blob_maps" where
  "put_item p r version m = m\<lparr> bm_pathToBlob := (bm_pathToBlob m)(p \<mapsto> \<lparr> it_ref = r, it_version = version \<rparr>) \<rparr>"

definition tombstone_path :: "path \<Rightarrow> blob_ref \<Rightarrow> jsstr option \<Rightarrow> int \<Rightarrow> blob_maps \<Rightarrow> blob_maps" where
  "tombstone_path p r device now m =
     m\<lparr> bm_pathToBlob := (bm_pathToBlob m)(p := None),
        bm_tombstones := (bm_tombstones m)
          (p \<mapsto> \<lparr> bt_deletedAt = now, bt_device = device, bt_deletedRef = Some r \<rparr>) \<rparr>"

definition clear_tombstone :: "path \<Rightarrow> blob_maps \<Rightarrow> blob_maps" where
  "clear_tombstone p m = m\<lparr> bm_tombstones := (bm_tombstones m)(p := None) \<rparr>"

section \<open>Publishing\<close>

record commit_guard =
  cg_expectedCurrentRef :: "blob_ref option"
  cg_expectedCurrentSourceVersion :: "jsstr option"
  cg_causalBaseRef :: "blob_ref option"

datatype set_outcome = SetRejected | SetThrows | SetCommitted "blob_ref option" jsstr

definition falsy :: "jsstr option \<Rightarrow> bool" where
  "falsy v \<longleftrightarrow> v = None \<or> v = Some []"

definition guard_rejects :: "(path \<Rightarrow> path) \<Rightarrow> path \<Rightarrow> commit_guard \<Rightarrow> blob_maps \<Rightarrow> bool" where
  "guard_rejects normPath p g m \<longleftrightarrow>
     \<not> sameBlobRef (live_ref p m) (cg_expectedCurrentRef g)
     \<or> (cg_expectedCurrentRef g \<noteq> None
        \<and> (falsy (cg_expectedCurrentSourceVersion g)
           \<or> getBlobSourceVersion normPath p m \<noteq> cg_expectedCurrentSourceVersion g))"

definition setBlobRef ::
  "(path \<Rightarrow> path) \<Rightarrow> jsstr option \<Rightarrow> int \<Rightarrow> path \<Rightarrow> hash \<Rightarrow> int \<Rightarrow> jsstr \<Rightarrow> jsstr option \<Rightarrow> commit_guard option
   \<Rightarrow> blob_maps \<Rightarrow> set_outcome \<times> blob_maps" where
  "setBlobRef normPath fresh now path h sz mime device guard m =
     (let p = normPath path
      in if (case guard of Some g \<Rightarrow> guard_rejects normPath p g m | None \<Rightarrow> False) then (SetRejected, m)
         else
           let nextRef = createCausalBlobRef h sz
                 (case guard of Some g \<Rightarrow> cg_causalBaseRef g | None \<Rightarrow> live_ref p m) [];
               m1 = put_item p nextRef fresh m;
               version = getBlobSourceVersion normPath p m1;
               m2 = (if bm_blobMeta m1 h = None
                     then m1\<lparr> bm_blobMeta := (bm_blobMeta m1)
                       (h \<mapsto> \<lparr> bm_size = sz, bm_mime = mime, bm_createdAt = now, bm_device = device \<rparr>) \<rparr>
                     else m1);
               m3 = clear_tombstone p m2
           in (if falsy version then SetThrows else SetCommitted (cloneBlobRef (Some nextRef)) (the version), m3))"

section \<open>Deleting and renaming against a base\<close>

datatype delete_result =
    BlobDeleted blob_ref
  | DeleteAlreadyAbsent
  | DeleteUnknownSource blob_ref
  | DeleteSourceConflict "blob_ref option" "blob_ref option" bool

text \<open>The comparison both guarded mutations make, before and inside the transaction.\<close>

definition source_matches :: "(path \<Rightarrow> path) \<Rightarrow> path \<Rightarrow> blob_ref option \<Rightarrow> jsstr option \<Rightarrow> blob_maps \<Rightarrow> bool" where
  "source_matches normPath p expectedRef version m \<longleftrightarrow>
     sameBlobRef (live_ref p m) expectedRef \<and> getBlobSourceVersion normPath p m = version"

definition deleteBlobRefIfCurrent ::
  "(path \<Rightarrow> path) \<Rightarrow> (blob_maps \<Rightarrow> blob_maps) \<Rightarrow> (blob_maps \<Rightarrow> blob_maps) \<Rightarrow> int \<Rightarrow> path \<Rightarrow> mutation_base \<Rightarrow> jsstr option
   \<Rightarrow> blob_maps \<Rightarrow> delete_result \<times> blob_maps" where
  "deleteBlobRefIfCurrent normPath before after now path base device m =
     (let p = normPath path
      in case cloneBlobRef (live_ref p m) of
           None \<Rightarrow> (DeleteAlreadyAbsent, m)
         | Some currentRef \<Rightarrow>
             if \<not> mb_known base then (DeleteUnknownSource currentRef, m)
             else
               let expectedRef = cloneBlobRef (mb_ref base); version = mb_expectedSourceVersion base
               in if mb_sourceVersionKnown base \<noteq> Some True \<or> falsy version then (DeleteUnknownSource currentRef, m)
                  else if \<not> sameBlobRef (Some currentRef) expectedRef \<or> getBlobSourceVersion normPath p m \<noteq> version
                  then (DeleteSourceConflict expectedRef (Some currentRef) False, m)
                  else
                    let m1 = before m;
                        applied = source_matches normPath p expectedRef version m1;
                        m2 = after (if applied then tombstone_path p currentRef device now m1 else m1)
                    in (if \<not> applied \<or> bm_pathToBlob m2 p \<noteq> None
                        then DeleteSourceConflict expectedRef (cloneBlobRef (live_ref p m2)) applied
                        else BlobDeleted currentRef, m2))"

definition deleteBlobRef :: "(path \<Rightarrow> path) \<Rightarrow> int \<Rightarrow> path \<Rightarrow> jsstr option \<Rightarrow> blob_maps \<Rightarrow> blob_maps" where
  "deleteBlobRef normPath now path device m =
     (let p = normPath path
      in case cloneBlobRef (live_ref p m) of
           None \<Rightarrow> m
         | Some deletedRef \<Rightarrow> tombstone_path p deletedRef device now m)"

datatype rename_result =
    RenameMissingSource
  | RenameSamePath blob_ref
  | BlobMoved blob_ref
  | RenameDestinationConflict blob_ref "blob_ref option"
  | RenameAlreadyAbsent
  | RenameUnknownSource blob_ref
  | RenameSourceConflict "blob_ref option" "blob_ref option" bool

definition destination_conflict :: "blob_ref option \<Rightarrow> blob_ref \<Rightarrow> bool" where
  "destination_conflict destinationRef r \<longleftrightarrow> destinationRef \<noteq> None \<and> \<not> sameBlobRef destinationRef (Some r)"

text \<open>The body of the rename transaction.\<close>

definition move_item ::
  "path \<Rightarrow> path \<Rightarrow> blob_ref \<Rightarrow> bool \<Rightarrow> jsstr option \<Rightarrow> jsstr option \<Rightarrow> int \<Rightarrow> blob_maps \<Rightarrow> blob_maps" where
  "move_item p q r conflict fresh device now m =
     (let m1 = tombstone_path p r device now m
      in if conflict then m1 else clear_tombstone q (put_item q r fresh m1))"

definition renameBlobRefWithTombstoneIfCurrent ::
  "(path \<Rightarrow> path) \<Rightarrow> (blob_maps \<Rightarrow> blob_maps) \<Rightarrow> (blob_maps \<Rightarrow> blob_maps) \<Rightarrow> jsstr option \<Rightarrow> int \<Rightarrow> path \<Rightarrow> path
   \<Rightarrow> mutation_base \<Rightarrow> jsstr option \<Rightarrow> blob_maps \<Rightarrow> rename_result \<times> blob_maps" where
  "renameBlobRefWithTombstoneIfCurrent normPath before after fresh now oldPath newPath base device m =
     (let p = normPath oldPath; q = normPath newPath
      in case cloneBlobRef (live_ref p m) of
           None \<Rightarrow> (RenameAlreadyAbsent, m)
         | Some currentRef \<Rightarrow>
             if \<not> mb_known base then (RenameUnknownSource currentRef, m)
             else
               let expectedRef = cloneBlobRef (mb_ref base); version = mb_expectedSourceVersion base
               in if mb_sourceVersionKnown base \<noteq> Some True \<or> falsy version then (RenameUnknownSource currentRef, m)
                  else if \<not> sameBlobRef (Some currentRef) expectedRef \<or> getBlobSourceVersion normPath p m \<noteq> version
                  then (RenameSourceConflict expectedRef (Some currentRef) False, m)
                  else if p = q then (RenameSamePath currentRef, m)
                  else
                    let destinationRef = cloneBlobRef (live_ref q m);
                        conflict = destination_conflict destinationRef currentRef;
                        m1 = before m;
                        applied = source_matches normPath p expectedRef version m1;
                        m2 = after (if applied then move_item p q currentRef conflict fresh device now m1 else m1)
                    in (if \<not> applied \<or> bm_pathToBlob m2 p \<noteq> None
                        then RenameSourceConflict expectedRef (cloneBlobRef (live_ref p m2)) applied
                        else if conflict then RenameDestinationConflict currentRef destinationRef
                        else BlobMoved currentRef, m2))"

definition renameBlobRefWithTombstone ::
  "(path \<Rightarrow> path) \<Rightarrow> jsstr option \<Rightarrow> int \<Rightarrow> path \<Rightarrow> path \<Rightarrow> jsstr option \<Rightarrow> blob_maps \<Rightarrow> rename_result \<times> blob_maps" where
  "renameBlobRefWithTombstone normPath fresh now oldPath newPath device m =
     (let p = normPath oldPath; q = normPath newPath
      in case cloneBlobRef (live_ref p m) of
           None \<Rightarrow> (RenameMissingSource, m)
         | Some r \<Rightarrow>
             if p = q then (RenameSamePath r, m)
             else
               let destinationRef = cloneBlobRef (live_ref q m);
                   conflict = destination_conflict destinationRef r
               in (if conflict then RenameDestinationConflict r destinationRef else BlobMoved r,
                   move_item p q r conflict fresh device now m))"

section \<open>What the guarded mutations may touch\<close>

lemma clone_None [simp]: "cloneBlobRef r = None \<longleftrightarrow> r = None" "cloneBlobRef None = None"
  by (simp_all add: cloneBlobRef_def split: option.split)

lemma js_unique_props: "set (js_unique xs) = set xs" "distinct (js_unique xs)" "js_unique (js_unique xs) = js_unique xs"
    "length (js_unique xs) \<le> length xs"
  using length_remdups_leq [of "rev xs"] by (simp_all add: js_unique_def distinct_remdups_id)

lemma getBlobRefPriorHashes_clone: "getBlobRefPriorHashes (cloneBlobRef r) = getBlobRefPriorHashes r"
proof (cases r)
  case (Some x)
  have "getBlobRefPriorHashes (Some (make_ref h sz hs)) = hs"
    if eq: "hs = getBlobRefPriorHashes r" for h sz hs
  proof (cases hs)
    case (Cons a as)
    then obtain ps where "br_priorHashes x = Some ps" "length ps \<le> MAX_BLOB_REF_PRIOR_HASHES"
        "\<not> list_ex (\<lambda>h. \<not> isSha256Hex h) ps" "hs = js_unique ps"
      using eq Some by (auto simp: getBlobRefPriorHashes_def split: option.splits if_splits)
    then show ?thesis
      using Cons js_unique_props [of ps] by (auto simp: getBlobRefPriorHashes_def make_ref_def list_ex_iff)
  qed (simp add: getBlobRefPriorHashes_def make_ref_def)
  then show ?thesis by (simp add: Some cloneBlobRef_def)
qed (simp add: cloneBlobRef_def)

lemma sameBlobRef_clone [simp]:
  "sameBlobRef (cloneBlobRef a) b = sameBlobRef a b" "sameBlobRef a (cloneBlobRef b) = sameBlobRef a b"
proof -
  have fields: "br_hash y = br_hash x \<and> br_size y = br_size x" if "cloneBlobRef (Some x) = Some y" for x y
    using that by (auto simp: cloneBlobRef_def make_ref_def)
  show "sameBlobRef (cloneBlobRef a) b = sameBlobRef a b"
  proof (cases a)
    case (Some x)
    then obtain y where y: "cloneBlobRef (Some x) = Some y" by (cases "cloneBlobRef (Some x)") auto
    then show ?thesis
      using Some fields [OF y] getBlobRefPriorHashes_clone [of "Some x"]
      by (simp add: sameBlobRef_def split: option.split)
  qed (simp add: cloneBlobRef_def)
  show "sameBlobRef a (cloneBlobRef b) = sameBlobRef a b"
  proof (cases b)
    case (Some x)
    then obtain y where y: "cloneBlobRef (Some x) = Some y" by (cases "cloneBlobRef (Some x)") auto
    then show ?thesis
      using Some fields [OF y] getBlobRefPriorHashes_clone [of "Some x"]
      by (simp add: sameBlobRef_def split: option.split)
  qed (simp add: cloneBlobRef_def)
qed

text \<open>The base was captured from the item that is live at the path now.\<close>

definition base_current :: "(path \<Rightarrow> path) \<Rightarrow> path \<Rightarrow> mutation_base \<Rightarrow> blob_maps \<Rightarrow> bool" where
  "base_current normPath p base m \<longleftrightarrow>
     live_ref p m \<noteq> None \<and> mb_known base \<and> mb_sourceVersionKnown base = Some True
     \<and> \<not> falsy (mb_expectedSourceVersion base)
     \<and> source_matches normPath p (mb_ref base) (mb_expectedSourceVersion base) m"

lemma clone_Some: "live_ref p m = Some r \<Longrightarrow> \<exists>c. cloneBlobRef (live_ref p m) = Some c"
  by (cases "cloneBlobRef (live_ref p m)") auto

lemma source_matches_clone [simp]: "source_matches normPath p (cloneBlobRef r) v m = source_matches normPath p r v m"
  by (simp add: source_matches_def)

lemma deleteBlobRefIfCurrent_maps:
  "snd (deleteBlobRefIfCurrent normPath id id now path base device m) =
     (if base_current normPath (normPath path) base m
      then tombstone_path (normPath path) (the (cloneBlobRef (live_ref (normPath path) m))) device now m else m)"
proof (cases "live_ref (normPath path) m")
  case None
  then show ?thesis by (simp add: deleteBlobRefIfCurrent_def base_current_def Let_def)
next
  case (Some r)
  then obtain c where c: "cloneBlobRef (live_ref (normPath path) m) = Some c" using clone_Some by blast
  have "sameBlobRef (Some c) e = sameBlobRef (live_ref (normPath path) m) e" for e
    using sameBlobRef_clone(1) [of "live_ref (normPath path) m" e] c by simp
  then show ?thesis
    using Some c by (auto simp: deleteBlobRefIfCurrent_def base_current_def source_matches_def Let_def)
qed

lemma renameBlobRefWithTombstoneIfCurrent_maps:
  "snd (renameBlobRefWithTombstoneIfCurrent normPath id id fresh now oldPath newPath base device m) =
     (if base_current normPath (normPath oldPath) base m \<and> normPath oldPath \<noteq> normPath newPath
      then let c = the (cloneBlobRef (live_ref (normPath oldPath) m))
           in move_item (normPath oldPath) (normPath newPath) c
                (destination_conflict (cloneBlobRef (live_ref (normPath newPath) m)) c) fresh device now m
      else m)"
proof (cases "live_ref (normPath oldPath) m")
  case None
  then show ?thesis by (simp add: renameBlobRefWithTombstoneIfCurrent_def base_current_def Let_def)
next
  case (Some r)
  then obtain c where c: "cloneBlobRef (live_ref (normPath oldPath) m) = Some c" using clone_Some by blast
  have "sameBlobRef (Some c) e = sameBlobRef (live_ref (normPath oldPath) m) e" for e
    using sameBlobRef_clone(1) [of "live_ref (normPath oldPath) m" e] c by simp
  then show ?thesis
    using Some c by (auto simp: renameBlobRefWithTombstoneIfCurrent_def base_current_def source_matches_def Let_def)
qed

text \<open>
  C22: A guarded deletion or rename removes only what it was decided against.  If an item that was live
  before is not live afterwards, then it sat at the source path and is the very item, by content and by
  identity, the base was captured from, and a tombstone records its content; the one other case is a
  destination that already had the same content as the source.  A path that was deleted and
  published again since, even with the same bytes, is left alone.\<close>

theorem guarded_mutations_remove_only_their_source:
  fixes normPath p q base device m now fresh
  defines "deleted \<equiv> snd (deleteBlobRefIfCurrent normPath id id now p base device m)"
    and "renamed \<equiv> snd (renameBlobRefWithTombstoneIfCurrent normPath id id fresh now p q base device m)"
  assumes "bm_pathToBlob m x = Some it"
  shows "(bm_pathToBlob deleted x \<noteq> Some it \<longrightarrow>
        x = normPath p \<and> base_current normPath x base m
        \<and> bm_tombstones deleted x = Some \<lparr> bt_deletedAt = now, bt_device = device, bt_deletedRef = cloneBlobRef (Some (it_ref it)) \<rparr>)
     \<and> (bm_pathToBlob renamed x \<noteq> Some it \<longrightarrow>
        (x = normPath p \<and> base_current normPath x base m
         \<and> bm_tombstones renamed x = Some \<lparr> bt_deletedAt = now, bt_device = device, bt_deletedRef = cloneBlobRef (Some (it_ref it)) \<rparr>)
        \<or> (x = normPath q \<and> sameBlobRef (Some (it_ref it)) (live_ref (normPath p) m)))"
proof
  have live: "live_ref x m = Some (it_ref it)" using assms(3) by (simp add: live_ref_def)
  then obtain c where c: "cloneBlobRef (Some (it_ref it)) = Some c" using clone_Some by fastforce
  show "bm_pathToBlob deleted x \<noteq> Some it \<longrightarrow>
        x = normPath p \<and> base_current normPath x base m
        \<and> bm_tombstones deleted x = Some \<lparr> bt_deletedAt = now, bt_device = device, bt_deletedRef = cloneBlobRef (Some (it_ref it)) \<rparr>"
    using assms(3) live c unfolding deleted_def deleteBlobRefIfCurrent_maps
    by (auto simp: tombstone_path_def split: if_splits)
  show "bm_pathToBlob renamed x \<noteq> Some it \<longrightarrow>
        (x = normPath p \<and> base_current normPath x base m
         \<and> bm_tombstones renamed x = Some \<lparr> bt_deletedAt = now, bt_device = device, bt_deletedRef = cloneBlobRef (Some (it_ref it)) \<rparr>)
        \<or> (x = normPath q \<and> sameBlobRef (Some (it_ref it)) (live_ref (normPath p) m))"
  proof (cases "base_current normPath (normPath p) base m \<and> normPath p \<noteq> normPath q")
    case False
    then have "renamed = m" by (auto simp: renamed_def renameBlobRefWithTombstoneIfCurrent_maps)
    then show ?thesis using assms(3) by simp
  next
    case True
    then have cur: "base_current normPath (normPath p) base m" and ne: "normPath p \<noteq> normPath q" by simp_all
    obtain d where d: "cloneBlobRef (live_ref (normPath p) m) = Some d"
      using cur clone_Some by (fastforce simp: base_current_def)
    have renamed: "renamed = move_item (normPath p) (normPath q) d
        (destination_conflict (cloneBlobRef (live_ref (normPath q) m)) d) fresh device now m"
      using True d by (simp add: renamed_def renameBlobRefWithTombstoneIfCurrent_maps Let_def)
    consider "x = normPath p" | "x = normPath q" "x \<noteq> normPath p" | "x \<noteq> normPath p" "x \<noteq> normPath q" by blast
    then show ?thesis
    proof cases
      case 1
      then have "d = c" using d live c by simp
      then show ?thesis
        using 1 cur ne c by (simp add: renamed move_item_def Let_def tombstone_path_def clear_tombstone_def put_item_def)
    next
      case 2
      have "destination_conflict (cloneBlobRef (live_ref (normPath q) m)) d \<or> sameBlobRef (Some (it_ref it)) (live_ref (normPath p) m)"
        using 2 live sameBlobRef_clone(1) [of "live_ref (normPath q) m" "Some d"]
          sameBlobRef_clone(2) [of "Some (it_ref it)" "live_ref (normPath p) m"] d
        by (simp add: destination_conflict_def)
      then show ?thesis
        using 2 assms(3) by (auto simp: renamed move_item_def Let_def tombstone_path_def)
    next
      case 3
      then show ?thesis
        using assms(3) by (simp add: renamed move_item_def Let_def tombstone_path_def clear_tombstone_def put_item_def)
    qed
  qed
qed

theorem guarded_mutations_remove_only_their_source_witness:
  fixes m :: blob_maps
  defines "m \<equiv> \<lparr> bm_pathToBlob = [js ''a'' \<mapsto> \<lparr> it_ref = sample_ref, it_version = Some (js ''1:2'') \<rparr>],
      bm_tombstones = Map.empty, bm_blobMeta = Map.empty \<rparr>"
  shows "bm_tombstones (snd (deleteBlobRefIfCurrent id id id 3 (js ''a'') sample_base None m)) (js ''a'')
    = Some \<lparr> bt_deletedAt = 3, bt_device = None, bt_deletedRef = cloneBlobRef (Some sample_ref) \<rparr>"
proof -
  let ?it = "\<lparr> it_ref = sample_ref, it_version = Some (js ''1:2'') \<rparr>"
  have m: "bm_pathToBlob m (js ''a'') = Some ?it" by (simp add: m_def)
  have "base_current id (js ''a'') sample_base m"
    by (simp add: base_current_def m_def live_ref_def sample_base_def falsy_def source_matches_def sameBlobRef_def
        getBlobSourceVersion_def) (simp add: js_def)
  then have "bm_pathToBlob (snd (deleteBlobRefIfCurrent id id id 3 (js ''a'') sample_base None m)) (js ''a'') \<noteq> Some ?it"
    by (simp add: deleteBlobRefIfCurrent_maps tombstone_path_def)
  then show ?thesis
    using guarded_mutations_remove_only_their_source [OF m, of id 3 "js ''a''" sample_base None] by simp
qed

end
