(* ===== verification/BlobCommit.thy ===== *)
theory BlobCommit
  imports BlobIntentStore BlobRefs
begin

text \<open>
  Committing a pending attachment intent: the write-ahead protocol of
  \<^verbatim>\<open>src/src/sync/pendingBlobIntentCommit.ts\<close>, the hooks \<^verbatim>\<open>src/src/main.ts\<close> gives it
  (\<^verbatim>\<open>commitReadyPendingBlobIntent\<close>), and the choice \<^verbatim>\<open>replayPendingBlobIntentsOnce\<close> makes for each intent.

  A hook is a function on worlds.  A hook that is awaited returns the worlds that other code brings
  about while it is pending, the last one being the world in which it settles: a crash can leave the
  device in any of them.  \<^verbatim>\<open>None\<close> stands for an exception.
\<close>

section \<open>The protocol\<close>

record ('w, 'r) commit_hooks =
  hk_markAttempted :: "'w \<Rightarrow> bool \<times> 'w"
  hk_persistAttempted :: "'w \<Rightarrow> bool \<times> 'w list"
  hk_isAttemptCurrent :: "'w \<Rightarrow> bool option"
  hk_apply :: "'w \<Rightarrow> 'r option \<times> 'w"
  hk_isApplyCurrent :: "'r \<Rightarrow> 'w \<Rightarrow> bool option"
  hk_isKnownNoMutation :: "'r \<Rightarrow> bool"
  hk_clearAttempt :: "'w \<Rightarrow> bool \<times> 'w"
  hk_markCommitted :: "'r \<Rightarrow> 'w \<Rightarrow> bool \<times> 'w"
  hk_persistFinal :: "'w \<Rightarrow> 'w"
  hk_finalSettles :: "'w \<Rightarrow> bool \<times> 'w list"
  hk_flushReceipt :: "'w \<Rightarrow> 'w"
  hk_allSettled :: "'w \<Rightarrow> (bool \<times> bool) \<times> 'w list"

datatype commit_stage = StagePrecondition | StageApply | StagePostcondition | StageClearAttempt | StageMarkCommitted

datatype 'r commit_outcome =
    NotStarted
  | AttemptPersistFailed
  | StaleAfterAttempt
  | Ambiguous commit_stage "'r option"
  | KnownNoMutation 'r
  | ClearPersistFailed 'r
  | Committed 'r bool
  | CommitPersistFailed 'r bool

text \<open>
  The outcome, and every world from the first hook to the last.  The boolean of the last two outcomes
  says whether the receipt was flushed.
\<close>

definition commitPendingBlobIntentWithWriteAhead ::
  "('w, 'r) commit_hooks \<Rightarrow> 'w \<Rightarrow> 'r commit_outcome \<times> 'w list" where
  "commitPendingBlobIntentWithWriteAhead h w =
     (case hk_markAttempted h w of (marked, w1) \<Rightarrow>
        if \<not> marked then (NotStarted, [w1])
        else case hk_persistAttempted h w1 of (persisted, ws2) \<Rightarrow>
          if \<not> persisted then (AttemptPersistFailed, w1 # ws2)
          else case hk_isAttemptCurrent h (last ws2) of
              None \<Rightarrow> (Ambiguous StagePrecondition None, w1 # ws2)
            | Some current \<Rightarrow>
                if \<not> current then (StaleAfterAttempt, w1 # ws2)
                else case hk_apply h (last ws2) of (result, w3) \<Rightarrow>
                  (case result of
                     None \<Rightarrow> (Ambiguous StageApply None, w1 # ws2 @ [w3])
                   | Some r \<Rightarrow>
                       if hk_isApplyCurrent h r w3 \<noteq> Some True
                       then (Ambiguous StagePostcondition (Some r), w1 # ws2 @ [w3])
                       else if hk_isKnownNoMutation h r then
                         (case hk_clearAttempt h w3 of (cleared, w4) \<Rightarrow>
                            if \<not> cleared then (Ambiguous StageClearAttempt (Some r), w1 # ws2 @ [w3, w4])
                            else
                              let w5 = hk_persistFinal h w4
                              in case hk_finalSettles h w5 of (ok, ws6) \<Rightarrow>
                                 (if ok then KnownNoMutation r else ClearPersistFailed r, w1 # ws2 @ [w3, w4, w5] @ ws6))
                       else
                         (case hk_markCommitted h r w3 of (marked', w4) \<Rightarrow>
                            if \<not> marked' then (Ambiguous StageMarkCommitted (Some r), w1 # ws2 @ [w3, w4])
                            else
                              let w5 = hk_persistFinal h w4; w6 = hk_flushReceipt h w5
                              in case hk_allSettled h w6 of ((ok, receipt), ws7) \<Rightarrow>
                                 (if ok then Committed r receipt else CommitPersistFailed r receipt,
                                  w1 # ws2 @ [w3, w4, w5, w6] @ ws7))))"

text \<open>
  The contract of the hooks.  \<open>applied\<close>: the shared document has been mutated; \<open>fenced\<close>: the durable
  record of the intent is, and stays, other than ready.  The write-ahead fence is only promised where
  the attempt is still current; a result classified as \<^verbatim>\<open>known-no-mutation\<close> has mutated nothing.
\<close>

text \<open>The outcomes that report that nothing was mutated.\<close>

fun reports_no_mutation :: "'r commit_outcome \<Rightarrow> bool" where
  "reports_no_mutation NotStarted \<longleftrightarrow> True"
| "reports_no_mutation AttemptPersistFailed \<longleftrightarrow> True"
| "reports_no_mutation StaleAfterAttempt \<longleftrightarrow> True"
| "reports_no_mutation (Ambiguous stage r) \<longleftrightarrow> stage = StagePrecondition"
| "reports_no_mutation (KnownNoMutation r) \<longleftrightarrow> True"
| "reports_no_mutation (ClearPersistFailed r) \<longleftrightarrow> True"
| "reports_no_mutation _ \<longleftrightarrow> False"

locale write_ahead =
  fixes h :: "('w, 'r) commit_hooks"
    and pre :: "'w \<Rightarrow> bool" and attempted :: "'w \<Rightarrow> bool"
    and fenced :: "'w \<Rightarrow> bool" and applied :: "'w \<Rightarrow> bool"
  assumes mark: "pre w \<Longrightarrow> hk_markAttempted h w = (ok, w') \<Longrightarrow> \<not> applied w' \<and> (ok \<longrightarrow> attempted w')"
    and persist: "attempted w \<Longrightarrow> \<not> applied w \<Longrightarrow> hk_persistAttempted h w = (ok, ws) \<Longrightarrow>
      ws \<noteq> [] \<and> (\<forall>x \<in> set ws. \<not> applied x) \<and> (ok \<longrightarrow> hk_isAttemptCurrent h (last ws) = Some True \<longrightarrow> fenced (last ws))"
    and apply_fenced: "fenced w \<Longrightarrow> hk_apply h w = (res, w') \<Longrightarrow> fenced w'"
    and apply_nothing: "hk_apply h w = (Some r, w') \<Longrightarrow> hk_isKnownNoMutation h r \<Longrightarrow> \<not> applied w \<Longrightarrow> \<not> applied w'"
    and clear: "\<not> applied w \<Longrightarrow> hk_clearAttempt h w = (ok, w') \<Longrightarrow> \<not> applied w'"
    and commit: "fenced w \<Longrightarrow> hk_markCommitted h r w = (ok, w') \<Longrightarrow> fenced w'"
    and final_fenced: "fenced w \<Longrightarrow> fenced (hk_persistFinal h w)"
    and final_clean: "\<not> applied w \<Longrightarrow> \<not> applied (hk_persistFinal h w)"
    and settles: "\<not> applied w \<Longrightarrow> hk_finalSettles h w = (ok, ws) \<Longrightarrow> \<forall>x \<in> set ws. \<not> applied x"
    and receipt: "fenced w \<Longrightarrow> fenced (hk_flushReceipt h w)"
    and all_settled: "fenced w \<Longrightarrow> hk_allSettled h w = (oks, ws) \<Longrightarrow> \<forall>x \<in> set ws. fenced x"
begin

text \<open>Whatever happens, a world in which the mutation was applied is fenced.\<close>

lemma applied_fenced:
  assumes "pre w" "commitPendingBlobIntentWithWriteAhead h w = (outcome, ws)" "x \<in> set ws" "applied x"
  shows "fenced x"
proof -
  obtain marked w1 where m: "hk_markAttempted h w = (marked, w1)" by fastforce
  note M = mark [OF assms(1) m]
  show ?thesis
  proof (cases marked)
    case False
    then have "ws = [w1]" using assms(2) m by (simp add: commitPendingBlobIntentWithWriteAhead_def)
    then show ?thesis using assms(3,4) M by simp
  next
    case True
    then have w1: "attempted w1" "\<not> applied w1" using M by simp_all
    obtain persisted ws2 where p: "hk_persistAttempted h w1 = (persisted, ws2)" by fastforce
    note P = persist [OF w1 p]
    show ?thesis
    proof (cases "persisted \<and> hk_isAttemptCurrent h (last ws2) = Some True")
      case False
      then have "set ws = set (w1 # ws2)"
        using assms(2) True m p
        by (auto simp: commitPendingBlobIntentWithWriteAhead_def split: option.splits if_splits)
      then show ?thesis using assms(3,4) P w1 by auto
    next
      case cur: True
      then have f2: "fenced (last ws2)" "\<not> applied (last ws2)" using P by auto
      obtain result w3 where a: "hk_apply h (last ws2) = (result, w3)" by fastforce
      have f3: "fenced w3" using apply_fenced [OF f2(1) a] .
      have early: "fenced x" if "x \<in> set (w1 # ws2 @ [w3])" using that P w1 f3 assms(4) by auto
      show ?thesis
      proof (cases "\<exists>r. result = Some r \<and> hk_isApplyCurrent h r w3 = Some True")
        case False
        then have "set ws = set (w1 # ws2 @ [w3])"
          using assms(2) True m p cur a
          by (auto simp: commitPendingBlobIntentWithWriteAhead_def split: option.splits if_splits)
        then show ?thesis using early assms(3) by simp
      next
        case True
        then obtain r where r: "result = Some r" "hk_isApplyCurrent h r w3 = Some True" by blast
        note steps = assms(2) \<open>marked\<close> m p cur a r
        show ?thesis
        proof (cases "hk_isKnownNoMutation h r")
          case True
          have n3: "\<not> applied w3" using apply_nothing [of "last ws2" r w3] a r True f2 by simp
          obtain cleared w4 where c: "hk_clearAttempt h w3 = (cleared, w4)" by fastforce
          have n4: "\<not> applied w4" using clear [OF n3 c] .
          have n5: "\<not> applied (hk_persistFinal h w4)" using final_clean [OF n4] .
          obtain ok ws6 where s: "hk_finalSettles h (hk_persistFinal h w4) = (ok, ws6)" by fastforce
          have "set ws \<subseteq> set (w1 # ws2 @ [w3]) \<union> {w4, hk_persistFinal h w4} \<union> set ws6"
            using steps True c s by (auto simp: commitPendingBlobIntentWithWriteAhead_def Let_def split: if_splits)
          then show ?thesis using assms(3,4) n4 n5 settles [OF n5 s] early by blast
        next
          case False
          obtain marked' w4 where c: "hk_markCommitted h r w3 = (marked', w4)" by fastforce
          have f4: "fenced w4" using commit [OF f3 c] .
          have f5: "fenced (hk_persistFinal h w4)" using final_fenced [OF f4] .
          have f6: "fenced (hk_flushReceipt h (hk_persistFinal h w4))" using receipt [OF f5] .
          obtain oks ws7 where s: "hk_allSettled h (hk_flushReceipt h (hk_persistFinal h w4)) = (oks, ws7)" by fastforce
          have "set ws \<subseteq> set (w1 # ws2 @ [w3]) \<union> {w4, hk_persistFinal h w4, hk_flushReceipt h (hk_persistFinal h w4)} \<union> set ws7"
            using steps False c s
            by (cases oks) (auto simp: commitPendingBlobIntentWithWriteAhead_def Let_def split: if_splits)
          then show ?thesis using assms(3) f4 f5 f6 all_settled [OF f6 s] early by blast
        qed
      qed
    qed
  qed
qed

lemma clean_outcomes:
  assumes "pre w" "commitPendingBlobIntentWithWriteAhead h w = (outcome, ws)" "reports_no_mutation outcome" "x \<in> set ws"
  shows "\<not> applied x"
proof -
  obtain marked w1 where m: "hk_markAttempted h w = (marked, w1)" by fastforce
  note M = mark [OF assms(1) m]
  show ?thesis
  proof (cases marked)
    case False
    then have "ws = [w1]" using assms(2) m by (simp add: commitPendingBlobIntentWithWriteAhead_def)
    then show ?thesis using assms(4) M by simp
  next
    case True
    then have w1: "attempted w1" "\<not> applied w1" using M by simp_all
    obtain persisted ws2 where p: "hk_persistAttempted h w1 = (persisted, ws2)" by fastforce
    note P = persist [OF w1 p]
    show ?thesis
    proof (cases "persisted \<and> hk_isAttemptCurrent h (last ws2) = Some True")
      case False
      then have "set ws = set (w1 # ws2)"
        using assms(2) True m p
        by (auto simp: commitPendingBlobIntentWithWriteAhead_def split: option.splits if_splits)
      then show ?thesis using assms(4) P w1 by auto
    next
      case cur: True
      obtain result w3 where a: "hk_apply h (last ws2) = (result, w3)" by fastforce
      have "\<exists>r. result = Some r \<and> hk_isApplyCurrent h r w3 = Some True \<and> hk_isKnownNoMutation h r \<and> fst (hk_clearAttempt h w3)"
        using assms(2,3) True m p cur a
        by (auto simp: commitPendingBlobIntentWithWriteAhead_def Let_def split: option.splits prod.splits if_splits)
      then obtain r where r: "result = Some r" "hk_isApplyCurrent h r w3 = Some True" "hk_isKnownNoMutation h r"
          "fst (hk_clearAttempt h w3)" by blast
      have n3: "\<not> applied w3" using apply_nothing [of "last ws2" r w3] a r P by simp
      obtain w4 where c: "hk_clearAttempt h w3 = (True, w4)" using r(4) by (cases "hk_clearAttempt h w3") auto
      have n4: "\<not> applied w4" using clear [OF n3 c] .
      have n5: "\<not> applied (hk_persistFinal h w4)" using final_clean [OF n4] .
      obtain ok ws6 where s: "hk_finalSettles h (hk_persistFinal h w4) = (ok, ws6)" by fastforce
      have "set ws \<subseteq> set (w1 # ws2) \<union> {w3, w4, hk_persistFinal h w4} \<union> set ws6"
        using assms(2) True m p cur a r c s by (auto simp: commitPendingBlobIntentWithWriteAhead_def Let_def)
      then show ?thesis using assms(4) P w1 n3 n4 n5 settles [OF n5 s] by auto
    qed
  qed
qed

end

section \<open>The hooks of the plugin\<close>

record commit_world =
  cw_journal :: intent_journal
  cw_queue :: "intent_journal list"
  cw_stored :: "json option"
  cw_healthy :: bool
  cw_blobs :: blob_maps
  cw_applied :: bool

text \<open>What occupies the source path on disk.\<close>

datatype source_occupant = NoOccupant | FileOccupant | OtherOccupant

datatype apply_result =
    PreconditionChanged bool path
  | MutatedDelete path delete_result
  | MutatedRename path rename_result

text \<open>
  What other code does while a hook is awaited: it records vault events and settles other intents,
  enqueues snapshots, the store finishes a write (or fails to), the shared document changes.
\<close>

datatype await_event =
    Recorded journal_op
  | EnqueueSnapshot
  | WriteSettles bool
  | DocumentChange "blob_maps \<Rightarrow> blob_maps"

text \<open>
  The environment of one commit.  \<open>ce_attemptConditions\<close> and \<open>ce_authority\<close> stand for the conditions on
  the plugin's settings, providers and scope that the hooks check besides the journal;
  \<open>ce_acceptingRemoteDelete\<close> is the attachment engine's exception for a deletion the operator accepted.
\<close>

record commit_env =
  ce_normPath :: "path \<Rightarrow> path"
  ce_scope :: intent_scope
  ce_intent :: blob_intent
  ce_attemptId :: jsstr
  ce_attemptedAt :: int
  ce_sessionId :: jsstr
  ce_attemptEvents :: "await_event list"
  ce_authorityDuringWrite :: bool
  ce_attemptConditions :: "bool option"
  ce_occupant :: source_occupant
  ce_renameFilePresent :: bool
  ce_acceptingRemoteDelete :: bool
  ce_before :: "blob_maps \<Rightarrow> blob_maps"
  ce_after :: "blob_maps \<Rightarrow> blob_maps"
  ce_fresh :: "jsstr option"
  ce_now :: int
  ce_device :: "jsstr option"
  ce_applyThrows :: bool
  ce_authority :: bool
  ce_committedAt :: int
  ce_receiptCandidateId :: "jsstr option"
  ce_deleteFingerprint :: "jsstr option"
  ce_finalEvents :: "await_event list"
  ce_settledWrite :: bool
  ce_receiptFlushed :: bool

text \<open>The serialized writes of the journal.\<close>

definition enqueuePendingBlobIntentPersistence :: "commit_env \<Rightarrow> commit_world \<Rightarrow> commit_world" where
  "enqueuePendingBlobIntentPersistence env w =
     w\<lparr> cw_queue := cw_queue w @ [getIntentEntries (Some (ce_scope env)) (cw_journal w)], cw_healthy := False \<rparr>"

definition write_settles :: "commit_env \<Rightarrow> bool \<Rightarrow> commit_world \<Rightarrow> commit_world" where
  "write_settles env ok w =
     (case cw_queue w of
        [] \<Rightarrow> w
      | snapshot # rest \<Rightarrow>
          (case if ok then saveIntents (ce_normPath env) (ce_scope env) snapshot else Inl [] of
             Inl e \<Rightarrow> w\<lparr> cw_queue := rest, cw_healthy := (if rest = [] then False else cw_healthy w) \<rparr>
           | Inr stored \<Rightarrow>
               w\<lparr> cw_stored := Some stored, cw_queue := rest, cw_healthy := (if rest = [] then True else cw_healthy w) \<rparr>))"

text \<open>
  Attempt identifiers are random: no other code makes one up or brings one back.  While the last
  writes of a commit settle, no other code settles or removes its intent.
\<close>

fun reintroduces :: "jsstr \<Rightarrow> journal_op \<Rightarrow> bool" where
  "reintroduces a (MarkCommitAttempted k a' t s) \<longleftrightarrow> a' = a"
| "reintroduces a (RestoreIntent i) \<longleftrightarrow> bi_commitAttemptId i = Some a"
| "reintroduces a _ \<longleftrightarrow> False"

definition attempt_event_ok :: "commit_env \<Rightarrow> journal_op \<Rightarrow> bool" where
  "attempt_event_ok env op \<longleftrightarrow> \<not> reintroduces (ce_attemptId env) op"

definition final_event_ok :: "commit_env \<Rightarrow> journal_op \<Rightarrow> bool" where
  "final_event_ok env op \<longleftrightarrow> \<not> addresses (bi_id (ce_intent env)) op"

fun run_event :: "commit_env \<Rightarrow> (journal_op \<Rightarrow> bool) \<Rightarrow> await_event \<Rightarrow> commit_world \<Rightarrow> commit_world" where
  "run_event env admits (Recorded op) w =
     (if admits op \<and> journal_op_ok (ce_normPath env) (cw_journal w) op
      then w\<lparr> cw_journal := run_journal (ce_normPath env) op (cw_journal w) \<rparr> else w)"
| "run_event env admits EnqueueSnapshot w = enqueuePendingBlobIntentPersistence env w"
| "run_event env admits (WriteSettles ok) w = write_settles env ok w"
| "run_event env admits (DocumentChange f) w = w\<lparr> cw_blobs := f (cw_blobs w) \<rparr>"

fun run_events :: "commit_env \<Rightarrow> (journal_op \<Rightarrow> bool) \<Rightarrow> await_event list \<Rightarrow> commit_world \<Rightarrow> commit_world list" where
  "run_events env admits [] w = [w]"
| "run_events env admits (e # es) w = w # run_events env admits es (run_event env admits e w)"

text \<open>How the n-th write to settle ends; \<open>False\<close> also if it never does.\<close>

fun write_result :: "nat \<Rightarrow> await_event list \<Rightarrow> bool" where
  "write_result n [] = False"
| "write_result n (WriteSettles ok # es) = (if n = 0 then ok else write_result (n - 1) es)"
| "write_result n (_ # es) = write_result n es"

definition pendingBlobMutationBase :: "blob_intent \<Rightarrow> mutation_base" where
  "pendingBlobMutationBase i =
     \<lparr> mb_known = bi_baseRefKnown i,
       mb_ref = (if bi_baseRefKnown i then cloneBlobRef (bi_expectedSourceRef i) else None),
       mb_sourceVersionKnown = Some (bi_sourceVersionKnown i = Some True),
       mb_expectedSourceVersion = (if bi_sourceVersionKnown i = Some True then bi_expectedSourceVersion i else None) \<rparr>"

text \<open>The \<^verbatim>\<open>apply\<close> closures of the replay loop: the disk is read again, then the shared map is mutated.\<close>

definition applyPendingBlobDelete :: "commit_env \<Rightarrow> path \<Rightarrow> blob_maps \<Rightarrow> apply_result \<times> blob_maps" where
  "applyPendingBlobDelete env p m =
     (if ce_acceptingRemoteDelete env then (MutatedDelete p DeleteAlreadyAbsent, m)
      else case deleteBlobRefIfCurrent (ce_normPath env) (ce_before env) (ce_after env) (ce_now env) p
             (pendingBlobMutationBase (ce_intent env)) (ce_device env) m of (r, m') \<Rightarrow> (MutatedDelete p r, m'))"

definition applyPendingBlobRename :: "commit_env \<Rightarrow> path \<Rightarrow> path \<Rightarrow> blob_maps \<Rightarrow> apply_result \<times> blob_maps" where
  "applyPendingBlobRename env old new m =
     (case renameBlobRefWithTombstoneIfCurrent (ce_normPath env) (ce_before env) (ce_after env) (ce_fresh env) (ce_now env)
             old new (pendingBlobMutationBase (ce_intent env)) (ce_device env) m of (r, m') \<Rightarrow> (MutatedRename old r, m'))"

definition apply_delete_intent :: "commit_env \<Rightarrow> path \<Rightarrow> blob_maps \<Rightarrow> apply_result \<times> blob_maps" where
  "apply_delete_intent env p m =
     (case ce_occupant env of
        FileOccupant \<Rightarrow> (PreconditionChanged True p, m)
      | OtherOccupant \<Rightarrow> (PreconditionChanged False p, m)
      | NoOccupant \<Rightarrow> applyPendingBlobDelete env p m)"

definition apply_rename_intent :: "commit_env \<Rightarrow> path \<Rightarrow> path \<Rightarrow> blob_maps \<Rightarrow> apply_result \<times> blob_maps" where
  "apply_rename_intent env old new m =
     (if ce_occupant env \<noteq> NoOccupant then (PreconditionChanged True old, m)
      else if ce_renameFilePresent env then applyPendingBlobRename env old new m
      else applyPendingBlobDelete env old m)"

definition apply_intent :: "commit_env \<Rightarrow> blob_maps \<Rightarrow> apply_result \<times> blob_maps" where
  "apply_intent env m =
     (case bi_kind (ce_intent env) of
        IntentDelete p \<Rightarrow> apply_delete_intent env p m
      | IntentRename old new \<Rightarrow> apply_rename_intent env old new m)"

lemmas apply_defs =
  apply_intent_def apply_delete_intent_def apply_rename_intent_def applyPendingBlobDelete_def applyPendingBlobRename_def

text \<open>Whether the result says that the shared map was mutated, and how the plugin classifies it.\<close>

fun mutation_applied :: "apply_result \<Rightarrow> bool" where
  "mutation_applied (MutatedDelete p (BlobDeleted r)) \<longleftrightarrow> True"
| "mutation_applied (MutatedDelete p (DeleteSourceConflict e c applied)) \<longleftrightarrow> applied"
| "mutation_applied (MutatedRename p (BlobMoved r)) \<longleftrightarrow> True"
| "mutation_applied (MutatedRename p (RenameDestinationConflict r d)) \<longleftrightarrow> True"
| "mutation_applied (MutatedRename p (RenameSourceConflict e c applied)) \<longleftrightarrow> applied"
| "mutation_applied _ \<longleftrightarrow> False"

fun isPendingBlobMutationConflict :: "apply_result \<Rightarrow> bool" where
  "isPendingBlobMutationConflict (MutatedDelete p (DeleteUnknownSource r)) \<longleftrightarrow> True"
| "isPendingBlobMutationConflict (MutatedDelete p (DeleteSourceConflict e c applied)) \<longleftrightarrow> \<not> applied"
| "isPendingBlobMutationConflict (MutatedRename p (RenameUnknownSource r)) \<longleftrightarrow> True"
| "isPendingBlobMutationConflict (MutatedRename p (RenameSourceConflict e c applied)) \<longleftrightarrow> \<not> applied"
| "isPendingBlobMutationConflict _ \<longleftrightarrow> False"

fun is_precondition_changed :: "apply_result \<Rightarrow> bool" where
  "is_precondition_changed (PreconditionChanged removes p) \<longleftrightarrow> True"
| "is_precondition_changed _ \<longleftrightarrow> False"

definition attempt_current :: "commit_env \<Rightarrow> intent_journal \<Rightarrow> bool" where
  "attempt_current env es =
     (case find (\<lambda>e. bi_id e = bi_id (ce_intent env)) (getIntentEntries (Some (ce_scope env)) es) of
        None \<Rightarrow> False
      | Some e \<Rightarrow> bi_commitAttemptId e = Some (ce_attemptId env) \<and> bi_committedAt e = None)"

definition hasOtherPendingBlobIntentOverlap :: "blob_intent \<Rightarrow> intent_scope \<Rightarrow> intent_journal \<Rightarrow> bool" where
  "hasOtherPendingBlobIntentOverlap i scope es =
     list_ex (\<lambda>c. if bi_id c = bi_id i then False else pendingBlobIntentsOverlap i c) (getIntentEntries (Some scope) es)"

definition commitReadyPendingBlobIntent :: "commit_env \<Rightarrow> (commit_world, apply_result) commit_hooks" where
  "commitReadyPendingBlobIntent env =
     (let k = bi_id (ce_intent env); a = ce_attemptId env in
      \<lparr> hk_markAttempted = (\<lambda>w.
          case markCommitAttempted k a (ce_attemptedAt env) (ce_sessionId env) (cw_journal w) of
            (ok, es) \<Rightarrow> (ok, w\<lparr> cw_journal := es \<rparr>)),
        hk_persistAttempted = (\<lambda>w.
          let ws = run_events env (attempt_event_ok env) (ce_attemptEvents env) (enqueuePendingBlobIntentPersistence env w)
          in (write_result (length (cw_queue w)) (ce_attemptEvents env) \<and> ce_authorityDuringWrite env
              \<and> cw_queue (last ws) = [] \<and> cw_healthy (last ws), ws)),
        hk_isAttemptCurrent = (\<lambda>w.
          map_option (\<lambda>ok. ok \<and> cw_healthy w \<and> attempt_current env (cw_journal w)
            \<and> \<not> hasOtherPendingBlobIntentOverlap (ce_intent env) (ce_scope env) (cw_journal w)) (ce_attemptConditions env)),
        hk_apply = (\<lambda>w.
          case apply_intent env (cw_blobs w) of (r, m) \<Rightarrow>
            (if ce_applyThrows env then None else Some r,
             w\<lparr> cw_blobs := m, cw_applied := cw_applied w \<or> mutation_applied r \<rparr>)),
        hk_isApplyCurrent = (\<lambda>r w. Some (ce_authority env \<and> attempt_current env (cw_journal w))),
        hk_isKnownNoMutation = (\<lambda>r. is_precondition_changed r \<or> isPendingBlobMutationConflict r),
        hk_clearAttempt = (\<lambda>w. case clearCommitAttempt k a (cw_journal w) of (ok, es) \<Rightarrow> (ok, w\<lparr> cw_journal := es \<rparr>)),
        hk_markCommitted = (\<lambda>r w.
          if is_precondition_changed r then (False, w)
          else case markCommittedFromAttempt k a (ce_committedAt env) (ce_sessionId env) (ce_receiptCandidateId env)
                 (ce_deleteFingerprint env) (cw_journal w) of (ok, es) \<Rightarrow> (ok, w\<lparr> cw_journal := es \<rparr>)),
        hk_persistFinal = enqueuePendingBlobIntentPersistence env,
        hk_finalSettles = (\<lambda>w.
          (write_result (length (cw_queue w) - 1) (ce_finalEvents env) \<and> ce_settledWrite env,
           run_events env (final_event_ok env) (ce_finalEvents env) w)),
        hk_flushReceipt = id,
        hk_allSettled = (\<lambda>w.
          ((write_result (length (cw_queue w) - 1) (ce_finalEvents env) \<and> ce_settledWrite env, ce_receiptFlushed env),
           run_events env (final_event_ok env) (ce_finalEvents env) w)) \<rparr>)"

section \<open>The plugin keeps the contract\<close>

definition fence_in :: "commit_env \<Rightarrow> intent_journal \<Rightarrow> bool" where
  "fence_in env es \<longleftrightarrow>
     (\<exists>e \<in> set es. bi_id e = bi_id (ce_intent env) \<and> bi_scope e = ce_scope env \<and> \<not> isReadyToCommit e)"

definition attempt_in :: "commit_env \<Rightarrow> intent_journal \<Rightarrow> bool" where
  "attempt_in env es \<longleftrightarrow>
     (\<exists>e \<in> set es. bi_id e = bi_id (ce_intent env) \<and> bi_scope e = ce_scope env
        \<and> bi_commitAttemptId e = Some (ce_attemptId env))"

definition durable_journal :: "commit_env \<Rightarrow> commit_world \<Rightarrow> intent_journal" where
  "durable_journal env w = fst (readPersistedJournal (ce_normPath env) (cw_stored w) (ce_scope env))"

definition world_ok :: "commit_env \<Rightarrow> commit_world \<Rightarrow> bool" where
  "world_ok env w \<longleftrightarrow>
     (\<forall>p. ce_normPath env (ce_normPath env p) = ce_normPath env p)
     \<and> journal_ok (ce_normPath env) (cw_journal w) \<and> list_all (journal_ok (ce_normPath env)) (cw_queue w)"

definition commit_pre :: "commit_env \<Rightarrow> commit_world \<Rightarrow> bool" where
  "commit_pre env w \<longleftrightarrow>
     world_ok env w \<and> \<not> cw_applied w
     \<and> (\<forall>e \<in> set (cw_journal w). bi_id e = bi_id (ce_intent env) \<longrightarrow> bi_scope e = ce_scope env)"

definition attempted_world :: "commit_env \<Rightarrow> commit_world \<Rightarrow> bool" where
  "attempted_world env w \<longleftrightarrow> world_ok env w \<and> attempt_in env (cw_journal w)"

definition fenced_world :: "commit_env \<Rightarrow> commit_world \<Rightarrow> bool" where
  "fenced_world env w \<longleftrightarrow>
     world_ok env w \<and> fence_in env (cw_journal w) \<and> list_all (fence_in env) (cw_queue w)
     \<and> fence_in env (durable_journal env w)"

text \<open>While the attempt is being written: as long as memory holds it, so does the last snapshot.\<close>

definition attempt_wait_inv :: "commit_env \<Rightarrow> commit_world \<Rightarrow> bool" where
  "attempt_wait_inv env w \<longleftrightarrow>
     world_ok env w \<and> \<not> cw_applied w
     \<and> (attempt_in env (cw_journal w) \<longrightarrow>
          (if cw_queue w = [] then cw_healthy w \<longrightarrow> fence_in env (durable_journal env w)
           else fence_in env (last (cw_queue w))))"

lemma attempt_is_fence: "attempt_in env es \<Longrightarrow> fence_in env es"
  unfolding attempt_in_def fence_in_def isReadyToCommit_def by force

lemma journal_list_ok: "journal_ok n es \<Longrightarrow> list_all (intent_ok n) es"
  by (simp add: journal_ok_def)

lemma snapshot_eq:
  assumes "world_ok env w"
  shows "getIntentEntries (Some (ce_scope env)) (cw_journal w) = filter (\<lambda>e. bi_scope e = ce_scope env) (cw_journal w)"
  by (rule entries_ok(1) [OF journal_list_ok [of "ce_normPath env"]]) (use assms in \<open>simp add: world_ok_def\<close>)

lemma fence_in_filter: "fence_in env (filter (\<lambda>e. bi_scope e = ce_scope env) es) = fence_in env es"
  by (auto simp: fence_in_def)

lemma enqueue_ok:
  assumes "world_ok env w"
  shows "world_ok env (enqueuePendingBlobIntentPersistence env w)"
  using assms
  by (simp add: world_ok_def enqueuePendingBlobIntentPersistence_def snapshot_eq [OF assms] journal_ok_filter)

lemma saved_snapshot:
  assumes "journal_ok n es" "saveIntents n scope es = Inr stored"
  shows "readPersistedJournal n (Some stored) scope = (filter (\<lambda>e. bi_scope e = scope) es, StoreLoaded)"
proof -
  have "list_all (intent_ok n) es" using assms(1) by (simp add: journal_ok_def)
  from saved_intents_load [OF this, of scope] assms(2) show ?thesis by simp
qed

lemma durable_after_write:
  assumes "journal_ok (ce_normPath env) snapshot" "saveIntents (ce_normPath env) (ce_scope env) snapshot = Inr stored"
    "cw_stored w = Some stored"
  shows "fence_in env (durable_journal env w) = fence_in env snapshot"
  using saved_snapshot [OF assms(1,2)] assms(3) by (simp add: durable_journal_def fence_in_filter)

lemma write_settles_cases:
  obtains "cw_queue w = []" "write_settles env ok w = w"
  | snapshot rest healthy where "cw_queue w = snapshot # rest" "rest = [] \<Longrightarrow> \<not> healthy"
      "write_settles env ok w = w\<lparr> cw_queue := rest, cw_healthy := healthy \<rparr>"
  | snapshot rest healthy stored where "cw_queue w = snapshot # rest"
      "saveIntents (ce_normPath env) (ce_scope env) snapshot = Inr stored"
      "write_settles env ok w = w\<lparr> cw_stored := Some stored, cw_queue := rest, cw_healthy := healthy \<rparr>"
proof (cases "cw_queue w")
  case Nil
  then show ?thesis using that(1) by (simp add: write_settles_def)
next
  case (Cons snapshot rest)
  show ?thesis
  proof (cases "if ok then saveIntents (ce_normPath env) (ce_scope env) snapshot else Inl []")
    case (Inl e)
    then show ?thesis
      using that(2) [OF Cons, of "if rest = [] then False else cw_healthy w"] Cons by (simp add: write_settles_def)
  next
    case (Inr stored)
    then have "saveIntents (ce_normPath env) (ce_scope env) snapshot = Inr stored" by (simp split: if_splits)
    then show ?thesis
      using that(3) [OF Cons, of stored "if rest = [] then True else cw_healthy w"] Cons Inr by (simp add: write_settles_def)
  qed
qed

lemma record_ok:
  assumes "world_ok env w" "journal_op_ok (ce_normPath env) (cw_journal w) op"
  shows "world_ok env (w\<lparr> cw_journal := run_journal (ce_normPath env) op (cw_journal w) \<rparr>)"
  using assms run_journal_ok [of "ce_normPath env" "cw_journal w" op] by (simp add: world_ok_def)

lemma fence_enqueue:
  assumes "world_ok env w" "fence_in env (cw_journal w)"
  shows "fence_in env (last (cw_queue (enqueuePendingBlobIntentPersistence env w)))"
  using assms by (simp add: enqueuePendingBlobIntentPersistence_def snapshot_eq fence_in_filter)

lemma durable_same [simp]:
  "durable_journal env (w\<lparr> cw_journal := es \<rparr>) = durable_journal env w"
  "durable_journal env (w\<lparr> cw_queue := q, cw_healthy := b \<rparr>) = durable_journal env w"
  "durable_journal env (w\<lparr> cw_blobs := m \<rparr>) = durable_journal env w"
  "durable_journal env (w\<lparr> cw_blobs := m, cw_applied := b \<rparr>) = durable_journal env w"
  "durable_journal env (enqueuePendingBlobIntentPersistence env w) = durable_journal env w"
  by (simp_all add: durable_journal_def enqueuePendingBlobIntentPersistence_def)

text \<open>An attempt in the journal is an entry of the journal before.\<close>

lemma update_first_origin: "e \<in> set (update_first P f es) \<Longrightarrow> e \<in> set es \<or> (\<exists>x \<in> set es. P x \<and> e = f x)"
  by (induction es) (auto split: if_splits)

lemma follow_renames_subset: "follow_renames scope p base es = (p', base', es') \<Longrightarrow> set es' \<subseteq> set es"
proof (induction scope p base es rule: follow_renames.induct)
  case (1 scope p base es)
  have sub: "set (snd (removeIntent k es)) \<subseteq> set es" for k
    by (induction es) (auto simp: case_prod_beta Let_def)
  show ?case
  proof (cases "find (\<lambda>e. ready_in scope e \<and> rename_target (bi_kind e) = Some p) es")
    case None
    then show ?thesis using 1(2) by (simp add: follow_renames.simps [of scope p])
  next
    case (Some e)
    then show ?thesis using 1 sub [of "bi_id e"] by (fastforce simp: follow_renames.simps [of scope p])
  qed
qed

lemma attempt_origin:
  assumes "journal_ok n es" "e \<in> set (run_journal n op es)" "bi_commitAttemptId e = Some a" "\<not> reintroduces a op"
  shows "e \<in> set es"
proof -
  have new: "bi_commitAttemptId (new_intent k kind scope base t) = None" for k kind scope base t by (simp add: new_intent_def)
  have trans: "e \<in> set es" if A: "e \<in> set (snd (transition k ok f es))" and B: "\<And>x. ok x \<Longrightarrow> bi_commitAttemptId (f x) \<noteq> Some a" for k ok f
  proof (cases "\<exists>x \<in> set es. bi_id x = k \<and> ok x")
    case False
    then show ?thesis using A by (simp only: transition_cases [OF assms(1)] if_False snd_conv)
  next
    case True
    then obtain y where y: "y \<in> set es" "bi_id y = k" "ok y" by blast
    have uniq: "x = y" if "x \<in> set es" "bi_id x = k" for x
      using assms(1) y that by (metis journal_ok_def distinct_map inj_onD)
    obtain x where "x \<in> set es" "e = (if bi_id x = k then f x else x)"
      using A True by (auto simp: transition_cases [OF assms(1)])
    then show ?thesis using uniq y(3) B assms(3) by (cases "bi_id x = k") auto
  qed
  show ?thesis
  proof (cases op)
    case (RecordDelete k p scope base t)
    obtain p' base' es' where F: "follow_renames scope (n p) base es = (p', base', es')" by (metis prod_cases3)
    show ?thesis
      using assms(2,3) follow_renames_subset [OF F] new RecordDelete
      by (auto simp: recordDelete_def F Let_def split: option.splits)
  next
    case (RecordRename k p q scope base t)
    note e = assms(2) [unfolded RecordRename run_journal.simps]
    show ?thesis
    proof (cases rule: recordRename_journal [of n k p q scope base t es])
      case 1
      then show ?thesis using e by simp
    next
      case (2 x)
      then show ?thesis using e assms(1) by (auto simp: removeIntent_filter journal_ok_def)
    next
      case (3 x)
      have "bi_commitAttemptId (retarget (n q) t y) = None" if "rename_hit scope (n p) es y" for y
        using that by (auto simp: rename_hit_def Let_def retarget_def ready_in_def isReadyToCommit_def
            split: if_splits intent_kind.split)
      then show ?thesis using e assms(3) update_first_origin unfolding 3(4) by fastforce
    next
      case 4
      then show ?thesis using e assms(3) new by auto
    qed
  next
    case (RemoveIntent k)
    then show ?thesis using assms(1,2) by (auto simp: removeIntent_filter journal_ok_def)
  next
    case (RestoreIntent i)
    then show ?thesis using assms(2-4) by (auto simp: restoreIntent_def cloneIntent_def split: if_splits)
  next
    case (MarkCommitted k t s r f)
    then show ?thesis
      using assms(2) trans [of k isReadyToCommit "set_committed t s r f"]
      by (auto simp: markCommitted_def set_committed_def split: if_splits)
  next
    case (MarkCommitAttempted k a' t s)
    then show ?thesis
      using assms(2,4) trans [of k isReadyToCommit]
      by (auto simp: markCommitAttempted_def split: if_splits)
  next
    case (ClearCommitAttempt k a')
    then show ?thesis
      using assms(2) trans [of k "\<lambda>e. hasExactCommitAttempt e a'"]
      by (auto simp: clearCommitAttempt_def split: if_splits)
  next
    case (MarkCommittedFromAttempt k a' t s r f)
    then show ?thesis
      using assms(2) trans [of k "\<lambda>e. hasExactCommitAttempt e a'" "set_committed t s r f"]
      by (auto simp: markCommittedFromAttempt_def set_committed_def split: if_splits)
  qed
qed

lemma attempt_in_origin:
  assumes "world_ok env w" "attempt_event_ok env op" "attempt_in env (run_journal (ce_normPath env) op (cw_journal w))"
  shows "attempt_in env (cw_journal w)"
proof -
  have ok: "journal_ok (ce_normPath env) (cw_journal w)" using assms(1) by (simp add: world_ok_def)
  obtain e where e: "e \<in> set (run_journal (ce_normPath env) op (cw_journal w))" "bi_id e = bi_id (ce_intent env)"
      "bi_scope e = ce_scope env" "bi_commitAttemptId e = Some (ce_attemptId env)"
    using assms(3) by (auto simp: attempt_in_def)
  have "\<not> reintroduces (ce_attemptId env) op" using assms(2) by (simp add: attempt_event_ok_def)
  then have "e \<in> set (cw_journal w)" by (rule attempt_origin [OF ok e(1,4)])
  then show ?thesis using e by (auto simp: attempt_in_def)
qed

lemma world_ok_write:
  assumes "world_ok env w"
  shows "world_ok env (write_settles env ok w)"
  by (cases rule: write_settles_cases [of w env ok]) (use assms in \<open>simp_all add: world_ok_def\<close>)

lemma attempt_event:
  assumes "attempt_wait_inv env w"
  shows "attempt_wait_inv env (run_event env (attempt_event_ok env) ev w)"
proof -
  have ok: "world_ok env w" using assms by (simp add: attempt_wait_inv_def)
  show ?thesis
  proof (cases ev)
    case (Recorded op)
    show ?thesis
    proof (cases "attempt_event_ok env op \<and> journal_op_ok (ce_normPath env) (cw_journal w) op")
      case True
      then show ?thesis
        using assms record_ok [OF ok] attempt_in_origin [OF ok, of op] Recorded by (simp add: attempt_wait_inv_def)
    next
      case False
      then have "run_event env (attempt_event_ok env) ev w = w" using Recorded by auto
      then show ?thesis using assms by simp
    qed
  next
    case EnqueueSnapshot
    have "attempt_in env (cw_journal w) \<Longrightarrow> fence_in env (last (cw_queue (enqueuePendingBlobIntentPersistence env w)))"
      using fence_enqueue [OF ok] attempt_is_fence by blast
    then show ?thesis
      using assms enqueue_ok [OF ok] EnqueueSnapshot
      by (simp add: attempt_wait_inv_def) (simp add: enqueuePendingBlobIntentPersistence_def)
  next
    case (WriteSettles b)
    note wok = world_ok_write [OF ok, of b]
    show ?thesis
    proof (cases rule: write_settles_cases [of w env b])
      case 1
      then show ?thesis using assms WriteSettles by simp
    next
      case (2 snapshot rest healthy)
      have "attempt_wait_inv env (w\<lparr> cw_queue := rest, cw_healthy := healthy \<rparr>)"
        using assms wok 2 by (cases "rest = []") (simp_all add: attempt_wait_inv_def)
      then show ?thesis using WriteSettles 2(3) by simp
    next
      case (3 snapshot rest healthy stored)
      let ?w = "w\<lparr> cw_stored := Some stored, cw_queue := rest, cw_healthy := healthy \<rparr>"
      have "journal_ok (ce_normPath env) snapshot" using ok 3(1) by (simp add: world_ok_def)
      then have "fence_in env (durable_journal env ?w) = fence_in env snapshot"
        using 3(2) by (rule durable_after_write) simp
      then have "attempt_wait_inv env ?w"
        using assms wok 3 by (cases "rest = []") (simp_all add: attempt_wait_inv_def)
      then show ?thesis using WriteSettles 3(3) by simp
    qed
  next
    case (DocumentChange f)
    then show ?thesis using assms by (simp add: attempt_wait_inv_def world_ok_def)
  qed
qed

lemma fence_record:
  assumes "world_ok env w" "final_event_ok env op" "journal_op_ok (ce_normPath env) (cw_journal w) op"
    "fence_in env (cw_journal w)"
  shows "fence_in env (run_journal (ce_normPath env) op (cw_journal w))"
proof -
  obtain e where e: "e \<in> set (cw_journal w)" "bi_id e = bi_id (ce_intent env)" "bi_scope e = ce_scope env" "\<not> isReadyToCommit e"
    using assms(4) by (auto simp: fence_in_def)
  have "e \<in> set (run_journal (ce_normPath env) op (cw_journal w))"
    using assms(1) e(2) assms(2)
    by (intro run_journal_keeps_fence [OF _ assms(3) _ e(1,4)]) (simp_all add: world_ok_def final_event_ok_def)
  then show ?thesis using e by (auto simp: fence_in_def)
qed

lemma final_event:
  assumes "fenced_world env w"
  shows "fenced_world env (run_event env (final_event_ok env) ev w)"
proof -
  have ok: "world_ok env w" using assms by (simp add: fenced_world_def)
  show ?thesis
  proof (cases ev)
    case (Recorded op)
    then show ?thesis using assms record_ok [OF ok] fence_record [OF ok] by (simp add: fenced_world_def)
  next
    case EnqueueSnapshot
    then show ?thesis
      using assms enqueue_ok [OF ok]
      by (simp add: fenced_world_def) (simp add: enqueuePendingBlobIntentPersistence_def snapshot_eq [OF ok] fence_in_filter)
  next
    case (WriteSettles b)
    note wok = world_ok_write [OF ok, of b]
    show ?thesis
    proof (cases rule: write_settles_cases [of w env b])
      case 1
      then show ?thesis using assms WriteSettles by simp
    next
      case (2 snapshot rest healthy)
      then show ?thesis using assms WriteSettles wok by (simp add: fenced_world_def)
    next
      case (3 snapshot rest healthy stored)
      let ?w = "w\<lparr> cw_stored := Some stored, cw_queue := rest, cw_healthy := healthy \<rparr>"
      have "journal_ok (ce_normPath env) snapshot" using ok 3(1) by (simp add: world_ok_def)
      then have "fence_in env (durable_journal env ?w) = fence_in env snapshot"
        using 3(2) by (rule durable_after_write) simp
      then have "fenced_world env ?w" using assms wok 3 by (simp add: fenced_world_def)
      then show ?thesis using WriteSettles 3(3) by simp
    qed
  next
    case (DocumentChange f)
    then show ?thesis using assms by (simp add: fenced_world_def world_ok_def)
  qed
qed

lemma run_events_all:
  assumes "P w" "\<And>ev x. P x \<Longrightarrow> P (run_event env admits ev x)"
  shows "(\<forall>x \<in> set (run_events env admits evs w). P x) \<and> run_events env admits evs w \<noteq> []"
  using assms(1)
proof (induction evs arbitrary: w)
  case (Cons e evs)
  show ?case using Cons.IH [OF assms(2) [OF Cons.prems]] Cons.prems by simp
qed simp

lemma applied_unchanged: "cw_applied (run_event env admits ev w) = cw_applied w"
  by (cases ev) (auto simp: enqueuePendingBlobIntentPersistence_def write_settles_def split: list.split sum.split)

lemma attempt_current_in:
  assumes "attempt_current env es"
  shows "attempt_in env es"
proof -
  obtain e where e: "find (\<lambda>e. bi_id e = bi_id (ce_intent env)) (getIntentEntries (Some (ce_scope env)) es) = Some e"
      "bi_commitAttemptId e = Some (ce_attemptId env)"
    using assms by (auto simp: attempt_current_def split: option.splits)
  then have "e \<in> set (getIntentEntries (Some (ce_scope env)) es)" "bi_id e = bi_id (ce_intent env)"
    by (auto simp: find_Some_iff)
  then obtain x where "x \<in> set es" "bi_scope x = ce_scope env" "e = cloneIntent x"
    by (auto simp: getIntentEntries_def)
  then show ?thesis
    using e(2) \<open>bi_id e = bi_id (ce_intent env)\<close> by (auto simp: attempt_in_def cloneIntent_def)
qed

lemma no_mutation_sound: "is_precondition_changed r \<or> isPendingBlobMutationConflict r \<Longrightarrow> \<not> mutation_applied r"
  by (cases r rule: isPendingBlobMutationConflict.cases) auto

text \<open>Only a mutation the result reports touches the shared map.\<close>

lemma apply_intent_reports:
  assumes "ce_before env = id" "ce_after env = id" "apply_intent env m = (r, m')" "\<not> mutation_applied r"
  shows "m' = m"
proof -
  have D: "m' = m" if "deleteBlobRefIfCurrent n id id t p b d m = (x, m')" "\<not> mutation_applied (MutatedDelete p x)" for n t p b d x
    using that by (auto simp: deleteBlobRefIfCurrent_def Let_def tombstone_path_def split: option.splits if_splits)
  have R: "m' = m" if "renameBlobRefWithTombstoneIfCurrent n id id f t p q b d m = (x, m')" "\<not> mutation_applied (MutatedRename p x)"
    for n f t p q b d x
    using that
    by (auto simp: renameBlobRefWithTombstoneIfCurrent_def Let_def move_item_def tombstone_path_def put_item_def clear_tombstone_def
        split: option.splits if_splits)
  show ?thesis
    using assms D R
    by (auto simp: apply_defs split: intent_kind.splits source_occupant.splits if_splits prod.splits)
qed

section \<open>A mutation is always fenced\<close>

lemma first_wait:
  assumes "attempted_world env w" "\<not> cw_applied w"
  shows "attempt_wait_inv env (enqueuePendingBlobIntentPersistence env w)"
proof -
  have ok: "world_ok env w" and a: "attempt_in env (cw_journal w)" using assms by (simp_all add: attempted_world_def)
  show ?thesis
    using enqueue_ok [OF ok] fence_enqueue [OF ok attempt_is_fence [OF a]] assms(2)
    by (simp add: attempt_wait_inv_def) (simp add: enqueuePendingBlobIntentPersistence_def)
qed

lemma mark_fenced:
  assumes "world_ok env w" "fence_in env (cw_journal w)"
    and "markCommittedFromAttempt (bi_id (ce_intent env)) a t s r f (cw_journal w) = (ok, es)"
  shows "journal_ok (ce_normPath env) es \<and> fence_in env es"
proof
  have j: "journal_ok (ce_normPath env) (cw_journal w)" using assms(1) by (simp add: world_ok_def)
  show "journal_ok (ce_normPath env) es" using mark_ok(4) [OF j, of "bi_id (ce_intent env)" a t s r f] assms(3) by simp
  let ?k = "bi_id (ce_intent env)"
  consider "es = cw_journal w"
    | "es = map (\<lambda>x. if bi_id x = ?k then set_committed t s r f x else x) (cw_journal w)"
    using assms(3) by (auto simp: markCommittedFromAttempt_def transition_cases [OF j] split: if_splits)
  then show "fence_in env es"
  proof cases
    case 1
    then show ?thesis using assms(2) by simp
  next
    case 2
    obtain e where e: "e \<in> set (cw_journal w)" "bi_id e = ?k" "bi_scope e = ce_scope env" using assms(2) by (auto simp: fence_in_def)
    let ?e = "set_committed t s r f e"
    have "?e \<in> set es" using 2 e(1,2) by force
    moreover have "bi_id ?e = ?k" "bi_scope ?e = ce_scope env" "\<not> isReadyToCommit ?e"
      using e by (simp_all add: set_committed_def isReadyToCommit_def)
    ultimately show ?thesis unfolding fence_in_def by blast
  qed
qed

interpretation plugin: write_ahead "commitReadyPendingBlobIntent env" "commit_pre env" "attempted_world env" "fenced_world env" cw_applied
  for env
proof
  note H = commitReadyPendingBlobIntent_def Let_def
  let ?k = "bi_id (ce_intent env)"
  fix w w' :: commit_world and ok :: bool
  assume pre: "commit_pre env w" and m: "hk_markAttempted (commitReadyPendingBlobIntent env) w = (ok, w')"
  obtain es where es: "markCommitAttempted ?k (ce_attemptId env) (ce_attemptedAt env) (ce_sessionId env) (cw_journal w) = (ok, es)"
      "w' = w\<lparr> cw_journal := es \<rparr>"
    using m by (auto simp: H split: prod.splits)
  have j: "journal_ok (ce_normPath env) (cw_journal w)" using pre by (simp add: commit_pre_def world_ok_def)
  have j': "journal_ok (ce_normPath env) es" using mark_ok(2) [OF j] es(1) by (metis snd_conv)
  have "attempt_in env es" if ok
  proof -
    let ?f = "\<lambda>e. e\<lparr> bi_commitAttemptId := Some (ce_attemptId env), bi_attemptedAt := Some (ce_attemptedAt env),
        bi_attemptSessionId := Some (ce_sessionId env) \<rparr>"
    have "\<exists>e \<in> set (cw_journal w). bi_id e = ?k"
      and "es = map (\<lambda>x. if bi_id x = ?k then ?f x else x) (cw_journal w)"
      using es(1) that by (auto simp: markCommitAttempted_def transition_cases [OF j] split: if_splits)
    then obtain e where e: "e \<in> set (cw_journal w)" "bi_id e = ?k" "?f e \<in> set es" by force
    then have "bi_scope e = ce_scope env" using pre by (simp add: commit_pre_def)
    then have "bi_id (?f e) = ?k" "bi_scope (?f e) = ce_scope env" "bi_commitAttemptId (?f e) = Some (ce_attemptId env)"
      using e by simp_all
    then show ?thesis using e(3) unfolding attempt_in_def by blast
  qed
  then show "\<not> cw_applied w' \<and> (ok \<longrightarrow> attempted_world env w')"
    using pre j' es(2) by (simp add: commit_pre_def attempted_world_def world_ok_def)
next
  note H = commitReadyPendingBlobIntent_def Let_def
  fix w :: commit_world and ok :: bool and ws
  assume a: "attempted_world env w" "\<not> cw_applied w" "hk_persistAttempted (commitReadyPendingBlobIntent env) w = (ok, ws)"
  have ws: "ws = run_events env (attempt_event_ok env) (ce_attemptEvents env) (enqueuePendingBlobIntentPersistence env w)"
    and ok: "ok \<Longrightarrow> cw_queue (last ws) = [] \<and> cw_healthy (last ws)"
    using a(3) by (auto simp: H)
  have all: "(\<forall>x \<in> set ws. attempt_wait_inv env x) \<and> ws \<noteq> []"
    unfolding ws by (rule run_events_all [OF first_wait [OF a(1,2)] attempt_event])
  have "fenced_world env (last ws)"
    if "ok" "hk_isAttemptCurrent (commitReadyPendingBlobIntent env) (last ws) = Some True"
  proof -
    have inv: "attempt_wait_inv env (last ws)" using all by simp
    have cur: "attempt_in env (cw_journal (last ws))" using that(2) attempt_current_in by (auto simp: H)
    then show ?thesis
      using inv ok [OF that(1)] attempt_is_fence [OF cur] by (simp add: attempt_wait_inv_def fenced_world_def)
  qed
  then show "ws \<noteq> [] \<and> (\<forall>x \<in> set ws. \<not> cw_applied x)
      \<and> (ok \<longrightarrow> hk_isAttemptCurrent (commitReadyPendingBlobIntent env) (last ws) = Some True \<longrightarrow> fenced_world env (last ws))"
    using all by (auto simp: attempt_wait_inv_def)
next
  fix w w' :: commit_world and res
  assume "fenced_world env w" "hk_apply (commitReadyPendingBlobIntent env) w = (res, w')"
  then show "fenced_world env w'"
    by (auto simp: commitReadyPendingBlobIntent_def Let_def fenced_world_def world_ok_def split: prod.splits)
next
  fix w w' :: commit_world and r
  assume "hk_apply (commitReadyPendingBlobIntent env) w = (Some r, w')"
    "hk_isKnownNoMutation (commitReadyPendingBlobIntent env) r" "\<not> cw_applied w"
  then show "\<not> cw_applied w'"
    using no_mutation_sound by (auto simp: commitReadyPendingBlobIntent_def Let_def split: prod.splits if_splits)
next
  fix w w' :: commit_world and ok :: bool
  assume "\<not> cw_applied w" "hk_clearAttempt (commitReadyPendingBlobIntent env) w = (ok, w')"
  then show "\<not> cw_applied w'" by (auto simp: commitReadyPendingBlobIntent_def Let_def split: prod.splits)
next
  fix w w' :: commit_world and ok :: bool and r
  assume f: "fenced_world env w" "hk_markCommitted (commitReadyPendingBlobIntent env) r w = (ok, w')"
  show "fenced_world env w'"
  proof (cases "is_precondition_changed r")
    case True
    then show ?thesis using f by (simp add: commitReadyPendingBlobIntent_def Let_def)
  next
    case False
    then obtain es where es: "markCommittedFromAttempt (bi_id (ce_intent env)) (ce_attemptId env) (ce_committedAt env)
        (ce_sessionId env) (ce_receiptCandidateId env) (ce_deleteFingerprint env) (cw_journal w) = (ok, es)"
        "w' = w\<lparr> cw_journal := es \<rparr>"
      using f(2) by (auto simp: commitReadyPendingBlobIntent_def Let_def split: prod.splits)
    then show ?thesis using f(1) mark_fenced [OF _ _ es(1)] by (simp add: fenced_world_def world_ok_def)
  qed
next
  fix w :: commit_world
  assume "fenced_world env w"
  then show "fenced_world env (hk_persistFinal (commitReadyPendingBlobIntent env) w)"
    using final_event [of env w EnqueueSnapshot] by (simp add: commitReadyPendingBlobIntent_def Let_def)
next
  fix w :: commit_world
  assume "\<not> cw_applied w"
  then show "\<not> cw_applied (hk_persistFinal (commitReadyPendingBlobIntent env) w)"
    by (simp add: commitReadyPendingBlobIntent_def Let_def enqueuePendingBlobIntentPersistence_def)
next
  fix w :: commit_world and ok :: bool and ws
  assume w: "\<not> cw_applied w" "hk_finalSettles (commitReadyPendingBlobIntent env) w = (ok, ws)"
  have "\<forall>x \<in> set (run_events env (final_event_ok env) (ce_finalEvents env) w). \<not> cw_applied x"
    using run_events_all [where P = "\<lambda>x. \<not> cw_applied x", OF w(1)] by (simp add: applied_unchanged)
  then show "\<forall>x \<in> set ws. \<not> cw_applied x" using w(2) by (auto simp: commitReadyPendingBlobIntent_def Let_def)
next
  fix w :: commit_world
  assume "fenced_world env w"
  then show "fenced_world env (hk_flushReceipt (commitReadyPendingBlobIntent env) w)"
    by (simp add: commitReadyPendingBlobIntent_def Let_def)
next
  fix w :: commit_world and oks and ws
  assume w: "fenced_world env w" "hk_allSettled (commitReadyPendingBlobIntent env) w = (oks, ws)"
  have "\<forall>x \<in> set (run_events env (final_event_ok env) (ce_finalEvents env) w). fenced_world env x"
    using run_events_all [of "fenced_world env", OF w(1) final_event] by simp
  then show "\<forall>x \<in> set ws. fenced_world env x" using w(2) by (auto simp: commitReadyPendingBlobIntent_def Let_def)
qed

section \<open>Replaying the journal\<close>

text \<open>What \<^verbatim>\<open>replayPendingBlobIntentsOnce\<close> does with one intent.\<close>

datatype replay_choice = RetireOrQuarantine | RemoveConfirmed | AwaitReceipt | CommitNow

definition hasOtherUnconfirmedBlobIntentFence :: "blob_intent \<Rightarrow> intent_scope \<Rightarrow> intent_journal \<Rightarrow> bool" where
  "hasOtherUnconfirmedBlobIntentFence i scope es =
     list_ex (\<lambda>c. if bi_id c = bi_id i \<or> (bi_commitAttemptId c = None \<and> bi_committedAt c = None) then False
                  else pendingBlobIntentsOverlap i c) (getIntentEntries (Some scope) es)"

text \<open>\<open>live\<close>: a ref is live at the source path; \<open>snapshot\<close>: fingerprint and ref of its tombstone.\<close>

definition hasPendingBlobIntentCommitPostcondition :: "blob_intent \<Rightarrow> bool \<Rightarrow> (jsstr \<times> blob_ref option) option \<Rightarrow> bool" where
  "hasPendingBlobIntentCommitPostcondition i live snapshot \<longleftrightarrow>
     \<not> live
     \<and> (if \<not> falsy (bi_commitDeleteFingerprint i) then map_option fst snapshot = bi_commitDeleteFingerprint i
        else cloneBlobRef (bi_expectedSourceRef i) = None
          \<or> (case snapshot of None \<Rightarrow> False | Some (f, ref) \<Rightarrow> sameBlobRef ref (cloneBlobRef (bi_expectedSourceRef i))))"

definition isPendingBlobIntentReceiptConfirmed ::
  "blob_intent \<Rightarrow> bool \<Rightarrow> bool \<Rightarrow> jsstr option \<Rightarrow> int option \<Rightarrow> bool" where
  "isPendingBlobIntentReceiptConfirmed i serverApplied postcondition lastConfirmed lastEchoAt =
     (case bi_committedAt i of
        None \<Rightarrow> False
      | Some committedAt \<Rightarrow>
          if \<not> serverApplied \<or> \<not> postcondition then False
          else if \<not> falsy (bi_receiptCandidateId i) \<and> lastConfirmed = bi_receiptCandidateId i then True
          else (case lastEchoAt of Some t \<Rightarrow> t | None \<Rightarrow> 0) > committedAt)"

definition replay_intent :: "blob_intent \<Rightarrow> bool \<Rightarrow> bool \<Rightarrow> bool \<Rightarrow> bool \<Rightarrow> bool \<Rightarrow> bool \<Rightarrow> replay_choice" where
  "replay_intent i staged otherFence occupied confirmed prepared postcondition =
     (if bi_commitAttemptId i \<noteq> None then RetireOrQuarantine
      else if bi_committedAt i = None \<and> staged then RetireOrQuarantine
      else if bi_committedAt i = None \<and> otherFence then RetireOrQuarantine
      else if occupied \<and> bi_committedAt i \<noteq> None then RetireOrQuarantine
      else if confirmed then (if prepared then RemoveConfirmed else RetireOrQuarantine)
      else if bi_committedAt i \<noteq> None then (if postcondition then AwaitReceipt else RetireOrQuarantine)
      else CommitNow)"

lemma loaded_intents:
  assumes "\<And>p. normPath (normPath p) = normPath p" "e \<in> set (fst (readPersistedJournal normPath raw scope))"
  shows "intent_ok normPath e" "snd (readPersistedJournal normPath raw scope) = StoreLoaded"
proof -
  obtain vs where "readPersistedJournal normPath raw scope =
      (getIntentEntries (Some scope) (hydrateIntents normPath (JsonArray vs)), StoreLoaded)"
    using assms(2) by (auto simp: readPersistedJournal_def Let_def split: option.splits json.splits if_splits)
  moreover have ok: "list_all (intent_ok normPath) (hydrateIntents normPath (JsonArray vs))" by (rule hydrate_ok [OF assms(1)])
  ultimately show "intent_ok normPath e" "snd (readPersistedJournal normPath raw scope) = StoreLoaded"
    using assms(2) by (auto simp: entries_ok(1) [OF ok] list_all_iff)
qed

lemma fenced_never_replayed:
  assumes "intent_ok normPath e" "\<not> isReadyToCommit e" "confirmed \<longrightarrow> bi_committedAt e \<noteq> None"
  shows "replay_intent e staged otherFence occupied confirmed prepared postcondition \<noteq> CommitNow"
proof -
  have "bi_commitAttemptId e \<noteq> None \<or> bi_committedAt e \<noteq> None"
    using assms(1,2) by (auto simp: intent_ok_def metadata_ok_def isReadyToCommit_def split: if_splits)
  then show ?thesis by (auto simp: replay_intent_def)
qed

text \<open>A concrete run, for the witnesses: the store accepts the fence, the deletion is applied, and then the
  hook throws.\<close>

definition sample_env :: commit_env where
  "sample_env = \<lparr> ce_normPath = id, ce_scope = sample_scope, ce_intent = sample_intent, ce_attemptId = js ''t'',
     ce_attemptedAt = 2, ce_sessionId = js ''s'', ce_attemptEvents = [WriteSettles True], ce_authorityDuringWrite = True,
     ce_attemptConditions = Some True, ce_occupant = NoOccupant, ce_renameFilePresent = False, ce_acceptingRemoteDelete = False, ce_before = id, ce_after = id,
     ce_fresh = None, ce_now = 3, ce_device = None, ce_applyThrows = True, ce_authority = True, ce_committedAt = 4,
     ce_receiptCandidateId = None, ce_deleteFingerprint = None, ce_finalEvents = [WriteSettles True],
     ce_settledWrite = True, ce_receiptFlushed = True \<rparr>"

definition sample_world :: commit_world where
  "sample_world = \<lparr> cw_journal = [sample_intent], cw_queue = [], cw_stored = None, cw_healthy = True,
     cw_blobs = \<lparr> bm_pathToBlob = [js ''a.png'' \<mapsto> \<lparr> it_ref = sample_ref, it_version = Some (js ''1:2'') \<rparr>],
       bm_tombstones = Map.empty, bm_blobMeta = Map.empty \<rparr>, cw_applied = False \<rparr>"


lemma sample_pre: "commit_pre sample_env sample_world"
  using sample_ok by (simp add: commit_pre_def world_ok_def sample_env_def sample_world_def journal_ok_def)
    (simp add: sample_intent_def new_intent_def)


definition sample_attempted :: blob_intent where
  "sample_attempted = sample_intent\<lparr> bi_commitAttemptId := Some (js ''t''), bi_attemptedAt := Some 2, bi_attemptSessionId := Some (js ''s'') \<rparr>"

lemma sample_applied:
  "snd (commitPendingBlobIntentWithWriteAhead (commitReadyPendingBlobIntent sample_env) sample_world) \<noteq> []
   \<and> cw_applied (last (snd (commitPendingBlobIntentWithWriteAhead (commitReadyPendingBlobIntent sample_env) sample_world)))"
proof -
  have ready: "isReadyToCommit sample_intent" "bi_scope sample_intent = sample_scope"
      "bi_kind sample_intent = IntentDelete (js ''a.png'')" "pendingBlobMutationBase sample_intent = sample_base"
    by (simp_all add: sample_intent_def new_intent_def isReadyToCommit_def pendingBlobMutationBase_def sample_base_def
        cloneBlobRef_def getBlobRefPriorHashes_def make_ref_def sample_ref_def)
  have mark: "markCommitAttempted (bi_id sample_intent) (js ''t'') 2 (js ''s'') [sample_intent] = (True, [sample_attempted])"
    using ready by (simp add: markCommitAttempted_def transition_def js_def isValidTimestamp_def MAX_SAFE_INTEGER_def sample_attempted_def)
  have "intent_ok id sample_attempted"
    unfolding sample_attempted_def
    by (rule attempt_ok [OF sample_ok ready(1)]) (simp_all add: js_def isValidTimestamp_def MAX_SAFE_INTEGER_def)
  then have ok: "list_all (intent_ok id) [sample_attempted]" by simp
  have a: "bi_scope sample_attempted = sample_scope" "bi_id sample_attempted = bi_id sample_intent"
      "bi_commitAttemptId sample_attempted = Some (js ''t'')" "bi_committedAt sample_attempted = None"
    using ready by (simp_all add: sample_attempted_def isReadyToCommit_def)
  have entries: "getIntentEntries (Some sample_scope) [sample_attempted] = [sample_attempted]"
    using entries_ok(1) [OF ok, of sample_scope] a by simp
  obtain stored where stored: "saveIntents id sample_scope [sample_attempted] = Inr stored"
    using saved_intents_load [OF ok, of sample_scope] by blast
  have del: "fst (deleteBlobRefIfCurrent id id id 3 (js ''a.png'') sample_base None (cw_blobs sample_world)) = BlobDeleted sample_ref"
    by (simp add: deleteBlobRefIfCurrent_def Let_def sample_world_def live_ref_def cloneBlobRef_def getBlobRefPriorHashes_def
        make_ref_def sample_ref_def sample_base_def falsy_def sameBlobRef_def getBlobSourceVersion_def source_matches_def
        tombstone_path_def) (simp add: js_def)
  have app: "mutation_applied (fst (apply_intent sample_env (cw_blobs sample_world)))"
    using ready del by (simp add: apply_defs case_prod_beta sample_env_def)
  define w1 where "w1 = sample_world\<lparr> cw_journal := [sample_attempted] \<rparr>"
  have "hk_markAttempted (commitReadyPendingBlobIntent sample_env) sample_world = (True, w1)"
    using mark by (simp add: commitReadyPendingBlobIntent_def Let_def sample_env_def sample_world_def w1_def)
  moreover define w2 where "w2 = enqueuePendingBlobIntentPersistence sample_env w1"
  define w3 where "w3 = write_settles sample_env True w2"
  have w3: "cw_queue w3 = []" "cw_healthy w3" "cw_journal w3 = [sample_attempted]" "cw_blobs w3 = cw_blobs sample_world"
    using entries stored
    by (simp_all add: w3_def w2_def w1_def write_settles_def enqueuePendingBlobIntentPersistence_def sample_env_def sample_world_def)
  have "hk_persistAttempted (commitReadyPendingBlobIntent sample_env) w1 = (True, [w2, w3])"
    using w3 by (simp add: commitReadyPendingBlobIntent_def Let_def w2_def [symmetric])
      (simp add: sample_env_def w3_def w1_def sample_world_def)
  moreover have "hk_isAttemptCurrent (commitReadyPendingBlobIntent sample_env) w3 = Some True"
    using w3 a entries
    by (simp add: commitReadyPendingBlobIntent_def Let_def attempt_current_def hasOtherPendingBlobIntentOverlap_def)
      (auto simp: sample_env_def a entries)
  moreover have "fst (hk_apply (commitReadyPendingBlobIntent sample_env) w3) = None"
    "cw_applied (snd (hk_apply (commitReadyPendingBlobIntent sample_env) w3))"
    using app w3 by (simp_all add: commitReadyPendingBlobIntent_def Let_def case_prod_beta) (simp add: sample_env_def)
  ultimately show ?thesis by (simp add: commitPendingBlobIntentWithWriteAhead_def case_prod_beta)
qed

text \<open>
  C4: A pending attachment mutation reaches the shared document at most once.  Whatever other code
  does while the writes are pending, wherever the process dies: in every world in which the mutation
  has been applied, the journal that the next start loads holds the intent, fenced, and the replay
  loop does not commit it again.\<close>

theorem pending_mutation_applied_at_most_once:
  assumes "commit_pre env w"
    and "commitPendingBlobIntentWithWriteAhead (commitReadyPendingBlobIntent env) w = (outcome, ws)"
    and "x \<in> set ws" "cw_applied x"
  shows "\<exists>es e. readPersistedJournal (ce_normPath env) (cw_stored x) (ce_scope env) = (es, StoreLoaded)
     \<and> e \<in> set es \<and> bi_id e = bi_id (ce_intent env)
     \<and> replay_intent e staged otherFence occupied
         (isPendingBlobIntentReceiptConfirmed e serverApplied postcondition lastConfirmed lastEchoAt) prepared postcondition \<noteq> CommitNow"
proof -
  have f: "fenced_world env x" by (rule plugin.applied_fenced [OF assms])
  then have idem: "\<And>p. ce_normPath env (ce_normPath env p) = ce_normPath env p"
    by (simp add: fenced_world_def world_ok_def)
  obtain e where e: "e \<in> set (durable_journal env x)" "bi_id e = bi_id (ce_intent env)" "\<not> isReadyToCommit e"
    using f by (auto simp: fenced_world_def fence_in_def)
  note L = loaded_intents [OF idem e(1) [unfolded durable_journal_def]]
  have "replay_intent e staged otherFence occupied
      (isPendingBlobIntentReceiptConfirmed e serverApplied postcondition lastConfirmed lastEchoAt) prepared postcondition \<noteq> CommitNow"
    by (rule fenced_never_replayed [OF L(1) e(3)])
      (auto simp: isPendingBlobIntentReceiptConfirmed_def split: option.splits)
  then show ?thesis
    using e L(2) by (cases "readPersistedJournal (ce_normPath env) (cw_stored x) (ce_scope env)")
      (auto simp: durable_journal_def)
qed

theorem pending_mutation_applied_at_most_once_witness:
  "\<exists>es e. readPersistedJournal id (cw_stored (last (snd (commitPendingBlobIntentWithWriteAhead
         (commitReadyPendingBlobIntent sample_env) sample_world)))) sample_scope = (es, StoreLoaded)
     \<and> e \<in> set es \<and> bi_id e = js ''i''
     \<and> replay_intent e False False False (isPendingBlobIntentReceiptConfirmed e True True None (Some 9)) True True \<noteq> CommitNow"
proof -
  let ?c = "commitPendingBlobIntentWithWriteAhead (commitReadyPendingBlobIntent sample_env) sample_world"
  have ne: "snd ?c \<noteq> []" and applied: "cw_applied (last (snd ?c))" using sample_applied by simp_all
  have e: "ce_normPath sample_env = id" "ce_scope sample_env = sample_scope" "bi_id (ce_intent sample_env) = js ''i''"
    by (simp_all add: sample_env_def sample_intent_def new_intent_def)
  have c: "?c = (fst ?c, snd ?c)" by simp
  show ?thesis
    using pending_mutation_applied_at_most_once [OF sample_pre c last_in_set [OF ne] applied] unfolding e by blast
qed

text \<open>
  The outcome of a commit is truthful about failures.  When the intent was not started, its
  write-ahead failed, it went stale, its precondition could not be read, or the result is known to
  have changed nothing, then no world of the run has the mutation applied.\<close>

theorem reported_no_mutation_is_true:
  assumes "commit_pre env w"
    and "commitPendingBlobIntentWithWriteAhead (commitReadyPendingBlobIntent env) w = (outcome, ws)"
    and "reports_no_mutation outcome" "x \<in> set ws"
  shows "\<not> cw_applied x"
  by (rule plugin.clean_outcomes [OF assms])

theorem reported_no_mutation_is_true_witness:
  "\<not> cw_applied (last (snd (commitPendingBlobIntentWithWriteAhead (commitReadyPendingBlobIntent sample_env)
     (sample_world\<lparr> cw_journal := [] \<rparr>))))"
proof -
  let ?w = "sample_world\<lparr> cw_journal := [] \<rparr>"
  have c: "commitPendingBlobIntentWithWriteAhead (commitReadyPendingBlobIntent sample_env) ?w = (NotStarted, [?w])"
    by (simp add: commitPendingBlobIntentWithWriteAhead_def commitReadyPendingBlobIntent_def Let_def markCommitAttempted_def
        transition_def)
  have "commit_pre sample_env ?w"
    by (simp add: commit_pre_def world_ok_def sample_env_def sample_world_def journal_ok_def)
  from reported_no_mutation_is_true [OF this c] show ?thesis by (simp add: c)
qed

end
