(* ===== verification/JsStrings.thy ===== *)
theory JsStrings
  imports Prelude
begin

text \<open>
  The operations on strings that the program takes from the JavaScript library: white space,
  prefixes and suffixes, case, splitting and joining, and the lemmas the components share.
\<close>

section \<open>Characters and trimming\<close>

text \<open>White space as \<^verbatim>\<open>String.prototype.trim\<close> removes it.\<close>

definition js_space :: "jschar \<Rightarrow> bool" where
  "js_space c \<longleftrightarrow>
     c \<in> {9, 10, 11, 12, 13, 32, 160, 0x1680, 0x2028, 0x2029, 0x202F, 0x205F, 0x3000, 0xFEFF}
     \<or> 0x2000 \<le> c \<and> c \<le> 0x200A"

definition trim :: "jsstr \<Rightarrow> jsstr" where
  "trim s = rev (dropWhile js_space (rev (dropWhile js_space s)))"

definition digit_unit :: "jschar \<Rightarrow> bool" where "digit_unit c \<longleftrightarrow> 48 \<le> c \<and> c \<le> 57"
definition upper_unit :: "jschar \<Rightarrow> bool" where "upper_unit c \<longleftrightarrow> 65 \<le> c \<and> c \<le> 90"
definition lower_unit :: "jschar \<Rightarrow> bool" where "lower_unit c \<longleftrightarrow> 97 \<le> c \<and> c \<le> 122"

definition hex_unit :: "jschar \<Rightarrow> bool" where
  "hex_unit c \<longleftrightarrow> 97 \<le> c \<and> c \<le> 102 \<or> digit_unit c"

lemma trim_front: "dropWhile P (rev (dropWhile P (rev (dropWhile P xs)))) = rev (dropWhile P (rev (dropWhile P xs)))"
proof (cases "dropWhile P xs")
  case (Cons y ys)
  then have y: "\<not> P y" by (metis hd_dropWhile list.distinct(1) list.sel(1))
  then have "rev (dropWhile P (rev (y # ys))) = y # rev (dropWhile P (rev ys))"
    by (simp add: dropWhile_append)
  then show ?thesis using y by (simp only: Cons) simp
qed (simp only: list.simps rev.simps dropWhile.simps)

lemma dropWhile_again: "dropWhile P (dropWhile P xs) = dropWhile P xs"
  by (induction xs) auto

lemma trim_trim: "trim (trim s) = trim s"
  by (simp only: trim_def trim_front rev_rev_ident dropWhile_again)

lemma trim_around:
  assumes "list_all js_space before" "list_all (\<lambda>c. \<not> js_space c) s" "s \<noteq> []" "list_all js_space after"
  shows "trim (before @ s @ after) = s"
proof -
  have front: "dropWhile js_space (b @ t) = t" if "list_all js_space b" "t \<noteq> []" "\<not> js_space (hd t)" for b t
    using that by (cases t) (simp_all add: list_all_iff dropWhile_append2)
  have "\<not> js_space (hd (s @ after))" "\<not> js_space (hd (rev s))"
    using assms(2,3) by (simp_all add: list_all_iff hd_rev)
  then show ?thesis
    using front [OF assms(1), of "s @ after"] front [of "rev after" "rev s"] assms(3,4) by (simp add: trim_def)
qed

lemma trim_nonspace: "list_all (\<lambda>c. \<not> js_space c) s \<Longrightarrow> s \<noteq> [] \<Longrightarrow> trim s = s"
  using trim_around [of "[]" s "[]"] by simp

section \<open>Prefixes, suffixes and case\<close>

definition startsWith :: "jsstr \<Rightarrow> jsstr \<Rightarrow> bool" where
  "startsWith s p \<longleftrightarrow> take (length p) s = p"

definition endsWith :: "jsstr \<Rightarrow> jsstr \<Rightarrow> bool" where
  "endsWith s p \<longleftrightarrow> length p \<le> length s \<and> drop (length s - length p) s = p"

text \<open>
  \<^verbatim>\<open>toLowerCase\<close> as far as it yields ASCII: capital letters, the Kelvin sign and the dotted capital i.
\<close>

definition toLowerCase :: "jsstr \<Rightarrow> jsstr" where
  "toLowerCase s =
     concat (map (\<lambda>c. if upper_unit c then [c + 32] else if c = 0x212A then [107] else if c = 0x130 then [105, 0x307] else [c]) s)"

section \<open>Splitting\<close>

text \<open>\<^verbatim>\<open>s.split(c)\<close> for one code unit, and \<^verbatim>\<open>parts.join(c)\<close>.\<close>

fun split_on :: "jschar \<Rightarrow> jsstr \<Rightarrow> jsstr list" where
  "split_on c [] = [[]]"
| "split_on c (x # s) =
     (if x = c then [] # split_on c s
      else (case split_on c s of p # ps \<Rightarrow> (x # p) # ps | [] \<Rightarrow> [[x]]))"

lemma split_on_nonempty [simp]: "split_on c s \<noteq> []"
  by (induction c s rule: split_on.induct) (auto split: list.split)

lemma split_on_append: "split_on c (s @ c # t) = split_on c s @ split_on c t"
  by (induction s) (auto split: list.split simp: Cons_eq_append_conv)

lemma split_on_single: "c \<notin> set s \<Longrightarrow> split_on c s = [s]"
  by (induction s) auto

lemma split_on_free: "p \<in> set (split_on c s) \<Longrightarrow> c \<notin> set p"
  by (induction c s arbitrary: p rule: split_on.induct) (auto split: list.splits if_splits)

end
