(* ===== verification/AuthRecords.thy ===== *)
theory AuthRecords
  imports Json JsStrings Base64 Digits ChunkedPayload BlobIntents
begin

text \<open>
  The data of the server's device authentication, \<^verbatim>\<open>src/server/src/config.ts\<close>: devices, pairings,
  challenges, sessions, tickets and audit events, the validators of untrusted values, the guards
  through which every stored record is read, and \<^verbatim>\<open>readAuthValues\<close>.  The storage of the durable
  object maps keys to JSON values.  Hashing, key import and signature verification are the
  parameters of the record \<open>crypto\<close>; random draws are arguments of the handlers.
\<close>

text \<open>\<^verbatim>\<open>/[\x00-\x1f\x7f]/\<close>.\<close>

definition control_char :: "jschar \<Rightarrow> bool" where
  "control_char c \<longleftrightarrow> c \<le> 0x1F \<or> c = 0x7F"

text \<open>\<^verbatim>\<open>[A-Za-z0-9_-]\<close>.\<close>

definition id_unit :: "jschar \<Rightarrow> bool" where
  "id_unit c \<longleftrightarrow> upper_unit c \<or> lower_unit c \<or> digit_unit c \<or> c = 95 \<or> c = 45"

section \<open>Validators\<close>

definition validId :: "jsstr \<Rightarrow> bool" where
  "validId s \<longleftrightarrow> 8 \<le> length s \<and> length s \<le> 128 \<and> list_all id_unit s"

definition validVaultId :: "jsstr \<Rightarrow> bool" where
  "validVaultId s \<longleftrightarrow> s = trim s \<and> 8 \<le> length s \<and> length s \<le> 128 \<and> \<not> list_ex control_char s"

definition validName :: "jsstr \<Rightarrow> bool" where
  "validName s \<longleftrightarrow> s = trim s \<and> 1 \<le> length s \<and> length s \<le> 128 \<and> \<not> list_ex control_char s"

definition validHash :: "jsstr \<Rightarrow> bool" where
  "validHash s \<longleftrightarrow> length s = 64 \<and> list_all hex_unit s"

text \<open>A public key: the coordinates, all that is kept of a key that passes.\<close>

record public_key =
  pk_x :: jsstr
  pk_y :: jsstr

definition coordinate_ok :: "jsstr \<Rightarrow> bool" where
  "coordinate_ok s \<longleftrightarrow> 42 \<le> length s \<and> length s \<le> 64 \<and> list_all id_unit s"

definition validPublicKey :: "json option \<Rightarrow> public_key option" where
  "validPublicKey v =
     (case v of
        Some (JsonObject key) \<Rightarrow>
          if field ''kty'' key = Some (JsonString (js ''EC'')) \<and> field ''crv'' key = Some (JsonString (js ''P-256''))
             \<and> field ''d'' key = None
          then (case (field ''x'' key, field ''y'' key) of
                  (Some (JsonString x), Some (JsonString y)) \<Rightarrow>
                    if coordinate_ok x \<and> coordinate_ok y then Some \<lparr> pk_x = x, pk_y = y \<rparr> else None
                | _ \<Rightarrow> None)
          else None
      | _ \<Rightarrow> None)"

definition read_valid :: "(jsstr \<Rightarrow> bool) \<Rightarrow> json option \<Rightarrow> jsstr option" where
  "read_valid P v = (case read_string v of Some s \<Rightarrow> if P s then Some s else None | None \<Rightarrow> None)"

fun read_number :: "json option \<Rightarrow> rat option" where
  "read_number (Some (JsonNumber q)) = Some q"
| "read_number _ = None"

text \<open>\<^verbatim>\<open>typeof v === ... || v === null\<close>.\<close>

definition nullable :: "(json option \<Rightarrow> 'a option) \<Rightarrow> json option \<Rightarrow> 'a option option" where
  "nullable reader v = (if v = Some JsonNull then Some None else map_option Some (reader v))"

section \<open>Stored records\<close>

datatype device_role = Owner | Member
datatype device_status = Active | Revoked

text \<open>A device as it is listed, and as it is stored, with its key.\<close>

record listed_device =
  dv_id :: jsstr
  dv_vaultId :: jsstr
  dv_name :: jsstr
  dv_fingerprint :: jsstr
  dv_role :: device_role
  dv_status :: device_status
  dv_createdAt :: rat
  dv_approvedAt :: rat
  dv_revokedAt :: "rat option"
  dv_lastSeenAt :: "rat option"

record stored_device = listed_device +
  dv_publicKey :: public_key

record stored_pairing =
  pr_id :: jsstr
  pr_secretHash :: jsstr
  pr_code :: jsstr
  pr_createdBy :: jsstr
  pr_createdAt :: rat
  pr_expiresAt :: rat
  pr_role :: "device_role option"

record stored_challenge =
  ch_id :: jsstr
  ch_deviceId :: jsstr
  ch_vaultId :: jsstr
  ch_nonce :: jsstr
  ch_authGeneration :: rat
  ch_expiresAt :: rat

record stored_session =
  ss_id :: jsstr
  ss_hash :: jsstr
  ss_deviceId :: jsstr
  ss_vaultId :: jsstr
  ss_authGeneration :: rat
  ss_expiresAt :: rat

record stored_ticket =
  tk_hash :: jsstr
  tk_deviceId :: jsstr
  tk_vaultId :: jsstr
  tk_authGeneration :: rat
  tk_expiresAt :: rat

datatype audit_action =
  AuditClaimed | AuditRecovery | AuditPairingCreated | AuditDevicePaired
  | AuditDeviceRoleChanged | AuditDeviceRevoked | AuditDeviceRenamed

record audit_event =
  au_at :: rat
  au_action :: audit_action
  au_actorDeviceId :: "jsstr option"
  au_targetDeviceId :: "jsstr option"
  au_fingerprint :: "jsstr option"

section \<open>Guards\<close>

definition read_role :: "json option \<Rightarrow> device_role option" where
  "read_role v =
     (if v = Some (JsonString (js ''owner'')) then Some Owner
      else if v = Some (JsonString (js ''member'')) then Some Member else None)"

definition read_status :: "json option \<Rightarrow> device_status option" where
  "read_status v =
     (if v = Some (JsonString (js ''active'')) then Some Active
      else if v = Some (JsonString (js ''revoked'')) then Some Revoked else None)"

definition isDevice :: "json \<Rightarrow> stored_device option" where
  "isDevice v =
     (case v of
        JsonObject d \<Rightarrow>
          (case (read_valid validId (field ''id'' d), read_valid validVaultId (field ''vaultId'' d),
                 read_valid validName (field ''name'' d), validPublicKey (field ''publicKey'' d),
                 read_string (field ''fingerprint'' d), read_role (field ''role'' d), read_status (field ''status'' d)) of
             (Some i, Some vault, Some n, Some k, Some fp, Some r, Some s) \<Rightarrow>
               (case (read_number (field ''createdAt'' d), read_number (field ''approvedAt'' d),
                      nullable read_number (field ''revokedAt'' d), nullable read_number (field ''lastSeenAt'' d)) of
                  (Some c, Some a, Some rv, Some seen) \<Rightarrow>
                    Some \<lparr> dv_id = i, dv_vaultId = vault, dv_name = n, dv_fingerprint = fp, dv_role = r,
                       dv_status = s, dv_createdAt = c, dv_approvedAt = a, dv_revokedAt = rv, dv_lastSeenAt = seen, dv_publicKey = k \<rparr>
                | _ \<Rightarrow> None)
           | _ \<Rightarrow> None)
      | _ \<Rightarrow> None)"

definition isPairing :: "json \<Rightarrow> stored_pairing option" where
  "isPairing v =
     (case v of
        JsonObject p \<Rightarrow>
          (case (read_valid validId (field ''id'' p), read_valid validHash (field ''secretHash'' p),
                 read_valid (\<lambda>c. length c = 6) (field ''code'' p), read_valid validId (field ''createdBy'' p),
                 read_number (field ''createdAt'' p), read_number (field ''expiresAt'' p),
                 optional read_role (field ''role'' p)) of
             (Some i, Some h, Some c, Some by', Some a, Some e, Some r) \<Rightarrow>
               Some \<lparr> pr_id = i, pr_secretHash = h, pr_code = c, pr_createdBy = by', pr_createdAt = a,
                  pr_expiresAt = e, pr_role = r \<rparr>
           | _ \<Rightarrow> None)
      | _ \<Rightarrow> None)"

definition isChallenge :: "json \<Rightarrow> stored_challenge option" where
  "isChallenge v =
     (case v of
        JsonObject c \<Rightarrow>
          (case (read_valid validId (field ''id'' c), read_valid validId (field ''deviceId'' c),
                 read_valid validVaultId (field ''vaultId'' c), read_string (field ''nonce'' c),
                 read_number (field ''authGeneration'' c), read_number (field ''expiresAt'' c)) of
             (Some i, Some d, Some vault, Some n, Some g, Some e) \<Rightarrow>
               Some \<lparr> ch_id = i, ch_deviceId = d, ch_vaultId = vault, ch_nonce = n, ch_authGeneration = g, ch_expiresAt = e \<rparr>
           | _ \<Rightarrow> None)
      | _ \<Rightarrow> None)"

definition isSession :: "json \<Rightarrow> stored_session option" where
  "isSession v =
     (case v of
        JsonObject s \<Rightarrow>
          (case (read_valid validId (field ''id'' s), read_valid validHash (field ''hash'' s),
                 read_valid validId (field ''deviceId'' s), read_valid validVaultId (field ''vaultId'' s),
                 read_number (field ''authGeneration'' s), read_number (field ''expiresAt'' s)) of
             (Some i, Some h, Some d, Some vault, Some g, Some e) \<Rightarrow>
               Some \<lparr> ss_id = i, ss_hash = h, ss_deviceId = d, ss_vaultId = vault, ss_authGeneration = g, ss_expiresAt = e \<rparr>
           | _ \<Rightarrow> None)
      | _ \<Rightarrow> None)"

definition isTicket :: "json \<Rightarrow> stored_ticket option" where
  "isTicket v =
     (case v of
        JsonObject t \<Rightarrow>
          (case (read_valid validHash (field ''hash'' t), read_valid validId (field ''deviceId'' t),
                 read_valid validVaultId (field ''vaultId'' t), read_number (field ''authGeneration'' t),
                 read_number (field ''expiresAt'' t)) of
             (Some h, Some d, Some vault, Some g, Some e) \<Rightarrow>
               Some \<lparr> tk_hash = h, tk_deviceId = d, tk_vaultId = vault, tk_authGeneration = g, tk_expiresAt = e \<rparr>
           | _ \<Rightarrow> None)
      | _ \<Rightarrow> None)"

text \<open>
  The actions the guard of audit events lists.  \<^verbatim>\<open>String(e.action)\<close> turns other values into strings;
  an array of one listed string would pass as well, which no writer produces.
\<close>

definition listed_actions :: "(string \<times> audit_action) list" where
  "listed_actions =
     [(''claimed'', AuditClaimed), (''recovery'', AuditRecovery), (''pairing_created'', AuditPairingCreated),
      (''device_paired'', AuditDevicePaired), (''device_role_changed'', AuditDeviceRoleChanged),
      (''device_revoked'', AuditDeviceRevoked)]"

definition read_action :: "json option \<Rightarrow> audit_action option" where
  "read_action v =
     (case read_string v of Some s \<Rightarrow> map_of (map (\<lambda>(k, a). (js k, a)) listed_actions) s | None \<Rightarrow> None)"

definition isAudit :: "json \<Rightarrow> audit_event option" where
  "isAudit v =
     (case v of
        JsonObject e \<Rightarrow>
          (case (read_number (field ''at'' e), read_action (field ''action'' e),
                 nullable read_string (field ''actorDeviceId'' e), nullable read_string (field ''targetDeviceId'' e),
                 nullable read_string (field ''fingerprint'' e)) of
             (Some t, Some a, Some actor, Some target, Some fp) \<Rightarrow>
               Some \<lparr> au_at = t, au_action = a, au_actorDeviceId = actor, au_targetDeviceId = target, au_fingerprint = fp \<rparr>
           | _ \<Rightarrow> None)
      | _ \<Rightarrow> None)"

section \<open>Written records\<close>

definition json_opt :: "('a \<Rightarrow> json) \<Rightarrow> 'a option \<Rightarrow> json" where
  "json_opt f v = (case v of None \<Rightarrow> JsonNull | Some x \<Rightarrow> f x)"

fun role_json :: "device_role \<Rightarrow> json" where
  "role_json Owner = JsonString (js ''owner'')"
| "role_json Member = JsonString (js ''member'')"

fun status_json :: "device_status \<Rightarrow> json" where
  "status_json Active = JsonString (js ''active'')"
| "status_json Revoked = JsonString (js ''revoked'')"

fun action_name :: "audit_action \<Rightarrow> string" where
  "action_name AuditClaimed = ''claimed''"
| "action_name AuditRecovery = ''recovery''"
| "action_name AuditPairingCreated = ''pairing_created''"
| "action_name AuditDevicePaired = ''device_paired''"
| "action_name AuditDeviceRoleChanged = ''device_role_changed''"
| "action_name AuditDeviceRevoked = ''device_revoked''"
| "action_name AuditDeviceRenamed = ''device_renamed''"

definition key_json :: "public_key \<Rightarrow> json" where
  "key_json k = JsonObject [(js ''kty'', JsonString (js ''EC'')), (js ''crv'', JsonString (js ''P-256'')),
     (js ''x'', JsonString (pk_x k)), (js ''y'', JsonString (pk_y k))]"

definition device_json :: "stored_device \<Rightarrow> json" where
  "device_json d = JsonObject
     [(js ''id'', JsonString (dv_id d)), (js ''vaultId'', JsonString (dv_vaultId d)), (js ''name'', JsonString (dv_name d)),
      (js ''publicKey'', key_json (dv_publicKey d)), (js ''fingerprint'', JsonString (dv_fingerprint d)),
      (js ''role'', role_json (dv_role d)), (js ''status'', status_json (dv_status d)),
      (js ''createdAt'', JsonNumber (dv_createdAt d)), (js ''approvedAt'', JsonNumber (dv_approvedAt d)),
      (js ''revokedAt'', json_opt JsonNumber (dv_revokedAt d)), (js ''lastSeenAt'', json_opt JsonNumber (dv_lastSeenAt d))]"

definition pairing_json :: "stored_pairing \<Rightarrow> json" where
  "pairing_json p = JsonObject
     ([(js ''id'', JsonString (pr_id p)), (js ''secretHash'', JsonString (pr_secretHash p)),
       (js ''code'', JsonString (pr_code p)), (js ''createdBy'', JsonString (pr_createdBy p)),
       (js ''createdAt'', JsonNumber (pr_createdAt p)), (js ''expiresAt'', JsonNumber (pr_expiresAt p))]
      @ opt_prop ''role'' role_json (pr_role p))"

definition challenge_json :: "stored_challenge \<Rightarrow> json" where
  "challenge_json c = JsonObject
     [(js ''id'', JsonString (ch_id c)), (js ''deviceId'', JsonString (ch_deviceId c)),
      (js ''vaultId'', JsonString (ch_vaultId c)), (js ''nonce'', JsonString (ch_nonce c)),
      (js ''authGeneration'', JsonNumber (ch_authGeneration c)), (js ''expiresAt'', JsonNumber (ch_expiresAt c))]"

definition session_json :: "stored_session \<Rightarrow> json" where
  "session_json s = JsonObject
     [(js ''id'', JsonString (ss_id s)), (js ''hash'', JsonString (ss_hash s)), (js ''deviceId'', JsonString (ss_deviceId s)),
      (js ''vaultId'', JsonString (ss_vaultId s)), (js ''authGeneration'', JsonNumber (ss_authGeneration s)),
      (js ''expiresAt'', JsonNumber (ss_expiresAt s))]"

definition ticket_json :: "stored_ticket \<Rightarrow> json" where
  "ticket_json t = JsonObject
     [(js ''hash'', JsonString (tk_hash t)), (js ''deviceId'', JsonString (tk_deviceId t)),
      (js ''vaultId'', JsonString (tk_vaultId t)), (js ''authGeneration'', JsonNumber (tk_authGeneration t)),
      (js ''expiresAt'', JsonNumber (tk_expiresAt t))]"

definition audit_json :: "audit_event \<Rightarrow> json" where
  "audit_json e = JsonObject
     [(js ''at'', JsonNumber (au_at e)), (js ''action'', JsonString (js (action_name (au_action e)))),
      (js ''actorDeviceId'', json_opt JsonString (au_actorDeviceId e)),
      (js ''targetDeviceId'', json_opt JsonString (au_targetDeviceId e)),
      (js ''fingerprint'', json_opt JsonString (au_fingerprint e))]"

section \<open>The storage and its values\<close>

type_synonym auth_storage = "string \<Rightarrow> json option"

record auth_values =
  av_claimed :: bool
  av_vaultId :: jsstr
  av_authGeneration :: int
  av_recoverySecretHash :: "jsstr option"
  av_devices :: "stored_device list"
  av_pairings :: "stored_pairing list"
  av_challenges :: "stored_challenge list"
  av_sessions :: "stored_session list"
  av_tickets :: "stored_ticket list"
  av_audit :: "audit_event list"

text \<open>\<^verbatim>\<open>list(value, guard)\<close>: the entries that pass; anything but an array is an empty list.\<close>

definition guarded_list :: "(json \<Rightarrow> 'a option) \<Rightarrow> json option \<Rightarrow> 'a list" where
  "guarded_list guard v = (case v of Some (JsonArray vs) \<Rightarrow> List.map_filter guard vs | _ \<Rightarrow> [])"

definition read_generation :: "json option \<Rightarrow> int" where
  "read_generation v =
     (case read_number v of Some q \<Rightarrow> if q = of_int \<lfloor>q\<rfloor> then max 1 \<lfloor>q\<rfloor> else 1 | None \<Rightarrow> 1)"

definition readAuthValues :: "auth_storage \<Rightarrow> auth_values" where
  "readAuthValues st =
     \<lparr> av_claimed = (st ''claimed'' = Some (JsonBool True) \<and> read_valid validVaultId (st ''vaultId'') \<noteq> None),
       av_vaultId = (case read_valid validVaultId (st ''vaultId'') of Some v \<Rightarrow> v | None \<Rightarrow> []),
       av_authGeneration = read_generation (st ''authGeneration''),
       av_recoverySecretHash = read_valid validHash (st ''recoverySecretHash''),
       av_devices = guarded_list isDevice (st ''authDevices''),
       av_pairings = guarded_list isPairing (st ''authPairings''),
       av_challenges = guarded_list isChallenge (st ''authChallenges''),
       av_sessions = guarded_list isSession (st ''authSessions''),
       av_tickets = guarded_list isTicket (st ''authTickets''),
       av_audit = guarded_list isAudit (st ''authAudit'') \<rparr>"

section \<open>Well-formed records\<close>

definition key_ok :: "public_key \<Rightarrow> bool" where
  "key_ok k \<longleftrightarrow> coordinate_ok (pk_x k) \<and> coordinate_ok (pk_y k)"

definition device_ok :: "stored_device \<Rightarrow> bool" where
  "device_ok d \<longleftrightarrow> validId (dv_id d) \<and> validVaultId (dv_vaultId d) \<and> validName (dv_name d) \<and> key_ok (dv_publicKey d)"

definition pairing_ok :: "stored_pairing \<Rightarrow> bool" where
  "pairing_ok p \<longleftrightarrow> validId (pr_id p) \<and> validHash (pr_secretHash p) \<and> length (pr_code p) = 6 \<and> validId (pr_createdBy p)"

definition challenge_ok :: "stored_challenge \<Rightarrow> bool" where
  "challenge_ok c \<longleftrightarrow> validId (ch_id c) \<and> validId (ch_deviceId c) \<and> validVaultId (ch_vaultId c)"

definition session_ok :: "stored_session \<Rightarrow> bool" where
  "session_ok s \<longleftrightarrow> validId (ss_id s) \<and> validHash (ss_hash s) \<and> validId (ss_deviceId s) \<and> validVaultId (ss_vaultId s)"

definition ticket_ok :: "stored_ticket \<Rightarrow> bool" where
  "ticket_ok t \<longleftrightarrow> validHash (tk_hash t) \<and> validId (tk_deviceId t) \<and> validVaultId (tk_vaultId t)"

definition audit_ok :: "audit_event \<Rightarrow> bool" where
  "audit_ok e \<longleftrightarrow> au_action e \<noteq> AuditDeviceRenamed"

lemma read_valid_string [simp]: "read_valid P (Some (JsonString s)) = (if P s then Some s else None)"
  by (simp add: read_valid_def)

lemma read_valid_SomeD: "read_valid P v = Some s \<Longrightarrow> v = Some (JsonString s) \<and> P s"
  by (cases v rule: read_string.cases) (auto simp: read_valid_def split: if_splits)

lemma role_read [simp]: "read_role (Some (role_json r)) = Some r"
  by (cases r) (simp_all add: read_role_def)

lemma status_read [simp]: "read_status (Some (status_json r)) = Some r"
  by (cases r) (simp_all add: read_status_def)

lemma nullable_read:
  assumes "\<And>x. r (Some (f x)) = Some x" "\<And>x. f x \<noteq> JsonNull"
  shows "nullable r (Some (json_opt f v)) = Some v"
  using assms by (cases v) (simp_all add: nullable_def json_opt_def)

lemma nullable_number [simp]: "nullable read_number (Some (json_opt JsonNumber v)) = Some v"
  by (rule nullable_read) simp_all

lemma nullable_string [simp]: "nullable read_string (Some (json_opt JsonString v)) = Some v"
  by (rule nullable_read) simp_all

lemma action_read [simp]:
  "read_action (Some (JsonString (js (action_name a)))) = (if a = AuditDeviceRenamed then None else Some a)"
  by (cases a) (simp_all add: read_action_def listed_actions_def)

lemma key_read [simp]: "validPublicKey (Some (key_json k)) = (if key_ok k then Some k else None)"
  by (simp add: validPublicKey_def key_json_def json_simps key_ok_def)

lemma device_read [simp]: "isDevice (device_json d) = (if device_ok d then Some d else None)"
  by (simp add: isDevice_def device_json_def json_simps device_ok_def)

lemma pairing_read [simp]: "isPairing (pairing_json p) = (if pairing_ok p then Some p else None)"
  by (cases "pr_role p") (auto simp: isPairing_def pairing_json_def json_simps pairing_ok_def optional_def)

lemma challenge_read [simp]: "isChallenge (challenge_json c) = (if challenge_ok c then Some c else None)"
  by (simp add: isChallenge_def challenge_json_def json_simps challenge_ok_def)

lemma session_read [simp]: "isSession (session_json s) = (if session_ok s then Some s else None)"
  by (simp add: isSession_def session_json_def json_simps session_ok_def)

lemma ticket_read [simp]: "isTicket (ticket_json t) = (if ticket_ok t then Some t else None)"
  by (simp add: isTicket_def ticket_json_def json_simps ticket_ok_def)

lemma audit_read [simp]: "isAudit (audit_json e) = (if audit_ok e then Some e else None)"
  by (simp add: isAudit_def audit_json_def json_simps audit_ok_def)

lemma key_okD: "validPublicKey v = Some k \<Longrightarrow> key_ok k"
  by (auto simp: validPublicKey_def key_ok_def split: option.splits json.splits if_splits)

lemma isDevice_ok: "isDevice v = Some d \<Longrightarrow> device_ok d"
  by (auto simp: isDevice_def device_ok_def dest: key_okD read_valid_SomeD split: option.splits json.splits)

lemma isPairing_ok: "isPairing v = Some p \<Longrightarrow> pairing_ok p"
  by (auto simp: isPairing_def pairing_ok_def dest: read_valid_SomeD split: option.splits json.splits)

lemma isChallenge_ok: "isChallenge v = Some c \<Longrightarrow> challenge_ok c"
  by (auto simp: isChallenge_def challenge_ok_def dest: read_valid_SomeD split: option.splits json.splits)

lemma isSession_ok: "isSession v = Some s \<Longrightarrow> session_ok s"
  by (auto simp: isSession_def session_ok_def dest: read_valid_SomeD split: option.splits json.splits)

lemma isTicket_ok: "isTicket v = Some t \<Longrightarrow> ticket_ok t"
  by (auto simp: isTicket_def ticket_ok_def dest: read_valid_SomeD split: option.splits json.splits)

lemma map_of_listed: "map_of (map (\<lambda>(k, a). (js k, a)) listed_actions) s = Some a \<Longrightarrow> a \<noteq> AuditDeviceRenamed"
  by (auto simp: listed_actions_def split: if_splits)

lemma isAudit_ok: "isAudit v = Some e \<Longrightarrow> audit_ok e"
  by (auto simp: isAudit_def audit_ok_def read_action_def dest: map_of_listed split: option.splits json.splits)

lemma guarded_list_written:
  assumes "\<And>x. guard (f x) = (if P x then Some x else None)"
  shows "guarded_list guard (Some (JsonArray (map f xs))) = filter P xs"
proof (induction xs)
  case Nil
  then show ?case by (simp add: guarded_list_def List.map_filter_def)
next
  case (Cons x xs)
  then show ?case by (simp add: guarded_list_def List.map_filter_def assms)
qed

lemma guarded_list_all:
  assumes "\<And>v x. guard v = Some x \<Longrightarrow> P x" "x \<in> set (guarded_list guard v)"
  shows "P x"
  using assms by (auto simp: guarded_list_def List.map_filter_def split: option.splits json.splits)

text \<open>What is read from any storage is well-formed.\<close>

definition values_ok :: "auth_values \<Rightarrow> bool" where
  "values_ok v \<longleftrightarrow>
     (av_claimed v \<longrightarrow> validVaultId (av_vaultId v)) \<and> 1 \<le> av_authGeneration v
     \<and> list_all device_ok (av_devices v) \<and> list_all pairing_ok (av_pairings v)
     \<and> list_all challenge_ok (av_challenges v) \<and> list_all session_ok (av_sessions v)
     \<and> list_all ticket_ok (av_tickets v) \<and> list_all audit_ok (av_audit v)"

lemma generation_positive: "1 \<le> read_generation v"
  by (simp add: read_generation_def split: option.split)

lemmas guarded_ok =
  guarded_list_all [OF isDevice_ok]
  guarded_list_all [OF isPairing_ok]
  guarded_list_all [OF isChallenge_ok]
  guarded_list_all [OF isSession_ok]
  guarded_list_all [OF isTicket_ok]
  guarded_list_all [OF isAudit_ok]

lemma readAuthValues_ok: "values_ok (readAuthValues st)"
  unfolding values_ok_def readAuthValues_def
  by (auto simp: list_all_iff generation_positive dest: read_valid_SomeD split: option.splits intro: guarded_ok)

end
