(* ===== verification/AuthServer.thy ===== *)
theory AuthServer
  imports AuthRecords
begin

text \<open>
  The operations of \<^verbatim>\<open>ServerConfig\<close> (\<^verbatim>\<open>src/server/src/config.ts\<close>): claim, recovery, pairing,
  challenge and session, session validation, tickets, and the owner's management of devices.  Every
  handler runs in one storage transaction, so it is a function from the storage to a response and
  the next storage; the clock is read once per request.  The record \<open>crypto\<close> holds what the
  runtime provides (UTF-8, SHA-256, key import, ECDSA verification, the URL parser), and \<open>draws\<close>
  the random bytes of one request.
\<close>

section \<open>Runtime services\<close>

text \<open>\<open>cr_parseUrl\<close>: protocol, path name and the text of the URL without query and fragment.\<close>

record crypto =
  cr_utf8 :: "jsstr \<Rightarrow> byte list"
  cr_digest :: "byte list \<Rightarrow> byte list"
  cr_importKey :: "public_key \<Rightarrow> bool"
  cr_verify :: "public_key \<Rightarrow> byte list \<Rightarrow> byte list \<Rightarrow> bool"
  cr_parseUrl :: "jsstr \<Rightarrow> (jsstr \<times> jsstr \<times> jsstr) option"

record draws =
  dw_secret :: "byte list"
  dw_id :: "byte list"
  dw_code :: "byte list"

section \<open>Base64url of the server\<close>

text \<open>
  The table \<^verbatim>\<open>DECODE\<close> has 256 entries; beyond it an access is \<^verbatim>\<open>undefined\<close>, which is not the
  marker of an invalid character and which the bit operations take for zero.
\<close>

definition base64url_value :: "jschar \<Rightarrow> nat" where
  "base64url_value c =
     (if 256 \<le> unat c then 0
      else if c \<in> set BASE64URL_ALPHABET then length (takeWhile (\<lambda>x. x \<noteq> c) BASE64URL_ALPHABET)
      else 255)"

definition base64UrlToBytes :: "jsstr \<Rightarrow> byte list option" where
  "base64UrlToBytes s =
     (if s = [] then Some []
      else if list_ex (\<lambda>c. base64url_value c = 255) s then None
      else if length s mod 4 = 1 then None
      else Some (bytes_of_sextets (map base64url_value s)))"

definition randomBase64Url :: "byte list \<Rightarrow> jsstr" where
  "randomBase64Url bytes = bytesToBase64Url bytes"

section \<open>Constants and helpers\<close>

definition PAIRING_TTL_MS :: int where "PAIRING_TTL_MS = 5 * 60000"
definition MAX_PAIRING_TTL_MS :: int where "MAX_PAIRING_TTL_MS = 15 * 60000"
definition CHALLENGE_TTL_MS :: int where "CHALLENGE_TTL_MS = 90000"
definition SESSION_TTL_MS :: int where "SESSION_TTL_MS = 5 * 60000"
definition DEVICE_TICKET_TTL_MS :: int where "DEVICE_TICKET_TTL_MS = 5 * 60000"
definition MAX_DEVICES :: nat where "MAX_DEVICES = 200"
definition MAX_PAIRINGS :: nat where "MAX_PAIRINGS = 50"
definition MAX_AUDIT_ENTRIES :: nat where "MAX_AUDIT_ENTRIES = 200"
definition MAX_SESSIONS :: nat where "MAX_SESSIONS = 1000"
definition MAX_TICKETS :: nat where "MAX_TICKETS = 1000"

text \<open>\<^verbatim>\<open>xs.slice(-n)\<close> for positive \<open>n\<close>.\<close>

definition last_n :: "nat \<Rightarrow> 'a list \<Rightarrow> 'a list" where
  "last_n n xs = drop (length xs - n) xs"

definition cleanup :: "('a \<Rightarrow> rat) \<Rightarrow> 'a list \<Rightarrow> int \<Rightarrow> 'a list" where
  "cleanup expiresAt entries now = filter (\<lambda>e. expiresAt e > of_int now) entries"

definition addAudit :: "audit_event list \<Rightarrow> audit_event \<Rightarrow> audit_event list" where
  "addAudit events e = last_n MAX_AUDIT_ENTRIES (events @ [e])"

text \<open>The comparison in constant time: the differences of all code units, or-ed together.\<close>

definition sameSecretHash :: "jsstr \<Rightarrow> jsstr \<Rightarrow> bool" where
  "sameSecretHash expected supplied =
     (if length expected \<noteq> length supplied then False
      else foldl (\<lambda>diff (a, b). or diff (xor a b)) 0 (zip expected supplied) = 0)"

text \<open>\<^verbatim>\<open>entries.filter((entry) => entry !== found)\<close> for the first entry with the property.\<close>

fun remove_found :: "('a \<Rightarrow> bool) \<Rightarrow> 'a list \<Rightarrow> 'a list" where
  "remove_found P [] = []"
| "remove_found P (x # xs) = (if P x then xs else x # remove_found P xs)"

definition hashOpaque :: "crypto \<Rightarrow> jsstr \<Rightarrow> jsstr" where
  "hashOpaque cr s = sha256Hex (cr_digest cr) (cr_utf8 cr s)"

definition fingerprintForKey :: "crypto \<Rightarrow> public_key \<Rightarrow> jsstr" where
  "fingerprintForKey cr k = take 24 (hashOpaque cr (js ''EC.P-256.'' @ pk_x k @ js ''.'' @ pk_y k))"

definition samePublicKey :: "public_key \<Rightarrow> public_key \<Rightarrow> bool" where
  "samePublicKey a b \<longleftrightarrow> pk_x a = pk_x b \<and> pk_y a = pk_y b"

definition asRecord :: "json option \<Rightarrow> (jsstr \<times> json) list option" where
  "asRecord v = (case v of Some (JsonObject fs) \<Rightarrow> Some fs | _ \<Rightarrow> None)"

record device_candidate =
  dc_id :: jsstr
  dc_name :: jsstr
  dc_publicKey :: public_key

definition deviceFromBody :: "crypto \<Rightarrow> (jsstr \<times> json) list \<Rightarrow> device_candidate option" where
  "deviceFromBody cr body =
     (let candidate = (case asRecord (field ''device'' body) of Some fs \<Rightarrow> fs
          | None \<Rightarrow> (case asRecord (field ''ownerDevice'' body) of Some fs \<Rightarrow> fs | None \<Rightarrow> body))
      in case (read_valid validId (field ''deviceId'' candidate), read_valid validName (field ''deviceName'' candidate),
               validPublicKey (field ''publicKey'' candidate)) of
           (Some i, Some n, Some k) \<Rightarrow>
             if cr_importKey cr k then Some \<lparr> dc_id = i, dc_name = n, dc_publicKey = k \<rparr> else None
         | _ \<Rightarrow> None)"

section \<open>Pairing codes\<close>

definition PAIRING_CHARS :: jsstr where
  "PAIRING_CHARS = js ''23456789ABCDEFGHJKLMNPQRSTUVWXYZ''"

definition generatePairingCode :: "byte list \<Rightarrow> jsstr" where
  "generatePairingCode bytes = map (\<lambda>b. PAIRING_CHARS ! (unat b mod length PAIRING_CHARS)) bytes"

text \<open>
  \<^verbatim>\<open>toUpperCase\<close>, one code unit at a time, as far as it yields ASCII: the small letters and the few
  other characters whose capital form contains an ASCII letter.  No other character has an ASCII
  letter in its capital form; it is left alone here, and the normalization drops it either way.
\<close>

definition special_capitals :: "(jschar \<times> jsstr) list" where
  "special_capitals =
     [(0xDF, js ''SS''), (0x131, js ''I''), (0x149, 0x2BC # js ''N''), (0x17F, js ''S''), (0x1F0, js ''J'' @ [0x30C]),
      (0x1E96, js ''H'' @ [0x331]), (0x1E97, js ''T'' @ [0x308]), (0x1E98, js ''W'' @ [0x30A]), (0x1E99, js ''Y'' @ [0x30A]),
      (0x1E9A, js ''A'' @ [0x2BE]), (0xFB00, js ''FF''), (0xFB01, js ''FI''), (0xFB02, js ''FL''), (0xFB03, js ''FFI''),
      (0xFB04, js ''FFL''), (0xFB05, js ''ST''), (0xFB06, js ''ST'')]"

definition toUpperCase :: "jsstr \<Rightarrow> jsstr" where
  "toUpperCase s =
     concat (map (\<lambda>c. if lower_unit c then [c - 32]
                      else (case map_of special_capitals c of Some t \<Rightarrow> t | None \<Rightarrow> [c])) s)"

definition normalizePairingCode :: "jsstr \<Rightarrow> jsstr" where
  "normalizePairingCode input =
     (let raw = toUpperCase (trim input);
          raw = (if startsWith raw (js ''KAOS-'') \<or> startsWith raw (js ''KAOS_'') \<or> startsWith raw (js ''KAOS '') then drop 5 raw
                 else if startsWith raw (js ''KAOS'') then drop 4 raw else raw)
      in filter (\<lambda>c. c \<in> set PAIRING_CHARS) raw)"

text \<open>\<^verbatim>\<open>`KAOS-${code.slice(0, 3)}-${code.slice(3)}`\<close>, the code as it is shown.\<close>

definition displayedCode :: "jsstr \<Rightarrow> jsstr" where
  "displayedCode code = js ''KAOS-'' @ take 3 code @ js ''-'' @ drop 3 code"

section \<open>Update metadata\<close>

fun normalizeUpdateProvider :: "json option \<Rightarrow> string + jsstr option" where
  "normalizeUpdateProvider None = Inr None"
| "normalizeUpdateProvider (Some JsonNull) = Inr None"
| "normalizeUpdateProvider (Some (JsonString v)) =
     (let raw = toLowerCase (trim v)
      in if raw = [] then Inr None
         else if raw = js ''github'' \<or> raw = js ''gitlab'' \<or> raw = js ''unknown'' then Inr (Some raw)
         else Inl ''invalid updateProvider'')"
| "normalizeUpdateProvider _ = Inl ''invalid updateProvider''"

text \<open>The number of non-empty parts of \<^verbatim>\<open>pathname.split("/")\<close>.\<close>

fun path_parts :: "bool \<Rightarrow> jsstr \<Rightarrow> nat" where
  "path_parts inside [] = 0"
| "path_parts inside (c # s) =
     (if c = 47 then path_parts False s else (if inside then 0 else 1) + path_parts True s)"

definition strip_git :: "jsstr \<Rightarrow> jsstr" where
  "strip_git s = (if 4 \<le> length s \<and> toLowerCase (drop (length s - 4) s) = js ''.git'' then take (length s - 4) s else s)"

fun normalizeUpdateRepoUrl :: "crypto \<Rightarrow> json option \<Rightarrow> string + jsstr option" where
  "normalizeUpdateRepoUrl cr None = Inr None"
| "normalizeUpdateRepoUrl cr (Some JsonNull) = Inr None"
| "normalizeUpdateRepoUrl cr (Some (JsonString v)) =
     (let raw = trim v
      in if raw = [] then Inr None
         else (case cr_parseUrl cr raw of
             None \<Rightarrow> Inl ''invalid updateRepoUrl''
           | Some (protocol, pathname, href) \<Rightarrow>
               if (protocol \<noteq> js ''https:'' \<and> protocol \<noteq> js ''http:'') \<or> path_parts False pathname < 2
               then Inl ''invalid updateRepoUrl''
               else Inr (Some (strip_git (rev (dropWhile (\<lambda>c. c = 47) (rev href)))))))"
| "normalizeUpdateRepoUrl cr _ = Inl ''invalid updateRepoUrl''"

definition branch_unit :: "jschar \<Rightarrow> bool" where
  "branch_unit c \<longleftrightarrow> upper_unit c \<or> lower_unit c \<or> digit_unit c \<or> c \<in> {46, 95, 47, 45}"

fun normalizeUpdateRepoBranch :: "json option \<Rightarrow> string + jsstr option" where
  "normalizeUpdateRepoBranch None = Inr None"
| "normalizeUpdateRepoBranch (Some JsonNull) = Inr None"
| "normalizeUpdateRepoBranch (Some (JsonString v)) =
     (let raw = trim v
      in if raw = [] then Inr None
         else if 120 < length raw \<or> \<not> list_all branch_unit raw \<or> sublist (js ''..'') raw then Inl ''invalid updateRepoBranch''
         else Inr (Some raw))"
| "normalizeUpdateRepoBranch _ = Inl ''invalid updateRepoBranch''"

section \<open>Responses\<close>

record device_principal =
  dp_deviceId :: jsstr
  dp_vaultId :: jsstr
  dp_role :: device_role
  dp_authGeneration :: int

record stored_server_config =
  sc_claimed :: bool
  sc_vaultId :: "jsstr option"
  sc_authGeneration :: int
  sc_activeDeviceCount :: nat
  sc_recoverySecretHash :: "jsstr option"
  sc_updateProvider :: "jsstr option"
  sc_updateRepoUrl :: "jsstr option"
  sc_updateRepoBranch :: "jsstr option"

text \<open>What a pairing request shows to the owner: id, secret, displayed code, code, expiry.\<close>

record pairing_offer =
  po_pairingId :: jsstr
  po_qrSecret :: jsstr
  po_code :: jsstr
  po_rawCode :: jsstr
  po_expiresAt :: rat

datatype auth_response =
    AuthError string nat
  | ConfigRead stored_server_config
  | MetadataUpdated stored_server_config
  | ClaimedByDevice jsstr jsstr int jsstr
  | ClaimedWithPairing jsstr int pairing_offer
  | Recovered jsstr int
  | PairingCreated pairing_offer jsstr
  | AlreadyPaired jsstr jsstr jsstr
  | DevicePaired jsstr device_role jsstr jsstr int
  | ChallengeIssued jsstr jsstr rat rat
  | SessionIssued jsstr rat jsstr device_role int
  | SessionValid device_principal rat
  | TicketIssued jsstr rat int
  | TicketAccepted device_principal
  | DeviceList "listed_device list" int
  | RoleChanged jsstr device_role int
  | DeviceRevoked jsstr int
  | DeviceRenamed jsstr jsstr

definition put_list :: "string \<Rightarrow> ('a \<Rightarrow> json) \<Rightarrow> 'a list \<Rightarrow> auth_storage \<Rightarrow> auth_storage" where
  "put_list k f xs st = st(k := Some (JsonArray (map f xs)))"

definition put_value :: "string \<Rightarrow> json \<Rightarrow> auth_storage \<Rightarrow> auth_storage" where
  "put_value k v st = st(k := Some v)"

text \<open>Every session, ticket and challenge is dropped.\<close>

definition put_no_credentials :: "auth_storage \<Rightarrow> auth_storage" where
  "put_no_credentials st =
     put_list ''authSessions'' session_json [] (put_list ''authTickets'' ticket_json []
       (put_list ''authChallenges'' challenge_json [] st))"

definition audit_entry ::
  "int \<Rightarrow> audit_action \<Rightarrow> jsstr option \<Rightarrow> jsstr option \<Rightarrow> jsstr option \<Rightarrow> audit_event" where
  "audit_entry now action actor target fingerprint =
     \<lparr> au_at = of_int now, au_action = action, au_actorDeviceId = actor, au_targetDeviceId = target,
       au_fingerprint = fingerprint \<rparr>"

definition active_devices :: "stored_device list \<Rightarrow> stored_device list" where
  "active_devices ds = filter (\<lambda>d. dv_status d = Active) ds"

definition active_owners :: "stored_device list \<Rightarrow> stored_device list" where
  "active_owners ds = filter (\<lambda>d. dv_status d = Active \<and> dv_role d = Owner) ds"

definition find_active :: "jsstr \<Rightarrow> stored_device list \<Rightarrow> stored_device option" where
  "find_active i ds = List.find (\<lambda>d. dv_id d = i \<and> dv_status d = Active) ds"

definition map_device :: "jsstr \<Rightarrow> (stored_device \<Rightarrow> stored_device) \<Rightarrow> stored_device list \<Rightarrow> stored_device list" where
  "map_device i f ds = map (\<lambda>d. if dv_id d = i then f d else d) ds"

section \<open>Sessions and principals\<close>

definition principal_in :: "crypto \<Rightarrow> int \<Rightarrow> jsstr \<Rightarrow> jsstr \<Rightarrow> auth_values \<Rightarrow> (device_principal \<times> rat) option" where
  "principal_in cr now rawSession vaultId values =
     (case List.find (\<lambda>e. sameSecretHash (ss_hash e) (hashOpaque cr rawSession)) (cleanup ss_expiresAt (av_sessions values) now) of
        None \<Rightarrow> None
      | Some session \<Rightarrow>
          (case List.find (\<lambda>d. dv_id d = ss_deviceId session) (av_devices values) of
             None \<Rightarrow> None
           | Some device \<Rightarrow>
               if \<not> av_claimed values \<or> av_vaultId values \<noteq> vaultId \<or> ss_vaultId session \<noteq> vaultId
                  \<or> ss_authGeneration session \<noteq> of_int (av_authGeneration values) \<or> dv_status device \<noteq> Active
               then None
               else Some (\<lparr> dp_deviceId = dv_id device, dp_vaultId = dv_vaultId device, dp_role = dv_role device,
                            dp_authGeneration = av_authGeneration values \<rparr>, ss_expiresAt session)))"

definition principalForSession :: "crypto \<Rightarrow> int \<Rightarrow> jsstr \<Rightarrow> jsstr \<Rightarrow> auth_storage \<Rightarrow> (device_principal \<times> rat) option" where
  "principalForSession cr now rawSession vaultId st = principal_in cr now rawSession vaultId (readAuthValues st)"

definition ownerPrincipal :: "crypto \<Rightarrow> int \<Rightarrow> (jsstr \<times> json) list \<Rightarrow> auth_storage \<Rightarrow> device_principal option" where
  "ownerPrincipal cr now body st =
     (case (read_string (field ''session'' body), read_valid validVaultId (field ''vaultId'' body)) of
        (Some session, Some vaultId) \<Rightarrow>
          (case principalForSession cr now session vaultId st of
             Some (p, e) \<Rightarrow> if dp_role p = Owner then Some p else None
           | None \<Rightarrow> None)
      | _ \<Rightarrow> None)"

section \<open>New records\<close>

definition new_pairing :: "crypto \<Rightarrow> int \<Rightarrow> draws \<Rightarrow> jsstr \<Rightarrow> int \<Rightarrow> device_role \<Rightarrow> stored_pairing" where
  "new_pairing cr now dw createdBy ttl role =
     \<lparr> pr_id = randomBase64Url (dw_id dw), pr_secretHash = hashOpaque cr (randomBase64Url (dw_secret dw)),
       pr_code = generatePairingCode (dw_code dw), pr_createdBy = createdBy, pr_createdAt = of_int now,
       pr_expiresAt = of_int (now + ttl), pr_role = Some role \<rparr>"

definition new_offer :: "draws \<Rightarrow> stored_pairing \<Rightarrow> pairing_offer" where
  "new_offer dw p =
     \<lparr> po_pairingId = pr_id p, po_qrSecret = randomBase64Url (dw_secret dw), po_code = displayedCode (pr_code p),
       po_rawCode = pr_code p, po_expiresAt = pr_expiresAt p \<rparr>"

definition new_challenge :: "int \<Rightarrow> draws \<Rightarrow> auth_values \<Rightarrow> stored_device \<Rightarrow> stored_challenge" where
  "new_challenge now dw values device =
     \<lparr> ch_id = randomBase64Url (dw_id dw), ch_deviceId = dv_id device, ch_vaultId = av_vaultId values,
       ch_nonce = randomBase64Url (dw_secret dw), ch_authGeneration = of_int (av_authGeneration values),
       ch_expiresAt = of_int (now + CHALLENGE_TTL_MS) \<rparr>"

definition new_session :: "crypto \<Rightarrow> int \<Rightarrow> draws \<Rightarrow> auth_values \<Rightarrow> stored_device \<Rightarrow> stored_session" where
  "new_session cr now dw values device =
     \<lparr> ss_id = randomBase64Url (dw_id dw), ss_hash = hashOpaque cr (randomBase64Url (dw_secret dw)),
       ss_deviceId = dv_id device, ss_vaultId = dv_vaultId device,
       ss_authGeneration = of_int (av_authGeneration values), ss_expiresAt = of_int (now + SESSION_TTL_MS) \<rparr>"

definition new_ticket :: "crypto \<Rightarrow> int \<Rightarrow> draws \<Rightarrow> device_principal \<Rightarrow> stored_ticket" where
  "new_ticket cr now dw p =
     \<lparr> tk_hash = hashOpaque cr (randomBase64Url (dw_secret dw)), tk_deviceId = dp_deviceId p, tk_vaultId = dp_vaultId p,
       tk_authGeneration = of_int (dp_authGeneration p), tk_expiresAt = of_int (now + DEVICE_TICKET_TTL_MS) \<rparr>"

section \<open>Claim, configuration and recovery\<close>

text \<open>The record of a device that is approved now.\<close>

definition new_device ::
  "jsstr \<Rightarrow> device_candidate \<Rightarrow> jsstr \<Rightarrow> device_role \<Rightarrow> int \<Rightarrow> rat option \<Rightarrow> stored_device" where
  "new_device vaultId candidate fingerprint role now seen =
     \<lparr> dv_id = dc_id candidate, dv_vaultId = vaultId, dv_name = dc_name candidate, dv_fingerprint = fingerprint,
       dv_role = role, dv_status = Active, dv_createdAt = of_int now, dv_approvedAt = of_int now, dv_revokedAt = None,
       dv_lastSeenAt = seen, dv_publicKey = dc_publicKey candidate \<rparr>"

definition put_claim ::
  "int \<Rightarrow> jsstr \<Rightarrow> jsstr \<Rightarrow> stored_device list \<Rightarrow> stored_pairing list \<Rightarrow> audit_event \<Rightarrow> auth_storage \<Rightarrow> auth_storage" where
  "put_claim now vaultId recovery ds ps event st =
     put_value ''claimed'' (JsonBool True) (put_value ''vaultId'' (JsonString vaultId)
       (put_value ''recoverySecretHash'' (JsonString recovery) (put_value ''authGeneration'' (json_int 1)
         (put_list ''authDevices'' device_json ds (put_list ''authPairings'' pairing_json ps
           (put_no_credentials (put_list ''authAudit'' audit_json [event] st)))))))"

definition claim ::
  "crypto \<Rightarrow> int \<Rightarrow> draws \<Rightarrow> (jsstr \<times> json) list \<Rightarrow> auth_storage \<Rightarrow> auth_response \<times> auth_storage" where
  "claim cr now dw body st =
     (case (read_valid validVaultId (field ''vaultId'' body), read_valid validHash (field ''recoverySecretHash'' body)) of
        (Some vaultId, Some recovery) \<Rightarrow>
          if st ''claimed'' = Some (JsonBool True) \<and> read_valid validVaultId (st ''vaultId'') \<noteq> None
          then (AuthError ''already_claimed'' 403, st)
          else (case deviceFromBody cr body of
              Some ownerDevice \<Rightarrow>
                let fingerprint = fingerprintForKey cr (dc_publicKey ownerDevice);
                    owner = new_device vaultId ownerDevice fingerprint Owner now (Some (of_int now))
                in (ClaimedByDevice (dv_id owner) fingerprint 1 vaultId,
                    put_claim now vaultId recovery [owner] []
                      (audit_entry now AuditClaimed (Some (dv_id owner)) (Some (dv_id owner)) (Some fingerprint)) st)
            | None \<Rightarrow>
                let ownerPairing = new_pairing cr now dw (js ''server_claim'') (15 * 60000) Owner
                in (ClaimedWithPairing vaultId 1 (new_offer dw ownerPairing),
                    put_claim now vaultId recovery [] [ownerPairing] (audit_entry now AuditClaimed None None None) st))
      | _ \<Rightarrow> (AuthError ''invalid claim'' 400, st))"

definition read_nonempty_string :: "json option \<Rightarrow> jsstr option" where
  "read_nonempty_string v = read_valid (\<lambda>s. s \<noteq> []) v"

definition readConfig :: "auth_storage \<Rightarrow> stored_server_config" where
  "readConfig st =
     (let values = readAuthValues st
      in \<lparr> sc_claimed = av_claimed values, sc_vaultId = (if av_claimed values then Some (av_vaultId values) else None),
           sc_authGeneration = av_authGeneration values,
           sc_activeDeviceCount = length (active_devices (av_devices values)),
           sc_recoverySecretHash = av_recoverySecretHash values,
           sc_updateProvider = read_valid (\<lambda>s. s = js ''github'' \<or> s = js ''gitlab'' \<or> s = js ''unknown'') (st ''updateProvider''),
           sc_updateRepoUrl = read_nonempty_string (st ''updateRepoUrl''),
           sc_updateRepoBranch = read_nonempty_string (st ''updateRepoBranch'') \<rparr>)"

definition put_optional :: "string \<Rightarrow> jsstr option \<Rightarrow> auth_storage \<Rightarrow> auth_storage" where
  "put_optional k v st = (case v of Some s \<Rightarrow> put_value k (JsonString s) st | None \<Rightarrow> st)"

definition updateMetadata :: "crypto \<Rightarrow> (jsstr \<times> json) list \<Rightarrow> auth_storage \<Rightarrow> auth_response \<times> auth_storage" where
  "updateMetadata cr body st =
     (case normalizeUpdateProvider (field ''updateProvider'' body) of
        Inl e \<Rightarrow> (AuthError e 400, st)
      | Inr provider \<Rightarrow>
          (case normalizeUpdateRepoUrl cr (field ''updateRepoUrl'' body) of
             Inl e \<Rightarrow> (AuthError e 400, st)
           | Inr url \<Rightarrow>
               (case normalizeUpdateRepoBranch (field ''updateRepoBranch'' body) of
                  Inl e \<Rightarrow> (AuthError e 400, st)
                | Inr branch \<Rightarrow>
                    let st' = put_optional ''updateProvider'' provider (put_optional ''updateRepoUrl'' url
                          (put_optional ''updateRepoBranch'' branch st))
                    in (MetadataUpdated (readConfig st'), st'))))"

definition recover ::
  "crypto \<Rightarrow> int \<Rightarrow> (jsstr \<times> json) list \<Rightarrow> auth_storage \<Rightarrow> auth_response \<times> auth_storage" where
  "recover cr now body st =
     (case (field ''recoveryVerified'' body, read_valid validHash (field ''nextRecoverySecretHash'' body),
            read_valid validVaultId (field ''vaultId'' body)) of
        (Some (JsonBool True), Some nextHash, Some vaultId) \<Rightarrow>
          let values = readAuthValues st
          in if \<not> av_claimed values \<or> av_vaultId values \<noteq> vaultId then (AuthError ''unclaimed'' 503, st)
             else (case deviceFromBody cr body of
                 None \<Rightarrow> (AuthError ''invalid device'' 400, st)
               | Some candidate \<Rightarrow>
                   let fingerprint = fingerprintForKey cr (dc_publicKey candidate);
                       revoked = map (\<lambda>d. if dv_status d = Revoked then d
                           else d\<lparr> dv_status := Revoked, dv_revokedAt := Some (of_int now) \<rparr>)
                         (filter (\<lambda>d. dv_id d \<noteq> dc_id candidate) (av_devices values));
                       owner = new_device (av_vaultId values) candidate fingerprint Owner now None;
                       generation = av_authGeneration values + 1
                   in (Recovered (dv_id owner) generation,
                       put_list ''authDevices'' device_json (last_n MAX_DEVICES (revoked @ [owner]))
                         (put_list ''authPairings'' pairing_json [] (put_no_credentials
                           (put_value ''authGeneration'' (json_int generation)
                             (put_value ''recoverySecretHash'' (JsonString nextHash)
                               (put_list ''authAudit'' audit_json (addAudit (av_audit values)
                                 (audit_entry now AuditRecovery None (Some (dv_id owner)) (Some fingerprint))) st)))))))
      | _ \<Rightarrow> (AuthError ''invalid recovery'' 400, st))"

section \<open>Pairing\<close>

definition requested_ttl :: "json option \<Rightarrow> int" where
  "requested_ttl v = (case read_number v of Some q \<Rightarrow> \<lfloor>q\<rfloor> | None \<Rightarrow> PAIRING_TTL_MS)"

definition createPairing ::
  "crypto \<Rightarrow> int \<Rightarrow> draws \<Rightarrow> (jsstr \<times> json) list \<Rightarrow> auth_storage \<Rightarrow> auth_response \<times> auth_storage" where
  "createPairing cr now dw body st =
     (case ownerPrincipal cr now body st of
        None \<Rightarrow> (AuthError ''owner_required'' 403, st)
      | Some caller \<Rightarrow>
          let values = readAuthValues st;
              pairing = new_pairing cr now dw (dp_deviceId caller)
                (max 60000 (min MAX_PAIRING_TTL_MS (requested_ttl (field ''ttlMs'' body)))) Member
          in (PairingCreated (new_offer dw pairing) (dp_vaultId caller),
              put_list ''authPairings'' pairing_json (last_n MAX_PAIRINGS (cleanup pr_expiresAt (av_pairings values) now @ [pairing]))
                (put_list ''authAudit'' audit_json (addAudit (av_audit values)
                  (audit_entry now AuditPairingCreated (Some (dp_deviceId caller)) None None)) st)))"

text \<open>The pairing a secret or, without one, a code selects.\<close>

definition pairing_matches :: "crypto \<Rightarrow> jsstr option \<Rightarrow> jsstr option \<Rightarrow> stored_pairing \<Rightarrow> bool" where
  "pairing_matches cr rawSecret rawCode p =
     (case rawSecret of
        Some secret \<Rightarrow> sameSecretHash (pr_secretHash p) (hashOpaque cr secret)
      | None \<Rightarrow> (case rawCode of Some code \<Rightarrow> pr_code p = code | None \<Rightarrow> False))"

text \<open>The transaction of \<^verbatim>\<open>pair\<close> from the moment a live pairing is selected.\<close>

definition pair_device ::
  "crypto \<Rightarrow> int \<Rightarrow> device_candidate \<Rightarrow> stored_pairing list \<Rightarrow> stored_pairing \<Rightarrow> auth_storage \<Rightarrow> auth_response \<times> auth_storage" where
  "pair_device cr now candidate consumed matchedPairing st =
     (let values = readAuthValues st;
          existing = List.find (\<lambda>d. dv_id d = dc_id candidate) (av_devices values)
      in if (case existing of Some e \<Rightarrow> dv_status e = Active | None \<Rightarrow> False)
         then
           let e = the existing
           in if \<not> samePublicKey (dv_publicKey e) (dc_publicKey candidate)
              then (AuthError ''active_device_key_mismatch'' 409, st)
              else (AlreadyPaired (dv_id e) (dv_fingerprint e) (av_vaultId values),
                    put_list ''authDevices'' device_json
                      (if dc_name candidate \<noteq> dv_name e
                       then map_device (dc_id candidate) (\<lambda>d. d\<lparr> dv_name := dc_name candidate \<rparr>) (av_devices values)
                       else av_devices values)
                      (put_list ''authPairings'' pairing_json consumed st))
         else if existing = None \<and> MAX_DEVICES \<le> length (active_devices (av_devices values))
         then (AuthError ''device_limit_reached'' 429, st)
         else
           let assignedRole = (if pr_role matchedPairing = Some Owner \<or> active_owners (av_devices values) = []
                 then Owner else Member);
               fingerprint = fingerprintForKey cr (dc_publicKey candidate);
               newDevice = new_device (av_vaultId values) candidate fingerprint assignedRole now (Some (of_int now))
           in (DevicePaired (dv_id newDevice) assignedRole fingerprint (av_vaultId values) (av_authGeneration values),
               put_list ''authDevices'' device_json
                 (if existing \<noteq> None
                  then map_device (dc_id candidate) (\<lambda>d. newDevice) (av_devices values)
                  else av_devices values @ [newDevice])
                 (put_list ''authPairings'' pairing_json consumed
                   (put_list ''authAudit'' audit_json (addAudit (av_audit values)
                     (audit_entry now AuditDevicePaired (Some (pr_createdBy matchedPairing))
                       (Some (dv_id newDevice)) (Some fingerprint))) st))))"

definition pair ::
  "crypto \<Rightarrow> int \<Rightarrow> (jsstr \<times> json) list \<Rightarrow> auth_storage \<Rightarrow> auth_response \<times> auth_storage" where
  "pair cr now body st =
     (case read_valid validVaultId (field ''vaultId'' body) of
        None \<Rightarrow> (AuthError ''invalid pairing request'' 400, st)
      | Some vaultId \<Rightarrow>
          (case deviceFromBody cr body of
             None \<Rightarrow> (AuthError ''invalid device'' 400, st)
           | Some candidate \<Rightarrow>
               let rawSecret = read_nonempty (field ''qrSecret'' body);
                   rawCode = map_option normalizePairingCode (read_string (field ''code'' body))
               in if rawSecret = None \<and> (case rawCode of None \<Rightarrow> True | Some c \<Rightarrow> length c \<noteq> 6)
                  then (AuthError ''pairing_code_or_secret_required'' 400, st)
                  else
                    let values = readAuthValues st
                    in if \<not> av_claimed values \<or> av_vaultId values \<noteq> vaultId then (AuthError ''unclaimed'' 503, st)
                       else
                         let activePairings = cleanup pr_expiresAt (av_pairings values) now;
                             chosen = pairing_matches cr rawSecret rawCode
                         in case List.find chosen activePairings of
                              None \<Rightarrow> (AuthError ''pairing_invalid_or_expired'' 403, st)
                            | Some matchedPairing \<Rightarrow>
                                pair_device cr now candidate (remove_found chosen activePairings) matchedPairing st))"

section \<open>Challenge and session\<close>

definition challenge ::
  "int \<Rightarrow> draws \<Rightarrow> (jsstr \<times> json) list \<Rightarrow> auth_storage \<Rightarrow> auth_response \<times> auth_storage" where
  "challenge now dw body st =
     (case (read_valid validVaultId (field ''vaultId'' body), read_valid validId (field ''deviceId'' body)) of
        (Some vaultId, Some deviceId) \<Rightarrow>
          let values = readAuthValues st
          in if \<not> av_claimed values \<or> av_vaultId values \<noteq> vaultId then (AuthError ''unclaimed'' 503, st)
             else (case find_active deviceId (av_devices values) of
                 None \<Rightarrow> (AuthError ''device_not_approved'' 403, st)
               | Some device \<Rightarrow>
                   let c = new_challenge now dw values device
                   in (ChallengeIssued (ch_id c) (ch_nonce c) (ch_expiresAt c) (ch_authGeneration c),
                       put_list ''authChallenges'' challenge_json
                         (last_n MAX_SESSIONS (cleanup ch_expiresAt (av_challenges values) now @ [c])) st))
      | _ \<Rightarrow> (AuthError ''invalid challenge'' 400, st))"

text \<open>The signed message; the generation is an integer here, the handler has compared it.\<close>

definition challenge_message :: "stored_challenge \<Rightarrow> int \<Rightarrow> jsstr" where
  "challenge_message c generation =
     js ''kaos-device-auth-v1|'' @ ch_id c @ js ''|'' @ ch_nonce c @ js ''|'' @ ch_vaultId c @ js ''|'' @ ch_deviceId c
       @ js ''|'' @ int_string generation"

definition signature_ok :: "crypto \<Rightarrow> public_key \<Rightarrow> jsstr \<Rightarrow> jsstr \<Rightarrow> bool" where
  "signature_ok cr key encodedSignature message =
     (cr_importKey cr key \<and>
      (case base64UrlToBytes encodedSignature of
         Some signature \<Rightarrow> cr_verify cr key signature (cr_utf8 cr message)
       | None \<Rightarrow> False))"

definition session ::
  "crypto \<Rightarrow> int \<Rightarrow> draws \<Rightarrow> (jsstr \<times> json) list \<Rightarrow> auth_storage \<Rightarrow> auth_response \<times> auth_storage" where
  "session cr now dw body st =
     (case (read_valid validId (field ''challengeId'' body),
            read_valid (\<lambda>s. 16 \<le> length s \<and> length s \<le> 512) (field ''signature'' body)) of
        (Some challengeId, Some encodedSignature) \<Rightarrow>
          let values = readAuthValues st
          in (case List.find (\<lambda>c. ch_id c = challengeId) (cleanup ch_expiresAt (av_challenges values) now) of
                None \<Rightarrow> (AuthError ''challenge_invalid_or_expired'' 401, st)
              | Some c \<Rightarrow>
                  if \<not> av_claimed values \<or> ch_authGeneration c \<noteq> of_int (av_authGeneration values)
                  then (AuthError ''challenge_invalid_or_expired'' 401, st)
                  else (case List.find (\<lambda>d. dv_id d = ch_deviceId c \<and> dv_status d = Active \<and> dv_vaultId d = ch_vaultId c)
                          (av_devices values) of
                      None \<Rightarrow> (AuthError ''device_not_approved'' 403, st)
                    | Some device \<Rightarrow>
                        if \<not> signature_ok cr (dv_publicKey device) encodedSignature
                              (challenge_message c (av_authGeneration values))
                        then (AuthError ''invalid_signature'' 401, st)
                        else
                          let s = new_session cr now dw values device
                          in (SessionIssued (randomBase64Url (dw_secret dw)) (ss_expiresAt s) (dv_id device) (dv_role device) (av_authGeneration values),
                              put_list ''authChallenges'' challenge_json (filter (\<lambda>e. ch_id e \<noteq> ch_id c) (av_challenges values))
                                (put_list ''authSessions'' session_json
                                  (last_n MAX_SESSIONS (cleanup ss_expiresAt (av_sessions values) now @ [s]))
                                  (put_list ''authDevices'' device_json
                                    (map_device (dv_id device) (\<lambda>d. d\<lparr> dv_lastSeenAt := Some (of_int now) \<rparr>) (av_devices values)) st)))))
      | _ \<Rightarrow> (AuthError ''invalid session'' 400, st))"

definition validateSession ::
  "crypto \<Rightarrow> int \<Rightarrow> (jsstr \<times> json) list \<Rightarrow> auth_storage \<Rightarrow> auth_response \<times> auth_storage" where
  "validateSession cr now body st =
     (case (read_valid (\<lambda>s. 32 \<le> length s \<and> length s \<le> 256) (field ''session'' body),
            read_valid validVaultId (field ''vaultId'' body)) of
        (Some s, Some vaultId) \<Rightarrow>
          (case principalForSession cr now s vaultId st of
             Some (p, expires) \<Rightarrow> (SessionValid p expires, st)
           | None \<Rightarrow> (AuthError ''unauthorized'' 401, st))
      | _ \<Rightarrow> (AuthError ''unauthorized'' 401, st))"

section \<open>Tickets\<close>

definition issueTicket ::
  "crypto \<Rightarrow> int \<Rightarrow> draws \<Rightarrow> (jsstr \<times> json) list \<Rightarrow> auth_storage \<Rightarrow> auth_response \<times> auth_storage" where
  "issueTicket cr now dw body st =
     (case (read_string (field ''session'' body), read_valid validVaultId (field ''vaultId'' body)) of
        (Some s, Some vaultId) \<Rightarrow>
          (case principalForSession cr now s vaultId st of
             None \<Rightarrow> (AuthError ''unauthorized'' 401, st)
           | Some (p, expires) \<Rightarrow>
               let values = readAuthValues st;
                   stored = new_ticket cr now dw p
               in (TicketIssued (randomBase64Url (dw_secret dw)) (tk_expiresAt stored) DEVICE_TICKET_TTL_MS,
                   put_list ''authTickets'' ticket_json
                     (last_n MAX_TICKETS (cleanup tk_expiresAt (av_tickets values) now @ [stored])) st))
      | _ \<Rightarrow> (AuthError ''unauthorized'' 401, st))"

definition consumeTicket ::
  "crypto \<Rightarrow> int \<Rightarrow> (jsstr \<times> json) list \<Rightarrow> auth_storage \<Rightarrow> auth_response \<times> auth_storage" where
  "consumeTicket cr now body st =
     (case (read_valid (\<lambda>s. 32 \<le> length s \<and> length s \<le> 256) (field ''ticket'' body),
            read_valid validVaultId (field ''vaultId'' body)) of
        (Some rawTicket, Some vaultId) \<Rightarrow>
          let values = readAuthValues st;
              selected = (\<lambda>t. sameSecretHash (tk_hash t) (hashOpaque cr rawTicket));
              live = cleanup tk_expiresAt (av_tickets values) now;
              st' = put_list ''authTickets'' ticket_json (remove_found selected live) st
          in (case List.find selected live of
                None \<Rightarrow> (AuthError ''unauthorized'' 401, st')
              | Some t \<Rightarrow>
                  (case List.find (\<lambda>d. dv_id d = tk_deviceId t) (av_devices values) of
                     None \<Rightarrow> (AuthError ''unauthorized'' 401, st')
                   | Some device \<Rightarrow>
                       if \<not> av_claimed values \<or> av_vaultId values \<noteq> vaultId \<or> tk_vaultId t \<noteq> vaultId
                          \<or> tk_authGeneration t \<noteq> of_int (av_authGeneration values) \<or> dv_status device \<noteq> Active
                       then (AuthError ''unauthorized'' 401, st')
                       else (TicketAccepted \<lparr> dp_deviceId = dv_id device, dp_vaultId = dv_vaultId device,
                               dp_role = dv_role device, dp_authGeneration = av_authGeneration values \<rparr>, st')))
      | _ \<Rightarrow> (AuthError ''unauthorized'' 401, st))"

section \<open>Management by the owner\<close>

definition listDevices ::
  "crypto \<Rightarrow> int \<Rightarrow> (jsstr \<times> json) list \<Rightarrow> auth_storage \<Rightarrow> auth_response \<times> auth_storage" where
  "listDevices cr now body st =
     (case ownerPrincipal cr now body st of
        None \<Rightarrow> (AuthError ''owner_required'' 403, st)
      | Some caller \<Rightarrow>
          (DeviceList (map listed_device.truncate (av_devices (readAuthValues st))) (av_authGeneration (readAuthValues st)), st))"

definition changeDeviceRole ::
  "crypto \<Rightarrow> int \<Rightarrow> (jsstr \<times> json) list \<Rightarrow> auth_storage \<Rightarrow> auth_response \<times> auth_storage" where
  "changeDeviceRole cr now body st =
     (case (read_valid validId (field ''targetDeviceId'' body), read_role (field ''role'' body)) of
        (Some targetDeviceId, Some role) \<Rightarrow>
          (case ownerPrincipal cr now body st of
             None \<Rightarrow> (AuthError ''owner_required'' 403, st)
           | Some caller \<Rightarrow>
               let values = readAuthValues st
               in (case find_active targetDeviceId (av_devices values) of
                     None \<Rightarrow> (AuthError ''active_device_not_found'' 404, st)
                   | Some target \<Rightarrow>
                       if dv_role target = role then (RoleChanged (dv_id target) role (av_authGeneration values), st)
                       else if dv_role target = Owner \<and> role = Member \<and> length (active_owners (av_devices values)) \<le> 1
                       then (AuthError ''last_owner_cannot_be_demoted'' 409, st)
                       else
                         let generation = av_authGeneration values + 1
                         in (RoleChanged (dv_id target) role generation,
                             put_list ''authDevices'' device_json
                               (map_device (dv_id target) (\<lambda>d. d\<lparr> dv_role := role \<rparr>) (av_devices values))
                               (put_value ''authGeneration'' (json_int generation) (put_no_credentials
                                 (put_list ''authAudit'' audit_json (addAudit (av_audit values)
                                   (audit_entry now AuditDeviceRoleChanged (Some (dp_deviceId caller)) (Some (dv_id target))
                                     (Some (dv_fingerprint target)))) st))))))
      | _ \<Rightarrow> (AuthError ''invalid role change'' 400, st))"

definition revokeDevice ::
  "crypto \<Rightarrow> int \<Rightarrow> (jsstr \<times> json) list \<Rightarrow> auth_storage \<Rightarrow> auth_response \<times> auth_storage" where
  "revokeDevice cr now body st =
     (case read_valid validId (field ''targetDeviceId'' body) of
        None \<Rightarrow> (AuthError ''invalid device'' 400, st)
      | Some targetDeviceId \<Rightarrow>
          (case ownerPrincipal cr now body st of
             None \<Rightarrow> (AuthError ''owner_required'' 403, st)
           | Some caller \<Rightarrow>
               let values = readAuthValues st
               in (case find_active targetDeviceId (av_devices values) of
                     None \<Rightarrow> (AuthError ''active_device_not_found'' 404, st)
                   | Some target \<Rightarrow>
                       if dv_role target = Owner \<and> length (active_owners (av_devices values)) \<le> 1
                       then (AuthError ''last_owner_cannot_be_revoked'' 409, st)
                       else
                         let generation = av_authGeneration values + 1
                         in (DeviceRevoked (dv_id target) generation,
                             put_list ''authDevices'' device_json
                               (map_device (dv_id target)
                                 (\<lambda>d. d\<lparr> dv_status := Revoked, dv_revokedAt := Some (of_int now) \<rparr>) (av_devices values))
                               (put_value ''authGeneration'' (json_int generation) (put_no_credentials
                                 (put_list ''authAudit'' audit_json (addAudit (av_audit values)
                                   (audit_entry now AuditDeviceRevoked (Some (dp_deviceId caller)) (Some (dv_id target))
                                     (Some (dv_fingerprint target)))) st)))))))"

definition renameDevice ::
  "crypto \<Rightarrow> int \<Rightarrow> (jsstr \<times> json) list \<Rightarrow> auth_storage \<Rightarrow> auth_response \<times> auth_storage" where
  "renameDevice cr now body st =
     (case (read_valid validId (field ''targetDeviceId'' body), read_string (field ''deviceName'' body)) of
        (Some targetDeviceId, Some rawName) \<Rightarrow>
          let deviceName = trim rawName
          in if deviceName = [] \<or> 64 < length deviceName then (AuthError ''invalid device name'' 400, st)
             else (case (read_string (field ''session'' body), read_valid validVaultId (field ''vaultId'' body)) of
                 (Some s, Some vaultId) \<Rightarrow>
                   (case principalForSession cr now s vaultId st of
                      None \<Rightarrow> (AuthError ''unauthorized'' 401, st)
                    | Some (caller, expires) \<Rightarrow>
                        if dp_role caller \<noteq> Owner \<and> dp_deviceId caller \<noteq> targetDeviceId
                        then (AuthError ''owner_required'' 403, st)
                        else
                          let values = readAuthValues st
                          in (case find_active targetDeviceId (av_devices values) of
                                None \<Rightarrow> (AuthError ''active_device_not_found'' 404, st)
                              | Some target \<Rightarrow>
                                  if dv_name target = deviceName then (DeviceRenamed (dv_id target) deviceName, st)
                                  else (DeviceRenamed (dv_id target) deviceName,
                                        put_list ''authDevices'' device_json
                                          (map_device (dv_id target) (\<lambda>d. d\<lparr> dv_name := deviceName \<rparr>) (av_devices values))
                                          (put_list ''authAudit'' audit_json (addAudit (av_audit values)
                                            (audit_entry now AuditDeviceRenamed (Some (dp_deviceId caller)) (Some (dv_id target))
                                              (Some (dv_fingerprint target)))) st))))
               | _ \<Rightarrow> (AuthError ''unauthorized'' 401, st))
      | _ \<Rightarrow> (AuthError ''invalid device rename'' 400, st))"

section \<open>Dispatch\<close>

text \<open>A request: method, path and body, \<open>None\<close> for a body that is not JSON.\<close>

datatype http_method = HttpGet | HttpPost | HttpOther

record auth_request =
  rq_method :: http_method
  rq_path :: string
  rq_body :: "json option"

definition request_fields :: "auth_request \<Rightarrow> (jsstr \<times> json) list" where
  "request_fields rq = (case asRecord (rq_body rq) of Some fs \<Rightarrow> fs | None \<Rightarrow> [])"

definition config_fetch ::
  "crypto \<Rightarrow> int \<Rightarrow> draws \<Rightarrow> auth_request \<Rightarrow> auth_storage \<Rightarrow> auth_response \<times> auth_storage" where
  "config_fetch cr now dw rq st =
     (if rq_method rq = HttpGet \<and> rq_path rq = ''/__kaos/config'' then (ConfigRead (readConfig st), st)
      else if rq_method rq \<noteq> HttpPost then (AuthError ''not found'' 404, st)
      else if rq_body rq = None then (AuthError ''invalid json'' 400, st)
      else
            let body = request_fields rq
            in if rq_path rq = ''/__kaos/claim'' then claim cr now dw body st
               else if rq_path rq = ''/__kaos/update-metadata'' then updateMetadata cr body st
               else if rq_path rq = ''/__kaos/auth/recover'' then recover cr now body st
               else if rq_path rq = ''/__kaos/auth/pair'' then pair cr now body st
               else if rq_path rq = ''/__kaos/auth/challenge'' then challenge now dw body st
               else if rq_path rq = ''/__kaos/auth/session'' then session cr now dw body st
               else if rq_path rq = ''/__kaos/auth/validate-session'' then validateSession cr now body st
               else if rq_path rq = ''/__kaos/auth/ticket'' then issueTicket cr now dw body st
               else if rq_path rq = ''/__kaos/auth/consume-ticket'' then consumeTicket cr now body st
               else if rq_path rq = ''/__kaos/devices/list'' then listDevices cr now body st
               else if rq_path rq = ''/__kaos/devices/pair/create'' then createPairing cr now dw body st
               else if rq_path rq = ''/__kaos/devices/role'' then changeDeviceRole cr now body st
               else if rq_path rq = ''/__kaos/devices/revoke'' then revokeDevice cr now body st
               else if rq_path rq = ''/__kaos/devices/rename'' then renameDevice cr now body st
               else (AuthError ''not found'' 404, st))"

end
