(* ===== verification/AuthSpec.thy ===== *)
theory AuthSpec
  imports AuthServer DocStore
begin

text \<open>
  The abstract specification of device authentication: a step relation on the values of the
  configuration object, one rule per kind of effect a request can have, and the refinement of it by
  the handlers, which work on the stored JSON records.
\<close>

section \<open>The specification\<close>

definition presented :: "string \<Rightarrow> auth_request \<Rightarrow> jsstr option" where
  "presented k rq = read_string (field k (request_fields rq))"

text \<open>Responses that go with no change and grant nothing.\<close>

fun quiet :: "auth_response \<Rightarrow> bool" where
  "quiet (AuthError e n) = True"
| "quiet (ConfigRead c) = True"
| "quiet (MetadataUpdated c) = True"
| "quiet (DeviceList ds g) = True"
| "quiet (RoleChanged d r g) = True"
| "quiet (DeviceRenamed d n) = True"
| "quiet _ = False"

definition candidate_ok :: "device_candidate \<Rightarrow> bool" where
  "candidate_ok c \<longleftrightarrow> validId (dc_id c) \<and> validName (dc_name c) \<and> key_ok (dc_publicKey c)"

definition owner_in :: "crypto \<Rightarrow> int \<Rightarrow> auth_request \<Rightarrow> auth_values \<Rightarrow> device_principal \<Rightarrow> bool" where
  "owner_in cr now rq v p \<longleftrightarrow>
     (\<exists>s vaultId e. presented ''session'' rq = Some s \<and> principal_in cr now s vaultId v = Some (p, e) \<and> dp_role p = Owner)"

definition claimed_values :: "jsstr \<Rightarrow> jsstr \<Rightarrow> stored_device list \<Rightarrow> stored_pairing list \<Rightarrow> audit_event \<Rightarrow> auth_values" where
  "claimed_values vaultId recovery ds ps e =
     \<lparr> av_claimed = True, av_vaultId = vaultId, av_authGeneration = 1, av_recoverySecretHash = Some recovery,
       av_devices = ds, av_pairings = ps, av_challenges = [], av_sessions = [], av_tickets = [], av_audit = [e] \<rparr>"

text \<open>A new generation: all credentials go.\<close>

definition next_generation :: "auth_values \<Rightarrow> auth_values" where
  "next_generation v = v\<lparr> av_authGeneration := av_authGeneration v + 1, av_challenges := [], av_sessions := [], av_tickets := [] \<rparr>"

definition note_audit :: "audit_event \<Rightarrow> auth_values \<Rightarrow> auth_values" where
  "note_audit e v = v\<lparr> av_audit := filter audit_ok (addAudit (av_audit v) e) \<rparr>"

definition recovered_devices :: "int \<Rightarrow> stored_device \<Rightarrow> stored_device list \<Rightarrow> stored_device list" where
  "recovered_devices now owner ds =
     last_n MAX_DEVICES (map (\<lambda>d. if dv_status d = Revoked then d
         else d\<lparr> dv_status := Revoked, dv_revokedAt := Some (of_int now) \<rparr>) (filter (\<lambda>d. dv_id d \<noteq> dv_id owner) ds) @ [owner])"

definition paired_devices :: "stored_device \<Rightarrow> stored_device list \<Rightarrow> stored_device list" where
  "paired_devices d ds =
     (if List.find (\<lambda>e. dv_id e = dv_id d) ds \<noteq> None then map_device (dv_id d) (\<lambda>_. d) ds else ds @ [d])"

inductive auth_step :: "crypto \<Rightarrow> int \<Rightarrow> auth_request \<Rightarrow> auth_values \<Rightarrow> auth_response \<Rightarrow> auth_values \<Rightarrow> bool"
  for cr now rq v where
  step_quiet: "quiet r \<Longrightarrow> auth_step cr now rq v r v"
| step_validated:
    "presented ''session'' rq = Some s \<Longrightarrow> principal_in cr now s vaultId v = Some (p, e) \<Longrightarrow>
       auth_step cr now rq v (SessionValid p e) v"
| step_claimed_device:
    "\<not> av_claimed v \<Longrightarrow> validVaultId vaultId \<Longrightarrow> candidate_ok c \<Longrightarrow>
       auth_step cr now rq v (ClaimedByDevice (dc_id c) fp 1 vaultId)
         (claimed_values vaultId h [new_device vaultId c fp Owner now seen] [] e)"
| step_claimed_pairing:
    "\<not> av_claimed v \<Longrightarrow> validVaultId vaultId \<Longrightarrow> pairing_ok p \<Longrightarrow> pr_role p = Some Owner \<Longrightarrow>
       auth_step cr now rq v (ClaimedWithPairing vaultId 1 offer) (claimed_values vaultId h [] [p] e)"
| step_recovered:
    "av_claimed v \<Longrightarrow> candidate_ok c \<Longrightarrow> field ''recoveryVerified'' (request_fields rq) = Some (JsonBool True) \<Longrightarrow>
     owner = new_device (av_vaultId v) c fp Owner now None \<Longrightarrow>
       auth_step cr now rq v (Recovered (dc_id c) (av_authGeneration v + 1))
         (note_audit e (next_generation (v\<lparr> av_devices := recovered_devices now owner (av_devices v), av_pairings := [],
            av_recoverySecretHash := Some h \<rparr>)))"
| step_offered:
    "owner_in cr now rq v p \<Longrightarrow> pairing_ok offered \<Longrightarrow> pr_role offered = Some Member \<Longrightarrow>
       auth_step cr now rq v (PairingCreated offer vaultId)
         (note_audit e (v\<lparr> av_pairings := last_n MAX_PAIRINGS (cleanup pr_expiresAt (av_pairings v) now @ [offered]) \<rparr>))"
| step_paired_again:
    "av_claimed v \<Longrightarrow> candidate_ok c \<Longrightarrow> chosen = pairing_matches cr secret code \<Longrightarrow>
     List.find chosen (cleanup pr_expiresAt (av_pairings v) now) = Some p \<Longrightarrow>
     List.find (\<lambda>d. dv_id d = dc_id c) (av_devices v) = Some d \<Longrightarrow> dv_status d = Active \<Longrightarrow>
     samePublicKey (dv_publicKey d) (dc_publicKey c) \<Longrightarrow>
       auth_step cr now rq v (AlreadyPaired (dv_id d) (dv_fingerprint d) (av_vaultId v))
         (v\<lparr> av_devices := (if dc_name c \<noteq> dv_name d
                            then map_device (dc_id c) (\<lambda>d. d\<lparr> dv_name := dc_name c \<rparr>) (av_devices v) else av_devices v),
             av_pairings := remove_found chosen (cleanup pr_expiresAt (av_pairings v) now) \<rparr>)"
| step_paired:
    "av_claimed v \<Longrightarrow> candidate_ok c \<Longrightarrow> chosen = pairing_matches cr secret code \<Longrightarrow>
     List.find chosen (cleanup pr_expiresAt (av_pairings v) now) = Some p \<Longrightarrow>
     (\<And>d. List.find (\<lambda>d. dv_id d = dc_id c) (av_devices v) = Some d \<Longrightarrow> dv_status d \<noteq> Active) \<Longrightarrow>
     role = (if pr_role p = Some Owner \<or> active_owners (av_devices v) = [] then Owner else Member) \<Longrightarrow>
       auth_step cr now rq v (DevicePaired (dc_id c) role fp (av_vaultId v) (av_authGeneration v))
         (note_audit e (v\<lparr> av_devices := paired_devices (new_device (av_vaultId v) c fp role now seen) (av_devices v),
             av_pairings := remove_found chosen (cleanup pr_expiresAt (av_pairings v) now) \<rparr>))"
| step_challenged:
    "av_claimed v \<Longrightarrow> find_active deviceId (av_devices v) = Some d \<Longrightarrow> challenge_ok c \<Longrightarrow> ch_deviceId c = dv_id d \<Longrightarrow>
     ch_vaultId c = av_vaultId v \<Longrightarrow> ch_authGeneration c = of_int (av_authGeneration v) \<Longrightarrow>
       auth_step cr now rq v (ChallengeIssued (ch_id c) (ch_nonce c) (ch_expiresAt c) (ch_authGeneration c))
         (v\<lparr> av_challenges := last_n MAX_SESSIONS (cleanup ch_expiresAt (av_challenges v) now @ [c]) \<rparr>)"
| step_session:
    "av_claimed v \<Longrightarrow> presented ''signature'' rq = Some sig \<Longrightarrow>
     c \<in> set (cleanup ch_expiresAt (av_challenges v) now) \<Longrightarrow> ch_authGeneration c = of_int (av_authGeneration v) \<Longrightarrow>
     List.find (\<lambda>d. dv_id d = ch_deviceId c \<and> dv_status d = Active \<and> dv_vaultId d = ch_vaultId c) (av_devices v) = Some d \<Longrightarrow>
     signature_ok cr (dv_publicKey d) sig (challenge_message c (av_authGeneration v)) \<Longrightarrow>
     session_ok s \<Longrightarrow> ss_hash s = hashOpaque cr token \<Longrightarrow> ss_deviceId s = dv_id d \<Longrightarrow> ss_vaultId s = dv_vaultId d \<Longrightarrow>
     ss_authGeneration s = of_int (av_authGeneration v) \<Longrightarrow> ss_expiresAt s = of_int (now + SESSION_TTL_MS) \<Longrightarrow>
       auth_step cr now rq v (SessionIssued token (ss_expiresAt s) (dv_id d) (dv_role d) (av_authGeneration v))
         (v\<lparr> av_challenges := filter (\<lambda>e. ch_id e \<noteq> ch_id c) (av_challenges v),
             av_sessions := last_n MAX_SESSIONS (cleanup ss_expiresAt (av_sessions v) now @ [s]),
             av_devices := map_device (dv_id d) (\<lambda>d. d\<lparr> dv_lastSeenAt := Some (of_int now) \<rparr>) (av_devices v) \<rparr>)"
| step_ticket_issued:
    "presented ''session'' rq = Some s \<Longrightarrow> principal_in cr now s vaultId v = Some (p, e) \<Longrightarrow> ticket_ok t \<Longrightarrow>
     tk_hash t = hashOpaque cr ticket \<Longrightarrow> tk_deviceId t = dp_deviceId p \<Longrightarrow> tk_vaultId t = dp_vaultId p \<Longrightarrow>
     tk_authGeneration t = of_int (av_authGeneration v) \<Longrightarrow>
       auth_step cr now rq v (TicketIssued ticket (tk_expiresAt t) DEVICE_TICKET_TTL_MS)
         (v\<lparr> av_tickets := last_n MAX_TICKETS (cleanup tk_expiresAt (av_tickets v) now @ [t]) \<rparr>)"
| step_ticket_refused:
    "presented ''ticket'' rq = Some raw \<Longrightarrow> selected = (\<lambda>t. sameSecretHash (tk_hash t) (hashOpaque cr raw)) \<Longrightarrow>
       auth_step cr now rq v (AuthError ''unauthorized'' 401)
         (v\<lparr> av_tickets := remove_found selected (cleanup tk_expiresAt (av_tickets v) now) \<rparr>)"
| step_ticket_accepted:
    "presented ''ticket'' rq = Some raw \<Longrightarrow> selected = (\<lambda>t. sameSecretHash (tk_hash t) (hashOpaque cr raw)) \<Longrightarrow>
     List.find selected (cleanup tk_expiresAt (av_tickets v) now) = Some t \<Longrightarrow> av_claimed v \<Longrightarrow>
     tk_authGeneration t = of_int (av_authGeneration v) \<Longrightarrow>
     List.find (\<lambda>d. dv_id d = tk_deviceId t) (av_devices v) = Some d \<Longrightarrow> dv_status d = Active \<Longrightarrow>
       auth_step cr now rq v (TicketAccepted \<lparr> dp_deviceId = dv_id d, dp_vaultId = dv_vaultId d, dp_role = dv_role d,
           dp_authGeneration = av_authGeneration v \<rparr>)
         (v\<lparr> av_tickets := remove_found selected (cleanup tk_expiresAt (av_tickets v) now) \<rparr>)"
| step_role:
    "owner_in cr now rq v p \<Longrightarrow> find_active i (av_devices v) = Some d \<Longrightarrow> dv_role d \<noteq> role \<Longrightarrow>
     \<not> (dv_role d = Owner \<and> length (active_owners (av_devices v)) \<le> 1) \<Longrightarrow>
       auth_step cr now rq v (RoleChanged (dv_id d) role (av_authGeneration v + 1))
         (note_audit e (next_generation (v\<lparr> av_devices := map_device (dv_id d) (\<lambda>d. d\<lparr> dv_role := role \<rparr>) (av_devices v) \<rparr>)))"
| step_revoked:
    "owner_in cr now rq v p \<Longrightarrow> find_active i (av_devices v) = Some d \<Longrightarrow>
     \<not> (dv_role d = Owner \<and> length (active_owners (av_devices v)) \<le> 1) \<Longrightarrow>
       auth_step cr now rq v (DeviceRevoked (dv_id d) (av_authGeneration v + 1))
         (note_audit e (next_generation (v\<lparr> av_devices :=
            map_device (dv_id d) (\<lambda>d. d\<lparr> dv_status := Revoked, dv_revokedAt := Some (of_int now) \<rparr>) (av_devices v) \<rparr>)))"
| step_renamed:
    "presented ''session'' rq = Some s \<Longrightarrow> principal_in cr now s vaultId v = Some (p, ex) \<Longrightarrow>
     dp_role p = Owner \<or> dp_deviceId p = dv_id d \<Longrightarrow> find_active i (av_devices v) = Some d \<Longrightarrow>
     presented ''deviceName'' rq = Some raw \<Longrightarrow> trim raw \<noteq> [] \<Longrightarrow> length (trim raw) \<le> 64 \<Longrightarrow>
       auth_step cr now rq v (DeviceRenamed (dv_id d) (trim raw))
         (note_audit e (v\<lparr> av_devices := filter device_ok (map_device (dv_id d) (\<lambda>d. d\<lparr> dv_name := trim raw \<rparr>) (av_devices v)) \<rparr>))"

section \<open>Values of the runtime\<close>

definition crypto_ok :: "crypto \<Rightarrow> bool" where
  "crypto_ok cr \<longleftrightarrow> sha256_contract (cr_digest cr)"

definition draws_ok :: "draws \<Rightarrow> bool" where
  "draws_ok dw \<longleftrightarrow> length (dw_secret dw) = 32 \<and> length (dw_id dw) = 18 \<and> length (dw_code dw) = 6"

lemma hash_valid: "crypto_ok cr \<Longrightarrow> validHash (hashOpaque cr s)"
  using sha256Hex_valid [of "cr_digest cr" "cr_utf8 cr s"]
  by (auto simp: crypto_ok_def hashOpaque_def is_sha256_hex_def validHash_def list_all_iff hex_unit_def digit_unit_def)

lemma url_units: "\<forall>c\<in>set BASE64URL_ALPHABET. id_unit c"
  by (simp add: BASE64URL_ALPHABET_def js_def id_unit_def upper_unit_def lower_unit_def digit_unit_def)

lemma random_units: "list_all id_unit (randomBase64Url bs)"
  using url_units sextets_bound [of _ bs] url_alphabet(2)
  by (auto simp: list_all_iff randomBase64Url_def bytesToBase64Url_def)

lemma length_sextets_eq: "length (sextets bs) = (length bs * 4 + 2) div 3"
  by (induction bs rule: sextets.induct) (simp_all add: Let_def)

lemma random_id_valid: "draws_ok dw \<Longrightarrow> validId (randomBase64Url (dw_id dw))"
  using random_units [of "dw_id dw"]
  by (simp add: validId_def draws_ok_def) (simp add: randomBase64Url_def bytesToBase64Url_def length_sextets_eq)

lemma code_length: "draws_ok dw \<Longrightarrow> length (generatePairingCode (dw_code dw)) = 6"
  by (simp add: generatePairingCode_def draws_ok_def)

lemma sameSecretHash_iff: "sameSecretHash a b \<longleftrightarrow> a = b"
proof -
  have zero: "foldl (\<lambda>diff (x, y). or diff (xor x y)) d (zip a b) = 0 \<longleftrightarrow> d = 0 \<and> a = b"
    if "length a = length b" for d :: jschar
    using that
  proof (induction a b arbitrary: d rule: list_induct2)
    case (Cons x xs y ys)
    have "or d (xor x y) = 0 \<longleftrightarrow> d = 0 \<and> x = y"
      by (auto simp: bit_eq_iff bit_or_iff bit_xor_iff)
    then show ?case using Cons.IH [of "or d (xor x y)"] by auto
  qed simp
  show ?thesis using zero [of 0] by (auto simp: sameSecretHash_def)
qed

section \<open>Reading what was put\<close>

lemma read_put_devices [simp]:
  "readAuthValues (put_list ''authDevices'' device_json ds st) = (readAuthValues st)\<lparr> av_devices := filter device_ok ds \<rparr>"
  using guarded_list_written [of isDevice device_json device_ok ds] by (simp add: readAuthValues_def put_list_def)

lemma read_put_pairings [simp]:
  "readAuthValues (put_list ''authPairings'' pairing_json ps st) = (readAuthValues st)\<lparr> av_pairings := filter pairing_ok ps \<rparr>"
  using guarded_list_written [of isPairing pairing_json pairing_ok ps] by (simp add: readAuthValues_def put_list_def)

lemma read_put_challenges [simp]:
  "readAuthValues (put_list ''authChallenges'' challenge_json cs st) = (readAuthValues st)\<lparr> av_challenges := filter challenge_ok cs \<rparr>"
  using guarded_list_written [of isChallenge challenge_json challenge_ok cs] by (simp add: readAuthValues_def put_list_def)

lemma read_put_sessions [simp]:
  "readAuthValues (put_list ''authSessions'' session_json ss st) = (readAuthValues st)\<lparr> av_sessions := filter session_ok ss \<rparr>"
  using guarded_list_written [of isSession session_json session_ok ss] by (simp add: readAuthValues_def put_list_def)

lemma read_put_tickets [simp]:
  "readAuthValues (put_list ''authTickets'' ticket_json ts st) = (readAuthValues st)\<lparr> av_tickets := filter ticket_ok ts \<rparr>"
  using guarded_list_written [of isTicket ticket_json ticket_ok ts] by (simp add: readAuthValues_def put_list_def)

lemma read_put_audit [simp]:
  "readAuthValues (put_list ''authAudit'' audit_json es st) = (readAuthValues st)\<lparr> av_audit := filter audit_ok es \<rparr>"
  using guarded_list_written [of isAudit audit_json audit_ok es] by (simp add: readAuthValues_def put_list_def)

lemma read_put_generation [simp]:
  "readAuthValues (put_value ''authGeneration'' (json_int g) st) = (readAuthValues st)\<lparr> av_authGeneration := max 1 g \<rparr>"
  by (simp add: readAuthValues_def put_value_def json_int_def read_generation_def)

lemma read_put_recovery [simp]:
  "readAuthValues (put_value ''recoverySecretHash'' (JsonString h) st) =
     (readAuthValues st)\<lparr> av_recoverySecretHash := (if validHash h then Some h else None) \<rparr>"
  by (simp add: readAuthValues_def put_value_def)

lemma put_no_credentials_read [simp]:
  "readAuthValues (put_no_credentials st) = (readAuthValues st)\<lparr> av_sessions := [], av_tickets := [], av_challenges := [] \<rparr>"
  by (simp add: put_no_credentials_def)

lemma read_put_value: 
  assumes "\<And>f. f \<in> set [''claimed'', ''vaultId'', ''authGeneration'', ''recoverySecretHash'', ''authDevices'', ''authPairings'',
    ''authChallenges'', ''authSessions'', ''authTickets'', ''authAudit''] \<Longrightarrow> f \<noteq> k"
  shows "readAuthValues (put_value k v st) = readAuthValues st"
  using assms by (simp only: readAuthValues_def put_value_def fun_upd_other list.set insert_iff simp_thms)

lemma put_optional_read [simp]:
  "readAuthValues (put_optional ''updateProvider'' v st) = readAuthValues st"
  "readAuthValues (put_optional ''updateRepoUrl'' v st) = readAuthValues st"
  "readAuthValues (put_optional ''updateRepoBranch'' v st) = readAuthValues st"
  by (auto simp: put_optional_def intro!: read_put_value split: option.split)

lemma put_claim_read:
  assumes "validVaultId vaultId" "validHash h"
  shows "readAuthValues (put_claim now vaultId h ds ps e st) =
    claimed_values vaultId h (filter device_ok ds) (filter pairing_ok ps) e\<lparr> av_audit := filter audit_ok [e] \<rparr>"
proof -
  have c: "readAuthValues (put_value ''claimed'' (JsonBool True) (put_value ''vaultId'' (JsonString vaultId) s)) =
    (readAuthValues s)\<lparr> av_claimed := True, av_vaultId := vaultId \<rparr>" for s
    using assms(1) by (simp add: readAuthValues_def put_value_def)
  show ?thesis
    using assms(2) by (simp add: put_claim_def c claimed_values_def)
qed

section \<open>Lists of well-formed records\<close>

lemma filter_all: "list_all P xs \<Longrightarrow> filter P xs = xs"
  by (simp add: filter_id_conv list_all_iff)

lemma set_last_n: "set (last_n n xs) \<subseteq> set xs"
  by (simp add: last_n_def set_drop_subset)

lemma set_remove_found: "set (remove_found P xs) \<subseteq> set xs"
  by (induction xs) auto

lemma set_cleanup: "set (cleanup f xs now) \<subseteq> set xs"
  by (auto simp: cleanup_def)

lemma list_all_subset: "set ys \<subseteq> set xs \<Longrightarrow> list_all P xs \<Longrightarrow> list_all P ys"
  by (auto simp: list_all_iff)

lemmas kept_all [simp] =
  list_all_subset [OF set_last_n] list_all_subset [OF set_remove_found] list_all_subset [OF set_cleanup]

lemma map_device_all: "list_all P ds \<Longrightarrow> (\<And>d. P d \<Longrightarrow> P (f d)) \<Longrightarrow> list_all P (map_device i f ds)"
  by (auto simp: map_device_def list_all_iff)

lemma device_ok_updates [simp]:
  "device_ok (d\<lparr> dv_status := s \<rparr>) = device_ok d" "device_ok (d\<lparr> dv_revokedAt := r \<rparr>) = device_ok d"
  "device_ok (d\<lparr> dv_status := s, dv_revokedAt := r \<rparr>) = device_ok d"
  "device_ok (d\<lparr> dv_role := ro \<rparr>) = device_ok d" "device_ok (d\<lparr> dv_lastSeenAt := r \<rparr>) = device_ok d"
  "validName n \<Longrightarrow> device_ok d \<Longrightarrow> device_ok (d\<lparr> dv_name := n \<rparr>)"
  by (simp_all add: device_ok_def)

lemma new_device_ok: "validVaultId vaultId \<Longrightarrow> candidate_ok c \<Longrightarrow> device_ok (new_device vaultId c fp role now seen)"
  by (simp add: device_ok_def new_device_def candidate_ok_def)

lemma new_device_fields [simp]:
  "dv_id (new_device vaultId c fp role now seen) = dc_id c" "dv_role (new_device vaultId c fp role now seen) = role"
  "dv_status (new_device vaultId c fp role now seen) = Active" "dv_vaultId (new_device vaultId c fp role now seen) = vaultId"
  "dv_publicKey (new_device vaultId c fp role now seen) = dc_publicKey c" "dv_name (new_device vaultId c fp role now seen) = dc_name c"
  by (simp_all add: new_device_def)

lemma recovered_ok: "list_all device_ok ds \<Longrightarrow> device_ok d \<Longrightarrow> list_all device_ok (recovered_devices now d ds)"
  unfolding recovered_devices_def by (rule kept_all) (auto simp: list_all_iff)

lemma paired_ok: "list_all device_ok ds \<Longrightarrow> device_ok d \<Longrightarrow> list_all device_ok (paired_devices d ds)"
  by (auto simp: paired_devices_def map_device_def list_all_iff)

lemma candidate_valid: "deviceFromBody cr body = Some c \<Longrightarrow> candidate_ok c"
  by (auto simp: deviceFromBody_def Let_def candidate_ok_def dest: read_valid_SomeD key_okD split: option.splits if_splits)

lemma values_okD:
  assumes "values_ok v"
  shows "av_claimed v \<Longrightarrow> validVaultId (av_vaultId v)" "1 \<le> av_authGeneration v" "list_all device_ok (av_devices v)"
    "list_all pairing_ok (av_pairings v)" "list_all challenge_ok (av_challenges v)" "list_all session_ok (av_sessions v)"
    "list_all ticket_ok (av_tickets v)" "list_all audit_ok (av_audit v)"
  using assms by (auto simp: values_ok_def)

lemmas stored_ok = values_okD [OF readAuthValues_ok]

lemma found_device:
  assumes "List.find P ds = Some d"
  shows "d \<in> set ds" "P d"
  using assms by (auto simp: find_Some_iff)

lemma found_in: "List.find P ds = Some d \<Longrightarrow> d \<in> set ds \<and> P d"
  by (auto simp: find_Some_iff)

lemma found_ok: "List.find P ds = Some d \<Longrightarrow> list_all Q ds \<Longrightarrow> Q d"
  by (auto simp: find_Some_iff list_all_iff)

section \<open>Refinement, handler by handler\<close>

lemma auth_step_eq:
  "auth_step cr now rq v r v' \<Longrightarrow> r = r' \<Longrightarrow> v' = v'' \<Longrightarrow> auth_step cr now rq v r' v''"
  by simp

lemma new_pairing_ok:
  assumes "crypto_ok cr" "draws_ok dw" "validId createdBy"
  shows "pairing_ok (new_pairing cr now dw createdBy ttl role)"
  using assms by (simp add: pairing_ok_def new_pairing_def random_id_valid hash_valid code_length)

lemma new_pairing_role [simp]: "pr_role (new_pairing cr now dw createdBy ttl role) = Some role"
  by (simp add: new_pairing_def)

lemma server_claim_id: "validId (js ''server_claim'')"
  by (simp add: validId_def js_def id_unit_def lower_unit_def)

lemma claimed_read: "av_claimed (readAuthValues st) \<longleftrightarrow>
    st ''claimed'' = Some (JsonBool True) \<and> read_valid validVaultId (st ''vaultId'') \<noteq> None"
  by (simp add: readAuthValues_def)

lemma claim_refines:
  assumes "crypto_ok cr" "draws_ok dw" "claim cr now dw body st = (r, st')"
  shows "auth_step cr now rq (readAuthValues st) r (readAuthValues st')"
  using assms(3) unfolding claim_def claimed_read [symmetric]
  apply (auto simp: Let_def step_quiet split: option.splits if_splits dest!: read_valid_SomeD)
   apply (rule auth_step_eq, rule step_claimed_pairing, assumption, assumption,
      rule new_pairing_ok [OF assms(1,2) server_claim_id], rule new_pairing_role, rule refl)
   apply (simp add: put_claim_read new_pairing_ok assms server_claim_id claimed_values_def audit_ok_def audit_entry_def)
  apply (rule auth_step_eq, rule step_claimed_device, assumption, assumption, erule candidate_valid, simp)
  apply (simp add: put_claim_read new_device_ok candidate_valid claimed_values_def audit_ok_def audit_entry_def)
  done

lemma updateMetadata_refines:
  assumes "updateMetadata cr body st = (r, st')"
  shows "auth_step cr now rq (readAuthValues st) r (readAuthValues st')"
  using assms by (auto simp: updateMetadata_def Let_def step_quiet split: sum.splits)

lemmas effect_simps = note_audit_def next_generation_def filter_all map_device_all stored_ok

lemma recover_refines:
  assumes "recover cr now (request_fields rq) st = (r, st')"
  shows "auth_step cr now rq (readAuthValues st) r (readAuthValues st')"
proof (cases "quiet r \<and> st' = st")
  case False
  let ?v = "readAuthValues st"
  obtain h vaultId c where body: "field ''recoveryVerified'' (request_fields rq) = Some (JsonBool True)"
      "read_valid validHash (field ''nextRecoverySecretHash'' (request_fields rq)) = Some h"
      "read_valid validVaultId (field ''vaultId'' (request_fields rq)) = Some vaultId"
      "deviceFromBody cr (request_fields rq) = Some c" and claimed: "av_claimed ?v" "av_vaultId ?v = vaultId"
    using assms False
    by (auto simp: recover_def Let_def split: option.splits json.splits bool.splits if_splits)
  have h: "validHash h" using body(2) by (auto dest: read_valid_SomeD)
  define fp where "fp = fingerprintForKey cr (dc_publicKey c)"
  define owner where "owner = new_device (av_vaultId ?v) c fp Owner now None"
  have "list_all device_ok (recovered_devices now owner (av_devices ?v))"
    using claimed(1) body(4) unfolding owner_def by (intro recovered_ok new_device_ok candidate_valid stored_ok) auto
  then have all: "filter device_ok (recovered_devices now owner (av_devices ?v)) = recovered_devices now owner (av_devices ?v)"
    by (rule filter_all)
  have "r = Recovered (dc_id c) (av_authGeneration ?v + 1)"
    "readAuthValues st' = note_audit (audit_entry now AuditRecovery None (Some (dc_id c)) (Some fp))
       (next_generation (?v\<lparr> av_devices := recovered_devices now owner (av_devices ?v), av_pairings := [],
          av_recoverySecretHash := Some h \<rparr>))"
    using assms all stored_ok(2) [of st]
    by (auto simp: recover_def body claimed h Let_def note_audit_def next_generation_def owner_def fp_def recovered_devices_def)
  then show ?thesis
    using step_recovered [OF claimed(1) candidate_valid [OF body(4)] body(1) owner_def] by simp
qed (simp add: step_quiet)

lemma ownerPrincipal_in: "ownerPrincipal cr now (request_fields rq) st = Some p \<Longrightarrow> owner_in cr now rq (readAuthValues st) p"
  unfolding ownerPrincipal_def owner_in_def presented_def principalForSession_def
  by (auto split: option.splits if_splits) blast

lemma principal_fields:
  assumes "principal_in cr now s vaultId v = Some (p, e)"
  obtains session device where "session \<in> set (cleanup ss_expiresAt (av_sessions v) now)" "ss_hash session = hashOpaque cr s"
    "List.find (\<lambda>d. dv_id d = ss_deviceId session) (av_devices v) = Some device" "dv_status device = Active"
    "av_claimed v" "av_vaultId v = vaultId" "ss_vaultId session = vaultId"
    "ss_authGeneration session = of_int (av_authGeneration v)" "e = ss_expiresAt session"
    "p = \<lparr> dp_deviceId = dv_id device, dp_vaultId = dv_vaultId device, dp_role = dv_role device, dp_authGeneration = av_authGeneration v \<rparr>"
  using assms
  by (auto simp: principal_in_def sameSecretHash_iff split: option.splits if_splits dest!: found_in [of _ "cleanup _ _ _"])

lemma principal_ok:
  assumes "principal_in cr now s vaultId v = Some (p, e)" "values_ok v"
  shows "validId (dp_deviceId p)" "validVaultId (dp_vaultId p)" "dp_authGeneration p = av_authGeneration v"
  using assms
  by (auto elim!: principal_fields dest!: found_ok [OF _ values_okD(3) [OF assms(2)]] simp: device_ok_def)

lemma owner_ok: "owner_in cr now rq v p \<Longrightarrow> values_ok v \<Longrightarrow> validId (dp_deviceId p)"
  by (auto simp: owner_in_def dest: principal_ok)

lemma createPairing_refines:
  assumes "crypto_ok cr" "draws_ok dw" "createPairing cr now dw (request_fields rq) st = (r, st')"
  shows "auth_step cr now rq (readAuthValues st) r (readAuthValues st')"
proof (cases "ownerPrincipal cr now (request_fields rq) st")
  case None
  then show ?thesis using assms by (auto simp: createPairing_def step_quiet)
next
  case (Some p)
  note owner = ownerPrincipal_in [OF Some]
  let ?new = "new_pairing cr now dw (dp_deviceId p) (max 60000 (min MAX_PAIRING_TTL_MS (requested_ttl (field ''ttlMs'' (request_fields rq))))) Member"
  have ok: "pairing_ok ?new"
    using assms(1,2) owner_ok [OF owner readAuthValues_ok] by (rule new_pairing_ok)
  then have all: "list_all pairing_ok (last_n MAX_PAIRINGS (cleanup pr_expiresAt (av_pairings (readAuthValues st)) now @ [?new]))"
    by (intro kept_all) (simp add: stored_ok)
  have "r = PairingCreated (new_offer dw ?new) (dp_vaultId p)"
    "readAuthValues st' = note_audit (audit_entry now AuditPairingCreated (Some (dp_deviceId p)) None None) ((readAuthValues st)
       \<lparr> av_pairings := last_n MAX_PAIRINGS (cleanup pr_expiresAt (av_pairings (readAuthValues st)) now @ [?new]) \<rparr>)"
    using assms(3) Some by (auto simp: createPairing_def Let_def note_audit_def filter_all [OF all])
  then show ?thesis using step_offered [OF owner ok new_pairing_role] by simp
qed

lemma challenge_refines:
  assumes "crypto_ok cr" "draws_ok dw" "challenge now dw (request_fields rq) st = (r, st')"
  shows "auth_step cr now rq (readAuthValues st) r (readAuthValues st')"
proof (cases "quiet r \<and> st' = st")
  case False
  let ?v = "readAuthValues st"
  obtain i vaultId d where body: "read_valid validVaultId (field ''vaultId'' (request_fields rq)) = Some vaultId"
      "read_valid validId (field ''deviceId'' (request_fields rq)) = Some i"
    and claimed: "av_claimed ?v" "av_vaultId ?v = vaultId" and d: "find_active i (av_devices ?v) = Some d"
    using assms(3) False by (auto simp: challenge_def Let_def split: option.splits if_splits)
  define c where "c = new_challenge now dw ?v d"
  have "device_ok d" using d stored_ok(3) [of st] by (auto simp: find_active_def dest: found_ok)
  then have ok: "challenge_ok c"
    using claimed(1) assms(2) by (simp add: challenge_ok_def c_def new_challenge_def random_id_valid device_ok_def stored_ok)
  then have all: "list_all challenge_ok (last_n MAX_SESSIONS (cleanup ch_expiresAt (av_challenges ?v) now @ [c]))"
    by (intro kept_all) (simp add: stored_ok)
  have fields: "ch_deviceId c = dv_id d" "ch_vaultId c = av_vaultId ?v" "ch_authGeneration c = of_int (av_authGeneration ?v)"
    by (simp_all add: c_def new_challenge_def)
  have "r = ChallengeIssued (ch_id c) (ch_nonce c) (ch_expiresAt c) (ch_authGeneration c)"
    "st' = put_list ''authChallenges'' challenge_json (last_n MAX_SESSIONS (cleanup ch_expiresAt (av_challenges ?v) now @ [c])) st"
    using assms(3) by (auto simp: challenge_def body claimed d Let_def c_def)
  then show ?thesis
    using step_challenged [OF claimed(1) d ok fields, of cr now rq] by (simp add: filter_all [OF all])
qed (simp add: step_quiet)

lemma session_refines:
  assumes "crypto_ok cr" "draws_ok dw" "session cr now dw (request_fields rq) st = (r, st')"
  shows "auth_step cr now rq (readAuthValues st) r (readAuthValues st')"
proof (cases "quiet r \<and> st' = st")
  case False
  let ?v = "readAuthValues st"
  obtain i sig c d where body: "read_valid validId (field ''challengeId'' (request_fields rq)) = Some i"
      "read_valid (\<lambda>s. 16 \<le> length s \<and> length s \<le> 512) (field ''signature'' (request_fields rq)) = Some sig"
    and c: "List.find (\<lambda>c. ch_id c = i) (cleanup ch_expiresAt (av_challenges ?v) now) = Some c"
    and claimed: "av_claimed ?v" "ch_authGeneration c = of_int (av_authGeneration ?v)"
    and d: "List.find (\<lambda>d. dv_id d = ch_deviceId c \<and> dv_status d = Active \<and> dv_vaultId d = ch_vaultId c) (av_devices ?v) = Some d"
    and sig: "signature_ok cr (dv_publicKey d) sig (challenge_message c (av_authGeneration ?v))"
    using assms(3) False by (auto simp: session_def Let_def split: option.splits if_splits)
  define s where "s = new_session cr now dw ?v d"
  have presented: "presented ''signature'' rq = Some sig"
    using read_valid_SomeD [OF body(2)] by (simp add: presented_def)
  have "device_ok d" using found_ok [OF d stored_ok(3)] .
  then have ok: "session_ok s"
    using assms(1,2) by (simp add: session_ok_def s_def new_session_def random_id_valid hash_valid device_ok_def)
  then have all: "list_all session_ok (last_n MAX_SESSIONS (cleanup ss_expiresAt (av_sessions ?v) now @ [s]))"
    by (intro kept_all) (simp add: stored_ok)
  have challenges: "filter (\<lambda>x. ch_id x \<noteq> ch_id c \<and> challenge_ok x) (av_challenges ?v) = filter (\<lambda>x. ch_id x \<noteq> ch_id c) (av_challenges ?v)"
    using stored_ok(5) [of st] by (intro filter_cong) (auto simp: list_all_iff)
  have devices: "list_all device_ok (map_device (dv_id d) (\<lambda>d. d\<lparr> dv_lastSeenAt := Some (of_int now) \<rparr>) (av_devices ?v))"
    by (rule map_device_all [OF stored_ok(3)]) simp
  have fields: "ss_hash s = hashOpaque cr (randomBase64Url (dw_secret dw))" "ss_deviceId s = dv_id d" "ss_vaultId s = dv_vaultId d"
    "ss_authGeneration s = of_int (av_authGeneration ?v)" "ss_expiresAt s = of_int (now + SESSION_TTL_MS)"
    by (simp_all add: s_def new_session_def)
  have member: "c \<in> set (cleanup ch_expiresAt (av_challenges ?v) now)" using found_in [OF c] by simp
  have "r = SessionIssued (randomBase64Url (dw_secret dw)) (ss_expiresAt s) (dv_id d) (dv_role d) (av_authGeneration ?v)"
    "st' = put_list ''authChallenges'' challenge_json (filter (\<lambda>e. ch_id e \<noteq> ch_id c) (av_challenges ?v))
       (put_list ''authSessions'' session_json (last_n MAX_SESSIONS (cleanup ss_expiresAt (av_sessions ?v) now @ [s]))
         (put_list ''authDevices'' device_json
           (map_device (dv_id d) (\<lambda>d. d\<lparr> dv_lastSeenAt := Some (of_int now) \<rparr>) (av_devices ?v)) st))"
    using assms(3) by (auto simp: session_def body c claimed d sig Let_def s_def)
  then show ?thesis
    by (intro auth_step_eq [OF step_session [OF claimed(1) presented member claimed(2) d sig ok fields]])
      (simp_all add: filter_all [OF all] challenges filter_all [OF devices])
qed (simp add: step_quiet)

lemma validateSession_refines:
  assumes "validateSession cr now (request_fields rq) st = (r, st')"
  shows "auth_step cr now rq (readAuthValues st) r (readAuthValues st')"
  using assms unfolding validateSession_def principalForSession_def
  by (auto simp: step_quiet presented_def intro!: step_validated split: option.splits prod.splits dest!: read_valid_SomeD)

lemma issueTicket_refines:
  assumes "crypto_ok cr" "draws_ok dw" "issueTicket cr now dw (request_fields rq) st = (r, st')"
  shows "auth_step cr now rq (readAuthValues st) r (readAuthValues st')"
proof (cases "quiet r \<and> st' = st")
  case False
  let ?v = "readAuthValues st"
  obtain s vaultId p e where body: "read_string (field ''session'' (request_fields rq)) = Some s"
      "read_valid validVaultId (field ''vaultId'' (request_fields rq)) = Some vaultId"
    and p: "principal_in cr now s vaultId ?v = Some (p, e)"
    using assms(3) False by (auto simp: issueTicket_def principalForSession_def Let_def split: option.splits prod.splits)
  define t where "t = new_ticket cr now dw p"
  note principal = principal_ok [OF p readAuthValues_ok]
  have fields: "tk_hash t = hashOpaque cr (randomBase64Url (dw_secret dw))" "tk_deviceId t = dp_deviceId p"
    "tk_vaultId t = dp_vaultId p" "tk_authGeneration t = of_int (av_authGeneration ?v)"
    using principal by (simp_all add: t_def new_ticket_def)
  have ok: "ticket_ok t" using principal by (simp add: ticket_ok_def fields hash_valid assms(1))
  then have all: "list_all ticket_ok (last_n MAX_TICKETS (cleanup tk_expiresAt (av_tickets ?v) now @ [t]))"
    by (intro kept_all) (simp add: stored_ok)
  have "r = TicketIssued (randomBase64Url (dw_secret dw)) (tk_expiresAt t) DEVICE_TICKET_TTL_MS"
    "st' = put_list ''authTickets'' ticket_json (last_n MAX_TICKETS (cleanup tk_expiresAt (av_tickets ?v) now @ [t])) st"
    using assms(3) by (auto simp: issueTicket_def principalForSession_def body p Let_def t_def)
  then show ?thesis
    using step_ticket_issued [OF _ p ok fields, of rq] body(1) by (simp add: filter_all [OF all] presented_def)
qed (simp add: step_quiet)

lemma consumeTicket_refines:
  assumes "consumeTicket cr now (request_fields rq) st = (r, st')"
  shows "auth_step cr now rq (readAuthValues st) r (readAuthValues st')"
proof (cases "quiet r \<and> st' = st")
  case False
  let ?v = "readAuthValues st"
  obtain raw vaultId where body: "read_valid (\<lambda>s. 32 \<le> length s \<and> length s \<le> 256) (field ''ticket'' (request_fields rq)) = Some raw"
      "read_valid validVaultId (field ''vaultId'' (request_fields rq)) = Some vaultId"
    using assms False by (auto simp: consumeTicket_def Let_def split: option.splits if_splits)
  have presented: "presented ''ticket'' rq = Some raw" using read_valid_SomeD [OF body(1)] by (simp add: presented_def)
  define selected :: "stored_ticket \<Rightarrow> bool" where "selected = (\<lambda>t. sameSecretHash (tk_hash t) (hashOpaque cr raw))"
  define live where "live = cleanup tk_expiresAt (av_tickets ?v) now"
  have "list_all ticket_ok (remove_found selected live)" unfolding live_def by (intro kept_all stored_ok)
  then have st': "readAuthValues st' = ?v\<lparr> av_tickets := remove_found selected live \<rparr>"
    using assms by (auto simp: consumeTicket_def body Let_def filter_all simp flip: selected_def live_def split: option.splits if_splits)
  have r: "r = AuthError ''unauthorized'' 401 \<or> (\<exists>t d. List.find selected live = Some t \<and> av_claimed ?v
      \<and> tk_authGeneration t = of_int (av_authGeneration ?v)
      \<and> List.find (\<lambda>d. dv_id d = tk_deviceId t) (av_devices ?v) = Some d \<and> dv_status d = Active
      \<and> r = TicketAccepted \<lparr> dp_deviceId = dv_id d, dp_vaultId = dv_vaultId d, dp_role = dv_role d,
          dp_authGeneration = av_authGeneration ?v \<rparr>)"
    using assms by (auto simp: consumeTicket_def body Let_def simp flip: selected_def live_def split: option.splits if_splits)
  show ?thesis
    using r step_ticket_refused [OF presented selected_def, of now ?v]
      step_ticket_accepted [OF presented selected_def, of ?v now]
    unfolding st' live_def by blast
qed (simp add: step_quiet)

lemma changeDeviceRole_refines:
  assumes "changeDeviceRole cr now (request_fields rq) st = (r, st')"
  shows "auth_step cr now rq (readAuthValues st) r (readAuthValues st')"
proof (cases "quiet r \<and> st' = st")
  case False
  let ?v = "readAuthValues st"
  obtain i role p d where body: "read_valid validId (field ''targetDeviceId'' (request_fields rq)) = Some i"
      "read_role (field ''role'' (request_fields rq)) = Some role"
    and p: "ownerPrincipal cr now (request_fields rq) st = Some p"
    and d: "find_active i (av_devices ?v) = Some d" "dv_role d \<noteq> role"
      "\<not> (dv_role d = Owner \<and> role = Member \<and> length (active_owners (av_devices ?v)) \<le> 1)"
    using assms False by (auto simp: changeDeviceRole_def Let_def split: option.splits if_splits)
  have guard: "\<not> (dv_role d = Owner \<and> length (active_owners (av_devices ?v)) \<le> 1)"
    using d(2,3) by (cases role) auto
  have all: "list_all device_ok (map_device (dv_id d) (\<lambda>d. d\<lparr> dv_role := role \<rparr>) (av_devices ?v))"
    by (rule map_device_all [OF stored_ok(3)]) simp
  show ?thesis
    by (rule auth_step_eq [OF step_role [OF ownerPrincipal_in [OF p] d(1,2) guard,
        where e = "audit_entry now AuditDeviceRoleChanged (Some (dp_deviceId p)) (Some (dv_id d)) (Some (dv_fingerprint d))"]])
      (use assms d(3) stored_ok(2) [of st] in
        \<open>auto simp: changeDeviceRole_def body p d(1,2) Let_def note_audit_def next_generation_def filter_all [OF all]\<close>)
qed (simp add: step_quiet)

lemma revokeDevice_refines:
  assumes "revokeDevice cr now (request_fields rq) st = (r, st')"
  shows "auth_step cr now rq (readAuthValues st) r (readAuthValues st')"
proof (cases "quiet r \<and> st' = st")
  case False
  let ?v = "readAuthValues st"
  obtain i p d where body: "read_valid validId (field ''targetDeviceId'' (request_fields rq)) = Some i"
    and p: "ownerPrincipal cr now (request_fields rq) st = Some p"
    and d: "find_active i (av_devices ?v) = Some d"
      "\<not> (dv_role d = Owner \<and> length (active_owners (av_devices ?v)) \<le> 1)"
    using assms False by (auto simp: revokeDevice_def Let_def split: option.splits if_splits)
  have all: "list_all device_ok
      (map_device (dv_id d) (\<lambda>d. d\<lparr> dv_status := Revoked, dv_revokedAt := Some (of_int now) \<rparr>) (av_devices ?v))"
    by (rule map_device_all [OF stored_ok(3)]) simp
  show ?thesis
    by (rule auth_step_eq [OF step_revoked [OF ownerPrincipal_in [OF p] d,
        where e = "audit_entry now AuditDeviceRevoked (Some (dp_deviceId p)) (Some (dv_id d)) (Some (dv_fingerprint d))"]])
      (use assms d(2) stored_ok(2) [of st] in
        \<open>auto simp: revokeDevice_def body p d(1) Let_def note_audit_def next_generation_def filter_all [OF all]\<close>)
qed (simp add: step_quiet)

lemma renameDevice_refines:
  assumes "renameDevice cr now (request_fields rq) st = (r, st')"
  shows "auth_step cr now rq (readAuthValues st) r (readAuthValues st')"
proof (cases "quiet r \<and> st' = st")
  case False
  let ?v = "readAuthValues st"
  obtain i raw s vaultId p e d where body: "read_valid validId (field ''targetDeviceId'' (request_fields rq)) = Some i"
      "read_string (field ''deviceName'' (request_fields rq)) = Some raw" "read_string (field ''session'' (request_fields rq)) = Some s"
      "read_valid validVaultId (field ''vaultId'' (request_fields rq)) = Some vaultId"
    and p: "principal_in cr now s vaultId ?v = Some (p, e)" "dp_role p = Owner \<or> dp_deviceId p = i"
    and d: "find_active i (av_devices ?v) = Some d" "dv_name d \<noteq> trim raw" and raw: "trim raw \<noteq> []" "length (trim raw) \<le> 64"
    using assms False
    by (auto simp: renameDevice_def principalForSession_def Let_def split: option.splits if_splits prod.splits)
  have i: "dv_id d = i" using d(1) by (auto simp: find_active_def dest: found_in)
  have guard: "\<not> (dp_role p \<noteq> Owner \<and> dp_deviceId p \<noteq> i)" using p(2) by simp
  have presented: "presented ''session'' rq = Some s" "presented ''deviceName'' rq = Some raw"
    by (simp_all add: presented_def body)
  show ?thesis
    by (rule auth_step_eq [OF step_renamed [OF presented(1) p(1) p(2) [folded i] d(1) presented(2) raw,
        where e = "audit_entry now AuditDeviceRenamed (Some (dp_deviceId p)) (Some (dv_id d)) (Some (dv_fingerprint d))"]])
      (use assms guard d(2) raw in
        \<open>(clarsimp simp: renameDevice_def principalForSession_def body p(1) d(1) i Let_def note_audit_def)+\<close>)
qed (simp add: step_quiet)

lemma listDevices_refines:
  assumes "listDevices cr now (request_fields rq) st = (r, st')"
  shows "auth_step cr now rq (readAuthValues st) r (readAuthValues st')"
  using assms by (auto simp: listDevices_def step_quiet split: option.splits)

lemma pair_device_refines:
  assumes "pair_device cr now c (remove_found chosen live) p st = (r, st')" "candidate_ok c" "av_claimed (readAuthValues st)"
    and chosen: "chosen = pairing_matches cr secret code" "live = cleanup pr_expiresAt (av_pairings (readAuthValues st)) now"
    and p: "List.find chosen live = Some p"
  shows "auth_step cr now rq (readAuthValues st) r (readAuthValues st')"
proof -
  let ?v = "readAuthValues st"
  note p' = p [unfolded chosen(2)]
  have consumed: "filter pairing_ok (remove_found chosen live) = remove_found chosen live"
    unfolding chosen(2) by (intro filter_all kept_all stored_ok)
  show ?thesis
  proof (cases "\<exists>d. List.find (\<lambda>d. dv_id d = dc_id c) (av_devices ?v) = Some d \<and> dv_status d = Active")
    case True
    then obtain d where d: "List.find (\<lambda>d. dv_id d = dc_id c) (av_devices ?v) = Some d" "dv_status d = Active" by blast
    have all: "list_all device_ok (map_device (dc_id c) (\<lambda>d. d\<lparr> dv_name := dc_name c \<rparr>) (av_devices ?v))"
      using assms(2) by (intro map_device_all stored_ok) (simp add: candidate_ok_def)
    show ?thesis
    proof (cases "samePublicKey (dv_publicKey d) (dc_publicKey c)")
      case True
      show ?thesis
        by (rule auth_step_eq [OF step_paired_again [OF assms(3,2) chosen(1) p' d True]])
          (use assms(1) d True in \<open>auto simp: pair_device_def Let_def filter_all [OF all] filter_all [OF stored_ok(3)]
            consumed simp flip: chosen(2)\<close>)
    qed (use assms(1) d in \<open>auto simp: pair_device_def Let_def step_quiet\<close>)
  next
    case False
    then have inactive: "dv_status d \<noteq> Active" if "List.find (\<lambda>d. dv_id d = dc_id c) (av_devices ?v) = Some d" for d
      using that by blast
    define role where "role = (if pr_role p = Some Owner \<or> active_owners (av_devices ?v) = [] then Owner else Member)"
    define fp where "fp = fingerprintForKey cr (dc_publicKey c)"
    define d where "d = new_device (av_vaultId ?v) c fp role now (Some (of_int now))"
    have all: "filter device_ok (paired_devices d (av_devices ?v)) = paired_devices d (av_devices ?v)"
      unfolding d_def by (intro filter_all paired_ok stored_ok new_device_ok assms)
    have "quiet r \<and> st' = st \<or>
      r = DevicePaired (dc_id c) role fp (av_vaultId ?v) (av_authGeneration ?v) \<and>
      st' = put_list ''authDevices'' device_json (paired_devices d (av_devices ?v))
        (put_list ''authPairings'' pairing_json (remove_found chosen live)
          (put_list ''authAudit'' audit_json (addAudit (av_audit ?v)
            (audit_entry now AuditDevicePaired (Some (pr_createdBy p)) (Some (dc_id c)) (Some fp))) st))"
      using assms(1) inactive
      by (cases "List.find (\<lambda>d. dv_id d = dc_id c) (av_devices ?v)")
        (auto simp: pair_device_def Let_def d_def role_def fp_def paired_devices_def split: if_splits)
    then show ?thesis
    proof (elim disjE conjE)
      assume "r = DevicePaired (dc_id c) role fp (av_vaultId ?v) (av_authGeneration ?v)"
        and st': "st' = put_list ''authDevices'' device_json (paired_devices d (av_devices ?v))
        (put_list ''authPairings'' pairing_json (remove_found chosen live)
          (put_list ''authAudit'' audit_json (addAudit (av_audit ?v)
            (audit_entry now AuditDevicePaired (Some (pr_createdBy p)) (Some (dc_id c)) (Some fp))) st))"
      then show ?thesis
        by (intro auth_step_eq [OF step_paired [OF assms(3,2) chosen(1) p' inactive role_def,
            where e = "audit_entry now AuditDevicePaired (Some (pr_createdBy p)) (Some (dc_id c)) (Some fp)" and fp = fp
              and seen = "Some (of_int now)"]])
          (simp_all add: note_audit_def all [unfolded d_def] consumed d_def flip: chosen(2))
    qed (simp add: step_quiet)
  qed
qed

lemma pair_refines:
  assumes "pair cr now (request_fields rq) st = (r, st')"
  shows "auth_step cr now rq (readAuthValues st) r (readAuthValues st')"
  using assms
  by (auto simp: pair_def Let_def step_quiet split: option.splits if_splits
      intro: pair_device_refines [OF _ candidate_valid _ refl refl])

text \<open>Every request has one of the effects of the specification.\<close>

lemmas handler_refines =
  updateMetadata_refines recover_refines pair_refines validateSession_refines consumeTicket_refines listDevices_refines
  changeDeviceRole_refines revokeDevice_refines renameDevice_refines

lemmas drawing_handler_refines =
  claim_refines challenge_refines session_refines issueTicket_refines createPairing_refines

lemma branch_cases:
  assumes "(if c then x else y) = z"
  obtains (true) "c" "x = z" | (false) "\<not> c" "y = z"
  using assms by (simp split: if_splits)

lemma config_fetch_refines:
  assumes "crypto_ok cr" "draws_ok dw" "config_fetch cr now dw rq st = (r, st')"
  shows "auth_step cr now rq (readAuthValues st) r (readAuthValues st')"
  using assms(3) unfolding config_fetch_def Let_def
  by (elim branch_cases) (auto simp: step_quiet intro: handler_refines drawing_handler_refines [OF assms(1,2)])

end
