(* ===== verification/AuthSample.thy ===== *)
theory AuthSample
  imports AuthSpec
begin

text \<open>
  One concrete server: it is claimed by a device, the device answers a challenge, gets a session and
  a ticket, and uses the ticket.  The hash pads or cuts its input to 32 bytes and every signature
  verifies; the examples of the properties run on it.
\<close>

section \<open>Sample data\<close>

definition sample_crypto :: crypto where
  "sample_crypto = \<lparr> cr_utf8 = map ucast, cr_digest = (\<lambda>bs. take 32 (bs @ replicate 32 0)), cr_importKey = (\<lambda>k. True),
     cr_verify = (\<lambda>k s m. True), cr_parseUrl = (\<lambda>u. None) \<rparr>"

definition sample_draws :: "byte \<Rightarrow> draws" where
  "sample_draws b = \<lparr> dw_secret = replicate 32 b, dw_id = replicate 18 b, dw_code = replicate 6 b \<rparr>"

definition sample_vault :: jsstr where "sample_vault = replicate 8 97"
definition sample_id :: jsstr where "sample_id = replicate 8 100"
definition sample_name :: jsstr where "sample_name = [80]"
definition sample_hash :: jsstr where "sample_hash = replicate 64 97"
definition sample_key :: public_key where "sample_key = \<lparr> pk_x = replicate 42 65, pk_y = replicate 42 66 \<rparr>"

definition sample_candidate :: device_candidate where
  "sample_candidate = \<lparr> dc_id = sample_id, dc_name = sample_name, dc_publicKey = sample_key \<rparr>"

definition post :: "string \<Rightarrow> (jsstr \<times> json) list \<Rightarrow> auth_request" where
  "post p fs = \<lparr> rq_method = HttpPost, rq_path = p, rq_body = Some (JsonObject fs) \<rparr>"

definition device_fields :: "(jsstr \<times> json) list" where
  "device_fields = [(js ''deviceId'', JsonString sample_id), (js ''deviceName'', JsonString sample_name), (js ''publicKey'', key_json sample_key)]"

definition claim_request :: auth_request where
  "claim_request = post ''/__kaos/claim''
     [(js ''vaultId'', JsonString sample_vault), (js ''recoverySecretHash'', JsonString sample_hash), (js ''device'', JsonObject device_fields)]"

definition challenge_request :: auth_request where
  "challenge_request = post ''/__kaos/auth/challenge'' [(js ''vaultId'', JsonString sample_vault), (js ''deviceId'', JsonString sample_id)]"

definition session_request :: auth_request where
  "session_request = post ''/__kaos/auth/session''
     [(js ''challengeId'', JsonString (randomBase64Url (replicate 18 2))), (js ''signature'', JsonString (replicate 16 65))]"

definition ticket_request :: auth_request where
  "ticket_request = post ''/__kaos/auth/ticket''
     [(js ''session'', JsonString (randomBase64Url (replicate 32 3))), (js ''vaultId'', JsonString sample_vault)]"

definition consume_request :: auth_request where
  "consume_request = post ''/__kaos/auth/consume-ticket''
     [(js ''ticket'', JsonString (randomBase64Url (replicate 32 4))), (js ''vaultId'', JsonString sample_vault)]"

lemma sample_crypto_ok: "crypto_ok sample_crypto"
  by (auto simp: crypto_ok_def sha256_contract_def sample_crypto_def min_def)

lemma sample_draws_ok: "draws_ok (sample_draws b)"
  by (simp add: draws_ok_def sample_draws_def)

lemma sample_valid [simp]:
  "validVaultId sample_vault" "validId sample_id" "validName sample_name" "validHash sample_hash" "key_ok sample_key"
  by (simp_all add: validVaultId_def validId_def validName_def validHash_def key_ok_def coordinate_ok_def sample_vault_def sample_id_def
      sample_name_def sample_hash_def sample_key_def trim_def js_space_def control_char_def id_unit_def upper_unit_def lower_unit_def
      hex_unit_def list_all_iff list_ex_iff)

lemma sample_candidate_ok: "candidate_ok sample_candidate"
  by (simp add: candidate_ok_def sample_candidate_def)

lemma post_fields [simp]: "request_fields (post p fs) = fs" "rq_path (post p fs) = p" "rq_method (post p fs) = HttpPost"
  "rq_body (post p fs) = Some (JsonObject fs)"
  by (simp_all add: request_fields_def asRecord_def post_def)

section \<open>The run\<close>

definition sample_owner :: stored_device where
  "sample_owner = new_device sample_vault sample_candidate (fingerprintForKey sample_crypto sample_key) Owner 1000 (Some 1000)"

definition store1 :: auth_storage where
  "store1 = put_claim 1000 sample_vault sample_hash [sample_owner] [] (audit_entry 1000 AuditClaimed (Some sample_id) (Some sample_id)
     (Some (fingerprintForKey sample_crypto sample_key))) (\<lambda>_. None)"

definition sample_challenge :: stored_challenge where
  "sample_challenge = \<lparr> ch_id = randomBase64Url (replicate 18 2), ch_deviceId = sample_id, ch_vaultId = sample_vault,
     ch_nonce = randomBase64Url (replicate 32 2), ch_authGeneration = 1, ch_expiresAt = 92000 \<rparr>"

definition store2 :: auth_storage where
  "store2 = put_list ''authChallenges'' challenge_json [sample_challenge] store1"

definition sample_session :: stored_session where
  "sample_session = \<lparr> ss_id = randomBase64Url (replicate 18 3), ss_hash = hashOpaque sample_crypto (randomBase64Url (replicate 32 3)),
     ss_deviceId = sample_id, ss_vaultId = sample_vault, ss_authGeneration = 1, ss_expiresAt = 303000 \<rparr>"

definition store3 :: auth_storage where
  "store3 = put_list ''authChallenges'' challenge_json [] (put_list ''authSessions'' session_json [sample_session]
     (put_list ''authDevices'' device_json [sample_owner\<lparr> dv_lastSeenAt := Some 3000 \<rparr>] store2))"

definition sample_ticket :: stored_ticket where
  "sample_ticket = \<lparr> tk_hash = hashOpaque sample_crypto (randomBase64Url (replicate 32 4)), tk_deviceId = sample_id,
     tk_vaultId = sample_vault, tk_authGeneration = 1, tk_expiresAt = 304000 \<rparr>"

definition store4 :: auth_storage where
  "store4 = put_list ''authTickets'' ticket_json [sample_ticket] store3"

definition store5 :: auth_storage where
  "store5 = put_list ''authTickets'' ticket_json [] store4"

definition sample_principal :: device_principal where
  "sample_principal = \<lparr> dp_deviceId = sample_id, dp_vaultId = sample_vault, dp_role = Owner, dp_authGeneration = 1 \<rparr>"

lemma sample_device_body: "deviceFromBody sample_crypto (request_fields claim_request) = Some sample_candidate"
  by (simp add: deviceFromBody_def claim_request_def device_fields_def json_simps asRecord_def sample_candidate_def sample_crypto_def)

lemma sample_records_ok [simp]: "device_ok sample_owner" "challenge_ok sample_challenge" "session_ok sample_session" "ticket_ok sample_ticket"
  using random_id_valid [OF sample_draws_ok, of 2] random_id_valid [OF sample_draws_ok, of 3]
  by (simp_all add: sample_owner_def new_device_ok sample_candidate_ok challenge_ok_def session_ok_def ticket_ok_def sample_challenge_def
      sample_session_def sample_ticket_def hash_valid sample_crypto_ok) (simp_all add: sample_draws_def)

lemma values1: "readAuthValues store1 = claimed_values sample_vault sample_hash [sample_owner] []
    (audit_entry 1000 AuditClaimed (Some sample_id) (Some sample_id) (Some (fingerprintForKey sample_crypto sample_key)))"
  by (simp add: store1_def put_claim_read claimed_values_def audit_ok_def audit_entry_def)

lemma values2: "readAuthValues store2 = (readAuthValues store1)\<lparr> av_challenges := [sample_challenge] \<rparr>"
  by (simp add: store2_def)

lemma values3: "readAuthValues store3 = (readAuthValues store1)
    \<lparr> av_devices := [sample_owner\<lparr> dv_lastSeenAt := Some 3000 \<rparr>], av_sessions := [sample_session], av_challenges := [] \<rparr>"
  by (simp add: store3_def values2)

lemma values4: "readAuthValues store4 = (readAuthValues store3)\<lparr> av_tickets := [sample_ticket] \<rparr>"
  by (simp add: store4_def)

lemma values5: "readAuthValues store5 = (readAuthValues store3)\<lparr> av_tickets := [] \<rparr>"
  by (simp add: store5_def values4)

lemmas run_values = values1 values2 values3 values4 values5 claimed_values_def

lemma owner_fields [simp]: "dv_id sample_owner = sample_id" "dv_status sample_owner = Active" "dv_role sample_owner = Owner"
  "dv_vaultId sample_owner = sample_vault" "dv_publicKey sample_owner = sample_key" "dv_name sample_owner = sample_name"
  by (simp_all add: sample_owner_def sample_candidate_def)

lemma run1: "config_fetch sample_crypto 1000 (sample_draws 1) claim_request (\<lambda>_. None)
    = (ClaimedByDevice sample_id (fingerprintForKey sample_crypto sample_key) 1 sample_vault, store1)"
proof -
  have "claim sample_crypto 1000 (sample_draws 1) (request_fields claim_request) (\<lambda>_. None)
    = (ClaimedByDevice sample_id (fingerprintForKey sample_crypto sample_key) 1 sample_vault, store1)"
    unfolding claim_def sample_device_body
    by (simp add: claim_request_def json_simps store1_def sample_owner_def Let_def sample_candidate_def)
  then show ?thesis by (simp add: config_fetch_def Let_def claim_request_def)
qed

lemma run2: "config_fetch sample_crypto 2000 (sample_draws 2) challenge_request store1
    = (ChallengeIssued (ch_id sample_challenge) (ch_nonce sample_challenge) 92000 1, store2)"
proof -
  have "new_challenge 2000 (sample_draws 2) (readAuthValues store1) sample_owner = sample_challenge"
    by (simp add: new_challenge_def sample_challenge_def sample_draws_def run_values CHALLENGE_TTL_MS_def)
  then show ?thesis
    by (simp add: config_fetch_def Let_def challenge_request_def challenge_def json_simps run_values find_active_def store2_def
        cleanup_def last_n_def MAX_SESSIONS_def) (simp add: sample_challenge_def)
qed

lemma run3: "config_fetch sample_crypto 3000 (sample_draws 3) session_request store2
    = (SessionIssued (randomBase64Url (replicate 32 3)) 303000 sample_id Owner 1, store3)"
proof -
  have new: "new_session sample_crypto 3000 (sample_draws 3) (readAuthValues store2) sample_owner = sample_session"
    by (simp add: new_session_def sample_session_def sample_draws_def run_values SESSION_TTL_MS_def)
  have sig: "signature_ok sample_crypto sample_key (replicate 16 65) (challenge_message sample_challenge 1)"
    by (simp add: signature_ok_def sample_crypto_def base64UrlToBytes_def base64url_value_def BASE64URL_ALPHABET_def js_def list_ex_iff)
  have "validId (randomBase64Url (replicate 18 2))"
    using random_id_valid [OF sample_draws_ok, of 2] by (simp add: sample_draws_def)
  then show ?thesis
    using new sig
    by (simp add: config_fetch_def Let_def session_request_def session_def json_simps run_values cleanup_def last_n_def
        MAX_SESSIONS_def store3_def map_device_def) (simp add: sample_challenge_def sample_session_def sample_draws_def)
qed

lemma sample_principal_in:
  "now < 303000 \<Longrightarrow> principal_in sample_crypto now (randomBase64Url (replicate 32 3)) sample_vault (readAuthValues store3)
     = Some (sample_principal, 303000)"
  by (simp add: principal_in_def run_values cleanup_def sameSecretHash_iff) (simp add: sample_session_def sample_principal_def)

lemma run4: "config_fetch sample_crypto 4000 (sample_draws 4) ticket_request store3
    = (TicketIssued (randomBase64Url (replicate 32 4)) 304000 300000, store4)"
proof -
  have new: "new_ticket sample_crypto 4000 (sample_draws 4) sample_principal = sample_ticket"
    by (simp add: new_ticket_def sample_ticket_def sample_draws_def sample_principal_def DEVICE_TICKET_TTL_MS_def)
  have none: "av_tickets (readAuthValues store3) = []" by (simp add: run_values)
  show ?thesis
    by (simp add: config_fetch_def Let_def ticket_request_def issueTicket_def json_simps principalForSession_def sample_principal_in
        none cleanup_def last_n_def MAX_TICKETS_def new store4_def DEVICE_TICKET_TTL_MS_def) (simp add: sample_ticket_def sample_draws_def)
qed

lemma token_length: "length (randomBase64Url (replicate 32 b)) = 43"
  by (simp add: randomBase64Url_def bytesToBase64Url_def length_sextets_eq)

lemma run5: "config_fetch sample_crypto 5000 (sample_draws 5) consume_request store4 = (TicketAccepted sample_principal, store5)"
  by (simp add: config_fetch_def Let_def consume_request_def consumeTicket_def json_simps token_length run_values cleanup_def
      sameSecretHash_iff) (simp add: sample_ticket_def sample_principal_def store5_def)

section \<open>A claim from a browser, and the first device\<close>

definition web_claim_request :: auth_request where
  "web_claim_request = post ''/__kaos/claim''
     [(js ''vaultId'', JsonString sample_vault), (js ''recoverySecretHash'', JsonString sample_hash)]"

definition pair_request :: auth_request where
  "pair_request = post ''/__kaos/auth/pair''
     ([(js ''vaultId'', JsonString sample_vault), (js ''qrSecret'', JsonString (randomBase64Url (replicate 32 6)))] @ device_fields)"

definition sample_pairing :: stored_pairing where
  "sample_pairing = new_pairing sample_crypto 6000 (sample_draws 6) (js ''server_claim'') (15 * 60000) Owner"

definition store6 :: auth_storage where
  "store6 = put_claim 6000 sample_vault sample_hash [] [sample_pairing] (audit_entry 6000 AuditClaimed None None None) (\<lambda>_. None)"

definition paired_owner :: stored_device where
  "paired_owner = new_device sample_vault sample_candidate (fingerprintForKey sample_crypto sample_key) Owner 7000 (Some 7000)"

definition store7 :: auth_storage where
  "store7 = put_list ''authDevices'' device_json [paired_owner] (put_list ''authPairings'' pairing_json []
     (put_list ''authAudit'' audit_json (addAudit (av_audit (readAuthValues store6))
       (audit_entry 7000 AuditDevicePaired (Some (js ''server_claim'')) (Some sample_id) (Some (fingerprintForKey sample_crypto sample_key)))) store6))"

lemma sample_pairing_ok: "pairing_ok sample_pairing"
  unfolding sample_pairing_def by (rule new_pairing_ok [OF sample_crypto_ok sample_draws_ok server_claim_id])

lemma values6: "readAuthValues store6 = claimed_values sample_vault sample_hash [] [sample_pairing] (audit_entry 6000 AuditClaimed None None None)"
  by (simp add: store6_def put_claim_read claimed_values_def sample_pairing_ok audit_ok_def audit_entry_def)

lemma no_device_body: "deviceFromBody cr (request_fields web_claim_request) = None"
  by (simp add: deviceFromBody_def web_claim_request_def json_simps asRecord_def read_valid_def)

lemma run6: "config_fetch sample_crypto 6000 (sample_draws 6) web_claim_request (\<lambda>_. None)
    = (ClaimedWithPairing sample_vault 1 (new_offer (sample_draws 6) sample_pairing), store6)"
proof -
  have "claim sample_crypto 6000 (sample_draws 6) (request_fields web_claim_request) (\<lambda>_. None)
    = (ClaimedWithPairing sample_vault 1 (new_offer (sample_draws 6) sample_pairing), store6)"
    unfolding claim_def no_device_body
    by (simp add: web_claim_request_def json_simps Let_def sample_pairing_def store6_def)
  then show ?thesis by (simp add: config_fetch_def Let_def web_claim_request_def)
qed

lemma run7: "config_fetch sample_crypto 7000 (sample_draws 7) pair_request store6
    = (DevicePaired sample_id Owner (fingerprintForKey sample_crypto sample_key) sample_vault 1, store7)"
proof -
  have body: "deviceFromBody sample_crypto (request_fields pair_request) = Some sample_candidate"
    by (simp add: deviceFromBody_def pair_request_def device_fields_def json_simps asRecord_def sample_candidate_def sample_crypto_def)
  have fields: "field ''vaultId'' (request_fields pair_request) = Some (JsonString sample_vault)"
    "field ''qrSecret'' (request_fields pair_request) = Some (JsonString (randomBase64Url (replicate 32 6)))"
    by (simp_all add: pair_request_def device_fields_def json_simps)
  have secret: "read_nonempty (field ''qrSecret'' (request_fields pair_request)) = Some (randomBase64Url (replicate 32 6))"
    using token_length [of 6] by (auto simp: fields)
  have chosen: "pairing_matches sample_crypto (Some (randomBase64Url (replicate 32 6))) code sample_pairing" for code
    by (simp add: pairing_matches_def sameSecretHash_iff sample_pairing_def new_pairing_def sample_draws_def)
  have live: "cleanup pr_expiresAt [sample_pairing] 7000 = [sample_pairing]"
    by (simp add: cleanup_def sample_pairing_def new_pairing_def)
  have owner: "pr_role sample_pairing = Some Owner" "pr_createdBy sample_pairing = js ''server_claim''"
    by (simp_all add: sample_pairing_def new_pairing_def)
  have "pair_device sample_crypto 7000 sample_candidate [] sample_pairing store6
    = (DevicePaired sample_id Owner (fingerprintForKey sample_crypto sample_key) sample_vault 1, store7)"
    by (simp add: pair_device_def Let_def values6 claimed_values_def owner active_devices_def MAX_DEVICES_def store7_def paired_owner_def
        sample_candidate_def)
  then have "pair sample_crypto 7000 (request_fields pair_request) store6
    = (DevicePaired sample_id Owner (fingerprintForKey sample_crypto sample_key) sample_vault 1, store7)"
    unfolding pair_def body secret fields(1) by (simp add: Let_def values6 claimed_values_def live chosen)
  then show ?thesis by (simp add: config_fetch_def Let_def pair_request_def)
qed

end
