(* ===== verification/AuthSafety.thy ===== *)
theory AuthSafety
  imports AuthSample
begin

text \<open>
  What device authentication guarantees along any sequence of requests: sessions prove possession of
  a device key, tickets and pairings are used once, the vault keeps an owner, and only an owner, the
  recovery secret or the first device makes owners.  The statements are about the storage the
  handlers leave behind; the proofs run on the specification.
\<close>

section \<open>Histories\<close>

record auth_event =
  ev_now :: int
  ev_request :: auth_request
  ev_before :: auth_values
  ev_response :: auth_response

text \<open>The configuration object from its empty storage on, with the requests it has served.\<close>

inductive auth_reach :: "crypto \<Rightarrow> auth_event list \<Rightarrow> auth_storage \<Rightarrow> bool" for cr where
  reach_empty: "auth_reach cr [] (\<lambda>_. None)"
| reach_request:
    "auth_reach cr h st \<Longrightarrow> draws_ok dw \<Longrightarrow> config_fetch cr now dw rq st = (r, st') \<Longrightarrow>
       auth_reach cr (h @ [\<lparr> ev_now = now, ev_request = rq, ev_before = readAuthValues st, ev_response = r \<rparr>]) st'"

inductive spec_run :: "crypto \<Rightarrow> auth_event list \<Rightarrow> auth_values \<Rightarrow> bool" for cr where
  run_empty: "spec_run cr [] (readAuthValues (\<lambda>_. None))"
| run_request:
    "spec_run cr h v \<Longrightarrow> auth_step cr now rq v r v' \<Longrightarrow> values_ok v' \<Longrightarrow>
       spec_run cr (h @ [\<lparr> ev_now = now, ev_request = rq, ev_before = v, ev_response = r \<rparr>]) v'"

inductive_cases spec_run_snocE: "spec_run cr (h @ [e]) v"

lemma reach_run: "auth_reach cr h st \<Longrightarrow> crypto_ok cr \<Longrightarrow> spec_run cr h (readAuthValues st)"
  by (induction rule: auth_reach.induct) (auto intro!: run_empty run_request config_fetch_refines readAuthValues_ok)

lemma empty_values: "readAuthValues (\<lambda>_. None) =
    \<lparr> av_claimed = False, av_vaultId = [], av_authGeneration = 1, av_recoverySecretHash = None, av_devices = [],
      av_pairings = [], av_challenges = [], av_sessions = [], av_tickets = [], av_audit = [] \<rparr>"
  by (simp add: readAuthValues_def read_generation_def read_valid_def guarded_list_def)

lemma run_ok: "spec_run cr h v \<Longrightarrow> values_ok v"
  by (induction rule: spec_run.induct) (simp_all add: readAuthValues_ok)

text \<open>The concrete runs, as histories.\<close>

definition sample_history :: "auth_event list" where
  "sample_history =
     [\<lparr> ev_now = 1000, ev_request = claim_request, ev_before = readAuthValues (\<lambda>_. None),
         ev_response = ClaimedByDevice sample_id (fingerprintForKey sample_crypto sample_key) 1 sample_vault \<rparr>,
      \<lparr> ev_now = 2000, ev_request = challenge_request, ev_before = readAuthValues store1,
         ev_response = ChallengeIssued (ch_id sample_challenge) (ch_nonce sample_challenge) 92000 1 \<rparr>,
      \<lparr> ev_now = 3000, ev_request = session_request, ev_before = readAuthValues store2,
         ev_response = SessionIssued (randomBase64Url (replicate 32 3)) 303000 sample_id Owner 1 \<rparr>]"

definition ticket_history :: "auth_event list" where
  "ticket_history = sample_history @
     [\<lparr> ev_now = 4000, ev_request = ticket_request, ev_before = readAuthValues store3,
         ev_response = TicketIssued (randomBase64Url (replicate 32 4)) 304000 300000 \<rparr>,
      \<lparr> ev_now = 5000, ev_request = consume_request, ev_before = readAuthValues store4,
         ev_response = TicketAccepted sample_principal \<rparr>]"


lemmas reach_sample = auth_reach.reach_request [OF _ sample_draws_ok]

lemma sample_reach: "auth_reach sample_crypto sample_history store3"
  using reach_sample [OF reach_sample [OF reach_sample [OF reach_empty run1] run2] run3] by (simp add: sample_history_def)

lemma ticket_reach: "auth_reach sample_crypto ticket_history store5"
  using reach_sample [OF reach_sample [OF sample_reach run4] run5] by (simp add: ticket_history_def)


section \<open>Single use\<close>

definition how_many :: "('a \<Rightarrow> bool) \<Rightarrow> 'a list \<Rightarrow> nat" where
  "how_many P xs = length (filter P xs)"

lemma how_many_simps [simp]:
  "how_many P [] = 0" "how_many P (x # xs) = (if P x then 1 else 0) + how_many P xs"
  "how_many P (xs @ ys) = how_many P xs + how_many P ys"
  by (simp_all add: how_many_def)

lemma how_many_last_n: "how_many P (last_n n xs) \<le> how_many P xs"
  unfolding last_n_def
  by (subst (2) append_take_drop_id [of "length xs - n" xs, symmetric]) (simp only: how_many_simps le_add2)

lemma how_many_filter: "how_many P (filter Q xs) \<le> how_many P xs"
  by (induction xs) auto

lemma how_many_cleanup: "how_many P (cleanup f xs now) \<le> how_many P xs"
  by (simp add: cleanup_def how_many_filter)

lemma how_many_remove_found: "how_many P (remove_found Q xs) \<le> how_many P xs"
  by (induction xs) auto

lemma remove_found_counts:
  "List.find Q xs = Some x \<Longrightarrow> P x \<Longrightarrow> how_many P (remove_found Q xs) + 1 = how_many P xs"
  by (induction xs) (auto split: if_splits)

lemmas how_many_bounds = how_many_last_n how_many_cleanup how_many_remove_found

text \<open>A ticket with this hash is handed out, or admits a socket.\<close>

definition ticket_issued :: "crypto \<Rightarrow> jsstr \<Rightarrow> auth_event \<Rightarrow> bool" where
  "ticket_issued cr x e = (case ev_response e of TicketIssued t until ttl \<Rightarrow> hashOpaque cr t = x | _ \<Rightarrow> False)"

definition ticket_admitted :: "crypto \<Rightarrow> jsstr \<Rightarrow> auth_event \<Rightarrow> bool" where
  "ticket_admitted cr x e =
     ((case ev_response e of TicketAccepted p \<Rightarrow> True | _ \<Rightarrow> False)
      \<and> map_option (hashOpaque cr) (presented ''ticket'' (ev_request e)) = Some x)"

lemma tickets_counted:
  assumes "spec_run cr h v"
  shows "how_many (ticket_admitted cr x) h + how_many (\<lambda>t. tk_hash t = x) (av_tickets v) \<le> how_many (ticket_issued cr x) h"
  using assms
proof (induction rule: spec_run.induct)
  case run_empty
  then show ?case by (simp add: empty_values)
next
  case (run_request h v now rq r v')
  let ?n = "how_many (\<lambda>t. tk_hash t = x)"
  have shrink: "?n (remove_found Q (cleanup tk_expiresAt ts now)) \<le> ?n ts" for Q ts
    by (rule order_trans [OF how_many_remove_found how_many_cleanup])
  from run_request.hyps(2) run_request.IH show ?case
  proof cases
    case (step_ticket_issued s vaultId p e t ticket)
    have "?n (last_n MAX_TICKETS (cleanup tk_expiresAt (av_tickets v) now @ [t])) \<le> ?n (av_tickets v) + (if tk_hash t = x then 1 else 0)"
      using how_many_last_n [of "\<lambda>t. tk_hash t = x" MAX_TICKETS "cleanup tk_expiresAt (av_tickets v) now @ [t]"]
        how_many_cleanup [of "\<lambda>t. tk_hash t = x" tk_expiresAt "av_tickets v" now] by simp
    then show ?thesis
      using step_ticket_issued run_request.IH by (auto simp: ticket_issued_def ticket_admitted_def)
  next
    case (step_ticket_refused raw selected)
    then show ?thesis
      using run_request.IH shrink [of selected "av_tickets v"] by (simp add: ticket_issued_def ticket_admitted_def)
  next
    case (step_ticket_accepted raw selected t d)
    have "tk_hash t = hashOpaque cr raw"
      using step_ticket_accepted(5,4) by (auto simp: sameSecretHash_iff dest: found_in)
    then have "hashOpaque cr raw = x \<Longrightarrow> ?n (av_tickets v') + 1 \<le> ?n (av_tickets v)"
      using remove_found_counts [OF step_ticket_accepted(5), of "\<lambda>t. tk_hash t = x"]
        how_many_cleanup [of "\<lambda>t. tk_hash t = x" tk_expiresAt "av_tickets v" now] step_ticket_accepted(2) by simp
    then show ?thesis
      using step_ticket_accepted run_request.IH shrink [of selected "av_tickets v"]
      by (auto simp: ticket_issued_def ticket_admitted_def)
  qed (use run_request.IH shrink in \<open>auto simp: ticket_issued_def ticket_admitted_def note_audit_def next_generation_def
        claimed_values_def intro: order_trans elim!: quiet.elims\<close>)
qed

text \<open>
  C6: A ticket opens at most one socket.  Along any sequence of requests, the tickets with a given
  hash are accepted at most as often as tickets with that hash were issued, whatever is presented,
  replayed or expired in between.\<close>

theorem tickets_are_single_use:
  assumes "auth_reach cr h st" "crypto_ok cr"
  shows "how_many (ticket_admitted cr x) h \<le> how_many (ticket_issued cr x) h"
  using tickets_counted [OF reach_run [OF assms], of x] by simp

theorem tickets_are_single_use_witness:
  "how_many (ticket_admitted sample_crypto (hashOpaque sample_crypto (randomBase64Url (replicate 32 4)))) ticket_history = 1
   \<and> 1 \<le> how_many (ticket_issued sample_crypto (hashOpaque sample_crypto (randomBase64Url (replicate 32 4)))) ticket_history"
proof -
  have "how_many (ticket_admitted sample_crypto (hashOpaque sample_crypto (randomBase64Url (replicate 32 4)))) ticket_history = 1"
    by (simp add: ticket_history_def sample_history_def ticket_admitted_def presented_def consume_request_def json_simps)
  then show ?thesis
    using tickets_are_single_use [OF ticket_reach sample_crypto_ok, of "hashOpaque sample_crypto (randomBase64Url (replicate 32 4))"]
    by simp
qed




lemma unclaimed_empty:
  assumes "spec_run cr h v"
  shows "\<not> av_claimed v \<Longrightarrow> av_devices v = [] \<and> av_pairings v = [] \<and> av_sessions v = [] \<and> av_tickets v = []"
  using assms
proof (induction rule: spec_run.induct)
  case run_empty
  then show ?case by (simp add: empty_values)
next
  case (run_request h v now rq r v')
  from run_request.hyps(2) run_request.prems show ?case
    by cases (use run_request.IH in \<open>auto simp: note_audit_def next_generation_def claimed_values_def cleanup_def owner_in_def
        elim: principal_fields\<close>)
qed







section \<open>Sessions\<close>

text \<open>The response ends the sessions that exist.\<close>

fun revokes :: "auth_response \<Rightarrow> bool" where
  "revokes (DeviceRevoked d g) = True"
| "revokes (Recovered d g) = True"
| "revokes (ClaimedByDevice d fp g v) = True"
| "revokes (ClaimedWithPairing v g offer) = True"
| "revokes _ = False"

text \<open>
  A request to rename whose name, trimmed, has no control character: any other new name makes the
  renamed device unreadable, see \<open>control_character_removes_device\<close>.
\<close>

definition rename_clean :: "auth_request \<Rightarrow> bool" where
  "rename_clean rq = (case presented ''deviceName'' rq of None \<Rightarrow> True | Some raw \<Rightarrow> \<not> list_ex control_char (trim raw))"

lemma clean_name:
  "rename_clean rq \<Longrightarrow> presented ''deviceName'' rq = Some raw \<Longrightarrow> trim raw \<noteq> [] \<Longrightarrow> length (trim raw) \<le> 64 \<Longrightarrow> validName (trim raw)"
  using trim_trim [of raw] by (simp add: rename_clean_def validName_def Suc_le_eq)

text \<open>The event issued the session: the device signed a live challenge with the key \<open>k\<close>.\<close>

definition session_signed :: "crypto \<Rightarrow> auth_event \<Rightarrow> stored_session \<Rightarrow> public_key \<Rightarrow> bool" where
  "session_signed cr e s k \<longleftrightarrow>
     (\<exists>token role sig c.
        ev_response e = SessionIssued token (ss_expiresAt s) (ss_deviceId s) role (av_authGeneration (ev_before e))
        \<and> hashOpaque cr token = ss_hash s \<and> ss_expiresAt s = of_int (ev_now e + SESSION_TTL_MS)
        \<and> presented ''signature'' (ev_request e) = Some sig
        \<and> c \<in> set (av_challenges (ev_before e)) \<and> ch_deviceId c = ss_deviceId s \<and> of_int (ev_now e) < ch_expiresAt c
        \<and> signature_ok cr k sig (challenge_message c (av_authGeneration (ev_before e))))"

text \<open>The session stands: issued since the last revocation, for a device that is active with that key.\<close>

definition session_backed :: "crypto \<Rightarrow> auth_event list \<Rightarrow> auth_values \<Rightarrow> stored_session \<Rightarrow> bool" where
  "session_backed cr h v s \<longleftrightarrow>
     (\<exists>h1 e h2 d. h = h1 @ e # h2 \<and> list_all (\<lambda>e. \<not> revokes (ev_response e)) h2 \<and> session_signed cr e s (dv_publicKey d)
        \<and> List.find (\<lambda>d. dv_id d = ss_deviceId s) (av_devices v) = Some d \<and> dv_status d = Active)"

lemma find_map_device:
  assumes "\<And>d. dv_id (f d) = dv_id d"
  shows "List.find (\<lambda>d. dv_id d = i) (map_device j f ds)
    = map_option (\<lambda>d. if dv_id d = j then f d else d) (List.find (\<lambda>d. dv_id d = i) ds)"
  by (induction ds) (auto simp: map_device_def assms)

lemma map_device_source: "d \<in> set (map_device j f ds) \<Longrightarrow> \<exists>e\<in>set ds. d = (if dv_id e = j then f e else e)"
  by (auto simp: map_device_def)

lemma ids_map_device:
  assumes "\<And>d. dv_id (f d) = dv_id d"
  shows "map dv_id (map_device j f ds) = map dv_id ds"
  by (induction ds) (auto simp: map_device_def assms)

lemma find_paired:
  "List.find (\<lambda>e. dv_id e = i) (paired_devices d ds) = (if i = dv_id d then Some d else List.find (\<lambda>e. dv_id e = i) ds)"
proof -
  have "List.find (\<lambda>e. dv_id e = i) (map_device (dv_id d) (\<lambda>_. d) ds) =
      (if i = dv_id d \<and> List.find (\<lambda>e. dv_id e = dv_id d) ds \<noteq> None then Some d else List.find (\<lambda>e. dv_id e = i) ds)"
    by (induction ds) (auto simp: map_device_def)
  moreover have "List.find (\<lambda>e. dv_id e = i) (ds @ [d]) =
      (case List.find (\<lambda>e. dv_id e = i) ds of None \<Rightarrow> if dv_id d = i then Some d else None | Some e \<Rightarrow> Some e)"
    by (induction ds) auto
  ultimately show ?thesis by (auto simp: paired_devices_def split: option.splits)
qed

lemma ids_paired:
  assumes "distinct (map dv_id ds)"
  shows "distinct (map dv_id (paired_devices d ds))"
proof -
  have "map dv_id (map_device (dv_id d) (\<lambda>_. d) ds) = map dv_id ds"
    by (induction ds) (auto simp: map_device_def)
  then show ?thesis using assms by (auto simp: paired_devices_def find_None_iff)
qed

lemma ids_last_n: "distinct (map f xs) \<Longrightarrow> distinct (map f (last_n n xs))"
  by (simp add: last_n_def drop_map [symmetric] distinct_drop)

lemma ids_recovered:
  assumes "distinct (map dv_id ds)"
  shows "distinct (map dv_id (recovered_devices now d ds))"
proof -
  let ?f = "\<lambda>d :: stored_device. if dv_status d = Revoked then d else d\<lparr> dv_status := Revoked, dv_revokedAt := Some (rat_of_int now) \<rparr>"
  have "dv_id \<circ> ?f = dv_id" by (rule ext) simp
  then have "distinct (map dv_id (map ?f (filter (\<lambda>e. dv_id e \<noteq> dv_id d) ds) @ [d]))"
    using assms by (auto simp: distinct_map_filter)
  then show ?thesis unfolding recovered_devices_def by (rule ids_last_n)
qed

lemma find_device_by_id:
  assumes "distinct (map dv_id ds)" "d \<in> set ds"
  shows "List.find (\<lambda>e. dv_id e = dv_id d) ds = Some d"
  using assms by (induction ds) (auto simp: rev_image_eqI)

lemma clean_rename_devices:
  assumes "values_ok v" "validName n"
  shows "filter device_ok (map_device i (\<lambda>d. d\<lparr> dv_name := n \<rparr>) (av_devices v)) = map_device i (\<lambda>d. d\<lparr> dv_name := n \<rparr>) (av_devices v)"
  using assms(2) by (intro filter_all map_device_all values_okD(3) [OF assms(1)]) simp

lemma distinct_ids:
  assumes "spec_run cr h v"
  shows "distinct (map dv_id (av_devices v))"
  using assms
proof (induction rule: spec_run.induct)
  case run_empty
  then show ?case by (simp add: empty_values)
next
  case (run_request h v now rq r v')
  from run_request.hyps(2) run_request.IH show ?case
    by cases (auto simp: note_audit_def next_generation_def claimed_values_def ids_map_device ids_paired ids_recovered
        intro!: distinct_map_filter)
qed

lemma session_backed_later:
  assumes "session_backed cr h v s" "\<not> revokes r"
    and "\<And>d. List.find (\<lambda>d. dv_id d = ss_deviceId s) (av_devices v) = Some d \<Longrightarrow> dv_status d = Active \<Longrightarrow>
      \<exists>d'. List.find (\<lambda>d. dv_id d = ss_deviceId s) (av_devices v') = Some d' \<and> dv_status d' = Active \<and> dv_publicKey d' = dv_publicKey d"
  shows "session_backed cr (h @ [\<lparr> ev_now = now, ev_request = rq, ev_before = v, ev_response = r \<rparr>]) v' s"
proof -
  obtain h1 e h2 d where h: "h = h1 @ e # h2" "list_all (\<lambda>e. \<not> revokes (ev_response e)) h2"
    and d: "session_signed cr e s (dv_publicKey d)" "List.find (\<lambda>d. dv_id d = ss_deviceId s) (av_devices v) = Some d" "dv_status d = Active"
    using assms(1) by (auto simp: session_backed_def)
  then obtain d' where "List.find (\<lambda>d. dv_id d = ss_deviceId s) (av_devices v') = Some d'" "dv_status d' = Active" "dv_publicKey d' = dv_publicKey d"
    using assms(3) by blast
  then show ?thesis
    using h d assms(2) unfolding session_backed_def
    by (intro exI [of _ h1] exI [of _ e] exI [of _ "h2 @ [_]"] exI [of _ d']) auto
qed

lemma sessions_backed:
  assumes "spec_run cr h v" "list_all (\<lambda>e. rename_clean (ev_request e)) h"
  shows "\<forall>s\<in>set (av_sessions v). session_backed cr h v s"
  using assms
proof (induction rule: spec_run.induct)
  case run_empty
  then show ?case by (simp add: empty_values)
next
  case (run_request h v now rq r v')
  let ?e = "\<lparr> ev_now = now, ev_request = rq, ev_before = v, ev_response = r \<rparr>"
  have IH: "session_backed cr h v s" if "s \<in> set (av_sessions v)" for s
    using run_request that by simp
  have clean: "rename_clean rq" using run_request.prems by simp
  note ok = run_ok [OF run_request.hyps(1)] and ids = distinct_ids [OF run_request.hyps(1)]
  have same: "session_backed cr (h @ [?e]) v' s" if "s \<in> set (av_sessions v)" "\<not> revokes r" "av_devices v' = av_devices v" for s
    using that by (intro session_backed_later [OF IH]) auto
  have mapped: "session_backed cr (h @ [?e]) v' s"
    if "s \<in> set (av_sessions v)" "\<not> revokes r" "av_devices v' = map_device j f (av_devices v)"
      "\<And>d. dv_id (f d) = dv_id d" "\<And>d. dv_status (f d) = dv_status d" "\<And>d. dv_publicKey (f d) = dv_publicKey d" for s j f
    using that by (intro session_backed_later [OF IH]) (auto simp: find_map_device)
  from run_request.hyps(2) show ?case
  proof cases
    case (step_paired_again c chosen secret code p d)
    then show ?thesis using mapped [where f = "\<lambda>d. d\<lparr> dv_name := dc_name c \<rparr>" and j = "dc_id c"] same by auto
  next
    case (step_paired c chosen secret code p role fp seen e)
    show ?thesis
    proof
      fix s
      assume "s \<in> set (av_sessions v')"
      then have s: "s \<in> set (av_sessions v)" using step_paired by (simp add: note_audit_def)
      show "session_backed cr (h @ [?e]) v' s"
        using step_paired s by (intro session_backed_later [OF IH]) (auto simp: note_audit_def find_paired)
    qed
  next
    case (step_session sig c d s token)
    show ?thesis
    proof
      fix s'
      assume "s' \<in> set (av_sessions v')"
      then have "s' \<in> set (av_sessions v) \<or> s' = s"
        using step_session(2) set_last_n [of MAX_SESSIONS "cleanup ss_expiresAt (av_sessions v) now @ [s]"]
          set_cleanup [of ss_expiresAt "av_sessions v" now] by auto
      then show "session_backed cr (h @ [?e]) v' s'"
      proof
        assume "s' = s"
        have d: "d \<in> set (av_devices v)" "dv_id d = ch_deviceId c" "dv_status d = Active"
          using found_in [OF step_session(7)] by auto
        have "List.find (\<lambda>d. dv_id d = ss_deviceId s) (av_devices v') = Some (d\<lparr> dv_lastSeenAt := Some (of_int now) \<rparr>)"
          using step_session find_device_by_id [OF ids d(1)] by (simp add: find_map_device)
        moreover have "session_signed cr ?e s (dv_publicKey d)"
          using step_session d by (auto simp: session_signed_def cleanup_def)
        ultimately show ?thesis
          using d(3) \<open>s' = s\<close> unfolding session_backed_def
          by (intro exI [of _ h] exI [of _ ?e] exI [of _ "[]"] exI [of _ "d\<lparr> dv_lastSeenAt := Some (of_int now) \<rparr>"]) auto
      next
        assume "s' \<in> set (av_sessions v)"
        then show ?thesis
          using step_session by (intro mapped [where f = "\<lambda>d. d\<lparr> dv_lastSeenAt := Some (of_int now) \<rparr>" and j = "dv_id d"]) auto
      qed
    qed
  next
    case (step_renamed s vaultId p ex d i raw e)
    have "av_devices v' = map_device (dv_id d) (\<lambda>d. d\<lparr> dv_name := trim raw \<rparr>) (av_devices v)"
      using step_renamed clean_rename_devices [OF ok clean_name [OF clean]] by (simp add: note_audit_def)
    then show ?thesis
      using step_renamed mapped [where f = "\<lambda>d. d\<lparr> dv_name := trim raw \<rparr>" and j = "dv_id d"] by (auto simp: note_audit_def)
  qed (use same in \<open>auto simp: note_audit_def next_generation_def claimed_values_def elim!: quiet.elims\<close>)
qed

text \<open>
  C5: A session is worth what its signature was.  Whoever presents a session token that the server
  accepts, the token was issued to the device it stands for: earlier in the history that device
  answered a challenge of its own, still live at that moment, with a signature that verifies under
  the key the device has now; no revocation, recovery or claim came after it; the device is active,
  in its present role, and the session has not expired.  (No renaming on the way gave a device a
  name with control characters.)\<close>

theorem sessions_prove_possession:
  assumes "auth_reach cr h st" "crypto_ok cr" "list_all (\<lambda>e. rename_clean (ev_request e)) h"
    and "principalForSession cr now token vaultId st = Some (p, until)"
  shows "\<exists>h1 e h2 t role d c sig.
    h = h1 @ e # h2 \<and> list_all (\<lambda>e. \<not> revokes (ev_response e)) h2
    \<and> ev_response e = SessionIssued t until (dp_deviceId p) role (av_authGeneration (ev_before e))
    \<and> hashOpaque cr t = hashOpaque cr token
    \<and> of_int now < until \<and> until = of_int (ev_now e + SESSION_TTL_MS)
    \<and> c \<in> set (av_challenges (ev_before e)) \<and> ch_deviceId c = dp_deviceId p \<and> of_int (ev_now e) < ch_expiresAt c
    \<and> presented ''signature'' (ev_request e) = Some sig
    \<and> signature_ok cr (dv_publicKey d) sig (challenge_message c (av_authGeneration (ev_before e)))
    \<and> d \<in> set (av_devices (readAuthValues st)) \<and> dv_id d = dp_deviceId p \<and> dv_status d = Active \<and> dv_role d = dp_role p"
proof -
  obtain s d where s: "s \<in> set (cleanup ss_expiresAt (av_sessions (readAuthValues st)) now)" "ss_hash s = hashOpaque cr token"
    "List.find (\<lambda>d. dv_id d = ss_deviceId s) (av_devices (readAuthValues st)) = Some d" "until = ss_expiresAt s"
    "p = \<lparr> dp_deviceId = dv_id d, dp_vaultId = dv_vaultId d, dp_role = dv_role d, dp_authGeneration = av_authGeneration (readAuthValues st) \<rparr>"
    using assms(4) unfolding principalForSession_def by (rule principal_fields)
  have "session_backed cr h (readAuthValues st) s"
    using sessions_backed [OF reach_run [OF assms(1,2)] assms(3)] s(1) by (auto simp: cleanup_def)
  then obtain h1 e h2 where "h = h1 @ e # h2" "list_all (\<lambda>e. \<not> revokes (ev_response e)) h2"
    "session_signed cr e s (dv_publicKey d)" "dv_status d = Active"
    using s(3) by (auto simp: session_backed_def)
  then show ?thesis
    using s found_in [OF s(3)] unfolding session_signed_def
    by (intro exI [of _ h1] exI [of _ e] exI [of _ h2]) (auto simp: cleanup_def)
qed

lemma sample_clean: "list_all (\<lambda>e. rename_clean (ev_request e)) sample_history"
  by (simp add: sample_history_def rename_clean_def presented_def claim_request_def challenge_request_def session_request_def json_simps)

theorem sessions_prove_possession_witness:
  "\<exists>e d sig c. e \<in> set sample_history \<and> d \<in> set (av_devices (readAuthValues store3)) \<and> dv_id d = sample_id
     \<and> ev_response e = SessionIssued (randomBase64Url (replicate 32 3)) 303000 sample_id Owner 1
     \<and> signature_ok sample_crypto (dv_publicKey d) sig (challenge_message c 1)"
proof -
  have "principalForSession sample_crypto 4000 (randomBase64Url (replicate 32 3)) sample_vault store3 = Some (sample_principal, 303000)"
    by (simp add: principalForSession_def sample_principal_in)
  from sessions_prove_possession [OF sample_reach sample_crypto_ok sample_clean this]
  obtain h1 e h2 t role d c sig where e: "sample_history = h1 @ e # h2"
    "ev_response e = SessionIssued t 303000 (dp_deviceId sample_principal) role (av_authGeneration (ev_before e))"
    and d: "signature_ok sample_crypto (dv_publicKey d) sig (challenge_message c (av_authGeneration (ev_before e)))"
    "d \<in> set (av_devices (readAuthValues store3))" "dv_id d = dp_deviceId sample_principal" by blast
  have member: "e \<in> set sample_history" unfolding e(1) by simp
  then have "ev_response e = SessionIssued (randomBase64Url (replicate 32 3)) 303000 sample_id Owner 1 \<and> av_authGeneration (ev_before e) = 1"
    using e(2) by (auto simp: sample_history_def run_values)
  then show ?thesis using member d by (auto simp: sample_principal_def)
qed

section \<open>Owners\<close>

text \<open>The response admits a device as one of the vault's.\<close>

fun admits :: "auth_response \<Rightarrow> bool" where
  "admits (ClaimedByDevice d fp g v) = True"
| "admits (Recovered d g) = True"
| "admits (DevicePaired d role fp v g) = True"
| "admits _ = False"

definition active_owner :: "jsstr \<Rightarrow> auth_values \<Rightarrow> bool" where
  "active_owner i v \<longleftrightarrow> (\<exists>d\<in>set (av_devices v). dv_id d = i \<and> dv_status d = Active \<and> dv_role d = Owner)"

lemma active_owners_iff: "active_owners (av_devices v) \<noteq> [] \<longleftrightarrow> (\<exists>i. active_owner i v)"
  by (auto simp: active_owners_def active_owner_def filter_empty_conv)

lemma active_owner_set:
  "active_owner i (v\<lparr> av_devices := ds \<rparr>) \<longleftrightarrow> (\<exists>d\<in>set ds. dv_id d = i \<and> dv_status d = Active \<and> dv_role d = Owner)"
  by (simp add: active_owner_def)

lemma active_owner_cong: "av_devices v' = av_devices v \<Longrightarrow> active_owner i v' = active_owner i v"
  by (simp add: active_owner_def)

lemma active_owner_mapped:
  assumes "av_devices v' = map_device j f (av_devices v)"
    "\<And>d. dv_id (f d) = dv_id d" "\<And>d. dv_status (f d) = dv_status d" "\<And>d. dv_role (f d) = dv_role d"
  shows "active_owner i v' = active_owner i v"
  unfolding active_owner_def assms(1) map_device_def set_map bex_simps
  by (intro bex_cong refl) (simp add: assms(2-4))

lemma active_ownerI: "d \<in> set (av_devices v) \<Longrightarrow> dv_status d = Active \<Longrightarrow> dv_role d = Owner \<Longrightarrow> \<exists>i. active_owner i v"
  by (auto simp: active_owner_def)

lemma set_recovered:
  assumes "e \<in> set (recovered_devices now d ds)"
  shows "e = d \<or> dv_status e = Revoked"
  using subsetD [OF set_last_n assms [unfolded recovered_devices_def]] by auto

lemma recovered_owner: "d \<in> set (recovered_devices now d ds)"
  by (simp add: recovered_devices_def last_n_def MAX_DEVICES_def)

lemma active_owner_recovered:
  assumes "av_devices v' = recovered_devices now d (av_devices v)" "dv_status d = Active" "dv_role d = Owner"
  shows "active_owner i v' \<longleftrightarrow> i = dv_id d"
proof -
  have "e = d" if "e \<in> set (recovered_devices now d (av_devices v))" "dv_status e = Active" for e
    using set_recovered [OF that(1)] that(2) by auto
  then show ?thesis
    unfolding active_owner_def assms(1) using assms(2,3) recovered_owner [of d now "av_devices v"] by metis
qed

lemma other_owner:
  assumes "distinct (map dv_id ds)" "\<not> length (active_owners ds) \<le> 1"
  shows "\<exists>e\<in>set ds. dv_id e \<noteq> i \<and> dv_status e = Active \<and> dv_role e = Owner"
proof -
  obtain a b rest where ab: "active_owners ds = a # b # rest"
    using assms(2) by (cases "active_owners ds" rule: remdups_adj.cases) auto
  have "distinct (map dv_id (active_owners ds))"
    unfolding active_owners_def using assms(1) by (rule distinct_map_filter)
  then have "dv_id a \<noteq> dv_id b" using ab by simp
  moreover have "a \<in> set (active_owners ds)" "b \<in> set (active_owners ds)" using ab by simp_all
  ultimately show ?thesis
    by (intro bexI [of _ "if dv_id a = i then b else a"]) (auto simp: active_owners_def)
qed

text \<open>One step: an owner stays, and a step that admits a device leaves an owner.\<close>

lemma step_keeps_owner:
  assumes "spec_run cr h v" "auth_step cr now rq v r v'" "rename_clean rq" "(\<exists>i. active_owner i v) \<or> admits r"
  shows "\<exists>i. active_owner i v'"
proof -
  note ok = run_ok [OF assms(1)] and ids = distinct_ids [OF assms(1)]
  have same: "\<exists>i. active_owner i v'" if "\<not> admits r" "av_devices v' = av_devices v"
    using assms(4) that(1) active_owner_cong [OF that(2)] by blast
  have mapped: "\<exists>i. active_owner i v'" if "\<not> admits r" "av_devices v' = map_device j f (av_devices v)"
    "\<And>d. dv_id (f d) = dv_id d" "\<And>d. dv_status (f d) = dv_status d" "\<And>d. dv_role (f d) = dv_role d" for j f
    using assms(4) that(1) active_owner_mapped [OF that(2-5)] by blast
  from assms(2) show ?thesis
  proof cases
    case (step_recovered c owner fp e h)
    then show ?thesis using active_owner_recovered [of v' now owner v] by (simp add: note_audit_def next_generation_def)
  next
    case (step_paired_again c chosen secret code p d)
    then show ?thesis using mapped [where f = "\<lambda>d. d\<lparr> dv_name := dc_name c \<rparr>" and j = "dc_id c"] same by auto
  next
    case (step_paired c chosen secret code p role fp e seen)
    let ?d = "new_device (av_vaultId v) c fp role now seen"
    show ?thesis
    proof (cases "\<exists>i. active_owner i v")
      case True
      then obtain o' where owner: "o' \<in> set (av_devices v)" "dv_status o' = Active" "dv_role o' = Owner"
        by (auto simp: active_owner_def)
      then have "dv_id o' \<noteq> dc_id c"
        using step_paired(7) find_device_by_id [OF ids owner(1)] by auto
      then have "o' \<in> set (paired_devices ?d (av_devices v))"
        using owner(1) by (auto simp: paired_devices_def map_device_def image_iff)
      then show ?thesis using owner(2,3) by (intro active_ownerI [of o']) (simp_all add: step_paired(2) note_audit_def)
    next
      case False
      then have "role = Owner" using step_paired(8) active_owners_iff [of v] by auto
      moreover have "List.find (\<lambda>e. dv_id e = dc_id c) (paired_devices ?d (av_devices v)) = Some ?d"
        by (simp add: find_paired)
      ultimately show ?thesis
        by (intro active_ownerI [of ?d]) (auto simp: step_paired(2) note_audit_def dest!: found_in)
    qed
  next
    case (step_session sig c d s token)
    then show ?thesis using mapped [where f = "\<lambda>d. d\<lparr> dv_lastSeenAt := Some (of_int now) \<rparr>" and j = "dv_id d"] by auto
  next
    case (step_role p i d role e)
    show ?thesis
    proof (cases "dv_role d = Owner")
      case True
      then obtain o' where "o' \<in> set (av_devices v)" "dv_id o' \<noteq> dv_id d" "dv_status o' = Active" "dv_role o' = Owner"
        using other_owner [OF ids, of "dv_id d"] step_role by blast
      then show ?thesis
        using step_role by (auto simp: note_audit_def next_generation_def active_owner_def map_device_def image_iff)
    next
      case False
      obtain o' where o': "o' \<in> set (av_devices v)" "dv_status o' = Active" "dv_role o' = Owner"
        using assms(4) step_role(1) by (auto simp: active_owner_def)
      have "dv_id o' \<noteq> dv_id d"
        using False o' find_device_by_id [OF ids o'(1)] find_device_by_id [OF ids] found_in step_role(4) unfolding find_active_def
        by (metis option.inject)
      then show ?thesis
        using step_role o' by (auto simp: note_audit_def next_generation_def active_owner_def map_device_def image_iff)
    qed
  next
    case (step_revoked p i d e)
    show ?thesis
    proof (cases "dv_role d = Owner")
      case True
      then obtain o' where "o' \<in> set (av_devices v)" "dv_id o' \<noteq> dv_id d" "dv_status o' = Active" "dv_role o' = Owner"
        using other_owner [OF ids, of "dv_id d"] step_revoked by blast
      then show ?thesis
        using step_revoked by (auto simp: note_audit_def next_generation_def active_owner_def map_device_def image_iff)
    next
      case False
      obtain o' where o': "o' \<in> set (av_devices v)" "dv_status o' = Active" "dv_role o' = Owner"
        using assms(4) step_revoked(1) by (auto simp: active_owner_def)
      have "dv_id o' \<noteq> dv_id d"
        using False o' find_device_by_id [OF ids o'(1)] find_device_by_id [OF ids] found_in step_revoked(4) unfolding find_active_def
        by (metis option.inject)
      then show ?thesis
        using step_revoked o' by (auto simp: note_audit_def next_generation_def active_owner_def map_device_def image_iff)
    qed
  next
    case (step_renamed s vaultId p ex d i raw e)
    have "av_devices v' = map_device (dv_id d) (\<lambda>d. d\<lparr> dv_name := trim raw \<rparr>) (av_devices v)"
      using step_renamed clean_rename_devices [OF ok clean_name [OF assms(3)]] by (simp add: note_audit_def)
    then show ?thesis
      using step_renamed mapped [where f = "\<lambda>d. d\<lparr> dv_name := trim raw \<rparr>" and j = "dv_id d"] by auto
  qed (use same assms(4) unclaimed_empty [OF assms(1)] in
      \<open>auto simp: note_audit_def active_owner_def claimed_values_def elim!: quiet.elims\<close>)
qed

lemma owner_present:
  assumes "spec_run cr h v" "list_all (\<lambda>e. rename_clean (ev_request e)) h" "list_ex (\<lambda>e. admits (ev_response e)) h"
  shows "\<exists>i. active_owner i v"
  using assms
proof (induction rule: spec_run.induct)
  case (run_request h v now rq r v')
  then show ?case
    by (intro step_keeps_owner [OF run_request.hyps(1,2)]) auto
qed simp

text \<open>
  C7: A vault is never left without an owner.  From the first device that was admitted (by the
  claim, by a pairing or by recovery) on, some active device is an owner after every sequence of
  demotions, revocations, pairings and recoveries.  (No renaming gave a device a name with control
  characters; see \<open>control_character_removes_device\<close> for what happens otherwise.)\<close>

theorem vault_keeps_an_owner:
  assumes "auth_reach cr h st" "crypto_ok cr" "list_all (\<lambda>e. rename_clean (ev_request e)) h"
    and "list_ex (\<lambda>e. admits (ev_response e)) h"
  shows "active_owners (av_devices (readAuthValues st)) \<noteq> []"
  unfolding active_owners_iff by (rule owner_present [OF reach_run [OF assms(1,2)] assms(3,4)])

theorem vault_keeps_an_owner_witness: "active_owners (av_devices (readAuthValues store3)) \<noteq> []"
  by (rule vault_keeps_an_owner [OF sample_reach sample_crypto_ok sample_clean]) (simp add: sample_history_def)

lemma step_makes_owner:
  assumes "auth_step cr now rq v r v'" "active_owner i v'" "\<not> active_owner i v"
  shows "(\<exists>fp vaultId. r = ClaimedByDevice i fp 1 vaultId \<and> \<not> av_claimed v)
    \<or> (\<exists>g. r = Recovered i g \<and> field ''recoveryVerified'' (request_fields rq) = Some (JsonBool True))
    \<or> (\<exists>fp vaultId g p. r = DevicePaired i Owner fp vaultId g \<and> p \<in> set (av_pairings v) \<and> of_int now < pr_expiresAt p
         \<and> (pr_role p = Some Owner \<or> active_owners (av_devices v) = []))
    \<or> (\<exists>g p. r = RoleChanged i Owner g \<and> owner_in cr now rq v p)"
proof -
  have mapped: "False" if "av_devices v' = map_device j f (av_devices v)"
    "\<And>d. dv_id (f d) = dv_id d" "\<And>d. dv_status (f d) = dv_status d" "\<And>d. dv_role (f d) = dv_role d" for j f
    using assms(2,3) active_owner_mapped [OF that] by blast
  have same: "av_devices v' \<noteq> av_devices v" using assms(2,3) active_owner_cong by blast
  from assms(1) show ?thesis
  proof cases
    case (step_claimed_device vaultId c fp seen h e)
    then show ?thesis using assms(2) by (auto simp: active_owner_def claimed_values_def)
  next
    case (step_recovered c owner fp h e)
    have "i = dc_id c"
      using active_owner_recovered [of v' now owner v i] assms(2) step_recovered
      by (simp add: note_audit_def next_generation_def)
    then show ?thesis using step_recovered by blast
  next
    case (step_paired_again c chosen secret code p d)
    then show ?thesis
      using mapped [where f = "\<lambda>d. d\<lparr> dv_name := dc_name c \<rparr>" and j = "dc_id c"] same by (auto split: if_splits)
  next
    case (step_paired c chosen secret code p role fp e seen)
    let ?d = "new_device (av_vaultId v) c fp role now seen"
    obtain d where d: "d \<in> set (paired_devices ?d (av_devices v))" "dv_id d = i" "dv_status d = Active" "dv_role d = Owner"
      using assms(2) step_paired(2) by (auto simp: note_audit_def active_owner_def)
    then have "d = ?d \<or> d \<in> set (av_devices v)"
      by (auto simp: paired_devices_def map_device_def split: if_splits)
    then have "d = ?d" using assms(3) d by (auto simp: active_owner_def)
    then have new: "i = dc_id c" "role = Owner" using d by auto
    have "pr_role p = Some Owner \<or> active_owners (av_devices v) = []"
      using step_paired(8) new(2) by (simp split: if_splits)
    moreover have "p \<in> set (av_pairings v)" "of_int now < pr_expiresAt p"
      using found_in [OF step_paired(6)] by (auto simp: cleanup_def)
    ultimately show ?thesis using step_paired(1) unfolding new by blast
  next
    case (step_role p i' d role e)
    obtain e' where e': "e' \<in> set (map_device (dv_id d) (\<lambda>d. d\<lparr> dv_role := role \<rparr>) (av_devices v))"
      "dv_id e' = i" "dv_status e' = Active" "dv_role e' = Owner"
      using assms(2) by (auto simp: step_role(2) note_audit_def next_generation_def active_owner_def)
    from map_device_source [OF e'(1)] obtain d' where "d' \<in> set (av_devices v)"
      "e' = (if dv_id d' = dv_id d then d'\<lparr> dv_role := role \<rparr> else d')" by blast
    then have d': "d' \<in> set (av_devices v)" "dv_id d' = i" "dv_status d' = Active"
      "dv_role d' = Owner \<or> dv_id d' = dv_id d \<and> role = Owner"
      using e'(2-4) by (simp_all split: if_splits)
    then have "i = dv_id d" "role = Owner" using assms(3) by (auto simp: active_owner_def)
    then show ?thesis using step_role(1,3) by blast
  next
    case (step_session sig c d s token)
    then show ?thesis using mapped [where f = "\<lambda>d. d\<lparr> dv_lastSeenAt := Some (of_int now) \<rparr>" and j = "dv_id d"] by auto
  next
    case (step_revoked p i' d e)
    then show ?thesis
      using assms(2,3) by (auto simp: note_audit_def next_generation_def active_owner_def map_device_def split: if_splits)
  next
    case (step_renamed s vaultId p ex d i' raw e)
    then show ?thesis
      using assms(2,3) by (auto simp: note_audit_def active_owner_def map_device_def split: if_splits)
  qed (use same assms(2) in \<open>auto simp: note_audit_def claimed_values_def active_owner_def\<close>)
qed

text \<open>
  C8: Only four things make an owner.  If a request turns a device into an active owner, then it
  claimed the unclaimed server, or it went through recovery with a verified secret, or it used a live
  pairing that is marked for an owner or met a vault without owners, or an active owner, authenticated
  by its session, changed the role.  No member promotes itself, and no other request does.\<close>

theorem only_owners_make_owners:
  assumes "crypto_ok cr" "draws_ok dw" "config_fetch cr now dw rq st = (r, st')"
    and "active_owner i (readAuthValues st')" "\<not> active_owner i (readAuthValues st)"
  shows "(\<exists>fp vaultId. r = ClaimedByDevice i fp 1 vaultId \<and> \<not> av_claimed (readAuthValues st))
    \<or> (\<exists>g. r = Recovered i g \<and> field ''recoveryVerified'' (request_fields rq) = Some (JsonBool True))
    \<or> (\<exists>fp vaultId g p. r = DevicePaired i Owner fp vaultId g
         \<and> p \<in> set (av_pairings (readAuthValues st)) \<and> of_int now < pr_expiresAt p
         \<and> (pr_role p = Some Owner \<or> active_owners (av_devices (readAuthValues st)) = []))
    \<or> (\<exists>g p. r = RoleChanged i Owner g \<and> owner_in cr now rq (readAuthValues st) p)"
  by (rule step_makes_owner [OF config_fetch_refines [OF assms(1-3)] assms(4,5)])

theorem only_owners_make_owners_witness:
  "active_owner sample_id (readAuthValues store7) \<and> \<not> active_owner sample_id (readAuthValues store6)
   \<and> (\<exists>p. p \<in> set (av_pairings (readAuthValues store6)) \<and> 7000 < pr_expiresAt p)"
proof -
  have owner: "active_owner sample_id (readAuthValues store7)" "\<not> active_owner sample_id (readAuthValues store6)"
    by (simp_all add: active_owner_def store7_def values6 claimed_values_def paired_owner_def new_device_ok sample_candidate_ok)
      (simp add: sample_candidate_def)
  show ?thesis
    using only_owners_make_owners [OF sample_crypto_ok sample_draws_ok run7 owner] owner by auto
qed

end
