(* ===== verification/AuthStore.thy ===== *)
theory AuthStore
  imports AuthSafety
begin

text \<open>
  The records in the storage of the configuration object.  What the handlers write is what the
  guards of \<^verbatim>\<open>readAuthValues\<close> let through, so no device, pairing, challenge, session or ticket is
  lost between two requests; with the two exceptions the source has: the audit event of a renaming,
  and a device renamed to a name with a control character.  Then pairing codes as people type them,
  and signatures in base64url.
\<close>

section \<open>Every stored record passes its guard\<close>

definition all_readable :: "(json \<Rightarrow> 'a option) \<Rightarrow> json option \<Rightarrow> bool" where
  "all_readable guard v =
     (case v of None \<Rightarrow> True | Some (JsonArray vs) \<Rightarrow> list_all (\<lambda>x. guard x \<noteq> None) vs | _ \<Rightarrow> False)"

definition store_typed :: "auth_storage \<Rightarrow> bool" where
  "store_typed st \<longleftrightarrow>
     all_readable isDevice (st ''authDevices'') \<and> all_readable isPairing (st ''authPairings'')
     \<and> all_readable isChallenge (st ''authChallenges'') \<and> all_readable isSession (st ''authSessions'')
     \<and> all_readable isTicket (st ''authTickets'')
     \<and> (st ''claimed'' \<noteq> None \<longrightarrow> av_claimed (readAuthValues st))"

lemma all_readable_written:
  assumes "\<And>x. guard (f x) = (if P x then Some x else None)"
  shows "all_readable guard (Some (JsonArray (map f xs))) = list_all P xs"
  by (induction xs) (auto simp: all_readable_def assms)

lemmas readable_written =
  all_readable_written [of isDevice device_json, OF device_read] all_readable_written [of isPairing pairing_json, OF pairing_read]
  all_readable_written [of isChallenge challenge_json, OF challenge_read] all_readable_written [of isSession session_json, OF session_read]
  all_readable_written [of isTicket ticket_json, OF ticket_read]

lemma put_list_key [simp]: "put_list k f xs st k' = (if k' = k then Some (JsonArray (map f xs)) else st k')"
  by (simp add: put_list_def)

lemma put_value_key [simp]: "put_value k v st k' = (if k' = k then Some v else st k')"
  by (simp add: put_value_def)

lemma typed_devices: "store_typed st \<Longrightarrow> list_all device_ok ds \<Longrightarrow> store_typed (put_list ''authDevices'' device_json ds st)"
  by (simp add: store_typed_def readable_written)

lemma typed_pairings: "store_typed st \<Longrightarrow> list_all pairing_ok ps \<Longrightarrow> store_typed (put_list ''authPairings'' pairing_json ps st)"
  by (simp add: store_typed_def readable_written)

lemma typed_challenges: "store_typed st \<Longrightarrow> list_all challenge_ok cs \<Longrightarrow> store_typed (put_list ''authChallenges'' challenge_json cs st)"
  by (simp add: store_typed_def readable_written)

lemma typed_sessions: "store_typed st \<Longrightarrow> list_all session_ok ss \<Longrightarrow> store_typed (put_list ''authSessions'' session_json ss st)"
  by (simp add: store_typed_def readable_written)

lemma typed_tickets: "store_typed st \<Longrightarrow> list_all ticket_ok ts \<Longrightarrow> store_typed (put_list ''authTickets'' ticket_json ts st)"
  by (simp add: store_typed_def readable_written)

lemma typed_audit: "store_typed st \<Longrightarrow> store_typed (put_list ''authAudit'' audit_json es st)"
  by (simp add: store_typed_def)

lemma typed_generation: "store_typed st \<Longrightarrow> store_typed (put_value ''authGeneration'' (json_int g) st)"
  by (simp add: store_typed_def)

lemma typed_recovery: "store_typed st \<Longrightarrow> store_typed (put_value ''recoverySecretHash'' (JsonString h) st)"
  by (simp add: store_typed_def)

lemma typed_no_credentials: "store_typed st \<Longrightarrow> store_typed (put_no_credentials st)"
  by (simp add: put_no_credentials_def typed_sessions typed_tickets typed_challenges)

lemma typed_optional:
  "store_typed st \<Longrightarrow> store_typed (put_optional ''updateProvider'' v st)"
  "store_typed st \<Longrightarrow> store_typed (put_optional ''updateRepoUrl'' v st)"
  "store_typed st \<Longrightarrow> store_typed (put_optional ''updateRepoBranch'' v st)"
  by (simp_all add: store_typed_def) (simp_all add: put_optional_def split: option.splits)

lemmas typed_puts = typed_devices typed_pairings typed_challenges typed_sessions typed_tickets typed_audit
  typed_generation typed_recovery typed_no_credentials typed_optional

lemma typed_claim:
  assumes "store_typed st" "validVaultId vaultId" "validHash h" "list_all device_ok ds" "list_all pairing_ok ps"
  shows "store_typed (put_claim now vaultId h ds ps e st)"
proof -
  have "av_claimed (readAuthValues (put_claim now vaultId h ds ps e st))"
    by (simp add: put_claim_read assms(2,3) claimed_values_def)
  then show ?thesis
    using assms(4,5) by (simp add: store_typed_def put_claim_def put_no_credentials_def readable_written)
      (simp add: all_readable_def)
qed

lemma all_ok_simps:
  "list_all device_ok (av_devices (readAuthValues st))" "list_all pairing_ok (av_pairings (readAuthValues st))"
  "list_all challenge_ok (av_challenges (readAuthValues st))" "list_all session_ok (av_sessions (readAuthValues st))"
  "list_all ticket_ok (av_tickets (readAuthValues st))"
  by (rule stored_ok)+

lemma claim_typed:
  assumes "crypto_ok cr" "draws_ok dw" "store_typed st"
  shows "store_typed (snd (claim cr now dw body st))"
  using assms
  by (auto simp: claim_def Let_def new_pairing_ok server_claim_id new_device_ok candidate_valid
      intro!: typed_claim dest!: read_valid_SomeD split: option.splits)

lemma recover_typed:
  assumes "store_typed st"
  shows "store_typed (snd (recover cr now body st))"
proof -
  have "list_all device_ok (last_n MAX_DEVICES (map (\<lambda>d. if dv_status d = Revoked then d
         else d\<lparr> dv_status := Revoked, dv_revokedAt := Some (of_int now) \<rparr>) (filter (\<lambda>d. dv_id d \<noteq> dc_id c) (av_devices (readAuthValues st)))
         @ [new_device (av_vaultId (readAuthValues st)) c fp Owner now None]))"
    if "deviceFromBody cr body = Some c" "av_claimed (readAuthValues st)" for c fp
    using recovered_ok [OF stored_ok(3) new_device_ok [OF stored_ok(1) candidate_valid], of st cr body c now fp Owner now None] that
    by (simp add: recovered_devices_def)
  then show ?thesis
    using assms by (auto simp: recover_def Let_def intro!: typed_puts split: option.splits json.splits bool.splits)
qed

lemma createPairing_typed:
  assumes "crypto_ok cr" "draws_ok dw" "store_typed st"
  shows "store_typed (snd (createPairing cr now dw (request_fields rq) st))"
proof -
  have "list_all pairing_ok (last_n MAX_PAIRINGS (cleanup pr_expiresAt (av_pairings (readAuthValues st)) now
        @ [new_pairing cr now dw (dp_deviceId p) ttl Member]))"
    if "ownerPrincipal cr now (request_fields rq) st = Some p" for p ttl
    using that assms(1,2) owner_ok [OF ownerPrincipal_in [OF that] readAuthValues_ok]
    by (intro kept_all) (simp add: new_pairing_ok all_ok_simps)
  then show ?thesis
    using assms(3) by (auto simp: createPairing_def Let_def intro!: typed_puts split: option.splits)
qed

lemma pair_typed:
  assumes "store_typed st"
  shows "store_typed (snd (pair cr now body st))"
proof -
  have "store_typed (snd (pair_device cr now c consumed p st))"
    if "candidate_ok c" "list_all pairing_ok consumed" "av_claimed (readAuthValues st)" for c consumed p
  proof -
    have new: "device_ok (new_device (av_vaultId (readAuthValues st)) c fp role now seen)" for fp role seen
      using that by (intro new_device_ok stored_ok) auto
    have "list_all device_ok (map_device i (\<lambda>_. new_device (av_vaultId (readAuthValues st)) c fp role now seen) (av_devices (readAuthValues st)))" for i fp role seen
      using new by (intro map_device_all stored_ok) auto
    moreover have "list_all device_ok (map_device i (\<lambda>d. d\<lparr> dv_name := dc_name c \<rparr>) (av_devices (readAuthValues st)))" for i
      using that(1) by (intro map_device_all stored_ok) (simp add: candidate_ok_def)
    ultimately show ?thesis
      using assms that(2) new by (auto simp: pair_device_def Let_def all_ok_simps intro!: typed_puts)
  qed
  then show ?thesis
    using assms by (auto simp: pair_def Let_def candidate_valid all_ok_simps split: option.splits)
qed

lemma challenge_typed:
  assumes "draws_ok dw" "store_typed st"
  shows "store_typed (snd (challenge now dw body st))"
proof -
  have "list_all challenge_ok (last_n MAX_SESSIONS (cleanup ch_expiresAt (av_challenges (readAuthValues st)) now
      @ [new_challenge now dw (readAuthValues st) d]))"
    if "find_active i (av_devices (readAuthValues st)) = Some d" "av_claimed (readAuthValues st)" for i d
    using that assms(1) found_ok [OF that(1) [unfolded find_active_def] all_ok_simps(1)]
    by (intro kept_all) (simp add: all_ok_simps challenge_ok_def new_challenge_def random_id_valid device_ok_def stored_ok)
  then show ?thesis
    using assms by (auto simp: challenge_def Let_def intro!: typed_puts split: option.splits)
qed

lemma session_typed:
  assumes "crypto_ok cr" "draws_ok dw" "store_typed st"
  shows "store_typed (snd (session cr now dw body st))"
proof -
  have "list_all session_ok (last_n MAX_SESSIONS (cleanup ss_expiresAt (av_sessions (readAuthValues st)) now
      @ [new_session cr now dw (readAuthValues st) d]))"
    if "List.find P (av_devices (readAuthValues st)) = Some d" for P d
    using that assms(1,2) found_ok [OF that all_ok_simps(1)]
    by (intro kept_all) (simp add: all_ok_simps session_ok_def new_session_def random_id_valid hash_valid device_ok_def)
  moreover have "list_all device_ok (map_device i (\<lambda>d. d\<lparr> dv_lastSeenAt := t \<rparr>) (av_devices (readAuthValues st)))" for i t
    by (intro map_device_all all_ok_simps) simp
  moreover have "list_all challenge_ok (filter P (av_challenges (readAuthValues st)))" for P
    using all_ok_simps(3) [of st] by (auto simp: list_all_iff)
  ultimately show ?thesis
    using assms(3) by (auto simp: session_def Let_def intro!: typed_puts split: option.splits)
qed

lemma issueTicket_typed:
  assumes "crypto_ok cr" "store_typed st"
  shows "store_typed (snd (issueTicket cr now dw body st))"
proof -
  have "list_all ticket_ok (last_n MAX_TICKETS (cleanup tk_expiresAt (av_tickets (readAuthValues st)) now @ [new_ticket cr now dw p]))"
    if "principal_in cr now s vaultId (readAuthValues st) = Some (p, e)" for s vaultId p e
    using principal_ok [OF that readAuthValues_ok] assms(1)
    by (intro kept_all) (simp add: all_ok_simps ticket_ok_def new_ticket_def hash_valid)
  then show ?thesis
    using assms(2) by (auto simp: issueTicket_def principalForSession_def Let_def intro!: typed_puts split: option.splits prod.splits)
qed

lemma consumeTicket_typed: "store_typed st \<Longrightarrow> store_typed (snd (consumeTicket cr now body st))"
  by (auto simp: consumeTicket_def Let_def all_ok_simps intro!: typed_puts split: option.splits)

lemma changeDeviceRole_typed:
  assumes "store_typed st"
  shows "store_typed (snd (changeDeviceRole cr now body st))"
proof -
  have "list_all device_ok (map_device i (\<lambda>d. d\<lparr> dv_role := role \<rparr>) (av_devices (readAuthValues st)))" for i role
    by (intro map_device_all all_ok_simps) simp
  then show ?thesis
    using assms by (auto simp: changeDeviceRole_def Let_def intro!: typed_puts split: option.splits)
qed

lemma revokeDevice_typed:
  assumes "store_typed st"
  shows "store_typed (snd (revokeDevice cr now body st))"
proof -
  have "list_all device_ok (map_device i (\<lambda>d. d\<lparr> dv_status := Revoked, dv_revokedAt := t \<rparr>) (av_devices (readAuthValues st)))" for i t
    by (intro map_device_all all_ok_simps) simp
  then show ?thesis
    using assms by (auto simp: revokeDevice_def Let_def intro!: typed_puts split: option.splits)
qed

lemma renameDevice_typed:
  assumes "store_typed st" "rename_clean rq"
  shows "store_typed (snd (renameDevice cr now (request_fields rq) st))"
proof -
  have "list_all device_ok (map_device i (\<lambda>d. d\<lparr> dv_name := trim raw \<rparr>) (av_devices (readAuthValues st)))"
    if "read_string (field ''deviceName'' (request_fields rq)) = Some raw" "trim raw \<noteq> []" "length (trim raw) \<le> 64" for i raw
    using clean_name [OF assms(2)] that by (intro map_device_all all_ok_simps) (simp add: presented_def)
  then show ?thesis
    using assms(1)
    by (auto simp: renameDevice_def principalForSession_def Let_def not_less intro!: typed_puts split: option.splits prod.splits)
qed

lemma other_handlers_typed:
  "store_typed st \<Longrightarrow> store_typed (snd (updateMetadata cr body st))"
  "store_typed st \<Longrightarrow> store_typed (snd (validateSession cr now body st))"
  "store_typed st \<Longrightarrow> store_typed (snd (listDevices cr now body st))"
  by (auto simp: updateMetadata_def validateSession_def listDevices_def Let_def intro!: typed_puts split: option.splits sum.splits)

lemma config_fetch_typed:
  assumes "crypto_ok cr" "draws_ok dw" "store_typed st" "rename_clean rq"
  shows "store_typed (snd (config_fetch cr now dw rq st))"
  using assms by (simp add: config_fetch_def Let_def claim_typed recover_typed createPairing_typed pair_typed challenge_typed
      session_typed issueTicket_typed consumeTicket_typed changeDeviceRole_typed revokeDevice_typed renameDevice_typed
      other_handlers_typed)

text \<open>
  C19: What the server writes, it can read.  Along any sequence of requests (without a renaming to a
  name with control characters) every device, pairing, challenge, session and ticket in the storage
  passes the guard through which it is read, and the claim mark comes with a valid vault id: no
  record is silently filtered away between two requests.\<close>

theorem stored_records_are_typed:
  assumes "auth_reach cr h st" "crypto_ok cr" "list_all (\<lambda>e. rename_clean (ev_request e)) h"
  shows "store_typed st"
  using assms
proof (induction rule: auth_reach.induct)
  case reach_empty
  then show ?case by (simp add: store_typed_def all_readable_def)
next
  case (reach_request h st dw now rq r st')
  then show ?case using config_fetch_typed [of cr dw st rq now] by simp
qed

theorem stored_records_are_typed_witness: "store_typed store3"
  by (rule stored_records_are_typed [OF sample_reach sample_crypto_ok sample_clean])

section \<open>Renaming\<close>

lemma rename_response:
  assumes "read_valid validId (field ''targetDeviceId'' body) = Some i" "read_string (field ''deviceName'' body) = Some raw"
    "read_string (field ''session'' body) = Some s" "read_valid validVaultId (field ''vaultId'' body) = Some vaultId"
    and "trim raw \<noteq> []" "length (trim raw) \<le> 64"
    and "principalForSession cr now s vaultId st = Some (p, e)" "dp_role p = Owner \<or> dp_deviceId p = i"
    and "find_active i (av_devices (readAuthValues st)) = Some d" "dv_name d \<noteq> trim raw"
  shows "fst (renameDevice cr now body st) = DeviceRenamed i (trim raw)"
    "av_devices (readAuthValues (snd (renameDevice cr now body st)))
      = filter device_ok (map_device i (\<lambda>d. d\<lparr> dv_name := trim raw \<rparr>) (av_devices (readAuthValues st)))"
    "av_audit (readAuthValues (snd (renameDevice cr now body st)))
      = filter audit_ok (last_n MAX_AUDIT_ENTRIES (av_audit (readAuthValues st)
          @ [audit_entry now AuditDeviceRenamed (Some (dp_deviceId p)) (Some i) (Some (dv_fingerprint d))]))"
proof -
  have "dv_id d = i" using assms(9) by (auto simp: find_active_def dest: found_in)
  then show "fst (renameDevice cr now body st) = DeviceRenamed i (trim raw)"
    "av_devices (readAuthValues (snd (renameDevice cr now body st)))
      = filter device_ok (map_device i (\<lambda>d. d\<lparr> dv_name := trim raw \<rparr>) (av_devices (readAuthValues st)))"
    "av_audit (readAuthValues (snd (renameDevice cr now body st)))
      = filter audit_ok (last_n MAX_AUDIT_ENTRIES (av_audit (readAuthValues st)
          @ [audit_entry now AuditDeviceRenamed (Some (dp_deviceId p)) (Some i) (Some (dv_fingerprint d))]))"
    using assms by (simp_all add: renameDevice_def Let_def addAudit_def split del: if_split) (auto simp: Let_def addAudit_def)
qed

text \<open>
  C38: A control character in a new name removes the device.  Renaming checks the length of the
  trimmed name but not its characters: for an authorized caller, an active device and a name with,
  say, a tab inside, the server reports success and stores a record that its own guard rejects, so
  the device is gone from the next request on.  An owner can lock the vault out of owners this way.\<close>

theorem control_character_removes_device:
  assumes "read_valid validId (field ''targetDeviceId'' body) = Some i" "read_string (field ''deviceName'' body) = Some raw"
    "read_string (field ''session'' body) = Some s" "read_valid validVaultId (field ''vaultId'' body) = Some vaultId"
    and "trim raw \<noteq> []" "length (trim raw) \<le> 64" "list_ex control_char (trim raw)"
    and "principalForSession cr now s vaultId st = Some (p, e)" "dp_role p = Owner \<or> dp_deviceId p = i"
    and "find_active i (av_devices (readAuthValues st)) = Some d"
  shows "fst (renameDevice cr now body st) = DeviceRenamed i (trim raw)
    \<and> i \<notin> set (map dv_id (av_devices (readAuthValues (snd (renameDevice cr now body st)))))"
proof -
  have "device_ok d" using assms(10) by (auto simp: find_active_def dest: found_ok [OF _ all_ok_simps(1)])
  then have "dv_name d \<noteq> trim raw" using assms(7) by (auto simp: device_ok_def validName_def)
  note renamed = rename_response [OF assms(1-6,8-10) this]
  have "dv_id x \<noteq> i" if x: "x \<in> set (filter device_ok (map_device i (\<lambda>d. d\<lparr> dv_name := trim raw \<rparr>) (av_devices (readAuthValues st))))" for x
  proof -
    obtain y where y: "x = (if dv_id y = i then y\<lparr> dv_name := trim raw \<rparr> else y)" and ok: "device_ok x"
      using x map_device_source [of x i "\<lambda>d. d\<lparr> dv_name := trim raw \<rparr>"] by auto
    show ?thesis
      using ok assms(7) unfolding y by (cases "dv_id y = i") (simp_all add: device_ok_def validName_def)
  qed
  then show ?thesis unfolding renamed(1,2) by auto
qed

definition rename_body :: "jsstr \<Rightarrow> (jsstr \<times> json) list" where
  "rename_body n = [(js ''targetDeviceId'', JsonString sample_id), (js ''deviceName'', JsonString n),
     (js ''session'', JsonString (randomBase64Url (replicate 32 3))), (js ''vaultId'', JsonString sample_vault)]"

lemma rename_body_fields:
  "read_valid validId (field ''targetDeviceId'' (rename_body n)) = Some sample_id"
  "read_string (field ''deviceName'' (rename_body n)) = Some n"
  "read_string (field ''session'' (rename_body n)) = Some (randomBase64Url (replicate 32 3))"
  "read_valid validVaultId (field ''vaultId'' (rename_body n)) = Some sample_vault"
  by (simp_all add: rename_body_def json_simps)

lemma sample_caller:
  "principalForSession sample_crypto 4000 (randomBase64Url (replicate 32 3)) sample_vault store3 = Some (sample_principal, 303000)"
  "dp_role sample_principal = Owner \<or> dp_deviceId sample_principal = sample_id"
  "find_active sample_id (av_devices (readAuthValues store3)) = Some (sample_owner\<lparr> dv_lastSeenAt := Some 3000 \<rparr>)"
  by (simp_all only: principalForSession_def sample_principal_in sample_principal_def)
    (simp_all add: find_active_def run_values)

theorem control_character_removes_device_witness:
  "fst (renameDevice sample_crypto 4000 (rename_body [80, 9, 81]) store3) = DeviceRenamed sample_id [80, 9, 81]
   \<and> sample_id \<notin> set (map dv_id (av_devices (readAuthValues (snd (renameDevice sample_crypto 4000 (rename_body [80, 9, 81]) store3)))))"
proof -
  have t: "trim [80, 9, 81] = [80, 9, 81]" by (simp add: trim_def js_space_def)
  show ?thesis
    using control_character_removes_device [OF rename_body_fields [of "[80, 9, 81]"] _ _ _ sample_caller] unfolding t
    by (simp add: control_char_def)
qed

text \<open>
  Renamings leave no trace in the audit log.  The guard of audit events does not list the action
  \<^verbatim>\<open>device_renamed\<close> that \<^verbatim>\<open>renameDevice\<close> writes, so after a renaming every event that can be read was
  there before, and when the log is full its oldest event has been given up for the unreadable one.\<close>

theorem renaming_is_not_audited:
  assumes "read_valid validId (field ''targetDeviceId'' body) = Some i" "read_string (field ''deviceName'' body) = Some raw"
    "read_string (field ''session'' body) = Some s" "read_valid validVaultId (field ''vaultId'' body) = Some vaultId"
    and "trim raw \<noteq> []" "length (trim raw) \<le> 64"
    and "principalForSession cr now s vaultId st = Some (p, e)" "dp_role p = Owner \<or> dp_deviceId p = i"
    and "find_active i (av_devices (readAuthValues st)) = Some d" "dv_name d \<noteq> trim raw"
  shows "fst (renameDevice cr now body st) = DeviceRenamed i (trim raw)
    \<and> av_audit (readAuthValues (snd (renameDevice cr now body st)))
      = last_n (MAX_AUDIT_ENTRIES - 1) (av_audit (readAuthValues st))"
proof -
  note renamed = rename_response [OF assms]
  have old: "list_all audit_ok (last_n k (av_audit (readAuthValues st)))" for k by (intro kept_all stored_ok)
  have "last_n MAX_AUDIT_ENTRIES (es @ [e]) = last_n (MAX_AUDIT_ENTRIES - 1) es @ [e]" for es :: "audit_event list" and e
    by (simp add: last_n_def MAX_AUDIT_ENTRIES_def)
  then show ?thesis
    unfolding renamed(1,3) by (simp add: filter_all [OF old] audit_ok_def audit_entry_def)
qed

theorem renaming_is_not_audited_witness:
  "fst (renameDevice sample_crypto 4000 (rename_body [81]) store3) = DeviceRenamed sample_id [81]
   \<and> av_audit (readAuthValues (snd (renameDevice sample_crypto 4000 (rename_body [81]) store3))) = av_audit (readAuthValues store3)"
proof -
  have t: "trim [81] = [81]" by (simp add: trim_def js_space_def)
  have short: "last_n (MAX_AUDIT_ENTRIES - 1) (av_audit (readAuthValues store3)) = av_audit (readAuthValues store3)"
    by (simp add: run_values last_n_def MAX_AUDIT_ENTRIES_def)
  show ?thesis
    using renaming_is_not_audited [OF rename_body_fields [of "[81]"] _ _ sample_caller] unfolding t short
    by (simp add: sample_name_def)
qed

section \<open>The limit on devices\<close>

lemma active_map_device:
  assumes "distinct (map dv_id ds)" "List.find (\<lambda>d. dv_id d = i) ds = Some e" "dv_status e \<noteq> Active" "dv_status d = Active"
  shows "length (active_devices (map_device i (\<lambda>_. d) ds)) = length (active_devices ds) + 1"
  using assms
proof (induction ds)
  case (Cons x xs)
  show ?case
  proof (cases "dv_id x = i")
    case True
    then have "map_device i (\<lambda>_. d) xs = xs" using Cons.prems(1) by (auto simp: map_device_def intro!: map_idI) (metis imageI)
    then show ?thesis using True Cons.prems by (simp add: active_devices_def map_device_def)
  next
    case False
    then show ?thesis using Cons by (simp add: active_devices_def map_device_def)
  qed
qed simp

text \<open>
  C39: The limit on devices does not bind known devices.  With as many active devices as the limit
  allows, or more, a device that was revoked can be paired again: the limit is only checked for a
  device id the server has never seen, so the number of active devices grows past it.\<close>

theorem repaired_device_exceeds_limit:
  assumes "distinct (map dv_id (av_devices (readAuthValues st)))" "av_claimed (readAuthValues st)" "candidate_ok c"
    and "List.find (\<lambda>d. dv_id d = dc_id c) (av_devices (readAuthValues st)) = Some e" "dv_status e = Revoked"
    and "MAX_DEVICES \<le> length (active_devices (av_devices (readAuthValues st)))"
  shows "(\<exists>role fp. fst (pair_device cr now c consumed p st) = DevicePaired (dc_id c) role fp (av_vaultId (readAuthValues st))
      (av_authGeneration (readAuthValues st)))
    \<and> MAX_DEVICES < length (active_devices (av_devices (readAuthValues (snd (pair_device cr now c consumed p st)))))"
proof -
  define role where "role = (if pr_role p = Some Owner \<or> active_owners (av_devices (readAuthValues st)) = [] then Owner else Member)"
  define d where "d = new_device (av_vaultId (readAuthValues st)) c (fingerprintForKey cr (dc_publicKey c)) role now (Some (of_int now))"
  have ok: "list_all device_ok (map_device (dc_id c) (\<lambda>_. d) (av_devices (readAuthValues st)))"
    unfolding d_def using assms(2,3) by (intro map_device_all stored_ok new_device_ok) auto
  have eq: "fst (pair_device cr now c consumed p st) = DevicePaired (dc_id c) role (fingerprintForKey cr (dc_publicKey c))
      (av_vaultId (readAuthValues st)) (av_authGeneration (readAuthValues st))"
    "av_devices (readAuthValues (snd (pair_device cr now c consumed p st))) = map_device (dc_id c) (\<lambda>_. d) (av_devices (readAuthValues st))"
    using assms(4,5) by (simp_all add: pair_device_def Let_def role_def d_def filter_all [OF ok [unfolded d_def role_def]])
  show ?thesis
    using active_map_device [OF assms(1,4), of d] assms(5,6) by (simp add: eq d_def)
qed

text \<open>A vault with as many active devices as the limit, and a revoked one.\<close>

definition numbered_id :: "nat \<Rightarrow> jsstr" where
  "numbered_id n = padStart 8 48 (digits_of 16 n)"

definition numbered_device :: "nat \<Rightarrow> stored_device" where
  "numbered_device n = sample_owner\<lparr> dv_id := numbered_id n, dv_status := (if n < 200 then Active else Revoked) \<rparr>"

definition full_store :: auth_storage where
  "full_store = put_claim 0 sample_vault sample_hash (map numbered_device [0..<201]) [] (audit_entry 0 AuditClaimed None None None) (\<lambda>_. None)"

lemma numbered_id_valid: "n < 201 \<Longrightarrow> validId (numbered_id n)"
proof -
  assume n: "n < 201"
  have "length (numbered_id n) = 8" unfolding numbered_id_def using n by (intro length_hex_pad) simp_all
  moreover have "id_unit c" if "c \<in> set (numbered_id n)" for c
  proof -
    have "c \<le> 102 \<Longrightarrow> c \<le> 122" by (erule order_trans) simp
    moreover have "c = 48 \<or> (48 \<le> c \<and> c \<le> 57) \<or> (97 \<le> c \<and> c \<le> 102)"
      using that hex_digit_chars [of c n] by (auto simp: numbered_id_def padStart_def)
    ultimately show ?thesis by (auto simp: id_unit_def digit_unit_def lower_unit_def)
  qed
  ultimately show ?thesis by (simp add: validId_def list_all_iff)
qed

lemma numbered_inj: "numbered_id m = numbered_id n \<Longrightarrow> m = n"
  by (simp add: numbered_id_def hex_pad_inject)

lemma full_values: "readAuthValues full_store = claimed_values sample_vault sample_hash (map numbered_device [0..<201]) []
    (audit_entry 0 AuditClaimed None None None)"
proof -
  have "device_ok (numbered_device n)" if "n < 201" for n
    using numbered_id_valid [OF that] sample_records_ok(1) by (simp add: numbered_device_def device_ok_def)
  then have "filter device_ok (map numbered_device [0..<201]) = map numbered_device [0..<201]"
    by (intro filter_all) (auto simp: list_all_iff)
  then show ?thesis by (simp only: full_store_def put_claim_read sample_valid) (simp add: claimed_values_def audit_ok_def audit_entry_def)
qed

theorem repaired_device_exceeds_limit_witness:
  "MAX_DEVICES < length (active_devices (av_devices (readAuthValues (snd (pair_device sample_crypto 9000
     (sample_candidate\<lparr> dc_id := numbered_id 200 \<rparr>) [] sample_pairing full_store)))))"
proof -
  have devices: "av_devices (readAuthValues full_store) = map numbered_device [0..<201]"
    and claimed: "av_claimed (readAuthValues full_store)" by (simp_all only: full_values claimed_values_def auth_values.simps)
  have ids: "distinct (map dv_id (av_devices (readAuthValues full_store)))"
    unfolding devices by (auto simp: distinct_map inj_on_def numbered_device_def dest: numbered_inj)
  have "numbered_device 200 \<in> set (av_devices (readAuthValues full_store))" unfolding devices by simp
  from find_device_by_id [OF ids this]
  have found: "List.find (\<lambda>d. dv_id d = numbered_id 200) (av_devices (readAuthValues full_store)) = Some (numbered_device 200)"
    by (simp add: numbered_device_def)
  have "active_devices (map numbered_device [0..<200] @ [numbered_device 200]) = map numbered_device [0..<200]"
    by (simp add: active_devices_def numbered_device_def filter_id_conv)
  then have full: "MAX_DEVICES \<le> length (active_devices (av_devices (readAuthValues full_store)))"
    unfolding devices using upt_add_eq_append [of 0 200 1] by (simp only: MAX_DEVICES_def) simp
  show ?thesis
    using repaired_device_exceeds_limit [OF ids claimed, of "sample_candidate\<lparr> dc_id := numbered_id 200 \<rparr>" "numbered_device 200"
        sample_crypto 9000 "[]" sample_pairing] found full sample_candidate_ok numbered_id_valid [of 200]
    by (simp add: candidate_ok_def numbered_device_def)
qed

section \<open>Pairing codes\<close>

definition plain_unit :: "jschar \<Rightarrow> bool" where
  "plain_unit c \<longleftrightarrow> \<not> js_space c \<and> \<not> lower_unit c \<and> map_of special_capitals c = None"

lemma pairing_chars: "\<forall>c\<in>set PAIRING_CHARS. plain_unit c \<and> c \<noteq> 79 \<and> c \<noteq> 45"
  by (simp add: PAIRING_CHARS_def js_def plain_unit_def js_space_def lower_unit_def special_capitals_def)

lemma pairing_chars_length: "length PAIRING_CHARS = 32"
  by (simp add: PAIRING_CHARS_def js_def)

lemma generated_code: "set (generatePairingCode bs) \<subseteq> set PAIRING_CHARS"
  by (auto simp: generatePairingCode_def pairing_chars_length)

lemma trim_plain:
  assumes "list_all plain_unit s"
  shows "trim s = s"
proof (cases "s = []")
  case False
  then show ?thesis using assms by (intro trim_nonspace) (auto simp: list_all_iff plain_unit_def)
qed (simp add: trim_def)

lemma upper_plain: "list_all plain_unit s \<Longrightarrow> toUpperCase s = s"
  by (induction s) (simp_all add: toUpperCase_def plain_unit_def)

lemma upper_lower_chars:
  "\<forall>c\<in>set (js ''KAOS-'' @ PAIRING_CHARS). toUpperCase (toLowerCase [c]) = [c] \<and> list_all (\<lambda>c. \<not> js_space c) (toLowerCase [c])"
  by (simp add: PAIRING_CHARS_def js_def toUpperCase_def toLowerCase_def upper_unit_def lower_unit_def special_capitals_def js_space_def)

lemma case_append: "toUpperCase (s @ t) = toUpperCase s @ toUpperCase t" "toLowerCase (s @ t) = toLowerCase s @ toLowerCase t"
  by (simp_all add: toUpperCase_def toLowerCase_def)

lemma upper_lower:
  "\<forall>c\<in>set s. toUpperCase (toLowerCase [c]) = [c] \<and> list_all (\<lambda>c. \<not> js_space c) (toLowerCase [c]) \<Longrightarrow>
     toUpperCase (toLowerCase s) = s \<and> list_all (\<lambda>c. \<not> js_space c) (toLowerCase s)"
proof (induction s)
  case (Cons c s)
  then show ?case
    using case_append(1) [of "toLowerCase [c]" "toLowerCase s"] case_append(2) [of "[c]" s] by simp
qed (simp add: toUpperCase_def toLowerCase_def)

lemma no_prefix:
  assumes "79 \<notin> set s"
  shows "\<not> startsWith s (js ''KAOS-'')" "\<not> startsWith s (js ''KAOS_'')" "\<not> startsWith s (js ''KAOS '')" "\<not> startsWith s (js ''KAOS'')"
proof -
  have "set p \<subseteq> set s" if "startsWith s p" for p
    using that set_take_subset [of "length p" s] by (simp add: startsWith_def)
  moreover have "79 \<in> set (js ''KAOS-'')" "79 \<in> set (js ''KAOS_'')" "79 \<in> set (js ''KAOS '')" "79 \<in> set (js ''KAOS'')"
    by (simp_all add: js_def)
  ultimately show "\<not> startsWith s (js ''KAOS-'')" "\<not> startsWith s (js ''KAOS_'')" "\<not> startsWith s (js ''KAOS '')" "\<not> startsWith s (js ''KAOS'')"
    using assms by blast+
qed

lemma normalize_raw:
  assumes "set code \<subseteq> set PAIRING_CHARS"
  shows "normalizePairingCode code = code"
proof -
  have plain: "list_all plain_unit code" "79 \<notin> set code" using assms pairing_chars by (auto simp: list_all_iff)
  show ?thesis
    using assms by (auto simp: normalizePairingCode_def Let_def trim_plain [OF plain(1)] upper_plain [OF plain(1)]
        no_prefix [OF plain(2)] filter_id_conv)
qed

lemma normalize_upper:
  assumes "set code \<subseteq> set PAIRING_CHARS" "toUpperCase (trim t) = displayedCode code"
  shows "normalizePairingCode t = code"
proof -
  have dash: "45 \<notin> set PAIRING_CHARS" using pairing_chars by auto
  have start: "startsWith (displayedCode code) (js ''KAOS-'')" "drop 5 (displayedCode code) = take 3 code @ 45 # drop 3 code"
    by (simp_all add: startsWith_def displayedCode_def js_def)
  have "filter (\<lambda>c. c \<in> set PAIRING_CHARS) (take 3 code @ 45 # drop 3 code) = take 3 code @ drop 3 code"
    using assms(1) dash set_take_subset [of 3 code] set_drop_subset [of 3 code] by (simp add: filter_id_conv subset_iff)
  then show ?thesis by (simp add: normalizePairingCode_def Let_def assms(2) start)
qed

lemma displayed_units:
  assumes "set code \<subseteq> set PAIRING_CHARS"
  shows "set (displayedCode code) \<subseteq> set (js ''KAOS-'' @ PAIRING_CHARS)" "list_all plain_unit (displayedCode code)"
proof -
  show sub: "set (displayedCode code) \<subseteq> set (js ''KAOS-'' @ PAIRING_CHARS)"
    using assms set_take_subset [of 3 code] set_drop_subset [of 3 code] by (auto simp: displayedCode_def js_def)
  have "\<forall>c\<in>set (js ''KAOS-''). plain_unit c"
    by (simp add: js_def plain_unit_def js_space_def lower_unit_def special_capitals_def)
  then show "list_all plain_unit (displayedCode code)" using sub pairing_chars by (auto simp: list_all_iff)
qed

text \<open>
  A pairing code survives being read and typed.  A generated code has six characters of the
  alphabet, and it is what \<^verbatim>\<open>normalizePairingCode\<close> makes of the displayed form \<^verbatim>\<open>KAOS-ABC-DEF\<close> with
  any white space around it, of that form in small letters, and of the raw six characters.\<close>

theorem pairing_code_roundtrip:
  assumes "length bs = 6" "list_all js_space before" "list_all js_space after"
  shows "length (generatePairingCode bs) = 6
    \<and> normalizePairingCode (before @ displayedCode (generatePairingCode bs) @ after) = generatePairingCode bs
    \<and> normalizePairingCode (toLowerCase (displayedCode (generatePairingCode bs))) = generatePairingCode bs
    \<and> normalizePairingCode (generatePairingCode bs) = generatePairingCode bs"
proof -
  let ?code = "generatePairingCode bs"
  note units = displayed_units [OF generated_code]
  have nonempty: "displayedCode ?code \<noteq> []" by (simp add: displayedCode_def js_def)
  have "list_all (\<lambda>c. \<not> js_space c) (displayedCode ?code)" using units(2) by (auto simp: list_all_iff plain_unit_def)
  then have "toUpperCase (trim (before @ displayedCode ?code @ after)) = displayedCode ?code"
    using trim_around assms(2,3) nonempty upper_plain [OF units(2)] by simp
  moreover have lower: "toUpperCase (toLowerCase (displayedCode ?code)) = displayedCode ?code"
    "list_all (\<lambda>c. \<not> js_space c) (toLowerCase (displayedCode ?code))"
    using upper_lower [of "displayedCode ?code"] units(1) upper_lower_chars by (auto simp only: subset_iff Ball_def)
  moreover have "toLowerCase (displayedCode ?code) \<noteq> []" using lower(1) nonempty by (auto simp: toUpperCase_def)
  ultimately show ?thesis
    using assms(1) normalize_upper [OF generated_code] normalize_raw [OF generated_code] trim_nonspace
    by (auto simp: generatePairingCode_def)
qed

theorem pairing_code_roundtrip_witness:
  "normalizePairingCode ([32] @ displayedCode (generatePairingCode [0, 40, 3, 255, 31, 7]) @ [10, 32])
     = generatePairingCode [0, 40, 3, 255, 31, 7]"
  using pairing_code_roundtrip [of "[0, 40, 3, 255, 31, 7]" "[32]" "[10, 32]"] by (simp add: js_space_def)

section \<open>Signatures in base64url\<close>

lemma url_ascii: "\<forall>c\<in>set BASE64URL_ALPHABET. unat c < 256"
  by (simp add: BASE64URL_ALPHABET_def js_def)

lemma base64url_value_nth:
  assumes "i < 64"
  shows "base64url_value (BASE64URL_ALPHABET ! i) = i"
proof -
  have "BASE64URL_ALPHABET ! i \<in> set BASE64URL_ALPHABET" using assms url_alphabet(2) by simp
  moreover from this have "unat (BASE64URL_ALPHABET ! i) < 256" using url_ascii by blast
  ultimately show ?thesis
    using takeWhile_nth [OF url_alphabet(1), of i] assms url_alphabet(2) by (simp add: base64url_value_def)
qed

text \<open>
  The server's base64url is lossless.  Decoding what \<^verbatim>\<open>bytesToBase64Url\<close> printed gives the bytes
  again, for every length, so a signature or key reaches the verification as it was sent.\<close>

theorem base64UrlToBytes_roundtrip: "base64UrlToBytes (randomBase64Url bs) = Some bs"
proof -
  let ?s = "map (\<lambda>i. BASE64URL_ALPHABET ! i) (sextets bs)"
  have "map (\<lambda>i. base64url_value (BASE64URL_ALPHABET ! i)) (sextets bs) = sextets bs"
    using sextets_bound base64url_value_nth by (intro map_idI) auto
  then have values': "map base64url_value ?s = sextets bs" by (simp add: comp_def)
  have "base64url_value c < 64" if "c \<in> set ?s" for c
    using that sextets_bound [of _ bs] base64url_value_nth by auto
  then have "\<not> list_ex (\<lambda>c. base64url_value c = 255) ?s" by (fastforce simp: list_ex_iff)
  moreover have "length ?s mod 4 \<noteq> 1"
    using no_single_sextet [OF length_sextets [of bs]] by simp
  ultimately show ?thesis
    using values' bytes_of_sextets_sextets [of bs]
    by (cases "?s = []") (auto simp: base64UrlToBytes_def randomBase64Url_def bytesToBase64Url_def)
qed

text \<open>
  Characters beyond the table decode as the letter A.  The check of the alphabet looks a character
  up in a table of 256 entries; for any other character the lookup is \<^verbatim>\<open>undefined\<close>, which is not the
  mark of an invalid character, so the string is accepted or rejected, and decoded, as if that
  character were an \<^verbatim>\<open>A\<close>.\<close>

theorem base64UrlToBytes_accepts_foreign:
  "base64UrlToBytes s = base64UrlToBytes (map (\<lambda>c. if 256 \<le> unat c then 65 else c) s)"
proof -
  let ?f = "\<lambda>c :: jschar. if 256 \<le> unat c then 65 else c"
  have same: "base64url_value (?f c) = base64url_value c" for c
    by (simp add: base64url_value_def BASE64URL_ALPHABET_def js_def)
  then have eq: "map base64url_value (map ?f s) = map base64url_value s" by simp
  have invalid: "list_ex (\<lambda>c. base64url_value c = 255) t \<longleftrightarrow> 255 \<in> set (map base64url_value t)" for t
    by (auto simp: list_ex_iff)
  show ?thesis unfolding base64UrlToBytes_def invalid eq by simp
qed

end
