(* ===== verification/DeviceAuth.thy ===== *)
theory DeviceAuth
  imports AuthStore
begin

text \<open>
  The device routes of the Worker, \<^verbatim>\<open>src/server/src/routes/deviceAuth.ts\<close> (and the bearer token of
  \<^verbatim>\<open>routes/auth.ts\<close>): a request is authorized by its session, which the configuration object
  validates and the Worker caches per isolate until the session expires; recovery checks the secret
  before the configuration object sees it.  The cache is an interface: what it may answer is proved
  from a contract of the authority that validates sessions, and the configuration object keeps the
  contract.
\<close>

section \<open>The session cache\<close>

type_synonym session_cache = "(jsstr \<times> device_principal \<times> rat) list"

definition MAX_SESSION_CACHE_ENTRIES :: nat where "MAX_SESSION_CACHE_ENTRIES = 5000"

definition cache_key :: "jsstr \<Rightarrow> jsstr \<Rightarrow> jsstr" where
  "cache_key vaultId sessionHash = vaultId @ js '':'' @ sessionHash"

definition invalidateSessionCache :: "jsstr option \<Rightarrow> session_cache \<Rightarrow> session_cache" where
  "invalidateSessionCache vaultId cache =
     (case vaultId of
        None \<Rightarrow> []
      | Some v \<Rightarrow> if v = [] then [] else filter (\<lambda>(k, e). \<not> startsWith k (v @ js '':'')) cache)"

definition getCachedSession :: "int \<Rightarrow> jsstr \<Rightarrow> jsstr \<Rightarrow> session_cache \<Rightarrow> device_principal option \<times> session_cache" where
  "getCachedSession now vaultId sessionHash cache =
     (let key = cache_key vaultId sessionHash
      in case map_of cache key of
           None \<Rightarrow> (None, cache)
         | Some (p, expiresAt) \<Rightarrow>
             if expiresAt \<le> of_int now then (None, AList.delete key cache) else (Some p, cache))"

definition setCachedSession :: "jsstr \<Rightarrow> jsstr \<Rightarrow> device_principal \<Rightarrow> rat \<Rightarrow> session_cache \<Rightarrow> session_cache" where
  "setCachedSession vaultId sessionHash p expiresAt cache =
     AList.update (cache_key vaultId sessionHash) (p, expiresAt)
       (if MAX_SESSION_CACHE_ENTRIES \<le> length cache then tl cache else cache)"

lemma set_update_subset: "set (AList.update k v al) \<subseteq> insert (k, v) (set al)"
  by (induction al) auto

lemma set_setCachedSession: "set (setCachedSession v h p e cache) \<subseteq> insert (cache_key v h, p, e) (set cache)"
proof -
  have "set (if MAX_SESSION_CACHE_ENTRIES \<le> length cache then tl cache else cache) \<subseteq> set cache"
    by (cases cache) auto
  then show ?thesis
    using set_update_subset [of "cache_key v h" "(p, e)"] unfolding setCachedSession_def by blast
qed

section \<open>The contract of the authority\<close>

text \<open>
  An authority validates a token for a vault, in the state it has at that moment, and says until when;
  tokens are known by their hashes, in which no colon occurs.
\<close>

locale session_authority =
  fixes validate :: "int \<Rightarrow> jsstr \<Rightarrow> jsstr \<Rightarrow> 'st \<Rightarrow> (device_principal \<times> rat) option"
    and token_hash :: "jsstr \<Rightarrow> jsstr"
  assumes lives: "validate now token vaultId st = Some (p, e) \<Longrightarrow> of_int now < e"
    and no_colon: "58 \<notin> set (token_hash t)"
begin

text \<open>What happens to the cache of one isolate, with the validations behind it.\<close>

inductive cache_run :: "(int \<times> jsstr \<times> jsstr \<times> 'st \<times> device_principal \<times> rat) list \<Rightarrow> session_cache \<Rightarrow> bool" where
  cache_empty: "cache_run [] []"
| cache_lookup: "cache_run past cache \<Longrightarrow> cache_run past (snd (getCachedSession now vaultId h cache))"
| cache_store:
    "cache_run past cache \<Longrightarrow> validate now token vaultId st = Some (p, e) \<Longrightarrow>
       cache_run ((now, token, vaultId, st, p, e) # past) (setCachedSession vaultId (token_hash token) p e cache)"
| cache_invalidate: "cache_run past cache \<Longrightarrow> cache_run past (invalidateSessionCache vaultId cache)"

lemma cache_entry_validated:
  assumes "cache_run past cache"
  shows "\<forall>(k, p, e)\<in>set cache. \<exists>now token vaultId st. (now, token, vaultId, st, p, e) \<in> set past
    \<and> validate now token vaultId st = Some (p, e) \<and> k = cache_key vaultId (token_hash token)"
  using assms
proof (induction rule: cache_run.induct)
  case (cache_lookup past cache now vaultId h)
  have "set (snd (getCachedSession now vaultId h cache)) \<subseteq> set cache"
    by (auto simp: getCachedSession_def Let_def AList.delete_eq split: option.split)
  then show ?case using cache_lookup.IH by blast
next
  case (cache_store past cache now token vaultId st p e)
  have "set (setCachedSession vaultId (token_hash token) p e cache)
      \<subseteq> insert (cache_key vaultId (token_hash token), p, e) (set cache)"
    by (rule set_setCachedSession)
  then show ?case using cache_store.IH cache_store.hyps(2) by (smt (verit) case_prodI2 case_prodD insert_iff list.set_intros prod.inject subset_iff)
next
  case (cache_invalidate past cache vaultId)
  then show ?case by (auto simp: invalidateSessionCache_def split: option.split)
qed simp

lemma key_inj:
  assumes "cache_key v (token_hash s) = cache_key w (token_hash t)"
  shows "v = w \<and> token_hash s = token_hash t"
proof -
  have last: "takeWhile (\<lambda>c. c \<noteq> 58) (rev (cache_key v (token_hash s))) = rev (token_hash s)" for v s
  proof -
    have "\<forall>c\<in>set (rev (token_hash s)). c \<noteq> 58" using no_colon [of s] by auto
    then have "takeWhile (\<lambda>c. c \<noteq> 58) (rev (token_hash s) @ 58 # rev v) = rev (token_hash s)"
      by (subst takeWhile_append2) auto
    then show ?thesis by (simp add: cache_key_def js_def)
  qed
  have "token_hash s = token_hash t" using last [of v s] last [of w t] assms by simp
  then show ?thesis using assms by (simp add: cache_key_def)
qed

text \<open>Whatever the cache answers was validated, for that vault and hash, and still lives.\<close>

lemma cached_answer:
  assumes "cache_run past cache" "fst (getCachedSession now vaultId (token_hash token) cache) = Some p"
  shows "\<exists>t token' st e. (t, token', vaultId, st, p, e) \<in> set past \<and> validate t token' vaultId st = Some (p, e)
    \<and> token_hash token' = token_hash token \<and> of_int now < e"
proof -
  obtain e where e: "map_of cache (cache_key vaultId (token_hash token)) = Some (p, e)" "of_int now < e"
    using assms(2) by (auto simp: getCachedSession_def Let_def split: option.splits if_splits)
  from map_of_SomeD [OF e(1)] cache_entry_validated [OF assms(1)]
  obtain t token' v st where "(t, token', v, st, p, e) \<in> set past" "validate t token' v st = Some (p, e)"
    "cache_key vaultId (token_hash token) = cache_key v (token_hash token')" by blast
  then show ?thesis using key_inj e(2) by metis
qed

end

section \<open>The routes\<close>

text \<open>\<^verbatim>\<open>Authorization: Bearer\<close>: the session token behind it.\<close>

definition getHttpAuthToken :: "jsstr option \<Rightarrow> jsstr option" where
  "getHttpAuthToken header =
     (case header of
        None \<Rightarrow> None
      | Some auth \<Rightarrow>
          if \<not> startsWith auth (js ''Bearer '') then None
          else (let t = trim (drop 7 auth) in if t = [] then None else Some t))"

definition configPost :: "crypto \<Rightarrow> int \<Rightarrow> draws \<Rightarrow> string \<Rightarrow> (jsstr \<times> json) list \<Rightarrow> auth_storage \<Rightarrow> auth_response \<times> auth_storage" where
  "configPost cr now dw path body st =
     config_fetch cr now dw \<lparr> rq_method = HttpPost, rq_path = path, rq_body = Some (JsonObject body) \<rparr> st"

datatype device_auth =
    Authorized device_principal jsstr
  | Denied string nat

definition session_body :: "jsstr \<Rightarrow> jsstr \<Rightarrow> (jsstr \<times> json) list" where
  "session_body token vaultId = [(js ''session'', JsonString token), (js ''vaultId'', JsonString vaultId)]"

definition authorizeDeviceRequest ::
  "crypto \<Rightarrow> int \<Rightarrow> draws \<Rightarrow> jsstr option \<Rightarrow> jsstr \<Rightarrow> auth_storage \<Rightarrow> session_cache \<Rightarrow> device_auth \<times> session_cache" where
  "authorizeDeviceRequest cr now dw header vaultId st cache =
     (case getHttpAuthToken header of
        None \<Rightarrow> (Denied ''unauthorized'' 401, cache)
      | Some token \<Rightarrow>
          (case getCachedSession now vaultId (hashOpaque cr token) cache of
             (Some p, cache') \<Rightarrow> (Authorized p token, cache')
           | (None, cache') \<Rightarrow>
               (case fst (configPost cr now dw ''/__kaos/auth/validate-session'' (session_body token vaultId) st) of
                  SessionValid p expiresAt \<Rightarrow>
                    if \<not> validVaultId (dp_vaultId p) \<or> dp_vaultId p \<noteq> vaultId then (Denied ''unauthorized'' 401, cache')
                    else (Authorized p token, setCachedSession vaultId (hashOpaque cr token) p expiresAt cache')
                | AuthError e status \<Rightarrow> (if status = 503 then Denied ''unclaimed'' 503 else Denied ''unauthorized'' 401, cache')
                | _ \<Rightarrow> (Denied ''unauthorized'' 401, cache'))))"

definition requireOwner ::
  "crypto \<Rightarrow> int \<Rightarrow> draws \<Rightarrow> jsstr option \<Rightarrow> jsstr \<Rightarrow> auth_storage \<Rightarrow> session_cache \<Rightarrow> device_auth \<times> session_cache" where
  "requireOwner cr now dw header vaultId st cache =
     (case authorizeDeviceRequest cr now dw header vaultId st cache of
        (Authorized p s, cache') \<Rightarrow> (if dp_role p \<noteq> Owner then Denied ''owner_required'' 403 else Authorized p s, cache')
      | denied \<Rightarrow> denied)"

definition response_ok :: "auth_response \<Rightarrow> bool" where
  "response_ok r = (case r of AuthError e n \<Rightarrow> False | _ \<Rightarrow> True)"

text \<open>\<^verbatim>\<open>{ ...body, token, vaultId }\<close>: later properties win.\<close>

definition with_session :: "(jsstr \<times> json) list \<Rightarrow> jsstr \<Rightarrow> jsstr \<Rightarrow> (jsstr \<times> json) list" where
  "with_session body token vaultId = session_body token vaultId @ body"

text \<open>The tickets of the web socket: issued to a session, and accepted for the vault they name.\<close>

definition issueSocketTicket ::
  "crypto \<Rightarrow> int \<Rightarrow> draws \<Rightarrow> jsstr option \<Rightarrow> jsstr \<Rightarrow> auth_storage \<Rightarrow> auth_response \<times> auth_storage" where
  "issueSocketTicket cr now dw header vaultId st =
     (case getHttpAuthToken header of
        None \<Rightarrow> (AuthError ''unauthorized'' 401, st)
      | Some token \<Rightarrow> configPost cr now dw ''/__kaos/auth/ticket'' (session_body token vaultId) st)"

definition consumeSocketTicket ::
  "crypto \<Rightarrow> int \<Rightarrow> draws \<Rightarrow> jsstr \<Rightarrow> jsstr \<Rightarrow> auth_storage \<Rightarrow> device_principal option \<times> auth_storage" where
  "consumeSocketTicket cr now dw vaultId ticket st =
     (case configPost cr now dw ''/__kaos/auth/consume-ticket''
             [(js ''ticket'', JsonString ticket), (js ''vaultId'', JsonString vaultId)] st of
        (TicketAccepted p, st') \<Rightarrow> (if dp_vaultId p = vaultId then Some p else None, st')
      | (_, st') \<Rightarrow> (None, st'))"

datatype device_action = ActionList | ActionPairCreate | ActionRole | ActionRevoke | ActionRename

definition action_path :: "device_action \<Rightarrow> string" where
  "action_path a =
     (case a of ActionList \<Rightarrow> ''/__kaos/devices/list'' | ActionPairCreate \<Rightarrow> ''/__kaos/devices/pair/create''
      | ActionRole \<Rightarrow> ''/__kaos/devices/role'' | ActionRevoke \<Rightarrow> ''/__kaos/devices/revoke'' | ActionRename \<Rightarrow> ''/__kaos/devices/rename'')"

text \<open>
  The signal of a change closes the sockets of the vault and drops the vault's sessions from the
  cache of the isolate that handles the request; \<open>True\<close> stands for the message to the vault's room.
\<close>

definition signalVaultAuthChange :: "jsstr \<Rightarrow> session_cache \<Rightarrow> session_cache \<times> bool" where
  "signalVaultAuthChange vaultId cache = (invalidateSessionCache (Some vaultId) cache, True)"

record route_result =
  rr_response :: auth_response
  rr_store :: auth_storage
  rr_cache :: session_cache
  rr_signalled :: bool

definition route_done :: "auth_response \<Rightarrow> auth_storage \<Rightarrow> session_cache \<Rightarrow> bool \<Rightarrow> route_result" where
  "route_done r st cache signalled = \<lparr> rr_response = r, rr_store = st, rr_cache = cache, rr_signalled = signalled \<rparr>"

definition handleOwnerDeviceRoute ::
  "crypto \<Rightarrow> int \<Rightarrow> draws \<Rightarrow> jsstr option \<Rightarrow> jsstr \<Rightarrow> device_action \<Rightarrow> json option \<Rightarrow> auth_storage \<Rightarrow> session_cache \<Rightarrow> route_result" where
  "handleOwnerDeviceRoute cr now dw header vaultId action raw st cache =
     (if action \<noteq> ActionList \<and> raw = None then route_done (AuthError ''invalid json'' 400) st cache False
      else
        let body = (if action = ActionList then [] else case asRecord raw of Some fs \<Rightarrow> fs | None \<Rightarrow> [])
        in if action = ActionRename then
             (case authorizeDeviceRequest cr now dw header vaultId st cache of
                (Denied e n, cache') \<Rightarrow> route_done (AuthError e n) st cache' False
              | (Authorized p token, cache') \<Rightarrow>
                  let target = (case read_string (field ''targetDeviceId'' body) of
                        Some t \<Rightarrow> if trim t \<noteq> [] then trim t else dp_deviceId p
                      | None \<Rightarrow> dp_deviceId p)
                  in if dp_role p \<noteq> Owner \<and> dp_deviceId p \<noteq> target then route_done (AuthError ''owner_required'' 403) st cache' False
                     else
                       let (r, st') = configPost cr now dw (action_path ActionRename)
                             (with_session ((js ''targetDeviceId'', JsonString target) # body) token vaultId) st
                       in route_done r st' cache' False)
           else
             (case requireOwner cr now dw header vaultId st cache of
                (Denied e n, cache') \<Rightarrow> route_done (AuthError e n) st cache' False
              | (Authorized p token, cache') \<Rightarrow>
                  let (r, st') = configPost cr now dw (action_path action) (with_session body token vaultId) st
                  in if response_ok r \<and> (action = ActionRole \<or> action = ActionRevoke)
                     then (let (cache'', closed) = signalVaultAuthChange vaultId cache' in route_done r st' cache'' closed)
                     else route_done r st' cache' False))"

definition handleOwnerUpdateMetadataRoute ::
  "crypto \<Rightarrow> int \<Rightarrow> draws \<Rightarrow> jsstr option \<Rightarrow> jsstr \<Rightarrow> json option \<Rightarrow> auth_storage \<Rightarrow> session_cache \<Rightarrow> route_result" where
  "handleOwnerUpdateMetadataRoute cr now dw header vaultId raw st cache =
     (case requireOwner cr now dw header vaultId st cache of
        (Denied e n, cache') \<Rightarrow> route_done (AuthError e n) st cache' False
      | (Authorized p token, cache') \<Rightarrow>
          (case raw of
             None \<Rightarrow> route_done (AuthError ''invalid json'' 400) st cache' False
           | Some v \<Rightarrow>
               let (r, st') = configPost cr now dw ''/__kaos/update-metadata'' (case asRecord (Some v) of Some fs \<Rightarrow> fs | None \<Rightarrow> []) st
               in route_done r st' cache' False))"

definition validSecret :: "jsstr \<Rightarrow> bool" where
  "validSecret s \<longleftrightarrow> 32 \<le> length s \<and> length s \<le> 512 \<and> list_all (\<lambda>c. 0x21 \<le> c \<and> c \<le> 0x7e) s"





section \<open>What a cached session is worth\<close>

lemma hash_no_colon: "58 \<notin> set (hashOpaque cr s)"
proof -
  have "c \<noteq> 58" if "c \<in> set (digits_of 16 n)" for c n
    using hex_digit_chars [OF that] by auto
  then show ?thesis by (auto simp: hashOpaque_def sha256Hex_def bytesToHex_def padStart_def)
qed

interpretation worker: session_authority "principalForSession cr" "hashOpaque cr" for cr
proof
  show "of_int now < e" if "principalForSession cr now token vaultId st = Some (p, e)" for now token vaultId st p e
    using that unfolding principalForSession_def by (auto elim!: principal_fields simp: cleanup_def)
qed (rule hash_no_colon)

text \<open>What the configuration object answers when it is asked about a session.\<close>

definition consulted ::
  "crypto \<Rightarrow> int \<Rightarrow> draws \<Rightarrow> jsstr \<Rightarrow> jsstr \<Rightarrow> auth_storage \<Rightarrow> session_cache \<Rightarrow> (device_principal \<times> rat) option" where
  "consulted cr now dw token vaultId st cache =
     (if fst (getCachedSession now vaultId (hashOpaque cr token) cache) \<noteq> None then None
      else case fst (configPost cr now dw ''/__kaos/auth/validate-session'' (session_body token vaultId) st) of
             SessionValid p e \<Rightarrow> if validVaultId (dp_vaultId p) \<and> dp_vaultId p = vaultId then Some (p, e) else None
           | _ \<Rightarrow> None)"

lemma validate_answers:
  "fst (configPost cr now dw ''/__kaos/auth/validate-session'' (session_body token vaultId) st) = SessionValid p e
    \<Longrightarrow> principalForSession cr now token vaultId st = Some (p, e)"
  by (auto simp: configPost_def config_fetch_def request_fields_def asRecord_def validateSession_def session_body_def
      json_simps split: option.splits if_splits)

lemma consulted_validated: "consulted cr now dw token vaultId st cache = Some (p, e) \<Longrightarrow> principalForSession cr now token vaultId st = Some (p, e)"
  by (auto simp: consulted_def intro: validate_answers split: if_splits auth_response.splits)

lemma authorized_how:
  assumes "authorizeDeviceRequest cr now dw header vaultId st cache = (a, cache')" "getHttpAuthToken header = Some token"
  shows "cache' = (case consulted cr now dw token vaultId st cache of
      None \<Rightarrow> snd (getCachedSession now vaultId (hashOpaque cr token) cache)
    | Some (p, e) \<Rightarrow> setCachedSession vaultId (hashOpaque cr token) p e (snd (getCachedSession now vaultId (hashOpaque cr token) cache)))"
    and "a = Authorized p t \<Longrightarrow> t = token \<and> (fst (getCachedSession now vaultId (hashOpaque cr token) cache) = Some p
      \<or> (\<exists>e. consulted cr now dw token vaultId st cache = Some (p, e)))"
  using assms
  by (auto simp: authorizeDeviceRequest_def consulted_def split: option.splits prod.splits auth_response.splits if_splits)

text \<open>
  One isolate: the requests it authorizes, each with the storage the configuration object has then,
  and the invalidations.  The history keeps the answers the configuration object gave.
\<close>

inductive isolate_reach :: "crypto \<Rightarrow> (int \<times> jsstr \<times> jsstr \<times> auth_storage \<times> device_principal \<times> rat) list \<Rightarrow> session_cache \<Rightarrow> bool"
  for cr where
  isolate_empty: "isolate_reach cr [] []"
| isolate_authorize:
    "isolate_reach cr past cache \<Longrightarrow> getHttpAuthToken header = Some token \<Longrightarrow>
       authorizeDeviceRequest cr now dw header vaultId st cache = (a, cache') \<Longrightarrow>
       past' = (case consulted cr now dw token vaultId st cache of
                  Some (p, e) \<Rightarrow> (now, token, vaultId, st, p, e) # past | None \<Rightarrow> past) \<Longrightarrow>
       isolate_reach cr past' cache'"
| isolate_invalidate: "isolate_reach cr past cache \<Longrightarrow> isolate_reach cr past (invalidateSessionCache vaultId cache)"

lemma isolate_runs: "isolate_reach cr past cache \<Longrightarrow> worker.cache_run cr past cache"
proof (induction rule: isolate_reach.induct)
  case (isolate_authorize past cache header token now dw vaultId st a cache' past')
  note looked = worker.cache_lookup [OF isolate_authorize.IH, of now vaultId "hashOpaque cr token"]
  show ?case
  proof (cases "consulted cr now dw token vaultId st cache")
    case None
    then show ?thesis using looked authorized_how(1) [OF isolate_authorize.hyps(3,2)] isolate_authorize.hyps(4) by simp
  next
    case (Some pe)
    obtain p e where pe: "pe = (p, e)" by (cases pe)
    show ?thesis
      using worker.cache_store [OF looked consulted_validated [OF Some [unfolded pe]]]
        authorized_how(1) [OF isolate_authorize.hyps(3,2)] isolate_authorize.hyps(4) Some pe by simp
  qed
qed (auto intro: worker.cache_run.intros)

text \<open>
  C9: A request is authorized only by a session the configuration object accepted: whenever an
  isolate, after any requests and invalidations, answers that a bearer token is authorized for a
  vault as some principal, the configuration object has accepted for this very vault a token with the
  same hash, now or in an answer this isolate cached, as that principal, and the expiry it gave has
  not passed.  Neither another vault's cached session nor an expired one is ever accepted.\<close>

theorem authorization_was_validated:
  assumes "isolate_reach cr past cache"
    and "authorizeDeviceRequest cr now dw header vaultId st cache = (Authorized p token, cache')"
  shows "\<exists>t token' st' e. ((t, token', vaultId, st', p, e) \<in> set past \<or> (t, token', st') = (now, token, st))
    \<and> principalForSession cr t token' vaultId st' = Some (p, e) \<and> hashOpaque cr token' = hashOpaque cr token \<and> of_int now < e"
proof -
  obtain token0 where header: "getHttpAuthToken header = Some token0"
    using assms(2) by (auto simp: authorizeDeviceRequest_def split: option.splits)
  from authorized_how(2) [OF assms(2) header refl]
  have "token = token0" and how: "fst (getCachedSession now vaultId (hashOpaque cr token) cache) = Some p
      \<or> (\<exists>e. consulted cr now dw token vaultId st cache = Some (p, e))" by auto
  from how show ?thesis
  proof
    assume "fst (getCachedSession now vaultId (hashOpaque cr token) cache) = Some p"
    from worker.cached_answer [OF isolate_runs [OF assms(1)] this] show ?thesis by blast
  next
    assume "\<exists>e. consulted cr now dw token vaultId st cache = Some (p, e)"
    then obtain e where "principalForSession cr now token vaultId st = Some (p, e)" using consulted_validated by blast
    then show ?thesis using worker.lives [of cr now token vaultId st p e] by blast
  qed
qed

lemma url_not_space: "\<forall>c\<in>set BASE64URL_ALPHABET. \<not> js_space c"
  by (simp add: BASE64URL_ALPHABET_def js_def js_space_def)

definition bearer :: "byte \<Rightarrow> jsstr option" where
  "bearer b = Some (js ''Bearer '' @ randomBase64Url (replicate 32 b))"

lemma bearer_token [simp]: "getHttpAuthToken (bearer b) = Some (randomBase64Url (replicate 32 b))"
proof -
  have "list_all (\<lambda>c. \<not> js_space c) (randomBase64Url (replicate 32 b))"
    using url_not_space sextets_bound url_alphabet by (fastforce simp: list_all_iff randomBase64Url_def bytesToBase64Url_def)
  moreover have "randomBase64Url (replicate 32 b) \<noteq> []" using token_length [of b] by auto
  ultimately show ?thesis by (simp add: getHttpAuthToken_def bearer_def startsWith_def js_def trim_nonspace)
qed

theorem authorization_was_validated_witness:
  "\<exists>t token' st' e. principalForSession sample_crypto t token' sample_vault st' = Some (sample_principal, e) \<and> st' = store3 \<and> 5000 < e"
proof -
  define token where "token = randomBase64Url (replicate 32 3)"
  define dw where "dw = sample_draws 0"
  have token: "getHttpAuthToken (bearer 3) = Some token" by (simp add: token_def)
  have len: "length token = 43" by (simp add: token_def token_length)
  have "fst (configPost sample_crypto 4000 dw ''/__kaos/auth/validate-session'' (session_body token sample_vault) store3)
      = SessionValid sample_principal 303000"
    using sample_principal_in [of 4000]
    by (simp add: configPost_def config_fetch_def request_fields_def asRecord_def validateSession_def session_body_def json_simps
        principalForSession_def len) (simp add: token_def)
  then have con: "consulted sample_crypto 4000 dw token sample_vault store3 [] = Some (sample_principal, 303000)"
    by (simp add: consulted_def getCachedSession_def sample_principal_def)
  let ?cache = "[(cache_key sample_vault (hashOpaque sample_crypto token), sample_principal, 303000)]"
  obtain a cache' where auth: "authorizeDeviceRequest sample_crypto 4000 dw (bearer 3) sample_vault store3 [] = (a, cache')" by fastforce
  have "cache' = ?cache"
    using authorized_how(1) [OF auth token] con by (simp add: getCachedSession_def setCachedSession_def MAX_SESSION_CACHE_ENTRIES_def)
  then have reach: "isolate_reach sample_crypto [(4000, token, sample_vault, store3, sample_principal, 303000)] ?cache"
    using isolate_authorize [OF isolate_empty token auth] con by simp
  have "authorizeDeviceRequest sample_crypto 5000 dw (bearer 3) sample_vault (\<lambda>_. None) ?cache = (Authorized sample_principal token, ?cache)"
    by (simp add: authorizeDeviceRequest_def token getCachedSession_def del: bearer_token)
  from authorization_was_validated [OF reach this]
  obtain t token' st' e where "((t, token', sample_vault, st', sample_principal, e) \<in> set [(4000, token, sample_vault, store3, sample_principal, 303000)]
      \<or> (t, token', st') = (5000, token, \<lambda>_. None))"
    "principalForSession sample_crypto t token' sample_vault st' = Some (sample_principal, e)" "of_int 5000 < e" by blast
  moreover have "principalForSession sample_crypto t token' sample_vault (\<lambda>_. None) = None" for t token'
    by (simp add: principalForSession_def principal_in_def empty_values cleanup_def)
  ultimately show ?thesis by auto
qed

section \<open>Revocation and the caches of other isolates\<close>

lemma config_revoked:
  assumes "configPost cr now dw (action_path ActionRevoke) body st = (DeviceRevoked i g, st')"
  shows "av_sessions (readAuthValues st') = []"
  using assms
  by (auto simp: configPost_def config_fetch_def action_path_def request_fields_def asRecord_def revokeDevice_def Let_def
      split: option.splits if_splits)

lemma action_responses:
  "fst (configPost cr now dw (action_path ActionList) body st) \<noteq> DeviceRevoked i g"
  "fst (configPost cr now dw (action_path ActionPairCreate) body st) \<noteq> DeviceRevoked i g"
  "fst (configPost cr now dw (action_path ActionRole) body st) \<noteq> DeviceRevoked i g"
  by (auto simp: configPost_def config_fetch_def action_path_def request_fields_def asRecord_def listDevices_def createPairing_def
      changeDeviceRole_def Let_def split: option.splits if_splits)

lemma forgotten: "fst (getCachedSession now vaultId h (invalidateSessionCache (Some vaultId) cache)) = None"
proof -
  have "map_of (invalidateSessionCache (Some vaultId) cache) (cache_key vaultId h) = None"
    by (auto simp: invalidateSessionCache_def map_of_eq_None_iff cache_key_def startsWith_def js_def take_append)
  then show ?thesis by (simp add: getCachedSession_def)
qed

text \<open>
  C37: Revocation reaches only the cache of the isolate that carries it out.  After an owner's request
  revoked a device, the configuration object knows no session of the vault any more, and the isolate
  that handled the request has forgotten them; but another isolate that had cached a session still
  answers that its token is authorized, until the session's own expiry, without asking the
  configuration object.  The server's README says that revocation invalidates every session.\<close>

theorem revoked_session_still_authorized:
  assumes "handleOwnerDeviceRoute cr now dw header vaultId ActionRevoke raw st cache = result"
    and "rr_response result = DeviceRevoked i g"
    and "fst (getCachedSession now' vaultId (hashOpaque cr token) other) = Some p" "getHttpAuthToken header' = Some token"
  shows "principalForSession cr now' token vaultId (rr_store result) = None
    \<and> fst (getCachedSession now' vaultId (hashOpaque cr token) (rr_cache result)) = None
    \<and> fst (authorizeDeviceRequest cr now' dw' header' vaultId (rr_store result) other) = Authorized p token"
proof -
  obtain body st' cache' where post: "configPost cr now dw (action_path ActionRevoke) body st = (DeviceRevoked i g, st')"
    and result: "rr_store result = st'" "rr_cache result = invalidateSessionCache (Some vaultId) cache'"
    using assms(1,2)
    by (auto simp: handleOwnerDeviceRoute_def route_done_def signalVaultAuthChange_def response_ok_def Let_def
        split: prod.splits device_auth.splits if_splits option.splits)
  have "principalForSession cr now' token vaultId st' = None"
    using config_revoked [OF post] by (simp add: principalForSession_def principal_in_def cleanup_def)
  moreover have "fst (authorizeDeviceRequest cr now' dw' header' vaultId st' other) = Authorized p token"
    using assms(3,4) by (cases "getCachedSession now' vaultId (hashOpaque cr token) other") (simp add: authorizeDeviceRequest_def)
  ultimately show ?thesis by (simp add: result forgotten)
qed

definition sample_member :: stored_device where
  "sample_member = sample_owner\<lparr> dv_id := replicate 8 109, dv_role := Member \<rparr>"

definition member_session :: stored_session where
  "member_session = sample_session\<lparr> ss_hash := hashOpaque sample_crypto (randomBase64Url (replicate 32 5)), ss_deviceId := replicate 8 109 \<rparr>"

definition store8 :: auth_storage where
  "store8 = put_list ''authDevices'' device_json [sample_owner, sample_member]
     (put_list ''authSessions'' session_json [sample_session, member_session] store3)"

lemma values8: "readAuthValues store8 = (readAuthValues store3)
    \<lparr> av_devices := [sample_owner, sample_member], av_sessions := [sample_session, member_session] \<rparr>"
proof -
  have "validId (replicate 8 109)" by (simp add: validId_def id_unit_def lower_unit_def list_all_iff)
  then have "device_ok sample_member" "session_ok member_session"
    using sample_records_ok(1,3) hash_valid [OF sample_crypto_ok]
    by (simp_all add: sample_member_def member_session_def device_ok_def session_ok_def)
  then show ?thesis by (simp add: store8_def)
qed

lemma sample_principal8:
  "now < 303000 \<Longrightarrow> principalForSession sample_crypto now (randomBase64Url (replicate 32 3)) sample_vault store8 = Some (sample_principal, 303000)"
  by (simp add: principalForSession_def principal_in_def values8 run_values cleanup_def sameSecretHash_iff)
    (simp add: sample_session_def sample_principal_def)

definition revoke_body :: json where
  "revoke_body = JsonObject [(js ''targetDeviceId'', JsonString (replicate 8 109))]"

definition member_principal :: device_principal where
  "member_principal = \<lparr> dp_deviceId = replicate 8 109, dp_vaultId = sample_vault, dp_role = Member, dp_authGeneration = 1 \<rparr>"

definition member_cache :: session_cache where
  "member_cache = [(cache_key sample_vault (hashOpaque sample_crypto (randomBase64Url (replicate 32 5))), member_principal, 303000)]"

definition owner_cache :: session_cache where
  "owner_cache = [(cache_key sample_vault (hashOpaque sample_crypto (randomBase64Url (replicate 32 3))), sample_principal, 303000)]"

lemma revoke_response:
  "rr_response (handleOwnerDeviceRoute sample_crypto 5000 dw (bearer 3) sample_vault ActionRevoke (Some revoke_body) store8 owner_cache)
    = DeviceRevoked (replicate 8 109) 2"
proof -
  define token where "token = randomBase64Url (replicate 32 3)"
  have token: "getHttpAuthToken (bearer 3) = Some token" by (simp add: token_def)
  have auth: "requireOwner sample_crypto 5000 dw (bearer 3) sample_vault store8 owner_cache = (Authorized sample_principal token, owner_cache)"
    by (simp add: requireOwner_def authorizeDeviceRequest_def token getCachedSession_def owner_cache_def del: bearer_token)
      (simp add: token_def sample_principal_def)
  have target: "validId (replicate 8 109)" by (simp add: validId_def id_unit_def lower_unit_def list_all_iff)
  define body where "body = with_session [(js ''targetDeviceId'', JsonString (replicate 8 109))] token sample_vault"
  have owner: "ownerPrincipal sample_crypto 5000 body store8 = Some sample_principal"
    using sample_principal8 [of 5000]
    by (simp add: ownerPrincipal_def body_def with_session_def session_body_def json_simps token_def) (simp add: sample_principal_def)
  have "fst (revokeDevice sample_crypto 5000 body store8) = DeviceRevoked (replicate 8 109) 2"
    using target owner
    by (simp add: revokeDevice_def body_def with_session_def session_body_def json_simps values8 find_active_def Let_def sample_member_def
        run_values sample_id_def)
  then obtain st' where "revokeDevice sample_crypto 5000 body store8 = (DeviceRevoked (replicate 8 109) 2, st')"
    by (metis prod.collapse)
  then have "configPost sample_crypto 5000 dw (action_path ActionRevoke) body store8 = (DeviceRevoked (replicate 8 109) 2, st')"
    by (simp add: configPost_def config_fetch_def action_path_def request_fields_def asRecord_def)
  then show ?thesis
    by (simp add: handleOwnerDeviceRoute_def auth revoke_body_def asRecord_def Let_def route_done_def response_ok_def
        signalVaultAuthChange_def body_def [symmetric])
qed

theorem revoked_session_still_authorized_witness:
  "\<exists>result :: route_result. rr_response result = DeviceRevoked (replicate 8 109) 2
     \<and> fst (authorizeDeviceRequest sample_crypto 6000 (sample_draws 0) (bearer 5) sample_vault (rr_store result) member_cache)
         = Authorized member_principal (randomBase64Url (replicate 32 5))"
proof -
  have "fst (getCachedSession 6000 sample_vault (hashOpaque sample_crypto (randomBase64Url (replicate 32 5))) member_cache) = Some member_principal"
    by (simp add: getCachedSession_def member_cache_def)
  from revoked_session_still_authorized [OF refl revoke_response this bearer_token, of "sample_draws 0" "sample_draws 0"]
    revoke_response [of "sample_draws 0"]
  show ?thesis by blast
qed

section \<open>Recovery\<close>




definition old_secret :: jsstr where "old_secret = replicate 32 120"
definition next_secret :: jsstr where "next_secret = replicate 32 121"



lemma sample_secrets [simp]: "validSecret old_secret" "validSecret next_secret"
  by (simp_all add: validSecret_def old_secret_def next_secret_def list_all_iff)



end
