(* ===== verification/Regex.thy ===== *)
theory Regex
  imports JsStrings
begin

text \<open>
  Regular expressions as the program writes them, with the semantics of the JavaScript matcher:
  \<open>matches r s\<close> lists the ways \<open>r\<close> matches at the front of \<open>s\<close>, in the order in which the matcher
  tries them, each with its captures and what is left of \<open>s\<close>.  Repetition is greedy and only of
  single code units, which is all the program uses.
\<close>

datatype regex =
    Lit jsstr
  | Times nat "jschar \<Rightarrow> bool"
  | Many "jschar \<Rightarrow> bool"
  | Seq regex regex
  | Alt regex regex
  | Opt regex
  | Group nat regex

type_synonym captures = "(nat \<times> jsstr) list"

fun matches :: "regex \<Rightarrow> jsstr \<Rightarrow> (captures \<times> jsstr) list" where
  "matches (Lit l) s = (if startsWith s l then [([], drop (length l) s)] else [])"
| "matches (Times n P) s = (if n \<le> length s \<and> list_all P (take n s) then [([], drop n s)] else [])"
| "matches (Many P) s = map (\<lambda>n. ([], drop n s)) (rev [1..<Suc (length (takeWhile P s))])"
| "matches (Seq a b) s = concat (map (\<lambda>(c, t). map (\<lambda>(d, u). (c @ d, u)) (matches b t)) (matches a s))"
| "matches (Alt a b) s = matches a s @ matches b s"
| "matches (Opt a) s = matches a s @ [([], s)]"
| "matches (Group i a) s = map (\<lambda>(c, t). ((i, take (length s - length t) s) # c, t)) (matches a s)"

fun seq :: "regex list \<Rightarrow> regex" where
  "seq [] = Lit []"
| "seq (r # rs) = Seq r (seq rs)"

text \<open>\<^verbatim>\<open>/^r$/.exec(s)\<close>: the captures of the first way to match all of \<open>s\<close>.\<close>

definition exec_full :: "regex \<Rightarrow> jsstr \<Rightarrow> captures option" where
  "exec_full r s = map_option fst (List.find (\<lambda>(c, t). t = []) (matches r s))"

definition test_full :: "regex \<Rightarrow> jsstr \<Rightarrow> bool" where
  "test_full r s \<longleftrightarrow> exec_full r s \<noteq> None"

definition capture :: "nat \<Rightarrow> captures \<Rightarrow> jsstr option" where
  "capture i cs = map_of cs i"

section \<open>Which strings match\<close>

definition accepts :: "regex \<Rightarrow> jsstr \<Rightarrow> jsstr \<Rightarrow> bool" where
  "accepts r s t \<longleftrightarrow> (\<exists>c. (c, t) \<in> set (matches r s))"

lemma startsWith_iff: "startsWith s p \<longleftrightarrow> (\<exists>t. s = p @ t)"
  unfolding startsWith_def by (metis append_eq_conv_conj append_take_drop_id)

lemma accepts_Lit: "accepts (Lit l) s t \<longleftrightarrow> s = l @ t"
  by (auto simp: accepts_def startsWith_iff)

lemma accepts_Times: "accepts (Times n P) s t \<longleftrightarrow> (\<exists>w. s = w @ t \<and> length w = n \<and> list_all P w)"
proof
  assume "accepts (Times n P) s t"
  then have "n \<le> length s" "list_all P (take n s)" "t = drop n s" by (auto simp: accepts_def split: if_splits)
  then show "\<exists>w. s = w @ t \<and> length w = n \<and> list_all P w" by (intro exI [of _ "take n s"]) simp
qed (auto simp: accepts_def)

lemma takeWhile_longest: "list_all P w \<Longrightarrow> length w \<le> length (takeWhile P (w @ t))"
  by (induction w) simp_all

lemma accepts_Many: "accepts (Many P) s t \<longleftrightarrow> (\<exists>w. s = w @ t \<and> w \<noteq> [] \<and> list_all P w)"
proof
  assume "accepts (Many P) s t"
  then obtain n where n: "1 \<le> n" "n \<le> length (takeWhile P s)" "t = drop n s" by (auto simp: accepts_def)
  then have "take n s = take n (takeWhile P s)" by (metis take_all_iff takeWhile_eq_take take_take min_absorb1 nle_le)
  then have "list_all P (take n s)" by (metis set_take_subset set_takeWhileD list_all_iff subsetD)
  moreover have "take n s \<noteq> []" using n(1,2) by auto
  ultimately show "\<exists>w. s = w @ t \<and> w \<noteq> [] \<and> list_all P w" using n(3) by (metis append_take_drop_id)
next
  assume "\<exists>w. s = w @ t \<and> w \<noteq> [] \<and> list_all P w"
  then obtain w where w: "s = w @ t" "w \<noteq> []" "list_all P w" by blast
  then have "length w \<in> set (rev [1..<Suc (length (takeWhile P s))])"
    using takeWhile_longest [OF w(3), of t] by (cases w) auto
  then have "([], t) \<in> set (matches (Many P) s)" unfolding matches.simps set_map using w(1) by (intro image_eqI [where x = "length w"]) simp_all
  then show "accepts (Many P) s t" unfolding accepts_def by blast
qed

lemma accepts_Seq: "accepts (Seq a b) s t \<longleftrightarrow> (\<exists>u. accepts a s u \<and> accepts b u t)"
  by (force simp: accepts_def)

lemma accepts_Alt: "accepts (Alt a b) s t \<longleftrightarrow> accepts a s t \<or> accepts b s t"
  by (auto simp: accepts_def)

lemma accepts_Opt: "accepts (Opt a) s t \<longleftrightarrow> accepts a s t \<or> s = t"
  by (auto simp: accepts_def)

lemma accepts_Group: "accepts (Group i a) s t \<longleftrightarrow> accepts a s t"
  by (force simp: accepts_def)

lemma accepts_seq_Nil: "accepts (seq []) s t \<longleftrightarrow> s = t"
  by (simp add: accepts_Lit)

lemma accepts_seq_Cons: "accepts (seq (r # rs)) s t \<longleftrightarrow> (\<exists>u. accepts r s u \<and> accepts (seq rs) u t)"
  by (simp add: accepts_Seq)

declare seq.simps [simp del]

lemma test_full_iff: "test_full r s \<longleftrightarrow> accepts r s []"
  by (auto simp: test_full_def exec_full_def accepts_def find_None_iff)

lemma test_fullI: "accepts r s [] \<Longrightarrow> test_full r s"
  by (simp add: test_full_iff)

text \<open>Matching one piece of a string after the other.\<close>

lemma step_lit: "accepts (seq rs) t u \<Longrightarrow> accepts (seq (Lit l # rs)) (l @ t) u"
  unfolding accepts_seq_Cons by (blast intro: accepts_Lit [THEN iffD2])

lemma step_times: "list_all P w \<Longrightarrow> length w = n \<Longrightarrow> accepts (seq rs) t u \<Longrightarrow> accepts (seq (Times n P # rs)) (w @ t) u"
  unfolding accepts_seq_Cons by (blast intro: accepts_Times [THEN iffD2])

lemma step_many: "list_all P w \<Longrightarrow> w \<noteq> [] \<Longrightarrow> accepts (seq rs) t u \<Longrightarrow> accepts (seq (Many P # rs)) (w @ t) u"
  unfolding accepts_seq_Cons by (blast intro: accepts_Many [THEN iffD2])

lemma step_opt: "accepts r (w @ t) t \<Longrightarrow> accepts (seq rs) t u \<Longrightarrow> accepts (seq (Opt r # rs)) (w @ t) u"
  unfolding accepts_seq_Cons accepts_Opt by blast

lemma step_skip: "accepts (seq rs) t u \<Longrightarrow> accepts (seq (Opt r # rs)) t u"
  unfolding accepts_seq_Cons accepts_Opt by blast

lemma step_group: "accepts (seq (r # rs)) t u \<Longrightarrow> accepts (seq (Group i r # rs)) t u"
  unfolding accepts_seq_Cons accepts_Group .

lemma step_end: "accepts (seq []) t t"
  by (simp add: accepts_seq_Nil)

lemma step_sub: "accepts (seq qs) (w @ t) t \<Longrightarrow> accepts (seq rs) t u \<Longrightarrow> accepts (seq (seq qs # rs)) (w @ t) u"
  unfolding accepts_seq_Cons by blast

text \<open>A greedy group at the front takes the longest piece with which the rest still matches.\<close>

lemma find_append: "List.find P (xs @ ys) = (case List.find P xs of None \<Rightarrow> List.find P ys | Some x \<Rightarrow> Some x)"
  by (induction xs) auto

lemma find_concat_map:
  "List.find P (concat (map f xs)) =
     (case List.find (\<lambda>x. List.find P (f x) \<noteq> None) xs of None \<Rightarrow> None | Some x \<Rightarrow> List.find P (f x))"
  by (induction xs) (auto simp: find_append split: option.splits)

end
