(* ===== verification/Paths.thy ===== *)
theory Paths
  imports Regex Digits
begin

text \<open>
  Vault paths: \<^verbatim>\<open>src/src/paths/canonicalPath.ts\<close>, \<^verbatim>\<open>pathCollision.ts\<close>, \<^verbatim>\<open>crdtDocumentPath.ts\<close>,
  \<^verbatim>\<open>conflictArtifactPath.ts\<close>, \<^verbatim>\<open>pathCategory.ts\<close> and the exclusion rules of \<^verbatim>\<open>sync/exclude.ts\<close>.
  Unicode normalization to NFC is the parameter \<open>nfc\<close>; its contract says, as the Unicode standard has it,
  that space, dot and slash are boundaries of normalization, that ASCII is normal, and that no character
  becomes a dot, a slash, a backslash or a line terminator.
\<close>

section \<open>Canonical paths\<close>

record canonical_path =
  cp_displayPath :: jsstr
  cp_normalizedPath :: jsstr
  cp_canonicalKey :: jsstr

text \<open>\<^verbatim>\<open>replace(/\\/g, "/")\<close> and \<^verbatim>\<open>replace(/\/{2,}/g, "/")\<close>.\<close>

definition forward_slashes :: "jsstr \<Rightarrow> jsstr" where
  "forward_slashes s = map (\<lambda>c. if c = 92 then 47 else c) s"

fun single_slashes :: "jsstr \<Rightarrow> jsstr" where
  "single_slashes (a # b # s) = (if a = 47 \<and> b = 47 then single_slashes (b # s) else a # single_slashes (b # s))"
| "single_slashes s = s"

text \<open>\<^verbatim>\<open>replace(/^(\.\/)+/, "")\<close> and \<^verbatim>\<open>replace(/^\/+/, "")\<close>.\<close>

fun strip_dots :: "jsstr \<Rightarrow> jsstr" where
  "strip_dots (a # b # s) = (if a = 46 \<and> b = 47 then strip_dots s else a # b # s)"
| "strip_dots s = s"

definition strip_slashes :: "jsstr \<Rightarrow> jsstr" where
  "strip_slashes s = dropWhile (\<lambda>c. c = 47) s"

definition clean_path :: "jsstr \<Rightarrow> jsstr" where
  "clean_path s = strip_slashes (strip_dots (single_slashes (forward_slashes s)))"

definition canonicalizeVaultPath :: "(jsstr \<Rightarrow> jsstr) \<Rightarrow> jsstr \<Rightarrow> canonical_path" where
  "canonicalizeVaultPath nfc s =
     (let normalizedPath = nfc (clean_path s)
      in \<lparr> cp_displayPath = s, cp_normalizedPath = normalizedPath, cp_canonicalKey = normalizedPath \<rparr>)"

definition nfc_contract :: "(jsstr \<Rightarrow> jsstr) \<Rightarrow> bool" where
  "nfc_contract nfc \<longleftrightarrow>
     (\<forall>c\<in>{32, 46, 47}. \<forall>s t. nfc (s @ c # t) = nfc s @ c # nfc t)
     \<and> (\<forall>s. list_all (\<lambda>c. c < 128) s \<longrightarrow> nfc s = s)
     \<and> (\<forall>c\<in>{10, 13, 46, 47, 92, 0x2028, 0x2029}. \<forall>s. c \<notin> set s \<longrightarrow> c \<notin> set (nfc s))
     \<and> (\<forall>s. nfc s = [] \<longrightarrow> s = [])"

section \<open>Collisions\<close>

record path_collision =
  pc_canonicalKey :: jsstr
  pc_displayPaths :: "jsstr list"

definition note_display_path :: "(jsstr \<Rightarrow> jsstr) \<Rightarrow> jsstr \<Rightarrow> (jsstr \<times> jsstr list) list \<Rightarrow> (jsstr \<times> jsstr list) list" where
  "note_display_path nfc p byKey =
     (let key = cp_canonicalKey (canonicalizeVaultPath nfc p)
      in case map_of byKey key of
           Some ps \<Rightarrow> AList.update key (if p \<in> set ps then ps else ps @ [p]) byKey
         | None \<Rightarrow> AList.update key [p] byKey)"

definition findCanonicalPathCollisions :: "(jsstr \<Rightarrow> jsstr) \<Rightarrow> jsstr list \<Rightarrow> path_collision list" where
  "findCanonicalPathCollisions nfc paths =
     map (\<lambda>(key, ps). \<lparr> pc_canonicalKey = key, pc_displayPaths = ps \<rparr>)
       (filter (\<lambda>(key, ps). 1 < length ps) (fold (note_display_path nfc) paths []))"

section \<open>Text documents\<close>

definition getCrdtDocumentSuffix :: "jsstr \<Rightarrow> jsstr option" where
  "getCrdtDocumentSuffix p = List.find (endsWith p) [js ''.md'', js ''.base'']"

definition isCrdtDocumentPath :: "jsstr \<Rightarrow> bool" where
  "isCrdtDocumentPath p \<longleftrightarrow> getCrdtDocumentSuffix p \<noteq> None"

section \<open>Exclusion\<close>

definition KAOS_EXCLUDE_FILE_PATH :: jsstr where
  "KAOS_EXCLUDE_FILE_PATH = js ''SYSTEM/SETTING/kaos-exclude.md''"

definition GENERATED_DIRECTORY_NAMES :: "jsstr list" where
  "GENERATED_DIRECTORY_NAMES = map js [''node_modules'', ''bower_components'', ''__pycache__'', ''dist'', ''build'', ''coverage'', ''out'', ''target'']"

definition GENERATED_FILE_NAMES :: "jsstr list" where
  "GENERATED_FILE_NAMES = map js [''thumbs.db'', ''desktop.ini'']"

definition TEMPORARY_FILE_SUFFIXES :: "jsstr list" where
  "TEMPORARY_FILE_SUFFIXES = map js [''.tmp'', ''.temp'', ''.swp'', ''.swo'', ''.bak'', ''.backup'', ''.orig'', ''.partial'',
     ''.crdownload'', ''.download'', ''.autosave'', ''.map'']"

text \<open>\<^verbatim>\<open>replace(/^\.\//, "")\<close>: only one leading \<^verbatim>\<open>./\<close>.\<close>

definition normalizePrefix :: "jsstr \<Rightarrow> jsstr" where
  "normalizePrefix p =
     (let s = single_slashes (forward_slashes p)
      in strip_slashes (if startsWith s (js ''./'') then drop 2 s else s))"

definition isKaosExcludeFilePath :: "jsstr \<Rightarrow> bool" where
  "isKaosExcludeFilePath p \<longleftrightarrow> normalizePrefix p = KAOS_EXCLUDE_FILE_PATH"

definition normalizedConfigDir :: "jsstr \<Rightarrow> jsstr" where
  "normalizedConfigDir configDir =
     (let d = normalizePrefix configDir in if endsWith d (js ''/'') then butlast d else d)"

definition alwaysExcludedPrefixes :: "jsstr \<Rightarrow> jsstr list" where
  "alwaysExcludedPrefixes configDir = [normalizedConfigDir configDir @ js ''/'', js ''.trash/'']"

definition isInsideConfigDirectory :: "jsstr \<Rightarrow> jsstr \<Rightarrow> bool" where
  "isInsideConfigDirectory p configDir =
     (let d = normalizedConfigDir configDir
      in if d = [] then False
         else p = d \<or> startsWith p (d @ js ''/'') \<or> sublist (js ''/'' @ d @ js ''/'') p)"

definition hasHiddenPathSegment :: "jsstr \<Rightarrow> bool" where
  "hasHiddenPathSegment p = list_ex (\<lambda>segment. 1 < length segment \<and> startsWith segment (js ''.'')) (split_on 47 p)"

definition isToolOrGeneratedPath :: "jsstr \<Rightarrow> bool" where
  "isToolOrGeneratedPath p =
     (let segments = filter (\<lambda>s. s \<noteq> []) (split_on 47 p);
          filename = (if segments = [] then [] else toLowerCase (last segments))
      in if filename \<in> set GENERATED_FILE_NAMES then True
         else if startsWith filename (js ''~$'') \<or> (startsWith filename (js ''#'') \<and> endsWith filename (js ''#'')) then True
         else if list_ex (endsWith filename) TEMPORARY_FILE_SUFFIXES then True
         else list_ex (\<lambda>segment. toLowerCase segment \<in> set GENERATED_DIRECTORY_NAMES) (butlast segments))"

definition isExcluded :: "jsstr \<Rightarrow> jsstr list \<Rightarrow> jsstr \<Rightarrow> bool" where
  "isExcluded p patterns configDir =
     (let n = normalizePrefix p
      in if isKaosExcludeFilePath n then False
         else if isInsideConfigDirectory n configDir \<or> hasHiddenPathSegment n \<or> isToolOrGeneratedPath n then True
         else if list_ex (startsWith n) (alwaysExcludedPrefixes configDir) then True
         else list_ex (\<lambda>prefix. startsWith n (normalizePrefix prefix)) patterns)"

definition merge_pattern :: "jsstr \<Rightarrow> jsstr list \<Rightarrow> jsstr list" where
  "merge_pattern raw merged =
     (let pattern = normalizePrefix (trim raw)
      in if pattern = [] \<or> pattern \<in> set merged then merged else merged @ [pattern])"

definition mergeExcludePatterns :: "jsstr list list \<Rightarrow> jsstr list" where
  "mergeExcludePatterns groups = fold (fold merge_pattern) groups []"

definition parseExcludePatterns :: "jsstr \<Rightarrow> jsstr list" where
  "parseExcludePatterns raw = mergeExcludePatterns [split_on 44 raw]"

text \<open>\<^verbatim>\<open>raw.replace(/^\uFEFF/, "").split(/\r?\n/)\<close>, and the lines that are no comments.\<close>

definition drop_cr :: "jsstr \<Rightarrow> jsstr" where
  "drop_cr l = (if endsWith l [13] then butlast l else l)"

definition split_lines :: "jsstr \<Rightarrow> jsstr list" where
  "split_lines s = (let ls = split_on 10 s in map drop_cr (butlast ls) @ [last ls])"

definition parseKaosExcludeFile :: "jsstr \<Rightarrow> jsstr list" where
  "parseKaosExcludeFile raw =
     (let body = (if startsWith raw [0xFEFF] then drop 1 raw else raw)
      in mergeExcludePatterns [filter (\<lambda>l. 0 < length l \<and> \<not> startsWith l (js ''#'')) (map trim (split_lines body))])"

end
