(* ===== verification/ConflictPaths.thy ===== *)
theory ConflictPaths
  imports Paths
begin

text \<open>
  The names of safety copies, \<^verbatim>\<open>src/src/paths/conflictArtifactPath.ts\<close>, and the classification of
  paths, \<^verbatim>\<open>pathCategory.ts\<close>.  A conflict keeps the losing side in a file beside the original;
  its name carries the reason, and the name is what keeps the copy out of the synchronization.
\<close>

section \<open>The name patterns\<close>

definition digit :: "jschar \<Rightarrow> bool" where "digit c \<longleftrightarrow> 48 \<le> c \<and> c \<le> 57"
definition not_slash :: "jschar \<Rightarrow> bool" where "not_slash c \<longleftrightarrow> c \<noteq> 47"

text \<open>The class \<^verbatim>\<open>.\<close> and the class \<^verbatim>\<open>[^/.]\<close>.\<close>

definition not_newline :: "jschar \<Rightarrow> bool" where "not_newline c \<longleftrightarrow> c \<notin> {10, 13, 0x2028, 0x2029}"
definition extension_unit :: "jschar \<Rightarrow> bool" where "extension_unit c \<longleftrightarrow> c \<noteq> 47 \<and> c \<noteq> 46"

definition stamp_regex :: regex where
  "stamp_regex = seq [Times 4 digit, Lit (js ''-''), Times 2 digit, Lit (js ''-''), Times 2 digit, Lit (js ''T''),
     Times 2 digit, Lit (js ''-''), Times 2 digit, Lit (js ''-''), Times 2 digit, Lit (js ''Z'')]"

definition source_regex :: regex where
  "source_regex = Alt (Lit (js ''crdt'')) (Alt (Lit (js ''disk'')) (Lit (js ''editor'')))"

definition document_extension_regex :: regex where
  "document_extension_regex = Alt (Lit (js ''.md'')) (Lit (js ''.base''))"

definition MARKDOWN_CONFLICT_ARTIFACT_RE :: regex where
  "MARKDOWN_CONFLICT_ARTIFACT_RE = seq [Many not_slash, Lit (js '' (KAOS conflict''), Opt (seq [Lit (js '' - ''), source_regex]),
     Lit (js '' from ''), Many not_slash, Lit (js '' ''), stamp_regex, Lit (js '')''), Opt (seq [Lit (js '' ''), Many digit]),
     document_extension_regex]"

definition MARKDOWN_CONFLICT_ARTIFACT_NAME_RE :: regex where
  "MARKDOWN_CONFLICT_ARTIFACT_NAME_RE = seq [Group 1 (Many not_newline), Lit (js '' (KAOS conflict''),
     Opt (seq [Lit (js '' - ''), Group 2 source_regex]), Lit (js '' from ''), Group 3 (Many not_newline), Lit (js '' ''),
     Group 4 stamp_regex, Lit (js '')''), Opt (seq [Lit (js '' ''), Group 5 (Many digit)]), Group 6 document_extension_regex]"

definition BLOB_CONFLICT_ARTIFACT_NAME_RE :: regex where
  "BLOB_CONFLICT_ARTIFACT_NAME_RE = seq [Group 1 (Many not_newline), Lit (js '' (KAOS remote conflict ''), Group 2 stamp_regex,
     Lit (js '')''), Opt (seq [Lit (js '' ''), Group 3 (Many digit)]), Opt (Group 4 (seq [Lit (js ''.''), Many extension_unit]))]"

definition hex_digit :: "jschar \<Rightarrow> bool" where "hex_digit c \<longleftrightarrow> digit c \<or> 97 \<le> c \<and> c \<le> 102"

definition BLOB_LOCAL_BACKUP_ARTIFACT_NAME_RE :: regex where
  "BLOB_LOCAL_BACKUP_ARTIFACT_NAME_RE = seq [Group 1 (Many not_newline), Lit (js '' (KAOS local backup ''), Group 2 stamp_regex,
     Lit (js '' ''), Group 3 (Times 16 hex_digit), Lit (js '')''), Opt (Group 4 (seq [Lit (js ''.''), Many extension_unit]))]"

definition BASE_BLOB_CONFLICT_ARTIFACT_NAME_RE :: regex where
  "BASE_BLOB_CONFLICT_ARTIFACT_NAME_RE = seq [
     Alt (seq [Many not_newline, Lit (js '' (KAOS remote conflict ''), stamp_regex, Lit (js '')'')])
         (seq [Many not_newline, Lit (js '' (KAOS local backup ''), stamp_regex, Lit (js '' ''), Times 16 hex_digit, Lit (js '')'')]),
     Opt (seq [Lit (js ''.''), Many extension_unit])]"

section \<open>Recognition\<close>

definition last_segment :: "jsstr \<Rightarrow> jsstr" where
  "last_segment p = last (split_on 47 p)"

text \<open>\<^verbatim>\<open>(?:^|\/)\<close> in front: the name starts the path or follows a slash.\<close>

definition isMarkdownConflictArtifactPath :: "jsstr \<Rightarrow> bool" where
  "isMarkdownConflictArtifactPath path =
     (let p = forward_slashes path
      in test_full MARKDOWN_CONFLICT_ARTIFACT_RE p
         \<or> list_ex (\<lambda>i. p ! i = 47 \<and> test_full MARKDOWN_CONFLICT_ARTIFACT_RE (drop (Suc i) p)) [0..<length p])"

definition isBlobConflictArtifactPath :: "jsstr \<Rightarrow> bool" where
  "isBlobConflictArtifactPath path =
     (let name = last_segment (forward_slashes path)
      in test_full BLOB_CONFLICT_ARTIFACT_NAME_RE name \<or> test_full BLOB_LOCAL_BACKUP_ARTIFACT_NAME_RE name)"

definition isLocalSafetyArtifactPath :: "jsstr \<Rightarrow> bool" where
  "isLocalSafetyArtifactPath path =
     list_ex (\<lambda>segment. test_full MARKDOWN_CONFLICT_ARTIFACT_NAME_RE segment \<or> test_full BLOB_CONFLICT_ARTIFACT_NAME_RE segment
         \<or> test_full BLOB_LOCAL_BACKUP_ARTIFACT_NAME_RE segment)
       (filter (\<lambda>segment. 0 < length segment) (split_on 47 (forward_slashes path)))"

definition isBaseBlobConflictArtifactPath :: "jsstr \<Rightarrow> bool" where
  "isBaseBlobConflictArtifactPath path = test_full BASE_BLOB_CONFLICT_ARTIFACT_NAME_RE (last_segment (forward_slashes path))"

section \<open>Parsing\<close>

datatype artifact_kind = MarkdownArtifact | BlobArtifact
datatype artifact_source = FromDisk | FromCrdt | FromEditor | FromRemote | FromLocal
datatype original_confidence = Candidate | PossiblyTruncated

record parsed_artifact =
  pa_kind :: artifact_kind
  pa_artifactPath :: jsstr
  pa_inferredOriginalPath :: jsstr
  pa_originalPathConfidence :: original_confidence
  pa_source :: "artifact_source option"
  pa_deviceName :: "jsstr option"
  pa_timestamp :: jsstr
  pa_copyIndex :: "nat option"

definition splitPath :: "jsstr \<Rightarrow> jsstr \<times> jsstr" where
  "splitPath p =
     (let name = rev (takeWhile not_slash (rev p)) in (take (length p - length name) p, name))"

text \<open>A stamp is matched as \<^verbatim>\<open>Thh-mm-ssZ\<close> at the end; the two dashes of the time become colons.\<close>

definition stampToIso :: "jsstr \<Rightarrow> jsstr" where
  "stampToIso s =
     (let n = length s
      in if 10 \<le> n \<and> test_full (seq [Lit (js ''T''), Times 2 digit, Lit (js ''-''), Times 2 digit, Lit (js ''-''), Times 2 digit, Lit (js ''Z'')])
                        (drop (n - 10) s)
         then s[n - 7 := 58, n - 4 := 58] else s)"

text \<open>Copy numbers below 2 to the 53, where \<^verbatim>\<open>Number(value)\<close> is exact.\<close>

definition parseCopyIndex :: "jsstr option \<Rightarrow> nat option" where
  "parseCopyIndex v =
     (case v of None \<Rightarrow> None
      | Some s \<Rightarrow> if s = [] then None else (let n = digits_val 10 s in if 0 < n then Some n else None))"

definition read_source :: "jsstr option \<Rightarrow> artifact_source option" where
  "read_source v =
     (if v = Some (js ''disk'') then Some FromDisk else if v = Some (js ''crdt'') then Some FromCrdt
      else if v = Some (js ''editor'') then Some FromEditor else None)"

definition group_or_empty :: "nat \<Rightarrow> captures \<Rightarrow> jsstr" where
  "group_or_empty i cs = (case capture i cs of Some s \<Rightarrow> s | None \<Rightarrow> [])"

definition parseMarkdownConflictArtifactPath :: "jsstr \<Rightarrow> parsed_artifact option" where
  "parseMarkdownConflictArtifactPath path =
     (let normalized = forward_slashes path; (dir, name) = splitPath normalized
      in case exec_full MARKDOWN_CONFLICT_ARTIFACT_NAME_RE name of
           None \<Rightarrow> None
         | Some cs \<Rightarrow>
             let base = group_or_empty 1 cs; device = group_or_empty 3 cs; stamp = group_or_empty 4 cs; ext = group_or_empty 6 cs
             in if base = [] \<or> ext = [] then None
                else if device = [] \<or> stamp = [] then None
                else Some \<lparr> pa_kind = MarkdownArtifact, pa_artifactPath = normalized, pa_inferredOriginalPath = dir @ base @ ext,
                       pa_originalPathConfidence = (if 100 \<le> length base then PossiblyTruncated else Candidate),
                       pa_source = read_source (capture 2 cs), pa_deviceName = Some device, pa_timestamp = stampToIso stamp,
                       pa_copyIndex = parseCopyIndex (capture 5 cs) \<rparr>)"

definition parsed_blob :: "jsstr \<Rightarrow> jsstr \<Rightarrow> captures \<Rightarrow> artifact_source \<Rightarrow> nat option \<Rightarrow> parsed_artifact option" where
  "parsed_blob normalized dir cs source copyIndex =
     (let base = group_or_empty 1 cs; stamp = group_or_empty 2 cs
      in if base = [] \<or> stamp = [] then None
         else Some \<lparr> pa_kind = BlobArtifact, pa_artifactPath = normalized, pa_inferredOriginalPath = dir @ base @ group_or_empty 4 cs,
                pa_originalPathConfidence = (if 180 \<le> length base then PossiblyTruncated else Candidate),
                pa_source = Some source, pa_deviceName = None, pa_timestamp = stampToIso stamp, pa_copyIndex = copyIndex \<rparr>)"

definition parseBlobConflictArtifactPath :: "jsstr \<Rightarrow> parsed_artifact option" where
  "parseBlobConflictArtifactPath path =
     (let normalized = forward_slashes path; (dir, name) = splitPath normalized
      in case exec_full BLOB_CONFLICT_ARTIFACT_NAME_RE name of
           Some cs \<Rightarrow> parsed_blob normalized dir cs FromRemote (parseCopyIndex (capture 3 cs))
         | None \<Rightarrow>
             (case exec_full BLOB_LOCAL_BACKUP_ARTIFACT_NAME_RE name of
                None \<Rightarrow> None
              | Some cs \<Rightarrow> parsed_blob normalized dir cs FromLocal None))"

definition parseConflictArtifactPath :: "jsstr \<Rightarrow> parsed_artifact option" where
  "parseConflictArtifactPath path =
     (case parseMarkdownConflictArtifactPath path of Some p \<Rightarrow> Some p | None \<Rightarrow> parseBlobConflictArtifactPath path)"

section \<open>Building\<close>

text \<open>A date, as \<^verbatim>\<open>toISOString\<close> prints it for the years 0 to 9999.\<close>

record utc_date =
  ud_year :: nat
  ud_month :: nat
  ud_day :: nat
  ud_hour :: nat
  ud_minute :: nat
  ud_second :: nat
  ud_ms :: nat

definition padded :: "nat \<Rightarrow> nat \<Rightarrow> jsstr" where
  "padded w n = padStart w 48 (digits_of 10 n)"

definition toISOString :: "utc_date \<Rightarrow> jsstr" where
  "toISOString d = padded 4 (ud_year d) @ js ''-'' @ padded 2 (ud_month d) @ js ''-'' @ padded 2 (ud_day d) @ js ''T''
     @ padded 2 (ud_hour d) @ js '':'' @ padded 2 (ud_minute d) @ js '':'' @ padded 2 (ud_second d)
     @ js ''.'' @ padded 3 (ud_ms d) @ js ''Z''"

definition formatConflictArtifactStamp :: "utc_date \<Rightarrow> jsstr" where
  "formatConflictArtifactStamp d =
     (let s = toISOString d; n = length s;
          short = (if 5 \<le> n \<and> test_full (seq [Lit (js ''.''), Times 3 digit, Lit (js ''Z'')]) (drop (n - 5) s)
                   then take (n - 5) s @ js ''Z'' else s)
      in map (\<lambda>c. if c = 58 then 45 else c) short)"

definition forbidden_in_device :: "jschar \<Rightarrow> bool" where
  "forbidden_in_device c \<longleftrightarrow> c \<in> set ([92] @ js ''/:*?'' @ [34] @ js ''<>|'')"

definition sanitizeMarkdownConflictDeviceName :: "jsstr \<Rightarrow> jsstr" where
  "sanitizeMarkdownConflictDeviceName deviceName =
     (let s = trim (map (\<lambda>c. if forbidden_in_device c then 45 else c) deviceName)
      in take 50 (if s = [] then js ''unknown-device'' else s))"

definition splitCrdtDocumentName :: "jsstr \<Rightarrow> jsstr \<times> jsstr" where
  "splitCrdtDocumentName name =
     (if endsWith name (js ''.base'') then (take (length name - 5) name, js ''.base'')
      else if endsWith name (js ''.md'') then (take (length name - 3) name, js ''.md'')
      else (name, js ''.md''))"

datatype markdown_source = SourceDisk | SourceCrdt | SourceEditor

definition source_part :: "markdown_source option \<Rightarrow> jsstr" where
  "source_part s =
     (case s of None \<Rightarrow> [] | Some SourceDisk \<Rightarrow> js '' - disk'' | Some SourceCrdt \<Rightarrow> js '' - crdt'' | Some SourceEditor \<Rightarrow> js '' - editor'')"

definition buildMarkdownConflictArtifactPath :: "jsstr \<Rightarrow> jsstr \<Rightarrow> markdown_source option \<Rightarrow> utc_date \<Rightarrow> jsstr" where
  "buildMarkdownConflictArtifactPath path deviceName source date =
     (let (dir, name) = splitPath path; (base, ext) = splitCrdtDocumentName name;
          cappedBase = take 100 base;
          ending = js '' (KAOS conflict'' @ source_part source @ js '' from '' @ sanitizeMarkdownConflictDeviceName deviceName
            @ js '' '' @ formatConflictArtifactStamp date @ js '')'';
          maxBase = max 20 (255 - int (length ending) - int (length ext) - 4)
      in dir @ (if int (length cappedBase) > maxBase then take (nat maxBase) cappedBase else cappedBase) @ ending @ ext)"

text \<open>The number of a copy goes in front of the extension of a document.\<close>

definition buildMarkdownConflictArtifactCopyPath :: "jsstr \<Rightarrow> nat \<Rightarrow> jsstr" where
  "buildMarkdownConflictArtifactCopyPath basePath copyIndex =
     (if copyIndex \<le> 1 then basePath
      else
        let tail = (if endsWith basePath (js ''.base'') then js ''.base'' else if endsWith basePath (js ''.md'') then js ''.md'' else [])
        in take (length basePath - length tail) basePath @ js '' '' @ digits_of 10 copyIndex @ tail)"

text \<open>The extension of a name: from its last dot, unless the dot is the first character.\<close>

definition split_extension :: "jsstr \<Rightarrow> jsstr \<times> jsstr" where
  "split_extension name =
     (let after = rev (takeWhile (\<lambda>c. c \<noteq> 46) (rev name)); dot = length name - length after
      in if 1 < dot then (take (dot - 1) name, drop (dot - 1) name) else (name, []))"

definition blob_artifact_path :: "jsstr \<Rightarrow> jsstr \<Rightarrow> jsstr" where
  "blob_artifact_path path ending =
     (let (dir, name) = splitPath (forward_slashes path); (base, ext) = split_extension name;
          maxBase = max 20 (255 - int (length ending) - int (length ext) - 4)
      in dir @ (if int (length base) > maxBase then take (nat maxBase) base else base) @ ending @ ext)"

definition buildBlobConflictArtifactPath :: "jsstr \<Rightarrow> utc_date \<Rightarrow> jsstr" where
  "buildBlobConflictArtifactPath path date =
     blob_artifact_path path (js '' (KAOS remote conflict '' @ formatConflictArtifactStamp date @ js '')'')"

text \<open>The number of a copy goes in front of the last extension, if there is one.\<close>

definition buildBlobConflictArtifactCopyPath :: "jsstr \<Rightarrow> nat \<Rightarrow> jsstr" where
  "buildBlobConflictArtifactCopyPath basePath copyIndex =
     (if copyIndex \<le> 1 then basePath
      else
        let after = rev (takeWhile extension_unit (rev basePath)); n = length basePath - length after;
            pos = (if after \<noteq> [] \<and> 0 < n \<and> basePath ! (n - 1) = 46 then n - 1 else length basePath)
        in take pos basePath @ js '' '' @ digits_of 10 copyIndex @ drop pos basePath)"

definition buildBlobLocalBackupArtifactPath :: "jsstr \<Rightarrow> jsstr \<Rightarrow> utc_date \<Rightarrow> string + jsstr" where
  "buildBlobLocalBackupArtifactPath path operationId date =
     (if \<not> (length operationId = 16 \<and> list_all hex_digit operationId)
      then Inl ''blob local backup operationId must be 16 lowercase hex characters''
      else Inr (blob_artifact_path path
        (js '' (KAOS local backup '' @ formatConflictArtifactStamp date @ js '' '' @ operationId @ js '')'')))"

text \<open>The pattern of the copies of one original, with the escaped directory, name and source.\<close>

definition isMarkdownConflictArtifactForOriginalPath :: "jsstr \<Rightarrow> jsstr \<Rightarrow> markdown_source option \<Rightarrow> bool" where
  "isMarkdownConflictArtifactForOriginalPath candidate originalPath source =
     (let (dir, name) = splitPath originalPath; (base, ext) = splitCrdtDocumentName name;
          re = seq [Lit (dir @ take 100 base @ js '' (KAOS conflict'' @ source_part source @ js '' from ''), Many not_slash, Lit (js '' ''),
                 stamp_regex, Lit (js '')''), Opt (seq [Lit (js '' ''), Many digit]), Lit ext]
      in isMarkdownConflictArtifactPath candidate \<and> test_full re (forward_slashes candidate))"

section \<open>Categories\<close>

datatype sync_category = MarkdownPath canonical_path | BlobPath canonical_path | ExcludedPath canonical_path string

definition classifySyncPath :: "(jsstr \<Rightarrow> jsstr) \<Rightarrow> jsstr \<Rightarrow> jsstr list \<Rightarrow> jsstr \<Rightarrow> sync_category" where
  "classifySyncPath nfc path excludePatterns configDir =
     (let canonical = canonicalizeVaultPath nfc path; normalized = cp_normalizedPath canonical
      in if isExcluded normalized excludePatterns configDir then ExcludedPath canonical ''excluded-by-pattern''
         else if isMarkdownConflictArtifactPath normalized then ExcludedPath canonical ''excluded-by-pattern''
         else if isLocalSafetyArtifactPath normalized then ExcludedPath canonical ''local-safety-artifact''
         else if isCrdtDocumentPath normalized then MarkdownPath canonical
         else BlobPath canonical)"

end
