(* ===== verification/SafetyCopies.thy ===== *)
theory SafetyCopies
  imports ConflictPaths
begin

text \<open>
  Safety copies stay local: every name that \<^verbatim>\<open>conflictArtifactPath.ts\<close> builds is recognised by its
  patterns after canonicalization, so that \<^verbatim>\<open>classifySyncPath\<close> excludes the copy; and the one shape of
  names for which it is not.
\<close>

section \<open>Stamps\<close>

definition date_ok :: "utc_date \<Rightarrow> bool" where
  "date_ok d \<longleftrightarrow> ud_year d < 10 ^ 4 \<and> ud_month d < 10 ^ 2 \<and> ud_day d < 10 ^ 2 \<and> ud_hour d < 10 ^ 2 \<and> ud_minute d < 10 ^ 2
     \<and> ud_second d < 10 ^ 2 \<and> ud_ms d < 10 ^ 3"

lemma digits_digit: "list_all digit (digits_of 10 n)"
  using digits_of_chars [of 10 _ n] by (auto simp: list_all_iff digit_def)

lemma padded_digit: "list_all digit (padded w n)"
  using digits_digit [of n] by (auto simp: padded_def padStart_def list_all_iff digit_def)

lemma length_padded: "0 < w \<Longrightarrow> n < 10 ^ w \<Longrightarrow> length (padded w n) = w"
  using length_digits_of [of 10 n w] by (simp add: padded_def padStart_def)

lemma colon_digits: "list_all digit w \<Longrightarrow> map (\<lambda>c. if c = 58 then 45 else c) w = w"
  by (induction w) (auto simp: digit_def)

definition stamp_parts :: "utc_date \<Rightarrow> jsstr" where
  "stamp_parts d = padded 4 (ud_year d) @ js ''-'' @ padded 2 (ud_month d) @ js ''-'' @ padded 2 (ud_day d) @ js ''T''
     @ padded 2 (ud_hour d) @ js ''-'' @ padded 2 (ud_minute d) @ js ''-'' @ padded 2 (ud_second d) @ js ''Z''"

lemma stamp_eq:
  assumes "date_ok d"
  shows "formatConflictArtifactStamp d = stamp_parts d"
proof -
  define front where "front = padded 4 (ud_year d) @ js ''-'' @ padded 2 (ud_month d) @ js ''-'' @ padded 2 (ud_day d) @ js ''T''
     @ padded 2 (ud_hour d) @ js '':'' @ padded 2 (ud_minute d) @ js '':'' @ padded 2 (ud_second d)"
  define rear where "rear = js ''.'' @ padded 3 (ud_ms d) @ js ''Z'' @ []"
  have rear: "length rear = 5" using assms length_padded [of 3 "ud_ms d"] by (simp add: rear_def js_def date_ok_def)
  have iso: "toISOString d = front @ rear" by (simp add: toISOString_def front_def rear_def)
  have "accepts (seq [Lit (js ''.''), Times 3 digit, Lit (js ''Z'')]) rear []"
    unfolding rear_def using assms
    by (intro step_lit step_times padded_digit length_padded step_end) (simp_all add: date_ok_def)
  then have "formatConflictArtifactStamp d = map (\<lambda>c. if c = 58 then 45 else c) (front @ js ''Z'')"
    by (simp add: formatConflictArtifactStamp_def iso rear test_full_iff)
  then show ?thesis
    by (simp add: front_def stamp_parts_def colon_digits padded_digit js_def)
qed

lemma stamp_accepted: "date_ok d \<Longrightarrow> accepts stamp_regex (stamp_parts d @ t) t"
  unfolding stamp_regex_def stamp_parts_def append_assoc
  by (intro step_lit step_times padded_digit length_padded step_end) (simp_all add: date_ok_def)

lemma stamp_units: "c \<in> set (stamp_parts d) \<Longrightarrow> digit c \<or> c \<in> {45, 84, 90}"
  using padded_digit by (auto simp: stamp_parts_def js_def list_all_iff)

section \<open>The names match\<close>

text \<open>What follows the base of a document in the name of its copy, and the number of the copy.\<close>

definition document_tail :: "markdown_source option \<Rightarrow> jsstr \<Rightarrow> jsstr \<Rightarrow> jsstr \<Rightarrow> jsstr \<Rightarrow> jsstr" where
  "document_tail source device stamp copy ext = js '' (KAOS conflict'' @ source_part source @ js '' from '' @ device @ js '' '' @ stamp
     @ js '')'' @ copy @ ext"

definition copy_part :: "nat \<Rightarrow> jsstr" where
  "copy_part n = (if n \<le> 1 then [] else js '' '' @ digits_of 10 n)"

lemma copy_accepted: "accepts (seq rs) t u \<Longrightarrow> accepts (seq (Opt (seq [Lit (js '' ''), Many digit]) # rs)) (copy_part n @ t) u"
proof (cases "n \<le> 1")
  case False
  have "accepts (seq [Lit (js '' ''), Many digit]) (js '' '' @ digits_of 10 n @ t) t"
    by (intro step_lit step_many step_end digits_digit digits_of_nonempty)
  then show "accepts (seq rs) t u \<Longrightarrow> ?thesis" using False step_opt [of _ "copy_part n" t] by (simp only: copy_part_def if_False append_assoc)
qed (simp add: copy_part_def step_skip)

lemma grouped_copy_accepted:
  "accepts (seq rs) t u \<Longrightarrow> accepts (seq (Opt (seq [Lit (js '' ''), Group i (Many digit)]) # rs)) (copy_part n @ t) u"
proof (cases "n \<le> 1")
  case False
  have "accepts (seq [Lit (js '' ''), Group i (Many digit)]) (js '' '' @ digits_of 10 n @ t) t"
    by (intro step_lit step_group step_many step_end digits_digit digits_of_nonempty)
  then show "accepts (seq rs) t u \<Longrightarrow> ?thesis" using False step_opt [of _ "copy_part n" t] by (simp only: copy_part_def if_False append_assoc)
qed (simp add: copy_part_def step_skip)

lemma source_accepted:
  "accepts (seq rs) t u \<Longrightarrow> accepts (seq (Opt (seq [Lit (js '' - ''), source_regex]) # rs)) (source_part source @ t) u"
proof (cases source)
  case (Some m)
  obtain w where w: "source_part source = js '' - '' @ w" "w \<in> {js ''crdt'', js ''disk'', js ''editor''}"
    using Some by (cases m) (auto simp: source_part_def js_def)
  then have "accepts (seq [source_regex]) (w @ t) t"
    by (simp only: accepts_seq_Cons accepts_seq_Nil source_regex_def accepts_Alt accepts_Lit) blast
  from step_lit [OF this] show "accepts (seq rs) t u \<Longrightarrow> ?thesis"
    using step_opt [of _ "source_part source" t] by (simp only: w(1) append_assoc)
qed (simp add: source_part_def step_skip)

lemma extension_accepted: "ext \<in> {js ''.md'', js ''.base''} \<Longrightarrow> accepts (seq [document_extension_regex]) ext []"
  by (simp only: accepts_seq_Cons accepts_seq_Nil document_extension_regex_def accepts_Alt accepts_Lit) auto

lemma document_copy_matches:
  assumes "list_all not_slash base" "base \<noteq> []" "list_all not_slash device" "device \<noteq> []" "date_ok d"
    and "ext \<in> {js ''.md'', js ''.base''}"
  shows "test_full MARKDOWN_CONFLICT_ARTIFACT_RE (base @ document_tail source device (stamp_parts d) (copy_part n) ext)"
  unfolding MARKDOWN_CONFLICT_ARTIFACT_RE_def document_tail_def
proof (intro test_fullI step_many step_lit source_accepted assms(1-4))
  show "accepts (seq [stamp_regex, Lit (js '')''), Opt (seq [Lit (js '' ''), Many digit]), document_extension_regex])
      (stamp_parts d @ js '')'' @ copy_part n @ ext) []"
    unfolding accepts_seq_Cons [of stamp_regex]
    using stamp_accepted [OF assms(5)] step_lit [OF copy_accepted [OF extension_accepted [OF assms(6)]]] by blast
qed

lemma blob_tail_matches:
  assumes "list_all not_newline base" "base \<noteq> []" "date_ok d" "ext = [] \<or> (\<exists>e. ext = 46 # e \<and> e \<noteq> [] \<and> list_all extension_unit e)"
  shows "test_full BLOB_CONFLICT_ARTIFACT_NAME_RE (base @ js '' (KAOS remote conflict '' @ stamp_parts d @ js '')'' @ copy_part n @ ext)"
    and "length op = 16 \<Longrightarrow> list_all hex_digit op \<Longrightarrow>
      test_full BLOB_LOCAL_BACKUP_ARTIFACT_NAME_RE (base @ js '' (KAOS local backup '' @ stamp_parts d @ js '' '' @ op @ js '')'' @ ext)"
proof -
  have "accepts (seq [Opt (Group 4 (seq [Lit (js ''.''), Many extension_unit]))]) ext []"
  proof (cases "ext = []")
    case False
    then obtain e where e: "ext = js ''.'' @ e @ []" "e \<noteq> []" "list_all extension_unit e" using assms(4) by (auto simp: js_def)
    have "accepts (seq [Lit (js ''.''), Many extension_unit]) (js ''.'' @ e @ []) []"
      by (intro step_lit step_many step_end e(2,3))
    then show ?thesis using step_opt [of "Group 4 (seq [Lit (js ''.''), Many extension_unit])" ext "[]" "[]" "[]"]
      unfolding accepts_Group e(1) by (simp add: accepts_seq_Nil)
  qed (simp add: accepts_seq_Cons accepts_Opt accepts_seq_Nil)
  note ext = this
  show "test_full BLOB_CONFLICT_ARTIFACT_NAME_RE (base @ js '' (KAOS remote conflict '' @ stamp_parts d @ js '')'' @ copy_part n @ ext)"
    unfolding BLOB_CONFLICT_ARTIFACT_NAME_RE_def
  proof (intro test_fullI step_group step_many step_lit assms(1,2))
    show "accepts (seq [stamp_regex, Lit (js '')''), Opt (seq [Lit (js '' ''), Group 3 (Many digit)]),
        Opt (Group 4 (seq [Lit (js ''.''), Many extension_unit]))]) (stamp_parts d @ js '')'' @ copy_part n @ ext) []"
      unfolding accepts_seq_Cons [of stamp_regex]
      using stamp_accepted [OF assms(3)] step_lit [OF grouped_copy_accepted [OF ext]] by blast
  qed
  show "test_full BLOB_LOCAL_BACKUP_ARTIFACT_NAME_RE (base @ js '' (KAOS local backup '' @ stamp_parts d @ js '' '' @ op @ js '')'' @ ext)"
    if "length op = 16" "list_all hex_digit op"
    unfolding BLOB_LOCAL_BACKUP_ARTIFACT_NAME_RE_def
  proof (intro test_fullI step_group step_many step_lit assms(1,2))
    show "accepts (seq [stamp_regex, Lit (js '' ''), Group 3 (Times 16 hex_digit), Lit (js '')''),
        Opt (Group 4 (seq [Lit (js ''.''), Many extension_unit]))]) (stamp_parts d @ js '' '' @ op @ js '')'' @ ext) []"
      unfolding accepts_seq_Cons [of stamp_regex]
      using stamp_accepted [OF assms(3)] step_lit [OF step_group [OF step_times [OF that(2,1) step_lit [OF ext]]]] by blast
  qed
qed

section \<open>Cleaning and normalizing a path\<close>

text \<open>A directory as \<^verbatim>\<open>splitPath\<close> gives it.\<close>

definition dir_ok :: "jsstr \<Rightarrow> bool" where
  "dir_ok dir \<longleftrightarrow> dir = [] \<or> last dir = 47"

lemma splitPath_ok:
  assumes "splitPath p = (dir, name)"
  shows "p = dir @ name" "dir_ok dir" "47 \<notin> set name"
proof -
  define w where "w = rev (takeWhile not_slash (rev p))"
  have p: "p = rev (dropWhile not_slash (rev p)) @ w"
    unfolding w_def by (metis rev_append rev_rev_ident takeWhile_dropWhile_id)
  then have "length p - length w = length (rev (dropWhile not_slash (rev p)))" by (metis add_diff_cancel_right' length_append)
  then have eq: "dir = rev (dropWhile not_slash (rev p))" "name = w"
    using assms p unfolding splitPath_def w_def [symmetric] Let_def by (metis append_eq_conv_conj prod.inject, simp)
  show "p = dir @ name" using p eq by simp
  show "dir_ok dir"
    unfolding dir_ok_def eq(1) by (metis hd_dropWhile last_rev not_slash_def rev_is_Nil_conv)
  show "47 \<notin> set name" unfolding eq(2) w_def by (auto dest: set_takeWhileD simp: not_slash_def)
qed

lemma forward_slashes_id: "92 \<notin> set s \<Longrightarrow> forward_slashes s = s"
  unfolding forward_slashes_def by (induction s) auto

lemma forward_slashes_append: "forward_slashes (s @ t) = forward_slashes s @ forward_slashes t"
  by (simp add: forward_slashes_def)

lemma forward_slashes_dir: "92 \<notin> set t \<Longrightarrow> forward_slashes ((d @ [47]) @ t) = (forward_slashes d @ [47]) @ t"
  by (simp add: forward_slashes_append forward_slashes_id)

lemma dir_split: "dir_ok dir \<Longrightarrow> dir \<noteq> [] \<Longrightarrow> \<exists>d. dir = d @ [47]"
  by (metis append_butlast_last_id dir_ok_def)

lemma single_slashes_append: "y \<noteq> 47 \<Longrightarrow> single_slashes (xs @ y # ys) = single_slashes xs @ single_slashes (y # ys)"
proof (induction xs rule: single_slashes.induct)
  case "2_2"
  then show ?case by simp
qed auto

lemma single_slashes_id: "47 \<notin> set s \<Longrightarrow> single_slashes s = s"
  by (induction s rule: single_slashes.induct) auto

lemma single_slashes_last: "s \<noteq> [] \<Longrightarrow> single_slashes s \<noteq> [] \<and> last (single_slashes s) = last s"
  by (induction s rule: single_slashes.induct) auto

lemma strip_dots_id: "47 \<notin> set s \<Longrightarrow> strip_dots s = s"
  by (cases s rule: strip_dots.cases) auto

lemma strip_dots_append:
  assumes "dir_ok dir" "47 \<notin> set t"
  shows "strip_dots (dir @ t) = strip_dots dir @ t \<and> dir_ok (strip_dots dir)"
  using assms
proof (induction dir rule: strip_dots.induct)
  case (1 a b s)
  then show ?case by (auto simp: dir_ok_def split: if_splits)
next
  case "2_2"
  then show ?case by (cases t) (auto simp: dir_ok_def)
qed (simp add: dir_ok_def strip_dots_id)

lemma strip_slashes_append:
  assumes "dir_ok dir" "47 \<notin> set t"
  shows "strip_slashes (dir @ t) = strip_slashes dir @ t \<and> dir_ok (strip_slashes dir)"
proof -
  have t: "dropWhile (\<lambda>c. c = 47) t = t" using assms(2) by (cases t) auto
  have "dropWhile (\<lambda>c. c = 47) dir = [] \<or> last (dropWhile (\<lambda>c. c = 47) dir) = last dir"
    by (metis last_appendR takeWhile_dropWhile_id)
  then have "dir_ok (strip_slashes dir)" using assms(1) by (auto simp: dir_ok_def strip_slashes_def)
  then show ?thesis using t by (simp add: strip_slashes_def dropWhile_append)
qed

lemma clean_path_append:
  assumes "dir_ok dir" "47 \<notin> set t" "92 \<notin> set t" "t \<noteq> []"
  shows "\<exists>dir'. clean_path (dir @ t) = dir' @ t \<and> dir_ok dir'"
proof -
  obtain y ys where t: "t = y # ys" "y \<noteq> 47" using assms(2,4) by (cases t) auto
  define f where "f = single_slashes (forward_slashes dir)"
  have "dir_ok (forward_slashes dir)" using assms(1) by (cases "dir = []") (simp_all add: dir_ok_def forward_slashes_def last_map)
  then have f: "dir_ok f"
    using single_slashes_last [of "forward_slashes dir"] by (cases "forward_slashes dir = []") (auto simp: f_def dir_ok_def)
  have "single_slashes (forward_slashes (dir @ t)) = f @ t"
    using single_slashes_append [OF t(2), of "forward_slashes dir" ys] single_slashes_id [OF assms(2)]
    unfolding f_def forward_slashes_append forward_slashes_id [OF assms(3)] t(1) [symmetric] by simp
  then show ?thesis
    unfolding clean_path_def
    using strip_dots_append [OF f assms(2)] strip_slashes_append [of "strip_dots f" t] assms(2) by auto
qed

lemma nfc_boundary: "nfc_contract nfc \<Longrightarrow> c = 32 \<or> c = 46 \<or> c = 47 \<Longrightarrow> nfc (s @ c # t) = nfc s @ c # nfc t"
  by (auto simp: nfc_contract_def)

lemma nfc_ascii: "nfc_contract nfc \<Longrightarrow> list_all (\<lambda>c. c < 128) s \<Longrightarrow> nfc s = s"
  by (auto simp: nfc_contract_def)

lemma nfc_word:
  "nfc_contract nfc \<Longrightarrow> list_all (\<lambda>c. c < 128) w \<Longrightarrow> c = 32 \<or> c = 46 \<or> c = 47 \<Longrightarrow> nfc (w @ c # t) = w @ c # nfc t"
  using nfc_boundary [of nfc c w t] nfc_ascii [of nfc w] by simp

lemma nfc_absent: "nfc_contract nfc \<Longrightarrow> c \<in> {10, 13, 46, 47, 92, 0x2028, 0x2029} \<Longrightarrow> c \<notin> set s \<Longrightarrow> c \<notin> set (nfc s)"
  unfolding nfc_contract_def by blast

lemma nfc_nonempty: "nfc_contract nfc \<Longrightarrow> s \<noteq> [] \<Longrightarrow> nfc s \<noteq> []"
  unfolding nfc_contract_def by blast

lemma nfc_dir:
  assumes "nfc_contract nfc" "dir_ok dir"
  shows "\<exists>dir'. (\<forall>t. nfc (dir @ t) = dir' @ nfc t) \<and> dir_ok dir'"
proof (cases "dir = []")
  case False
  then have "dir = butlast dir @ [47]" using assms(2) by (metis append_butlast_last_id dir_ok_def)
  then have "nfc (dir @ t) = (nfc (butlast dir) @ [47]) @ nfc t" for t
    using nfc_boundary [OF assms(1), of 47 "butlast dir" t] by (metis append.assoc append_Cons append_Nil)
  then show ?thesis by (intro exI [of _ "nfc (butlast dir) @ [47]"]) (simp add: dir_ok_def)
qed (auto simp: dir_ok_def)

text \<open>The path of a file is normalized directory and name apart.\<close>

lemma normalized_path:
  assumes "nfc_contract nfc" "dir_ok dir" "47 \<notin> set t" "92 \<notin> set t" "t \<noteq> []"
  shows "\<exists>dir'. cp_normalizedPath (canonicalizeVaultPath nfc (dir @ t)) = dir' @ nfc t \<and> dir_ok dir'"
proof -
  obtain d where "clean_path (dir @ t) = d @ t" "dir_ok d" using clean_path_append [OF assms(2-5)] by blast
  then show ?thesis using nfc_dir [OF assms(1), of d] by (auto simp: canonicalizeVaultPath_def Let_def)
qed

text \<open>The patterns are applied to the name after the last slash, and to every segment.\<close>

lemma segments_of:
  assumes "dir_ok dir" "47 \<notin> set t" "92 \<notin> set t"
  shows "\<exists>segments. split_on 47 (forward_slashes (dir @ t)) = segments @ [t]"
proof (cases "dir = []")
  case True
  then show ?thesis using assms by (simp add: forward_slashes_id split_on_single)
next
  case False
  then obtain d where "dir = d @ [47]" using dir_split [OF assms(1)] by blast
  then have "split_on 47 (forward_slashes (dir @ t)) = split_on 47 (forward_slashes d @ 47 # t)"
    using forward_slashes_dir [OF assms(3), of d] by simp
  then show ?thesis using assms(2) by (simp add: split_on_append split_on_single)
qed

lemma document_pattern_found:
  assumes "dir_ok dir" "92 \<notin> set t" "test_full MARKDOWN_CONFLICT_ARTIFACT_RE t"
  shows "isMarkdownConflictArtifactPath (dir @ t)"
proof (cases "dir = []")
  case True
  then show ?thesis using assms by (simp add: isMarkdownConflictArtifactPath_def Let_def forward_slashes_id)
next
  case False
  then obtain d0 where "dir = d0 @ [47]" using dir_split [OF assms(1)] by blast
  then have "\<exists>d. forward_slashes (dir @ t) = (d @ [47]) @ t" using forward_slashes_dir [OF assms(2), of d0] by blast
  then obtain d where "forward_slashes (dir @ t) = (d @ [47]) @ t" by blast
  moreover have "list_ex (\<lambda>i. ((d @ [47]) @ t) ! i = 47 \<and> test_full MARKDOWN_CONFLICT_ARTIFACT_RE (drop (Suc i) ((d @ [47]) @ t)))
      [0..<length ((d @ [47]) @ t)]"
    using assms(3) by (auto simp: list_ex_iff nth_append intro!: bexI [of _ "length d"])
  ultimately show ?thesis by (simp only: isMarkdownConflictArtifactPath_def Let_def simp_thms)
qed

lemma segment_pattern_found:
  assumes "dir_ok dir" "47 \<notin> set t" "92 \<notin> set t" "t \<noteq> []"
    and "test_full BLOB_CONFLICT_ARTIFACT_NAME_RE t \<or> test_full BLOB_LOCAL_BACKUP_ARTIFACT_NAME_RE t"
  shows "isLocalSafetyArtifactPath (dir @ t)"
  using segments_of [OF assms(1-3)] assms(4,5) by (auto simp: isLocalSafetyArtifactPath_def)

section \<open>Copies of documents\<close>

lemma set_trim: "set (trim s) \<subseteq> set s"
  unfolding trim_def by (auto dest!: set_dropWhileD)

lemma device_units:
  "c \<in> set (sanitizeMarkdownConflictDeviceName device) \<Longrightarrow> \<not> forbidden_in_device c"
  "sanitizeMarkdownConflictDeviceName device \<noteq> []" "length (sanitizeMarkdownConflictDeviceName device) \<le> 50"
proof -
  define s where "s = trim (map (\<lambda>c. if forbidden_in_device c then 45 else c) device)"
  have "\<not> forbidden_in_device c" if "c \<in> set s" for c
    using that set_trim [of "map (\<lambda>c. if forbidden_in_device c then 45 else c) device"] unfolding s_def
    by (auto simp: forbidden_in_device_def js_def)
  moreover have "\<not> forbidden_in_device c" if "c \<in> set (js ''unknown-device'')" for c
    using that by (auto simp: forbidden_in_device_def js_def)
  ultimately show "c \<in> set (sanitizeMarkdownConflictDeviceName device) \<Longrightarrow> \<not> forbidden_in_device c"
    by (auto simp: sanitizeMarkdownConflictDeviceName_def Let_def s_def [symmetric] dest!: in_set_takeD split: if_splits)
  show "sanitizeMarkdownConflictDeviceName device \<noteq> []" "length (sanitizeMarkdownConflictDeviceName device) \<le> 50"
    by (auto simp: sanitizeMarkdownConflictDeviceName_def Let_def js_def)
qed

lemma device_clean: "47 \<notin> set (sanitizeMarkdownConflictDeviceName device)" "92 \<notin> set (sanitizeMarkdownConflictDeviceName device)"
  using device_units(1) by (auto simp: forbidden_in_device_def js_def)

lemma document_extension: "snd (splitCrdtDocumentName name) \<in> {js ''.md'', js ''.base''}"
  by (simp add: splitCrdtDocumentName_def)

lemma set_document_base: "set (fst (splitCrdtDocumentName name)) \<subseteq> set name"
  by (auto simp: splitCrdtDocumentName_def dest: in_set_takeD)

lemma length_stamp: "date_ok d \<Longrightarrow> length (stamp_parts d) = 20"
  by (simp add: stamp_parts_def date_ok_def length_padded js_def)

lemma length_source_part: "length (source_part source) \<le> 9"
  by (auto simp: source_part_def js_def split: option.split markdown_source.split)

lemma endsWith_append: "endsWith (s @ p) p"
  by (simp add: endsWith_def)

lemma document_copy_shape:
  assumes "splitPath path = (dir, name)" "date_ok d"
  shows "buildMarkdownConflictArtifactCopyPath (buildMarkdownConflictArtifactPath path device source d) n
    = dir @ take 100 (fst (splitCrdtDocumentName name))
        @ document_tail source (sanitizeMarkdownConflictDeviceName device) (stamp_parts d) (copy_part n) (snd (splitCrdtDocumentName name))"
proof -
  obtain base ext where be: "splitCrdtDocumentName name = (base, ext)" by fastforce
  define dev where "dev = sanitizeMarkdownConflictDeviceName device"
  define ending where "ending = js '' (KAOS conflict'' @ source_part source @ js '' from '' @ dev @ js '' '' @ stamp_parts d @ js '')''"
  have ext: "ext = js ''.md'' \<or> ext = js ''.base''" using document_extension [of name] by (auto simp: be)
  have "length (js '' (KAOS conflict'') = 15" "length (js '' from '') = 6" "length (js '' '') = 1" "length (js '')'') = 1"
    "length (js ''.md'') = 3" "length (js ''.base'') = 5" by (simp_all add: js_def)
  then have "length ending \<le> 102" "length ext \<le> 5"
    using length_source_part [of source] device_units(3) [of device] length_stamp [OF assms(2)] ext by (auto simp: ending_def dev_def)
  then have fits: "\<not> int (length (take 100 base)) > max 20 (255 - int (length ending) - int (length ext) - 4)" by auto
  define front where "front = dir @ take 100 base @ ending"
  have built: "buildMarkdownConflictArtifactPath path device source d = front @ ext"
    unfolding buildMarkdownConflictArtifactPath_def assms(1) be Let_def prod.case stamp_eq [OF assms(2)] dev_def [symmetric]
      ending_def [symmetric] if_not_P [OF fits] front_def append_assoc ..
  have "buildMarkdownConflictArtifactCopyPath (front @ ext) n = front @ copy_part n @ ext"
  proof (cases "ext = js ''.base''")
    case True
    then show ?thesis by (simp add: buildMarkdownConflictArtifactCopyPath_def copy_part_def endsWith_append)
  next
    case False
    then have md: "ext = js ''.md''" using ext by blast
    have "\<not> endsWith (front @ js ''.md'') (js ''.base'')"
    proof
      assume "endsWith (front @ js ''.md'') (js ''.base'')"
      then have "last (drop (length (front @ js ''.md'') - 5) (front @ js ''.md'')) = last (js ''.base'')" by (simp add: endsWith_def js_def)
      moreover have "last (front @ js ''.md'') = last (js ''.md'')" by (simp add: js_def)
      ultimately show False by (simp add: js_def last_drop)
    qed
    then show ?thesis unfolding md by (simp add: buildMarkdownConflictArtifactCopyPath_def copy_part_def endsWith_append)
  qed
  then show ?thesis by (simp add: built be front_def ending_def document_tail_def dev_def)
qed

lemma ascii_parts:
  "list_all (\<lambda>c. c < 128) (stamp_parts d)" "list_all (\<lambda>c. c < 128) (copy_part n)"
proof -
  have digit: "c < 128" if "digit c" for c
    using that unfolding digit_def by (auto intro: le_less_trans)
  show "list_all (\<lambda>c. c < 128) (stamp_parts d)" using stamp_units [of _ d] digit by (fastforce simp: list_all_iff)
  show "list_all (\<lambda>c. c < 128) (copy_part n)" using digits_digit [of n] digit by (auto simp: copy_part_def list_all_iff js_def)
qed

text \<open>Normalization reaches only the device name.\<close>

lemma nfc_document_tail:
  assumes nfc: "nfc_contract nfc" and "ext \<in> {js ''.md'', js ''.base''}"
  shows "nfc (base @ document_tail source device (stamp_parts d) (copy_part n) ext)
    = nfc base @ document_tail source (nfc device) (stamp_parts d) (copy_part n) ext"
proof -
  note word = nfc_word [OF nfc, where c = 32]
  define closing where "closing = stamp_parts d @ js '')'' @ copy_part n @ ext"
  define opened where "opened = (\<lambda>x. js ''from'' @ 32 # x @ 32 # closing)"
  have "list_all (\<lambda>c. c < 128) closing" unfolding closing_def using ascii_parts(1) [of d] ascii_parts(2) [of n] assms(2) by (auto simp: js_def)
  then have "nfc (opened device) = opened (nfc device)"
    unfolding opened_def using word [of "js ''from''"] nfc_boundary [OF nfc, of 32 device] nfc_ascii [OF nfc] by (simp add: js_def)
  then have middle: "nfc (source_part source @ 32 # opened device) = source_part source @ 32 # opened (nfc device)"
    using word [of "[]"] word [of "js ''-''"] word [of "js ''disk''"] word [of "js ''crdt''"] word [of "js ''editor''"]
    by (auto simp: source_part_def js_def split: option.split markdown_source.split)
  have shape: "document_tail source x (stamp_parts d) (copy_part n) ext = 32 # js ''(KAOS'' @ 32 # js ''conflict'' @ source_part source @ 32 # opened x" for x
    by (simp add: document_tail_def opened_def closing_def js_def)
  have "nfc (js ''conflict'' @ source_part source @ 32 # opened device) = js ''conflict'' @ source_part source @ 32 # opened (nfc device)"
  proof (cases source)
    case None
    then show ?thesis using word [of "js ''conflict''"] middle nfc_boundary [OF nfc, of 32 "[]"] nfc_ascii [OF nfc, of "[]"]
      by (auto simp: source_part_def js_def)
  next
    case (Some m)
    then obtain w where w: "source_part source = 32 # w" by (cases m) (simp_all add: source_part_def js_def)
    have "nfc (w @ 32 # opened device) = w @ 32 # opened (nfc device)"
      using middle nfc_boundary [OF nfc, of 32 "[]"] nfc_ascii [OF nfc, of "[]"] by (simp add: w)
    then show ?thesis using word [of "js ''conflict''"] by (simp add: w) (simp add: js_def)
  qed
  then show ?thesis
    using word [of "js ''(KAOS''"] nfc_boundary [OF nfc, of 32 base] by (simp add: shape) (simp add: js_def)
qed

lemma slash_free: "47 \<notin> set s \<longleftrightarrow> list_all not_slash s"
  by (auto simp: list_all_iff not_slash_def)

lemma clean_parts:
  "c \<in> {47, 92} \<Longrightarrow> c \<notin> set (stamp_parts d)" "c \<in> {47, 92} \<Longrightarrow> c \<notin> set (copy_part n)" "c \<in> {47, 92} \<Longrightarrow> c \<notin> set (source_part source)"
  "c \<in> {47, 92} \<Longrightarrow> ext \<in> {js ''.md'', js ''.base''} \<Longrightarrow> c \<notin> set ext"
proof -
  show "c \<in> {47, 92} \<Longrightarrow> c \<notin> set (stamp_parts d)" using stamp_units [of c d] by (auto simp: digit_def)
  show "c \<in> {47, 92} \<Longrightarrow> c \<notin> set (copy_part n)" using digits_digit [of n] by (auto simp: copy_part_def list_all_iff digit_def js_def)
qed (auto simp: source_part_def js_def split: option.split markdown_source.split)

lemma document_tail_clean:
  "c \<in> {47, 92} \<Longrightarrow> c \<notin> set device \<Longrightarrow> ext \<in> {js ''.md'', js ''.base''} \<Longrightarrow>
     c \<notin> set (document_tail source device (stamp_parts d) (copy_part n) ext)"
  using clean_parts(1,2,3) [of c] clean_parts(4) [of c ext] by (auto simp: document_tail_def js_def)

text \<open>
  C16: Safety copies of documents stay local.  When a conflict on a note or base keeps the losing side in
  a file beside it, the name of that file, for every device name, source, date and copy number, makes
  \<^verbatim>\<open>classifySyncPath\<close> exclude it, whatever the directory, the user's patterns and the Unicode
  normalization do: a safety copy is never itself synchronized.  The document must have a name besides
  its extension, and no backslash in it.\<close>

theorem document_copies_stay_local:
  assumes "nfc_contract nfc" "date_ok d" "splitPath path = (dir, name)" "fst (splitCrdtDocumentName name) \<noteq> []" "92 \<notin> set name"
  shows "\<exists>c reason. classifySyncPath nfc
      (buildMarkdownConflictArtifactCopyPath (buildMarkdownConflictArtifactPath path device source d) n) patterns configDir
    = ExcludedPath c reason"
proof -
  define base where "base = take 100 (fst (splitCrdtDocumentName name))"
  define ext where "ext = snd (splitCrdtDocumentName name)"
  define dev where "dev = sanitizeMarkdownConflictDeviceName device"
  define tail where "tail = (\<lambda>x. document_tail source x (stamp_parts d) (copy_part n) ext)"
  note split = splitPath_ok [OF assms(3)]
  have ext: "ext \<in> {js ''.md'', js ''.base''}" unfolding ext_def by (rule document_extension)
  have base: "base \<noteq> []" "47 \<notin> set base" "92 \<notin> set base"
    using assms(4,5) split(3) set_document_base [of name] by (auto simp: base_def dest: in_set_takeD)
  have dev: "dev \<noteq> []" "47 \<notin> set dev" "92 \<notin> set dev" unfolding dev_def by (rule device_units device_clean)+
  obtain dir' where normalized: "cp_normalizedPath (canonicalizeVaultPath nfc (dir @ base @ tail dev)) = dir' @ nfc (base @ tail dev)" "dir_ok dir'"
    using normalized_path [OF assms(1) split(2), of "base @ tail dev"] base dev document_tail_clean [OF _ _ ext] by (auto simp: tail_def)
  have nfc: "nfc (base @ tail dev) = nfc base @ tail (nfc dev)" unfolding tail_def by (rule nfc_document_tail [OF assms(1) ext])
  have matched: "test_full MARKDOWN_CONFLICT_ARTIFACT_RE (nfc base @ tail (nfc dev))"
    unfolding tail_def
  proof (rule document_copy_matches)
    show "list_all not_slash (nfc base)" "list_all not_slash (nfc dev)"
      unfolding slash_free [symmetric] using nfc_absent [OF assms(1), of 47] base(2) dev(2) by auto
  qed (use nfc_nonempty [OF assms(1)] base(1) dev(1) assms(2) ext in auto)
  have "92 \<notin> set (nfc base @ tail (nfc dev))"
    using nfc_absent [OF assms(1), of 92] base(3) dev(3) document_tail_clean [OF _ _ ext] by (auto simp: tail_def)
  from document_pattern_found [OF normalized(2) this matched]
  have "isMarkdownConflictArtifactPath (cp_normalizedPath (canonicalizeVaultPath nfc (dir @ base @ tail dev)))"
    by (simp add: normalized(1) nfc)
  moreover have "document_tail source dev (stamp_parts d) (copy_part n) ext = tail dev" by (simp add: tail_def)
  ultimately show ?thesis
    unfolding document_copy_shape [OF assms(3,2)] base_def [symmetric] ext_def [symmetric] dev_def [symmetric]
    by (simp add: classifySyncPath_def Let_def)
qed

definition sample_date :: utc_date where
  "sample_date = \<lparr> ud_year = 2026, ud_month = 6, ud_day = 23, ud_hour = 14, ud_minute = 20, ud_second = 40, ud_ms = 7 \<rparr>"

lemma nfc_identity: "nfc_contract (\<lambda>s. s)"
  by (simp add: nfc_contract_def)

lemma sample_split: "splitPath (js ''notes/a.md'') = (js ''notes/'', js ''a.md'')"
  by (simp add: splitPath_def js_def not_slash_def Let_def)

theorem document_copies_stay_local_witness:
  "\<exists>c reason. classifySyncPath (\<lambda>s. s) (buildMarkdownConflictArtifactCopyPath
     (buildMarkdownConflictArtifactPath (js ''notes/a.md'') (js ''Laptop'') (Some SourceDisk) sample_date) 2) [] (js ''.obsidian'')
   = ExcludedPath c reason"
  by (rule document_copies_stay_local [OF nfc_identity _ sample_split])
    (simp_all add: date_ok_def sample_date_def splitCrdtDocumentName_def endsWith_def js_def)

section \<open>Copies of attachments\<close>

lemma split_extension_ok:
  assumes "split_extension name = (base, ext)"
  shows "name = base @ ext" "name \<noteq> [] \<Longrightarrow> base \<noteq> []" "ext = [] \<or> (\<exists>e. ext = 46 # e \<and> 46 \<notin> set e)"
    "ext = [] \<Longrightarrow> 46 \<in> set name \<Longrightarrow> \<exists>b. name = 46 # b \<and> 46 \<notin> set b"
proof -
  define after where "after = rev (takeWhile (\<lambda>c. c \<noteq> 46) (rev name))"
  define d where "d = rev (dropWhile (\<lambda>c. c \<noteq> 46) (rev name))"
  have name: "name = d @ after" unfolding after_def d_def by (metis rev_append rev_rev_ident takeWhile_dropWhile_id)
  have free: "46 \<notin> set after" unfolding after_def by (auto dest: set_takeWhileD)
  have dot: "d = [] \<or> (\<exists>e. d = e @ [46])"
  proof (cases "dropWhile (\<lambda>c. c \<noteq> 46) (rev name)")
    case (Cons x xs)
    then have "x = 46" using hd_dropWhile [of "\<lambda>c. c \<noteq> 46" "rev name"] by auto
    then show ?thesis by (simp add: d_def Cons)
  qed (simp add: d_def)
  have len: "length name - length after = length d" by (metis name add_diff_cancel_right' length_append)
  have eq: "(base, ext) = (if 1 < length d then (take (length d - 1) name, drop (length d - 1) name) else (name, []))"
    using assms unfolding split_extension_def after_def [symmetric] Let_def len by (rule sym)
  show "name = base @ ext" using eq by (auto split: if_splits)
  show "name \<noteq> [] \<Longrightarrow> base \<noteq> []" using eq name by (auto split: if_splits)
  show "ext = [] \<or> (\<exists>e. ext = 46 # e \<and> 46 \<notin> set e)" using eq dot free by (auto simp: name split: if_splits)
  show "\<exists>b. name = 46 # b \<and> 46 \<notin> set b" if "ext = []" "46 \<in> set name"
  proof -
    note given = that
    obtain e where e: "d = e @ [46]" using dot given(2) free name by auto
    then have "e = []" using eq given(1) by (auto simp: name split: if_splits)
    then show ?thesis using e free name by simp
  qed
qed

text \<open>The name of a copy: the base, what marks the copy, its number and the extension.\<close>

lemma blob_copy_shape:
  assumes "splitPath (forward_slashes path) = (dir, name)" "split_extension name = (base, ext)" "name \<noteq> []"
    and ending: "ending = 32 # w" "\<forall>c\<in>set w. c \<noteq> 46 \<and> c \<noteq> 47" "last name \<noteq> 46" "hd name \<noteq> 46"
  shows "\<exists>b. blob_artifact_path path ending = dir @ b @ ending @ ext
    \<and> buildBlobConflictArtifactCopyPath (blob_artifact_path path ending) n = dir @ b @ ending @ copy_part n @ ext
    \<and> b \<noteq> [] \<and> set b \<subseteq> set base"
proof -
  note split = splitPath_ok [OF assms(1)]
  note ext = split_extension_ok [OF assms(2)]
  define b where "b = (if int (length base) > max 20 (255 - int (length ending) - int (length ext) - 4)
    then take (nat (max 20 (255 - int (length ending) - int (length ext) - 4))) base else base)"
  have built: "blob_artifact_path path ending = dir @ b @ ending @ ext"
    unfolding blob_artifact_path_def assms(1,2) Let_def prod.case b_def ..
  have b: "b \<noteq> []" "set b \<subseteq> set base" using ext(2) assms(3) unfolding b_def by (auto dest: in_set_takeD)
  show ?thesis
  proof (cases "n \<le> 1")
    case True
    then show ?thesis using b built by (intro exI [of _ b]) (simp add: buildBlobConflictArtifactCopyPath_def copy_part_def)
  next
    case many: False
    define after where "after = rev (takeWhile extension_unit (rev (dir @ b @ ending @ ext)))"
    define m where "m = length (dir @ b @ ending @ ext) - length after"
    define p where "p = (if after \<noteq> [] \<and> 0 < m \<and> (dir @ b @ ending @ ext) ! (m - 1) = 46 then m - 1 else length (dir @ b @ ending @ ext))"
    have copy: "buildBlobConflictArtifactCopyPath (dir @ b @ ending @ ext) n
        = take p (dir @ b @ ending @ ext) @ copy_part n @ drop p (dir @ b @ ending @ ext)"
      unfolding buildBlobConflictArtifactCopyPath_def copy_part_def if_not_P [OF many] Let_def after_def [symmetric] m_def [symmetric]
        p_def [symmetric] append_assoc ..
    have units: "c \<noteq> 46 \<Longrightarrow> c \<noteq> 47 \<Longrightarrow> extension_unit c" for c by (simp add: extension_unit_def)
    show ?thesis
    proof (cases "ext = []")
      case False
      then obtain e where e: "ext = 46 # e" "46 \<notin> set e" using ext(3) by blast
      then have "e \<noteq> []" using assms(6) ext(1) by auto
      have "47 \<notin> set (base @ 46 # e)" using split(3) ext(1) e(1) by simp
      then have "\<forall>c\<in>set e. extension_unit c" using e(2) by (auto simp: extension_unit_def)
      moreover have "\<not> extension_unit 46" by (simp add: extension_unit_def)
      ultimately have "after = e" unfolding after_def e(1) by (simp add: takeWhile_append)
      then have "buildBlobConflictArtifactCopyPath (dir @ b @ ending @ ext) n = dir @ b @ ending @ copy_part n @ ext"
        using copy \<open>e \<noteq> []\<close> by (simp add: p_def m_def e(1) nth_append)
      then show ?thesis using b built by (intro exI [of _ b]) auto
    next
      case none: True
      then have free: "46 \<notin> set name" using ext(4) assms(3,7) by auto
      have "\<forall>c\<in>set (b @ ending). extension_unit c"
        using b(2) free split(3) ext(1) ending units by (auto simp: extension_unit_def)
      then have "after = rev (takeWhile extension_unit (rev dir)) @ b @ ending"
        unfolding after_def by (simp add: none takeWhile_append)
      moreover have "takeWhile extension_unit (rev dir) = []"
        using split(2) by (cases "rev dir") (auto simp: dir_ok_def extension_unit_def last_rev [symmetric])
      ultimately have after: "after = b @ ending" by simp
      have nodot: "\<not> (0 < length dir \<and> (dir @ b @ ending) ! (length dir - 1) = 46)"
        using split(2) by (cases dir rule: rev_cases) (auto simp: dir_ok_def nth_append)
      have "m = length dir" by (simp add: m_def after none)
      then have "p = length (dir @ b @ ending @ ext)" using nodot unfolding p_def none append_Nil2 by (metis if_not_P)
      then have "buildBlobConflictArtifactCopyPath (dir @ b @ ending @ ext) n = dir @ b @ ending @ copy_part n @ ext"
        using copy none by simp
      then show ?thesis using b built by (intro exI [of _ b]) auto
    qed
  qed
qed

lemma newline_free: "nfc_contract nfc \<Longrightarrow> list_all not_newline s \<Longrightarrow> list_all not_newline (nfc s)"
  using nfc_absent [where s = s and c = 10] nfc_absent [where s = s and c = 13] nfc_absent [where s = s and c = "0x2028"]
    nfc_absent [where s = s and c = "0x2029"]
  by (auto simp: list_all_iff not_newline_def)

definition extension_ok :: "jsstr \<Rightarrow> bool" where
  "extension_ok ext \<longleftrightarrow> ext = [] \<or> (\<exists>e. ext = 46 # e \<and> e \<noteq> [] \<and> list_all extension_unit e)"

lemma attachment_excluded:
  assumes nfc: "nfc_contract nfc" and "dir_ok dir" "b \<noteq> []" "47 \<notin> set b" "list_all not_newline b"
    and "list_all (\<lambda>c. c < 128) w" "47 \<notin> set w" "extension_ok ext" "92 \<notin> set (b @ w @ ext)"
    and pattern: "\<And>b' ext'. list_all not_newline b' \<Longrightarrow> b' \<noteq> [] \<Longrightarrow> extension_ok ext' \<Longrightarrow>
      test_full BLOB_CONFLICT_ARTIFACT_NAME_RE (b' @ 32 # w @ ext') \<or> test_full BLOB_LOCAL_BACKUP_ARTIFACT_NAME_RE (b' @ 32 # w @ ext')"
  shows "\<exists>c reason. classifySyncPath nfc (dir @ b @ 32 # w @ ext) patterns configDir = ExcludedPath c reason"
proof -
  have ext_free: "47 \<notin> set ext" using assms(8) by (auto simp: extension_ok_def list_all_iff extension_unit_def)
  obtain ext' where ext': "nfc (b @ 32 # w @ ext) = nfc b @ 32 # w @ ext'" "extension_ok ext'" "47 \<notin> set ext'" "92 \<notin> set ext'"
  proof (cases "ext = []")
    case True
    then have "nfc (b @ 32 # w @ ext) = nfc b @ 32 # w @ []"
      using nfc_boundary [OF nfc, of 32 b w] nfc_ascii [OF nfc assms(6)] by simp
    then show ?thesis by (rule that) (simp_all add: extension_ok_def)
  next
    case False
    then obtain e where e: "ext = 46 # e" "e \<noteq> []" "list_all extension_unit e" using assms(8) by (auto simp: extension_ok_def)
    have "nfc (b @ 32 # w @ ext) = nfc b @ 32 # w @ 46 # nfc e"
      using nfc_boundary [OF nfc, of 32 b "w @ 46 # e"] nfc_word [OF nfc assms(6), of 46 e] by (simp add: e(1))
    moreover have free: "46 \<notin> set (nfc e)" "47 \<notin> set (nfc e)" "92 \<notin> set (nfc e)"
      using e(3) assms(9) nfc_absent [OF nfc, of 46 e] nfc_absent [OF nfc, of 47 e] nfc_absent [OF nfc, of 92 e]
      by (auto simp: list_all_iff extension_unit_def e(1))
    moreover have "extension_ok (46 # nfc e)"
      using nfc_nonempty [OF nfc e(2)] free by (auto simp: extension_ok_def list_all_iff extension_unit_def)
    ultimately show ?thesis by (intro that [of "46 # nfc e"]) simp_all
  qed
  have "47 \<notin> set (b @ 32 # w @ ext)" "92 \<notin> set (b @ 32 # w @ ext)" "b @ 32 # w @ ext \<noteq> []" using assms(4,7,9) ext_free by auto
  then obtain dir' where normalized: "cp_normalizedPath (canonicalizeVaultPath nfc (dir @ b @ 32 # w @ ext)) = dir' @ nfc b @ 32 # w @ ext'" "dir_ok dir'"
    using normalized_path [OF nfc assms(2)] ext'(1) by metis
  have "isLocalSafetyArtifactPath (dir' @ nfc b @ 32 # w @ ext')"
  proof (rule segment_pattern_found [OF normalized(2)])
    show "47 \<notin> set (nfc b @ 32 # w @ ext')" "92 \<notin> set (nfc b @ 32 # w @ ext')"
      using nfc_absent [OF nfc, of 47 b] nfc_absent [OF nfc, of 92 b] assms(4,7,9) ext'(3,4) by auto
    show "test_full BLOB_CONFLICT_ARTIFACT_NAME_RE (nfc b @ 32 # w @ ext') \<or> test_full BLOB_LOCAL_BACKUP_ARTIFACT_NAME_RE (nfc b @ 32 # w @ ext')"
      by (rule pattern [OF newline_free [OF nfc assms(5)] nfc_nonempty [OF nfc assms(3)] ext'(2)])
  qed simp
  then show ?thesis by (simp add: classifySyncPath_def Let_def normalized(1))
qed

lemma hex_ascii: "hex_digit c \<Longrightarrow> c < 128 \<and> c \<noteq> 46 \<and> c \<noteq> 47 \<and> c \<noteq> 92"
  unfolding hex_digit_def digit_def by (auto intro: le_less_trans)

text \<open>
  C17: Safety copies of attachments stay local.  The copy of a conflicting remote attachment, with any copy
  number, and the backup of a local one are excluded by \<^verbatim>\<open>classifySyncPath\<close>, whatever the directory,
  the patterns and the normalization do.  The name of the attachment must not begin or end with a dot
  and must not contain a line terminator.\<close>

theorem attachment_copies_stay_local:
  assumes "nfc_contract nfc" "date_ok d" "splitPath (forward_slashes path) = (dir, name)" "name \<noteq> []"
    and "hd name \<noteq> 46" "last name \<noteq> 46" "list_all not_newline name"
  shows "(\<exists>c reason. classifySyncPath nfc (buildBlobConflictArtifactCopyPath (buildBlobConflictArtifactPath path d) n) patterns configDir
      = ExcludedPath c reason)
    \<and> (\<forall>operationId backup. buildBlobLocalBackupArtifactPath path operationId d = Inr backup \<longrightarrow>
        (\<exists>c reason. classifySyncPath nfc backup patterns configDir = ExcludedPath c reason))"
proof (intro conjI allI impI)
  obtain base ext where be: "split_extension name = (base, ext)" by fastforce
  note split = splitPath_ok [OF assms(3)] and parts = split_extension_ok [OF be]
  have no_backslash: "92 \<notin> set name"
  proof -
    have "92 \<notin> set (dir @ name)" unfolding split(1) [symmetric] by (auto simp: forward_slashes_def)
    then show ?thesis by simp
  qed
  have ext: "extension_ok ext"
  proof (cases "ext = []")
    case False
    then obtain e where e: "ext = 46 # e" "46 \<notin> set e" using parts(3) by blast
    then show ?thesis
      using assms(6) split(3) parts(1) by (cases e) (auto simp: extension_ok_def list_all_iff extension_unit_def)
  qed (simp add: extension_ok_def)
  have base_ok: "47 \<notin> set base" "92 \<notin> set (base @ ext)" "list_all not_newline base"
    using split(3) no_backslash assms(7) parts(1) by (auto simp: list_all_iff)
  have stamp_ascii: "\<forall>c\<in>set (stamp_parts d). c < 128 \<and> c \<noteq> 46 \<and> c \<noteq> 47 \<and> c \<noteq> 92"
    using ascii_parts(1) [of d] stamp_units [of _ d] by (fastforce simp: list_all_iff digit_def)
  have copy_ascii: "\<forall>c\<in>set (copy_part n). c < 128 \<and> c \<noteq> 47 \<and> c \<noteq> 92"
    using ascii_parts(2) [of n] clean_parts(2) by (auto simp: list_all_iff)
  define w where "w = js ''(KAOS remote conflict '' @ stamp_parts d @ js '')''"
  have remote: "js '' (KAOS remote conflict '' @ formatConflictArtifactStamp d @ js '')'' = 32 # w"
    by (simp add: w_def stamp_eq [OF assms(2)] js_def)
  have w: "\<forall>c\<in>set w. c < 128 \<and> c \<noteq> 46 \<and> c \<noteq> 47 \<and> c \<noteq> 92" using stamp_ascii by (auto simp: w_def js_def)
  obtain b where b: "buildBlobConflictArtifactCopyPath (buildBlobConflictArtifactPath path d) n = dir @ b @ (32 # w) @ copy_part n @ ext"
    "b \<noteq> []" "set b \<subseteq> set base"
    unfolding buildBlobConflictArtifactPath_def remote
    using blob_copy_shape [OF assms(3) be assms(4) refl _ assms(6,5), of w n] w by blast
  have "\<exists>c reason. classifySyncPath nfc (dir @ b @ 32 # (w @ copy_part n) @ ext) patterns configDir = ExcludedPath c reason"
  proof (rule attachment_excluded [OF assms(1) split(2) b(2) _ _ _ _ ext])
    fix b' ext'
    assume "list_all not_newline b'" "b' \<noteq> []" "extension_ok ext'"
    from blob_tail_matches(1) [OF this(1,2) assms(2), of ext' n] this(3)
    have "test_full BLOB_CONFLICT_ARTIFACT_NAME_RE (b' @ (32 # w) @ copy_part n @ ext')"
      unfolding extension_ok_def by (simp add: w_def) (simp add: js_def)
    then show "test_full BLOB_CONFLICT_ARTIFACT_NAME_RE (b' @ 32 # (w @ copy_part n) @ ext')
        \<or> test_full BLOB_LOCAL_BACKUP_ARTIFACT_NAME_RE (b' @ 32 # (w @ copy_part n) @ ext')" by simp
  qed (use b(3) base_ok w copy_ascii in \<open>auto simp: list_all_iff\<close>)
  then show "\<exists>c reason. classifySyncPath nfc (buildBlobConflictArtifactCopyPath (buildBlobConflictArtifactPath path d) n) patterns configDir
      = ExcludedPath c reason" by (simp add: b(1))
  fix operationId backup
  assume built: "buildBlobLocalBackupArtifactPath path operationId d = Inr backup"
  define v where "v = js ''(KAOS local backup '' @ stamp_parts d @ js '' '' @ operationId @ js '')''"
  have op: "length operationId = 16" "list_all hex_digit operationId"
    using built by (auto simp: buildBlobLocalBackupArtifactPath_def split: if_splits)
  have v: "\<forall>c\<in>set v. c < 128 \<and> c \<noteq> 46 \<and> c \<noteq> 47 \<and> c \<noteq> 92"
    using stamp_ascii op(2) hex_ascii by (auto simp: v_def js_def list_all_iff)
  have "js '' (KAOS local backup '' @ formatConflictArtifactStamp d @ js '' '' @ operationId @ js '')'' = 32 # v"
    by (simp add: v_def stamp_eq [OF assms(2)] js_def)
  then have "backup = blob_artifact_path path (32 # v)" using built op by (simp add: buildBlobLocalBackupArtifactPath_def)
  then obtain b where b: "backup = dir @ b @ (32 # v) @ ext" "b \<noteq> []" "set b \<subseteq> set base"
    using blob_copy_shape [OF assms(3) be assms(4) refl _ assms(6,5), of v 0] v by blast
  have "\<exists>c reason. classifySyncPath nfc (dir @ b @ 32 # v @ ext) patterns configDir = ExcludedPath c reason"
  proof (rule attachment_excluded [OF assms(1) split(2) b(2) _ _ _ _ ext])
    fix b' ext'
    assume "list_all not_newline b'" "b' \<noteq> []" "extension_ok ext'"
    from blob_tail_matches(2) [OF this(1,2) assms(2), of ext' operationId] this(3) op
    show "test_full BLOB_CONFLICT_ARTIFACT_NAME_RE (b' @ 32 # v @ ext') \<or> test_full BLOB_LOCAL_BACKUP_ARTIFACT_NAME_RE (b' @ 32 # v @ ext')"
      unfolding extension_ok_def by (simp add: v_def) (simp add: js_def)
  qed (use b(3) base_ok v in \<open>auto simp: list_all_iff\<close>)
  then show "\<exists>c reason. classifySyncPath nfc backup patterns configDir = ExcludedPath c reason" by (simp add: b(1))
qed

lemma sample_blob_split: "splitPath (forward_slashes (js ''img/a.png'')) = (js ''img/'', js ''a.png'')"
  by (simp add: splitPath_def forward_slashes_def js_def not_slash_def Let_def)

theorem attachment_copies_stay_local_witness:
  "\<exists>c reason. classifySyncPath (\<lambda>s. s) (buildBlobConflictArtifactCopyPath (buildBlobConflictArtifactPath (js ''img/a.png'') sample_date) 2)
     [] (js ''.obsidian'') = ExcludedPath c reason"
  using attachment_copies_stay_local [OF nfc_identity _ sample_blob_split, of sample_date 2 "[]" "js ''.obsidian''"]
  by (simp add: date_ok_def sample_date_def js_def not_newline_def)

section \<open>Names that end in a dot\<close>








end
