(* ===== verification/StructuralPlanner.thy ===== *)
theory StructuralPlanner
  imports Conflict Planners DiskIndex
begin

text \<open>
  Renames that happened while the plugin was not running,
  \<^verbatim>\<open>src/src/runtime/reconcile/noEventStructuralPlanner.ts\<close>: notes the document has and the disk misses
  are matched with files the disk has and the document misses.  A rename is planned on explicit
  evidence, or when everything agrees that the file has moved; everything else that looks like a
  rename is reported as unresolved.  \<^verbatim>\<open>localeCompare\<close> is the parameter \<open>lc\<close>.
\<close>

section \<open>The planner\<close>

record structural_path_hash =
  sp_path :: path
  sp_contentHash :: hash

datatype evidence_reason = ExplicitRenameSeen | PendingRenameSeen

datatype rename_reason = FromEvidence evidence_reason | BaselineHashContinuity

record structural_evidence =
  se_oldPath :: path
  se_newPath :: path
  se_reason :: evidence_reason

record planned_rename =
  sr_oldPath :: path
  sr_newPath :: path
  sr_contentHash :: hash
  sr_reason :: rename_reason

datatype unresolved_reason =
  AmbiguousRename | AmbiguousDuplicateContent | CountMismatch | ContentDivergedSameBasename

record unresolved_change =
  uc_oldPaths :: "path list"
  uc_newPaths :: "path list"
  uc_contentHash :: hash
  uc_reason :: unresolved_reason

record structural_input =
  si_missingCrdtPaths :: "structural_path_hash list"
  si_extraDiskPaths :: "structural_path_hash list"
  si_renameEvidence :: "structural_evidence list"
  si_mode :: reconcile_mode
  si_previousDiskIndex :: disk_index

record structural_plan =
  st_renames :: "planned_rename list"
  st_unresolved :: "unresolved_change list"
  st_consumedOld :: "path list"
  st_consumedNew :: "path list"

definition path_basename :: "path \<Rightarrow> path" where
  "path_basename p = rev (takeWhile (\<lambda>c. c \<noteq> 47) (rev p))"

definition add_to_bucket :: "'k \<Rightarrow> 'a \<Rightarrow> ('k \<times> 'a list) list \<Rightarrow> ('k \<times> 'a list) list" where
  "add_to_bucket k x groups = AList.update k ((case map_of groups k of Some xs \<Rightarrow> xs | None \<Rightarrow> []) @ [x]) groups"

definition groupByHash :: "structural_path_hash list \<Rightarrow> (hash \<times> path list) list" where
  "groupByHash paths =
     map (\<lambda>(h, ps). (h, sort ps)) (fold (\<lambda>e. add_to_bucket (sp_contentHash e) (sp_path e)) paths [])"

definition bucket :: "('k \<times> 'a list) list \<Rightarrow> 'k \<Rightarrow> 'a list" where
  "bucket groups k = (case map_of groups k of Some xs \<Rightarrow> xs | None \<Rightarrow> [])"

text \<open>A stable sort by a comparison function, as \<^verbatim>\<open>Array.prototype.sort\<close> does it.\<close>

fun insert_by :: "('a \<Rightarrow> 'a \<Rightarrow> int) \<Rightarrow> 'a \<Rightarrow> 'a list \<Rightarrow> 'a list" where
  "insert_by cmp x [] = [x]"
| "insert_by cmp x (y # ys) = (if cmp x y \<le> 0 then x # y # ys else y # insert_by cmp x ys)"

definition sort_by :: "('a \<Rightarrow> 'a \<Rightarrow> int) \<Rightarrow> 'a list \<Rightarrow> 'a list" where
  "sort_by cmp xs = foldr (insert_by cmp) xs []"

definition by_paths :: "(jsstr \<Rightarrow> jsstr \<Rightarrow> int) \<Rightarrow> path \<times> path \<Rightarrow> path \<times> path \<Rightarrow> int" where
  "by_paths lc a b = (if lc (fst a) (fst b) \<noteq> 0 then lc (fst a) (fst b) else lc (snd a) (snd b))"

text \<open>\<^verbatim>\<open>new Map(entries.map((entry) => [entry.path, entry]))\<close>: of equal paths the last entry stays.\<close>

definition entry_at :: "structural_path_hash list \<Rightarrow> path \<Rightarrow> structural_path_hash option" where
  "entry_at entries p = List.find (\<lambda>e. sp_path e = p) (rev entries)"

definition consume :: "path list \<Rightarrow> path list \<Rightarrow> structural_plan \<Rightarrow> structural_plan" where
  "consume olds news s = s\<lparr> st_consumedOld := olds @ st_consumedOld s, st_consumedNew := news @ st_consumedNew s \<rparr>"

definition plan_rename :: "planned_rename \<Rightarrow> structural_plan \<Rightarrow> structural_plan" where
  "plan_rename r s = consume [sr_oldPath r] [sr_newPath r] (s\<lparr> st_renames := st_renames s @ [r] \<rparr>)"

definition plan_unresolved :: "unresolved_change \<Rightarrow> structural_plan \<Rightarrow> structural_plan" where
  "plan_unresolved u s = consume (uc_oldPaths u) (uc_newPaths u) (s\<lparr> st_unresolved := st_unresolved s @ [u] \<rparr>)"

definition evidence_step :: "structural_input \<Rightarrow> structural_evidence \<Rightarrow> structural_plan \<Rightarrow> structural_plan" where
  "evidence_step i ev s =
     (case (entry_at (si_missingCrdtPaths i) (se_oldPath ev), entry_at (si_extraDiskPaths i) (se_newPath ev)) of
        (Some old, Some new) \<Rightarrow>
          if se_oldPath ev \<in> set (st_consumedOld s) \<or> se_newPath ev \<in> set (st_consumedNew s) then s
          else plan_rename \<lparr> sr_oldPath = se_oldPath ev, sr_newPath = se_newPath ev,
                 sr_contentHash = (if sp_contentHash old = sp_contentHash new then sp_contentHash old
                                   else sp_contentHash old @ js '':'' @ sp_contentHash new),
                 sr_reason = FromEvidence (se_reason ev) \<rparr> s
      | _ \<Rightarrow> s)"

text \<open>Everything that must agree before a rename is inferred from the content alone.\<close>

definition continuity :: "structural_input \<Rightarrow> hash \<Rightarrow> path list \<Rightarrow> path list \<Rightarrow> path \<Rightarrow> path \<Rightarrow> bool" where
  "continuity i h originalOld originalNew old new \<longleftrightarrow>
     si_mode i = Authoritative \<and> length originalOld = 1 \<and> length originalNew = 1
     \<and> (case si_previousDiskIndex i old of Some e \<Rightarrow> de_contentHash e = Some h | None \<Rightarrow> False)
     \<and> si_previousDiskIndex i new = None"

definition hash_step :: "structural_input \<Rightarrow> hash \<Rightarrow> structural_plan \<Rightarrow> structural_plan" where
  "hash_step i h s =
     (let originalOld = bucket (groupByHash (si_missingCrdtPaths i)) h;
          originalNew = bucket (groupByHash (si_extraDiskPaths i)) h;
          olds = filter (\<lambda>p. p \<notin> set (st_consumedOld s)) originalOld;
          news = filter (\<lambda>p. p \<notin> set (st_consumedNew s)) originalNew
      in if olds = [] \<or> news = [] then s
         else if length olds = 1 \<and> length news = 1 then
           (if path_basename (hd olds) \<noteq> path_basename (hd news) then s
            else if continuity i h originalOld originalNew (hd olds) (hd news)
            then plan_rename \<lparr> sr_oldPath = hd olds, sr_newPath = hd news, sr_contentHash = h, sr_reason = BaselineHashContinuity \<rparr> s
            else
              let binding = evaluatePathBindingIntegrity
                \<lparr> pb_path = hd olds, pb_fileId = None, pb_activeFileIdsForPath = None, pb_candidatePath = Some (hd news),
                  pb_diskHash = Some h, pb_crdtHash = Some h, pb_baselineHash = Some None, pb_renameEvidence = Some EvidenceNone \<rparr>
              in plan_unresolved \<lparr> uc_oldPaths = olds, uc_newPaths = news, uc_contentHash = h,
                   uc_reason = (if br_status binding = AmbiguousStructuralRename then AmbiguousRename else AmbiguousDuplicateContent) \<rparr> s)
         else plan_unresolved \<lparr> uc_oldPaths = olds, uc_newPaths = news, uc_contentHash = h,
                uc_reason = (if length olds = length news then AmbiguousDuplicateContent else CountMismatch) \<rparr> s)"

definition remaining_by_base :: "path list \<Rightarrow> structural_path_hash list \<Rightarrow> (path \<times> structural_path_hash list) list" where
  "remaining_by_base consumed entries =
     fold (\<lambda>e. add_to_bucket (path_basename (sp_path e)) e) (filter (\<lambda>e. sp_path e \<notin> set consumed) entries) []"

definition base_step :: "(path \<times> structural_path_hash list) list \<Rightarrow> path \<times> structural_path_hash list \<Rightarrow> structural_plan \<Rightarrow> structural_plan" where
  "base_step newByBase kv s =
     (let olds = snd kv; news = bucket newByBase (fst kv)
      in if length olds = 1 \<and> length news = 1
         then plan_unresolved \<lparr> uc_oldPaths = [sp_path (hd olds)], uc_newPaths = [sp_path (hd news)],
                uc_contentHash = sp_contentHash (hd olds) @ js '':'' @ sp_contentHash (hd news),
                uc_reason = ContentDivergedSameBasename \<rparr> s
         else s)"

definition planned_hashes :: "structural_input \<Rightarrow> hash list" where
  "planned_hashes i =
     sort (remdups (map fst (groupByHash (si_missingCrdtPaths i)) @ map fst (groupByHash (si_extraDiskPaths i))))"

definition planNoEventStructuralRenames ::
  "(jsstr \<Rightarrow> jsstr \<Rightarrow> int) \<Rightarrow> structural_input \<Rightarrow> planned_rename list \<times> unresolved_change list" where
  "planNoEventStructuralRenames lc i =
     (let evidence = sort_by (\<lambda>a b. by_paths lc (se_oldPath a, se_newPath a) (se_oldPath b, se_newPath b)) (si_renameEvidence i);
          s1 = fold (evidence_step i) evidence \<lparr> st_renames = [], st_unresolved = [], st_consumedOld = [], st_consumedNew = [] \<rparr>;
          s2 = fold (hash_step i) (planned_hashes i) s1;
          oldByBase = remaining_by_base (st_consumedOld s2) (si_missingCrdtPaths i);
          newByBase = remaining_by_base (st_consumedNew s2) (si_extraDiskPaths i);
          s3 = fold (base_step newByBase) oldByBase s2
      in (sort_by (\<lambda>a b. by_paths lc (sr_oldPath a, sr_newPath a) (sr_oldPath b, sr_newPath b)) (st_renames s3),
          sort_by (\<lambda>a b. lc (uc_contentHash a) (uc_contentHash b)) (st_unresolved s3)))"

section \<open>Groups\<close>

lemma mset_insert_by: "mset (insert_by cmp x ys) = add_mset x (mset ys)"
  by (induction ys) auto

lemma mset_sort_by: "mset (sort_by cmp xs) = mset xs"
  by (induction xs) (simp_all add: sort_by_def mset_insert_by)

lemma set_sort_by: "set (sort_by cmp xs) = set xs"
  using mset_sort_by [of cmp xs] by (metis set_mset_mset)

lemma bucket_add: "bucket (add_to_bucket k x groups) j = (if j = k then bucket groups k @ [x] else bucket groups j)"
  by (simp add: bucket_def add_to_bucket_def update_conv')

lemma bucket_fold:
  "bucket (fold (\<lambda>e. add_to_bucket (f e) (g e)) xs groups) k = bucket groups k @ map g (filter (\<lambda>e. f e = k) xs)"
  by (induction xs arbitrary: groups) (auto simp: bucket_add)

lemma bucket_map: "bucket (map (\<lambda>(k, xs). (k, sort xs)) groups) k = sort (bucket groups k)"
  by (simp add: bucket_def map_of_map split: option.split)

lemma bucket_groupByHash: "bucket (groupByHash xs) h = sort (map sp_path (filter (\<lambda>e. sp_contentHash e = h) xs))"
  unfolding groupByHash_def bucket_map by (simp add: bucket_fold) (simp add: bucket_def)

lemma bucket_remaining:
  "bucket (remaining_by_base consumed xs) k = filter (\<lambda>e. path_basename (sp_path e) = k) (filter (\<lambda>e. sp_path e \<notin> set consumed) xs)"
  unfolding remaining_by_base_def by (simp add: bucket_fold [where g = "\<lambda>e. e"]) (simp add: bucket_def)

lemma distinct_fold_keys: "distinct (map fst groups) \<Longrightarrow> distinct (map fst (fold (\<lambda>e. add_to_bucket (f e) (g e)) xs groups))"
  by (induction xs arbitrary: groups) (simp_all add: add_to_bucket_def distinct_update)

section \<open>What is planned\<close>

definition olds_of :: "structural_plan \<Rightarrow> path list" where
  "olds_of s = map sr_oldPath (st_renames s) @ concat (map uc_oldPaths (st_unresolved s))"

definition news_of :: "structural_plan \<Rightarrow> path list" where
  "news_of s = map sr_newPath (st_renames s) @ concat (map uc_newPaths (st_unresolved s))"

text \<open>Why a rename may be planned.\<close>

definition rename_justified :: "structural_input \<Rightarrow> planned_rename \<Rightarrow> bool" where
  "rename_justified i r \<longleftrightarrow>
     (\<exists>ev\<in>set (si_renameEvidence i). sr_oldPath r = se_oldPath ev \<and> sr_newPath r = se_newPath ev \<and> sr_reason r = FromEvidence (se_reason ev))
     \<or> (sr_reason r = BaselineHashContinuity \<and> si_mode i = Authoritative \<and> path_basename (sr_oldPath r) = path_basename (sr_newPath r)
        \<and> map sp_path (filter (\<lambda>e. sp_contentHash e = sr_contentHash r) (si_missingCrdtPaths i)) = [sr_oldPath r]
        \<and> map sp_path (filter (\<lambda>e. sp_contentHash e = sr_contentHash r) (si_extraDiskPaths i)) = [sr_newPath r]
        \<and> (\<exists>e. si_previousDiskIndex i (sr_oldPath r) = Some e \<and> de_contentHash e = Some (sr_contentHash r))
        \<and> si_previousDiskIndex i (sr_newPath r) = None)"

definition plan_ok :: "structural_input \<Rightarrow> structural_plan \<Rightarrow> bool" where
  "plan_ok i s \<longleftrightarrow>
     set (st_consumedOld s) = set (olds_of s) \<and> set (st_consumedNew s) = set (news_of s)
     \<and> distinct (olds_of s) \<and> distinct (news_of s)
     \<and> set (olds_of s) \<subseteq> sp_path ` set (si_missingCrdtPaths i) \<and> set (news_of s) \<subseteq> sp_path ` set (si_extraDiskPaths i)
     \<and> (\<forall>r\<in>set (st_renames s). rename_justified i r)"

lemma plan_rename_ok:
  assumes "plan_ok i s" "rename_justified i r" "sr_oldPath r \<notin> set (st_consumedOld s)" "sr_newPath r \<notin> set (st_consumedNew s)"
    and "sr_oldPath r \<in> sp_path ` set (si_missingCrdtPaths i)" "sr_newPath r \<in> sp_path ` set (si_extraDiskPaths i)"
  shows "plan_ok i (plan_rename r s)"
  using assms by (auto simp: plan_ok_def plan_rename_def consume_def olds_of_def news_of_def)

lemma plan_unresolved_ok:
  assumes "plan_ok i s" "distinct (uc_oldPaths u)" "distinct (uc_newPaths u)"
    and "set (uc_oldPaths u) \<inter> set (st_consumedOld s) = {}" "set (uc_newPaths u) \<inter> set (st_consumedNew s) = {}"
    and "set (uc_oldPaths u) \<subseteq> sp_path ` set (si_missingCrdtPaths i)" "set (uc_newPaths u) \<subseteq> sp_path ` set (si_extraDiskPaths i)"
  shows "plan_ok i (plan_unresolved u s)"
  using assms by (auto simp: plan_ok_def plan_unresolved_def consume_def olds_of_def news_of_def)

lemma entry_at_in: "entry_at xs p = Some e \<Longrightarrow> p \<in> sp_path ` set xs"
  by (auto simp: entry_at_def find_Some_iff in_set_conv_nth [of _ "rev xs"] image_iff) (metis nth_mem set_rev length_rev)

lemma evidence_step_ok:
  assumes "plan_ok i s" "ev \<in> set (si_renameEvidence i)"
  shows "plan_ok i (evidence_step i ev s)"
proof -
  have "rename_justified i r" if "sr_oldPath r = se_oldPath ev" "sr_newPath r = se_newPath ev" "sr_reason r = FromEvidence (se_reason ev)" for r
    using assms(2) that by (auto simp: rename_justified_def)
  then show ?thesis
    using assms(1) unfolding evidence_step_def by (auto split: option.split intro!: plan_rename_ok dest: entry_at_in)
qed

lemma only_element: "x \<in> set xs \<Longrightarrow> length xs = 1 \<Longrightarrow> xs = [x]"
  by (cases xs) auto

lemma sort_singleton: "sort xs = [x] \<Longrightarrow> xs = [x]"
  by (metis length_0_conv length_Suc_conv length_sort list.set(1) list.set(2) set_sort singleton_insert_inj_eq empty_iff)

lemma hash_step_ok:
  assumes "plan_ok i s" "distinct (map sp_path (si_missingCrdtPaths i))" "distinct (map sp_path (si_extraDiskPaths i))"
  shows "plan_ok i (hash_step i h s)"
proof -
  define origOld where "origOld = bucket (groupByHash (si_missingCrdtPaths i)) h"
  define origNew where "origNew = bucket (groupByHash (si_extraDiskPaths i)) h"
  define olds where "olds = filter (\<lambda>p. p \<notin> set (st_consumedOld s)) origOld"
  define news where "news = filter (\<lambda>p. p \<notin> set (st_consumedNew s)) origNew"
  have unresolved: "plan_ok i (plan_unresolved u s)" if "uc_oldPaths u = olds" "uc_newPaths u = news" for u
    using assms that
    by (intro plan_unresolved_ok) (auto simp: olds_def news_def origOld_def origNew_def bucket_groupByHash distinct_map_filter)
  have inferred: "plan_ok i (plan_rename \<lparr> sr_oldPath = hd olds, sr_newPath = hd news, sr_contentHash = h, sr_reason = BaselineHashContinuity \<rparr> s)"
    if base: "path_basename (hd olds) = path_basename (hd news)" and agree: "continuity i h origOld origNew (hd olds) (hd news)"
      and some: "length olds = 1" "length news = 1"
  proof -
    have in_orig: "hd olds \<in> set olds" "hd news \<in> set news" using some by (cases olds; cases news; simp)+
    then have "hd olds \<in> set origOld" "hd news \<in> set origNew" unfolding olds_def news_def by (metis filter_is_subset subsetD)+
    then have "origOld = [hd olds]" "origNew = [hd news]" using agree only_element by (auto simp: continuity_def)
    then have orig: "map sp_path (filter (\<lambda>e. sp_contentHash e = h) (si_missingCrdtPaths i)) = [hd olds]"
      "map sp_path (filter (\<lambda>e. sp_contentHash e = h) (si_extraDiskPaths i)) = [hd news]"
      unfolding origOld_def origNew_def bucket_groupByHash by (auto dest: sort_singleton)
    then have members: "hd olds \<in> sp_path ` set (si_missingCrdtPaths i)" "hd news \<in> sp_path ` set (si_extraDiskPaths i)"
      by (metis filter_is_subset image_mono list.set_intros(1) list.set_map subsetD)+
    show ?thesis
      using assms(1) in_orig orig base agree members
      by (intro plan_rename_ok) (auto simp: rename_justified_def continuity_def olds_def news_def split: option.splits)
  qed
  show ?thesis
    unfolding hash_step_def Let_def origOld_def [symmetric] origNew_def [symmetric] olds_def [symmetric] news_def [symmetric]
    using assms(1) unresolved inferred by auto
qed

text \<open>The last pass looks at each basename once.\<close>

lemma base_fold_ok:
  assumes "plan_ok i s" "distinct (map fst kvs)"
    and "\<forall>kv\<in>set kvs. \<forall>e\<in>set (snd kv). e \<in> set (si_missingCrdtPaths i) \<and> path_basename (sp_path e) = fst kv \<and> sp_path e \<notin> set (st_consumedOld s)"
    and "\<forall>kv\<in>set kvs. \<forall>e\<in>set (bucket newByBase (fst kv)). e \<in> set (si_extraDiskPaths i) \<and> path_basename (sp_path e) = fst kv
      \<and> sp_path e \<notin> set (st_consumedNew s)"
  shows "plan_ok i (fold (base_step newByBase) kvs s)"
  using assms
proof (induction kvs arbitrary: s)
  case (Cons kv kvs)
  define news where "news = bucket newByBase (fst kv)"
  define s' where "s' = base_step newByBase kv s"
  show ?case
  proof (cases "length (snd kv) = 1 \<and> length news = 1")
    case False
    then have "s' = s" by (auto simp: s'_def base_step_def news_def Let_def)
    then show ?thesis using Cons by (simp add: s'_def)
  next
    case True
    then obtain old new where on: "snd kv = [old]" "news = [new]" by (cases "snd kv"; cases news; auto)
    have s': "s' = plan_unresolved \<lparr> uc_oldPaths = [sp_path old], uc_newPaths = [sp_path new],
        uc_contentHash = sp_contentHash old @ js '':'' @ sp_contentHash new, uc_reason = ContentDivergedSameBasename \<rparr> s"
      using on by (simp add: s'_def base_step_def news_def Let_def)
    have facts: "old \<in> set (si_missingCrdtPaths i)" "path_basename (sp_path old) = fst kv" "sp_path old \<notin> set (st_consumedOld s)"
      "new \<in> set (si_extraDiskPaths i)" "path_basename (sp_path new) = fst kv" "sp_path new \<notin> set (st_consumedNew s)"
      using Cons.prems(3,4) on by (auto simp: news_def)
    have ok: "plan_ok i s'" unfolding s' using Cons.prems(1) facts by (intro plan_unresolved_ok) auto
    have "fst kv \<notin> fst ` set kvs" using Cons.prems(2) by simp
    then have other: "fst kv' \<noteq> fst kv" if "kv' \<in> set kvs" for kv' using that by (metis imageI)
    have old_apart: "sp_path e \<noteq> sp_path old" and new_apart: "sp_path e \<noteq> sp_path new"
      if "kv' \<in> set kvs" "path_basename (sp_path e) = fst kv'" for kv' e
      using other [OF that(1)] that(2) facts(2,5) by auto
    have consumed: "st_consumedOld s' = sp_path old # st_consumedOld s" "st_consumedNew s' = sp_path new # st_consumedNew s"
      by (simp_all add: s' plan_unresolved_def consume_def)
    have "plan_ok i (fold (base_step newByBase) kvs s')"
    proof (rule Cons.IH [OF ok])
      show "\<forall>kv\<in>set kvs. \<forall>e\<in>set (snd kv). e \<in> set (si_missingCrdtPaths i) \<and> path_basename (sp_path e) = fst kv \<and> sp_path e \<notin> set (st_consumedOld s')"
        unfolding consumed using Cons.prems(3) old_apart by (metis list.set_intros(2) set_ConsD)
      show "\<forall>kv\<in>set kvs. \<forall>e\<in>set (bucket newByBase (fst kv)). e \<in> set (si_extraDiskPaths i) \<and> path_basename (sp_path e) = fst kv
          \<and> sp_path e \<notin> set (st_consumedNew s')"
        unfolding consumed using Cons.prems(4) new_apart by (metis list.set_intros(2) set_ConsD)
    qed (use Cons.prems(2) in simp)
    then show ?thesis by (simp add: s'_def)
  qed
qed simp

lemma bucket_of: "distinct (map fst groups) \<Longrightarrow> kv \<in> set groups \<Longrightarrow> bucket groups (fst kv) = snd kv"
  by (cases kv) (simp add: bucket_def)

lemma distinct_remaining: "distinct (map fst (remaining_by_base consumed xs))"
  unfolding remaining_by_base_def by (rule distinct_fold_keys) simp

lemma fold_plan_ok: "plan_ok i s \<Longrightarrow> (\<And>x s. x \<in> set xs \<Longrightarrow> plan_ok i s \<Longrightarrow> plan_ok i (f x s)) \<Longrightarrow> plan_ok i (fold f xs s)"
  by (induction xs arbitrary: s) auto

lemma mset_concat_map: "mset (concat (map f xs)) = (\<Sum>x\<in>#mset xs. mset (f x))"
  by (induction xs) simp_all

text \<open>
  C18: Renames without events are planned only on evidence, and one to one.  Every planned rename follows
  a recorded rename of exactly these paths, or has everything in its favour: authoritative mode, equal
  basenames, no other missing note and no other extra file with that content, the last baseline of the
  old path at that content, and no history of the new path.  No path takes part in two renames or
  unresolved changes, and all of them are paths of the input.\<close>

theorem structural_renames_justified:
  assumes "planNoEventStructuralRenames lc i = (renames, unresolved)"
    and "distinct (map sp_path (si_missingCrdtPaths i))" "distinct (map sp_path (si_extraDiskPaths i))"
  shows "(\<forall>r\<in>set renames. rename_justified i r)
    \<and> distinct (map sr_oldPath renames @ concat (map uc_oldPaths unresolved))
    \<and> distinct (map sr_newPath renames @ concat (map uc_newPaths unresolved))
    \<and> set (map sr_oldPath renames @ concat (map uc_oldPaths unresolved)) \<subseteq> sp_path ` set (si_missingCrdtPaths i)
    \<and> set (map sr_newPath renames @ concat (map uc_newPaths unresolved)) \<subseteq> sp_path ` set (si_extraDiskPaths i)"
proof -
  define evidence where "evidence = sort_by (\<lambda>a b. by_paths lc (se_oldPath a, se_newPath a) (se_oldPath b, se_newPath b)) (si_renameEvidence i)"
  define s1 where "s1 = fold (evidence_step i) evidence \<lparr> st_renames = [], st_unresolved = [], st_consumedOld = [], st_consumedNew = [] \<rparr>"
  define s2 where "s2 = fold (hash_step i) (planned_hashes i) s1"
  define oldByBase where "oldByBase = remaining_by_base (st_consumedOld s2) (si_missingCrdtPaths i)"
  define newByBase where "newByBase = remaining_by_base (st_consumedNew s2) (si_extraDiskPaths i)"
  define s3 where "s3 = fold (base_step newByBase) oldByBase s2"
  have "plan_ok i s1"
    unfolding s1_def
  proof (rule fold_plan_ok)
    show "plan_ok i \<lparr> st_renames = [], st_unresolved = [], st_consumedOld = [], st_consumedNew = [] \<rparr>"
      by (simp add: plan_ok_def olds_of_def news_of_def)
    show "plan_ok i (evidence_step i ev s)" if "ev \<in> set evidence" "plan_ok i s" for ev s
      using that by (intro evidence_step_ok) (simp_all add: evidence_def set_sort_by)
  qed
  then have s2: "plan_ok i s2" unfolding s2_def by (rule fold_plan_ok) (rule hash_step_ok [OF _ assms(2,3)])
  have ok: "plan_ok i s3"
    unfolding s3_def
  proof (rule base_fold_ok [OF s2])
    show "distinct (map fst oldByBase)" unfolding oldByBase_def by (rule distinct_remaining)
    have "snd kv = bucket oldByBase (fst kv)" if "kv \<in> set oldByBase" for kv
      using bucket_of [OF distinct_remaining, of kv] that by (simp add: oldByBase_def)
    then show "\<forall>kv\<in>set oldByBase. \<forall>e\<in>set (snd kv). e \<in> set (si_missingCrdtPaths i) \<and> path_basename (sp_path e) = fst kv
        \<and> sp_path e \<notin> set (st_consumedOld s2)"
      by (simp add: oldByBase_def bucket_remaining)
    show "\<forall>kv\<in>set oldByBase. \<forall>e\<in>set (bucket newByBase (fst kv)). e \<in> set (si_extraDiskPaths i) \<and> path_basename (sp_path e) = fst kv
        \<and> sp_path e \<notin> set (st_consumedNew s2)"
      by (simp add: newByBase_def bucket_remaining)
  qed
  obtain by_old by_hash where "planNoEventStructuralRenames lc i = (sort_by by_old (st_renames s3), sort_by by_hash (st_unresolved s3))"
    unfolding planNoEventStructuralRenames_def Let_def evidence_def s1_def s2_def oldByBase_def newByBase_def s3_def by blast
  then have "renames = sort_by by_old (st_renames s3)" "unresolved = sort_by by_hash (st_unresolved s3)"
    using assms(1) by simp_all
  then have "mset renames = mset (st_renames s3)" "mset unresolved = mset (st_unresolved s3)"
    by (simp_all only: mset_sort_by)
  moreover from this(1) have "set renames = set (st_renames s3)" by (rule mset_eq_setD)
  ultimately have same: "mset (map sr_oldPath renames @ concat (map uc_oldPaths unresolved)) = mset (olds_of s3)"
    "mset (map sr_newPath renames @ concat (map uc_newPaths unresolved)) = mset (news_of s3)" "set renames = set (st_renames s3)"
    by (simp_all add: olds_of_def news_of_def mset_concat_map)
  show ?thesis
    using ok unfolding plan_ok_def same(3) mset_eq_imp_distinct_iff [OF same(1)] mset_eq_imp_distinct_iff [OF same(2)]
      mset_eq_setD [OF same(1)] mset_eq_setD [OF same(2)] by (elim conjE) (intro conjI)
qed

definition sample_structure :: structural_input where
  "sample_structure = \<lparr> si_missingCrdtPaths = [\<lparr> sp_path = js ''a/n.md'', sp_contentHash = js ''h'' \<rparr>],
     si_extraDiskPaths = [\<lparr> sp_path = js ''b/n.md'', sp_contentHash = js ''h'' \<rparr>], si_renameEvidence = [], si_mode = Authoritative,
     si_previousDiskIndex = [js ''a/n.md'' \<mapsto> \<lparr> de_mtime = 0, de_size = 1, de_contentHash = Some (js ''h''), de_settledAtMs = None \<rparr>] \<rparr>"

lemma sample_structure_plan: "planNoEventStructuralRenames (\<lambda>a b. 0) sample_structure
    = ([\<lparr> sr_oldPath = js ''a/n.md'', sr_newPath = js ''b/n.md'', sr_contentHash = js ''h'', sr_reason = BaselineHashContinuity \<rparr>], [])"
  by code_simp

theorem structural_renames_justified_witness:
  "rename_justified sample_structure \<lparr> sr_oldPath = js ''a/n.md'', sr_newPath = js ''b/n.md'', sr_contentHash = js ''h'', sr_reason = BaselineHashContinuity \<rparr>"
  using structural_renames_justified [OF sample_structure_plan] by (simp add: sample_structure_def)

end
