(* ===== verification/Spec2Isabelle.thy ===== *)
theory Spec2Isabelle
  imports Conflict Planners ThreeWayMerge TextDiff Concurrency DiskIndex Quarantine Renames
    ServerAck FileMeta DocStore Persistence Receipt BlobIntents BlobIntentStore BlobRefs BlobCommit
    AuthStore DeviceAuth SafetyCopies StructuralPlanner
begin

text \<open>
  A verification library for KAOS, a plugin that synchronises an Obsidian vault through a shared
  CRDT document, and the server that stores the document.

  \<^bold>\<open>How the program works.\<close>  Each device keeps three versions of every note: the file on disk, the
  text in the CRDT document, and a baseline, the hash of the last text both agreed on.  A reconcile
  pass (\<^verbatim>\<open>src/src/runtime/reconciliationController.ts\<close>) stats the vault, skips files whose stat is
  unchanged, hashes the others and asks a planner what to do for each path.  Planners are pure; they
  decide who wins from the three hashes and say which side must be preserved as a conflict copy.  The
  texts of open notes are merged at the level of lines and characters.  Metadata of files lives in a
  shared map, observed incrementally.  The server appends document updates to a journal and folds it
  into a checkpoint, and acknowledges state vectors to the clients.  Devices are admitted by pairing, prove
  the possession of their key for a session, and open the web socket with a ticket.

  \<^bold>\<open>Theories.\<close>
  \<^item> \<open>Prelude\<close>: JavaScript strings as lists of 16-bit words, the collections of hints, and the
    simulation contract \<open>op_simulation\<close>.  \<open>Edits\<close>: scripts of hunks over a list, the common ground of
    the line merge and the character diff.  \<open>Digits\<close>: positional numerals and padding.
  \<^item> \<open>Conflict\<close>: \<^verbatim>\<open>sync/closedFileConflict.ts\<close> and \<^verbatim>\<open>sync/pathBindingIntegrity.ts\<close>.
  \<^item> \<open>Planners\<close>: the planners and policies under \<^verbatim>\<open>runtime/reconcile/\<close>: closed and open files, safe
    mode, read skipping, safety brake, baseline advancement.
  \<^item> \<open>ThreeWayMerge\<close>: \<^verbatim>\<open>utils/threeWayMerge.ts\<close> and \<^verbatim>\<open>runtime/reconcile/openExternalEditPlanner.ts\<close>.
  \<^item> \<open>TextDiff\<close>: \<^verbatim>\<open>sync/diff.ts\<close>, the guarded application of character diffs to the shared text.
  \<^item> \<open>Concurrency\<close>: \<^verbatim>\<open>shared/concurrency.ts\<close> as a step relation of its workers.
  \<^item> \<open>DiskIndex\<close>: \<^verbatim>\<open>sync/diskIndex.ts\<close>.
  \<^item> \<open>Quarantine\<close>: the two loop detectors of \<^verbatim>\<open>runtime/reconcile/\<close> and the controller methods that
    hold their maps.
  \<^item> \<open>Renames\<close>: \<^verbatim>\<open>sync/policy/renameAdmissionPolicy.ts\<close>, \<^verbatim>\<open>sync/policy/vaultEventCommitPolicy.ts\<close> and
    the pending rename batch of \<^verbatim>\<open>sync/vaultSync.ts\<close>.
  \<^item> \<open>Base64\<close> and \<open>ServerAck\<close>: \<^verbatim>\<open>utils/base64url.ts\<close>, the codec of \<^verbatim>\<open>sync/svEchoMessage.ts\<close>, and the
    receipt tracker \<^verbatim>\<open>sync/serverAckTracker.ts\<close> with its comparison of state vectors.
  \<^item> \<open>FileMeta\<close>: \<^verbatim>\<open>sync/fileMeta.ts\<close>.
  \<^item> \<open>ChunkedPayload\<close> and \<open>DocStore\<close>: \<^verbatim>\<open>server/src/chunkedDocStore.ts\<close>.
  \<^item> \<open>Persistence\<close>: \<^verbatim>\<open>server/src/persistenceCoordinator.ts\<close>, the save coordinator over the document store
    as a step relation cut at its awaits.  \<open>Receipt\<close>: the client's receipt against the server's storage.
  \<^item> \<open>BlobIntents\<close>, \<open>BlobIntentStore\<close>: \<^verbatim>\<open>sync/pendingBlobIntentJournal.ts\<close>, its retirement decision, the blob
    references of \<^verbatim>\<open>types.ts\<close>, and the persisted form with \<^verbatim>\<open>sync/indexedDbPendingBlobIntentStore.ts\<close>.
  \<^item> \<open>BlobRefs\<close>: the attachment maps of \<^verbatim>\<open>sync/vaultSync.ts\<close> with their guarded mutations.
  \<^item> \<open>BlobCommit\<close>: \<^verbatim>\<open>sync/pendingBlobIntentCommit.ts\<close> with the hooks and the replay choice of \<^verbatim>\<open>main.ts\<close>; the
    contract of the hooks is the locale \<open>write_ahead\<close>.
  \<^item> \<open>JsStrings\<close>, \<open>Regex\<close>: the string methods and the backtracking regular expressions of JavaScript.  \<open>Paths\<close>:
    \<^verbatim>\<open>paths/canonicalPath.ts\<close>, \<^verbatim>\<open>paths/pathCollision.ts\<close>, \<^verbatim>\<open>paths/crdtDocumentPath.ts\<close> and the exclusion rules
    of \<^verbatim>\<open>sync/exclude.ts\<close>.  \<open>ConflictPaths\<close>: the names of safety copies, \<^verbatim>\<open>paths/conflictArtifactPath.ts\<close>, and the
    sync category of a path, \<^verbatim>\<open>paths/pathCategory.ts\<close>.  \<open>SafetyCopies\<close>: their properties.
  \<^item> \<open>StructuralPlanner\<close>: \<^verbatim>\<open>runtime/reconcile/noEventStructuralPlanner.ts\<close>, renames inferred after the fact.
  \<^item> \<open>Json\<close>: JSON values and the readers the stores share.  \<open>AuthRecords\<close>, \<open>AuthServer\<close>:
    \<^verbatim>\<open>server/src/config.ts\<close> (and the decoder of \<^verbatim>\<open>server/src/base64url.ts\<close>), the durable object that keeps the
    devices, pairings, challenges, sessions and tickets of a vault as JSON values: the guards that read them,
    one function per request, \<open>config_fetch\<close> for the dispatch.  \<open>AuthSpec\<close>: the abstract protocol as a step
    relation and the refinement by every request.  \<open>AuthSample\<close>: a concrete run.  \<open>AuthSafety\<close>,
    \<open>AuthStore\<close>: the properties over histories, and the typing of what is stored.
  \<^item> \<open>DeviceAuth\<close>: \<^verbatim>\<open>server/src/routes/deviceAuth.ts\<close>, the routes of the Worker in front of that object with the
    session cache of an isolate; the contract of the cache's authority is the locale \<open>session_authority\<close>.

  \<^bold>\<open>What the lemmas show.\<close>  The planners never overwrite bytes that are neither preserved nor settled;
  a clean merge carries both edits and a conflicting one is never silent; the guarded writes report
  truthfully what they did; the receipt is never claimed without an echo, and survives restarts; the
  incremental metadata diff refines the full one; the document store implements a checkpoint with a
  list of updates and leaks no key; the save coordinator loses no operation and its persisted vector, and with it the
  client's receipt, means durability; a pending attachment mutation is fenced durably before it is
  applied, survives a restart, and is never applied twice; the loop detectors and the bounded map stay within their bounds.
  Along every history of requests a session proves that its device signed a challenge with its key, tickets
  and pairings are used once, a claimed vault keeps an owner, only owners make owners, recovery needs the
  recovery secret, and everything stored is readable by its own guard.
  A safety copy is never synchronised itself, and a rename nobody has seen is planned only when everything agrees
  on it, each path taking part once.
  Theorems of \<open>Renames\<close>, \<open>Persistence\<close>, \<open>BlobIntents\<close>, \<open>AuthStore\<close>, \<open>DeviceAuth\<close> and \<open>SafetyCopies\<close>, and remarks in the manifest, record where the
  code departs from its documentation.

  \<^bold>\<open>Parameters.\<close>  Code outside the repository is an argument: the character diff (\<open>fast_diff_contract\<close>),
  the shared text of Yjs (\<open>ytext_contract\<close>), the state-vector decoder, the SHA-256 digest
  (\<open>sha256_contract\<close>: 32 bytes), the functions of Yjs on updates and vectors (\<open>yjs_contract\<close>,
  \<open>vector_covers\<close>), Obsidian's path normalisation (idempotent), Unicode
  normalisation (\<open>nfc_contract\<close>), \<open>localeCompare\<close>, the cryptography, random bytes and
  URL parser of the Worker (\<open>crypto_ok\<close>, \<open>draws_ok\<close>).  The clock and the answers of the file system
  are arguments of the operation that reads them.

  \<^bold>\<open>Deviations.\<close>  A request of the configuration object reads the clock once and runs as one step (the code runs it in a
  transaction); a response is a value instead of a JSON text; \<open>toUpperCase\<close> and \<open>toLowerCase\<close> map the units
  whose image can matter to the codes.

  \<^bold>\<open>Not modelled.\<close>  The user interface, the editor binding, the network transfers of attachments, the
  asynchronous orchestration of the controllers, HTTP responses and the scripts; the manifest says which.

  \<^bold>\<open>Bounds.\<close>  No definition uses fuel: loops recurse on a list, on a counter or on a measure, and the
  interleavings of \<open>Concurrency\<close> and \<open>ServerAck\<close> are inductive step relations.
\<close>

end
